(* ===== verification/JS_Prelude.thy ===== *)
theory JS_Prelude
  imports Main "HOL-Library.Word" "HOL-Library.Sublist"
begin

text \<open>
  What the TypeScript sources use of the language and its standard library: strings as
  sequences of 16-bit code units, the string operations the components call, integers printed
  in decimal, and the generic lemmas on lists and options the component theories share.
  A string literal of the source is written \<open>js ''...''\<close>; a character beyond ASCII is written
  as its code unit, so \<open>length\<close> is JavaScript's \<open>.length\<close>.
\<close>

named_theorems js_text \<open>definitions of the fixed texts, unfolded only to compare them\<close>
named_theorems inv_intros \<open>preservation of the invariants, one rule per operation\<close>

section \<open>Strings\<close>

type_synonym jstr = "16 word list"
type_synonym bytes = "8 word list"

definition js :: "string \<Rightarrow> jstr" where
  "js s = map of_char s"

lemma js_simps [simp]: "js [] = []" "js (c # cs) = of_char c # js cs"
  by (simp_all add: js_def)

lemma length_js [simp]: "length (js s) = length s"
  by (simp add: js_def)

lemma js_append: "js (a @ b) = js a @ js b"
  by (simp add: js_def)

text \<open>\<open>String.prototype.trim\<close>: the WhiteSpace and LineTerminator code units of ECMAScript.\<close>

definition is_ws :: "16 word \<Rightarrow> bool" where
  "is_ws c \<longleftrightarrow>
     (9 \<le> c \<and> c \<le> 13) \<or> c = 32 \<or> c = 0xA0 \<or> c = 0x1680 \<or> (0x2000 \<le> c \<and> c \<le> 0x200A) \<or>
     c = 0x2028 \<or> c = 0x2029 \<or> c = 0x202F \<or> c = 0x205F \<or> c = 0x3000 \<or> c = 0xFEFF"

definition trim :: "jstr \<Rightarrow> jstr" where
  "trim s = rev (dropWhile is_ws (rev (dropWhile is_ws s)))"

text \<open>\<open>startsWith\<close>, \<open>includes\<close> and \<open>indexOf\<close>.\<close>

fun starts_with :: "'a list \<Rightarrow> 'a list \<Rightarrow> bool" where
  "starts_with s [] = True"
| "starts_with [] (p # ps) = False"
| "starts_with (c # cs) (p # ps) = (c = p \<and> starts_with cs ps)"

fun contains :: "'a list \<Rightarrow> 'a list \<Rightarrow> bool" where
  "contains [] p = (p = [])"
| "contains (c # cs) p = (starts_with (c # cs) p \<or> contains cs p)"

fun index_of :: "'a list \<Rightarrow> 'a list \<Rightarrow> nat option" where
  "index_of [] p = (if p = [] then Some 0 else None)"
| "index_of (c # cs) p =
     (if starts_with (c # cs) p then Some 0 else map_option Suc (index_of cs p))"

text \<open>\<open>Array.prototype.join\<close>.\<close>

fun join :: "jstr \<Rightarrow> jstr list \<Rightarrow> jstr" where
  "join sep [] = []"
| "join sep [x] = x"
| "join sep (x # y # zs) = x @ sep @ join sep (y # zs)"

text \<open>\<open>padStart\<close> with a one-unit filler.\<close>

definition pad_start :: "nat \<Rightarrow> 16 word \<Rightarrow> jstr \<Rightarrow> jstr" where
  "pad_start n c s = replicate (n - length s) c @ s"

text \<open>
  Code points: \<open>[...s].length\<close> counts a high surrogate followed by a low one once, any other
  unit (a lone surrogate too) once. \<open>Buffer.byteLength(s, "utf8")\<close> encodes a pair in 4 bytes
  and a lone surrogate as the 3-byte replacement character.
\<close>

definition is_high :: "16 word \<Rightarrow> bool" where
  "is_high c \<longleftrightarrow> 0xD800 \<le> c \<and> c \<le> 0xDBFF"

definition is_low :: "16 word \<Rightarrow> bool" where
  "is_low c \<longleftrightarrow> 0xDC00 \<le> c \<and> c \<le> 0xDFFF"

fun count_runes :: "jstr \<Rightarrow> nat" where
  "count_runes [] = 0"
| "count_runes [c] = 1"
| "count_runes (c # d # cs) =
     (if is_high c \<and> is_low d then Suc (count_runes cs) else Suc (count_runes (d # cs)))"

definition unit_bytes :: "16 word \<Rightarrow> nat" where
  "unit_bytes c = (if c < 0x80 then 1 else if c < 0x800 then 2 else 3)"

fun utf8_length :: "jstr \<Rightarrow> nat" where
  "utf8_length [] = 0"
| "utf8_length [c] = unit_bytes c"
| "utf8_length (c # d # cs) =
     (if is_high c \<and> is_low d then 4 + utf8_length cs
      else unit_bytes c + utf8_length (d # cs))"

section \<open>Integers in decimal\<close>

fun digits :: "nat \<Rightarrow> nat list" where
  "digits n = (if n < 10 then [n] else digits (n div 10) @ [n mod 10])"

declare digits.simps [simp del]

definition str_of_nat :: "nat \<Rightarrow> jstr" where
  "str_of_nat n = map (\<lambda>d. word_of_nat (48 + d)) (digits n)"

definition str_of_int :: "int \<Rightarrow> jstr" where
  "str_of_int i = (if i < 0 then js ''-'' @ str_of_nat (nat (- i)) else str_of_nat (nat i))"

text \<open>The number a list of decimal digits denotes, as \<open>parseInt(_, 10)\<close> reads it.\<close>

definition digits_value :: "nat list \<Rightarrow> nat" where
  "digits_value ds = foldl (\<lambda>a d. 10 * a + d) 0 ds"

section \<open>Lemmas on strings\<close>

lemma starts_with_prefix: "starts_with s p \<longleftrightarrow> prefix p s"
  by (induction s p rule: starts_with.induct) auto

lemma includes_sublist: "contains s p \<longleftrightarrow> sublist p s"
  by (induction s) (auto simp: starts_with_prefix sublist_Cons_right simp del: starts_with.simps)

lemma includes_refl [simp]: "contains s s"
  by (simp add: includes_sublist)

lemma includes_append: "contains (a @ p @ b) p"
  by (simp add: includes_sublist)

lemma index_of_Some:
  "index_of s p = Some i \<Longrightarrow> s = take i s @ p @ drop (i + length p) s"
proof (induction s arbitrary: i)
  case Nil
  then show ?case by (auto split: if_splits)
next
  case (Cons c cs)
  show ?case
  proof (cases "starts_with (c # cs) p")
    case True
    with Cons.prems obtain r where "c # cs = p @ r" and "i = 0"
      by (auto simp: starts_with_prefix prefix_def simp del: starts_with.simps)
    then show ?thesis by simp
  next
    case False
    with Cons.prems obtain j where "index_of cs p = Some j" "i = Suc j"
      by auto
    with Cons.IH show ?thesis by simp
  qed
qed

lemma index_of_None: "index_of s p = None \<longleftrightarrow> \<not> contains s p"
  by (induction s) auto

lemma index_of_char:
  "c \<notin> set a \<Longrightarrow> index_of (a @ c # b) [c] = Some (length a)"
  by (induction a) auto

lemma index_of_char_None: "index_of s [c] = None \<longleftrightarrow> c \<notin> set s"
  by (induction s) auto

lemma trim_ends: "trim s \<noteq> [] \<Longrightarrow> \<not> is_ws (hd (trim s)) \<and> \<not> is_ws (last (trim s))"
proof -
  let ?l = "dropWhile is_ws s" and ?r = "dropWhile is_ws (rev (dropWhile is_ws s))"
  assume ne: "trim s \<noteq> []"
  then have r: "?r \<noteq> []" by (simp add: trim_def)
  then have lst: "\<not> is_ws (last (trim s))"
    by (simp add: trim_def last_rev hd_dropWhile)
  have suf: "prefix (trim s) ?l"
    using suffix_dropWhile [of is_ws "rev ?l"] by (simp add: trim_def suffix_to_prefix)
  then have "hd (trim s) = hd ?l" and "?l \<noteq> []"
    using ne by (auto simp: prefix_def simp del: dropWhile_eq_Nil_conv)
  then have "\<not> is_ws (hd (trim s))" by (metis hd_dropWhile)
  with lst show ?thesis by simp
qed

lemma trim_id:
  assumes "s = [] \<or> (\<not> is_ws (hd s) \<and> \<not> is_ws (last s))"
  shows "trim s = s"
proof -
  from assms have "dropWhile is_ws s = s" "dropWhile is_ws (rev s) = rev s"
    by (auto simp: dropWhile_eq_self_iff hd_rev)
  then show ?thesis by (simp add: trim_def)
qed

lemma trim_trim [simp]: "trim (trim s) = trim s"
  by (rule trim_id) (use trim_ends in blast)

lemma count_runes_le: "count_runes s \<le> length s"
  by (induction s rule: count_runes.induct) auto

lemma length_le_runes: "length s \<le> 2 * count_runes s"
  by (induction s rule: count_runes.induct) auto

lemma unit_bytes_bounds: "1 \<le> unit_bytes c" "unit_bytes c \<le> 3"
  by (simp_all add: unit_bytes_def)

lemma utf8_length_bounds: "length s \<le> utf8_length s \<and> utf8_length s \<le> 3 * length s"
proof (induction s rule: utf8_length.induct)
  case (2 c)
  then show ?case using unit_bytes_bounds [of c] by simp
next
  case (3 c d cs)
  then show ?case using unit_bytes_bounds [of c] by auto
qed simp

section \<open>Lemmas on decimal notation\<close>

lemma digits_ne [simp]: "digits n \<noteq> []"
  by (subst digits.simps) simp

lemma digits_less: "d \<in> set (digits n) \<Longrightarrow> d < 10"
proof (induction n rule: digits.induct)
  case (1 n)
  then show ?case by (subst (asm) (2) digits.simps) (auto split: if_splits)
qed

lemma digits_value_digits [simp]: "digits_value (digits n) = n"
proof (induction n rule: digits.induct)
  case (1 n)
  then show ?case by (subst digits.simps) (auto simp: digits_value_def)
qed

lemma unat_unit: "k < 65536 \<Longrightarrow> unat (word_of_nat k :: 16 word) = k"
  by (simp add: unat_of_nat take_bit_nat_eq_self)

lemma inj_on_code: "inj_on (\<lambda>d. word_of_nat (48 + d) :: 16 word) {..<10}"
proof (rule inj_onI)
  fix a b :: nat
  assume "a \<in> {..<10}" "b \<in> {..<10}"
    and eq: "(word_of_nat (48 + a) :: 16 word) = word_of_nat (48 + b)"
  then have "48 + a < 65536" "48 + b < 65536" by auto
  with eq show "a = b" by (metis unat_unit add_left_cancel)
qed

lemma str_of_nat_inj [simp]: "str_of_nat m = str_of_nat n \<longleftrightarrow> m = n"
proof
  assume "str_of_nat m = str_of_nat n"
  then have "digits m = digits n"
    unfolding str_of_nat_def
    by (rule map_inj_on) (rule inj_on_subset [OF inj_on_code], use digits_less in auto)
  then show "m = n" by (metis digits_value_digits)
qed simp

lemma length_digits_mono: "m \<le> n \<Longrightarrow> length (digits m) \<le> length (digits n)"
proof (induction n arbitrary: m rule: digits.induct)
  case (1 n)
  show ?case
  proof (cases "n < 10")
    case True
    with "1.prems" show ?thesis by (simp add: digits.simps)
  next
    case False
    have "length (digits (m div 10)) \<le> length (digits (n div 10))" if "\<not> m < 10"
      using False "1.prems" by (intro "1.IH") (auto intro: div_le_mono)
    with False show ?thesis
      by (cases "m < 10") (simp_all add: digits.simps [of m] digits.simps [of n])
  qed
qed

lemma length_str_of_nat_mono: "m \<le> n \<Longrightarrow> length (str_of_nat m) \<le> length (str_of_nat n)"
  by (simp add: str_of_nat_def length_digits_mono)

section \<open>Equal-width joins\<close>

text \<open>
  Slots of one width \<open>k\<close> joined by a one-unit separator sit at multiples of \<open>k + 1\<close>: the
  layout law of the text boards, used once for the slots of a line and once for the lines.
\<close>

lemma length_join:
  "(\<And>x. x \<in> set xs \<Longrightarrow> length x = k) \<Longrightarrow> xs \<noteq> [] \<Longrightarrow>
   length (join [c] xs) = length xs * (k + 1) - 1"
proof (induction "[c]" xs rule: join.induct)
  case (3 x y zs)
  then have "length (join [c] (y # zs)) = length (y # zs) * (k + 1) - 1" by auto
  with "3.prems" show ?case by simp
qed auto

lemma join_nth:
  assumes "\<And>x. x \<in> set xs \<Longrightarrow> length x = k" and "i < length xs" and "j < k"
  shows "join [c] xs ! (i * (k + 1) + j) = xs ! i ! j"
  using assms
proof (induction xs arbitrary: i)
  case Nil
  then show ?case by simp
next
  case (Cons x xs)
  have x: "length x = k" using Cons.prems by simp
  show ?case
  proof (cases xs)
    case Nil
    with Cons.prems show ?thesis by simp
  next
    case (Cons y ys)
    then have join: "join [c] (x # xs) = x @ [c] @ join [c] xs" by simp
    show ?thesis
    proof (cases i)
      case 0
      with join x Cons.prems show ?thesis by (simp add: nth_append)
    next
      case (Suc n)
      have "join [c] xs ! (n * (k + 1) + j) = xs ! n ! j"
        using Suc Cons.prems by (intro Cons.IH) auto
      with Suc join x show ?thesis
        by (simp add: nth_append nth_Cons' algebra_simps)
    qed
  qed
qed

lemma length_pad_start [simp]: "length (pad_start n c s) = max n (length s)"
  by (simp add: pad_start_def)

lemma pad_start_last:
  assumes "s \<noteq> []" and "length s \<le> n"
  shows "pad_start n c s ! (n - 1) = last s"
proof -
  have "0 < length s" using assms(1) by simp
  with assms(2) have "n - length s \<le> n - 1" "n - 1 - (n - length s) = length s - 1" by linarith+
  with assms(1) show ?thesis by (simp add: pad_start_def nth_append last_conv_nth)
qed

section \<open>Lemmas on lists and options\<close>

lemma those_Some_iff: "those xs = Some ys \<longleftrightarrow> xs = map Some ys"
proof (induction xs arbitrary: ys)
  case Nil
  then show ?case by auto
next
  case (Cons x xs)
  then show ?case by (cases x; cases ys) auto
qed

lemma those_map_total:
  "(\<And>x. x \<in> set xs \<Longrightarrow> f x \<noteq> None) \<Longrightarrow> those (map f xs) = Some (map (the \<circ> f) xs)"
  by (subst those_Some_iff) auto

lemma length_those: "those xs = Some ys \<Longrightarrow> length ys = length xs"
  by (auto simp: those_Some_iff)

lemma concat_map_if: "concat (map (\<lambda>x. if P x then [f x] else []) xs) = map f (filter P xs)"
  by (induction xs) auto

lemma upto_nth: "k < nat (j - i + 1) \<Longrightarrow> [i..j] ! k = i + int k"
  by (rule nth_upto) simp

lemma foldl_max_ge: "a \<le> foldl max a xs \<and> (\<forall>x \<in> set xs. x \<le> foldl max a (xs :: nat list))"
  by (induction xs arbitrary: a) (auto dest: max.boundedE)

lemma find_None_iff_all: "List.find P xs = None \<longleftrightarrow> (\<forall>x \<in> set xs. \<not> P x)"
  by (induction xs) auto

end
