(* ===== verification/Saolei_Board.thy ===== *)
theory Saolei_Board
  imports JS_Prelude
begin

text \<open>
  The recognized board of \<open>projects/game/pkg/saolei-board/src/core\<close>: the data of
  \<open>types.ts\<close>, the win predicate of \<open>win.ts\<close>, the same-game check of \<open>validate.ts\<close> and the
  text board of \<open>render.ts\<close>. A \<open>GameState\<close> is a record; \<open>wf_state\<close> says that the grid has
  the declared shape, which every recognized state has (theory \<open>Board_Recognize\<close>).
\<close>

section \<open>Data (types.ts)\<close>

datatype cell_status =
  INITIAL | C0 | C1 | C2 | C3 | C4 | C5 | C6 | C7 | C8 | FLAG | HIT_MINE | MINE | UNKNOWN

text \<open>
  The value of a decoded counter is a JavaScript number: \<open>Number(g)\<close> of a glyph that is not a
  digit is \<open>NaN\<close>, which is kept as a value of its own.
\<close>

datatype js_number = NaN | Num int

datatype mine_counter = Decoded js_number | Undecoded

record game_state =
  gwidth :: int
  gheight :: int
  grid :: "cell_status list list"
  mineCounter :: "mine_counter option"

definition wf_state :: "game_state \<Rightarrow> bool" where
  "wf_state s \<longleftrightarrow>
     0 \<le> gwidth s \<and> 0 \<le> gheight s \<and> length (grid s) = nat (gheight s) \<and>
     (\<forall>row \<in> set (grid s). length row = nat (gwidth s))"

definition cell_at :: "game_state \<Rightarrow> int \<Rightarrow> int \<Rightarrow> cell_status" where
  "cell_at s x y = grid s ! nat y ! nat x"

definition in_board :: "game_state \<Rightarrow> int \<Rightarrow> int \<Rightarrow> bool" where
  "in_board s x y \<longleftrightarrow> 0 \<le> x \<and> x < gwidth s \<and> 0 \<le> y \<and> y < gheight s"

definition cells :: "game_state \<Rightarrow> cell_status set" where
  "cells s = (\<Union>row \<in> set (grid s). set row)"

section \<open>The win predicate (win.ts)\<close>

definition NON_WIN_CELLS :: "cell_status set" where
  "NON_WIN_CELLS = {INITIAL, HIT_MINE, MINE, UNKNOWN}"

definition isWin :: "game_state \<Rightarrow> bool" where
  "isWin s =
     (if list_ex (list_ex (\<lambda>c. c \<in> NON_WIN_CELLS)) (grid s) then False
      else (case mineCounter s of Some (Decoded (Num v)) \<Rightarrow> v = 0 | _ \<Rightarrow> False))"

section \<open>Same-game compatibility (validate.ts)\<close>

definition REVEALED :: "cell_status set" where
  "REVEALED = {C0, C1, C2, C3, C4, C5, C6, C7, C8, HIT_MINE, MINE}"

datatype compat_kind = Dimension | State

datatype compatibility = Compatible | Incompatible compat_kind jstr

fun cell_name :: "cell_status \<Rightarrow> jstr" where
  "cell_name INITIAL = js ''INITIAL''"
| "cell_name C0 = js ''0''"
| "cell_name C1 = js ''1''"
| "cell_name C2 = js ''2''"
| "cell_name C3 = js ''3''"
| "cell_name C4 = js ''4''"
| "cell_name C5 = js ''5''"
| "cell_name C6 = js ''6''"
| "cell_name C7 = js ''7''"
| "cell_name C8 = js ''8''"
| "cell_name FLAG = js ''FLAG''"
| "cell_name HIT_MINE = js ''HIT_MINE''"
| "cell_name MINE = js ''MINE''"
| "cell_name UNKNOWN = js ''UNKNOWN''"

definition compatibleCell :: "int \<Rightarrow> int \<Rightarrow> cell_status \<Rightarrow> cell_status \<Rightarrow> compatibility" where
  "compatibleCell x y a b =
     (if a = b then Compatible
      else if a = UNKNOWN \<or> b = UNKNOWN then Compatible
      else if a \<in> REVEALED then
        Incompatible State
          (js ''cell ('' @ str_of_int x @ js '','' @ str_of_int y @ js ''): '' @
           cell_name a @ js '' -> '' @ cell_name b @ js '' (revealed cells are permanent)'')
      else Compatible)"

text \<open>The two nested loops visit the cells row by row and return the first failure.\<close>

fun first_failure :: "compatibility list \<Rightarrow> compatibility" where
  "first_failure [] = Compatible"
| "first_failure (c # cs) = (if c = Compatible then first_failure cs else c)"

definition checkCompatible :: "game_state \<Rightarrow> game_state \<Rightarrow> compatibility" where
  "checkCompatible prev next =
     (if gwidth prev \<noteq> gwidth next \<or> gheight prev \<noteq> gheight next then
        Incompatible Dimension
          (js ''board size '' @ str_of_int (gwidth prev) @ js ''x'' @ str_of_int (gheight prev) @
           js '' -> '' @ str_of_int (gwidth next) @ js ''x'' @ str_of_int (gheight next))
      else
        first_failure
          [compatibleCell x y (cell_at prev x y) (cell_at next x y).
             y \<leftarrow> [0..gheight prev - 1], x \<leftarrow> [0..gwidth prev - 1]])"

section \<open>The text board (render.ts)\<close>

fun cellSymbol :: "cell_status \<Rightarrow> jstr" where
  "cellSymbol INITIAL = js ''*''"
| "cellSymbol C0 = js ''0''"
| "cellSymbol C1 = js ''1''"
| "cellSymbol C2 = js ''2''"
| "cellSymbol C3 = js ''3''"
| "cellSymbol C4 = js ''4''"
| "cellSymbol C5 = js ''5''"
| "cellSymbol C6 = js ''6''"
| "cellSymbol C7 = js ''7''"
| "cellSymbol C8 = js ''8''"
| "cellSymbol FLAG = js ''F''"
| "cellSymbol HIT_MINE = js ''X''"
| "cellSymbol MINE = js ''M''"
| "cellSymbol UNKNOWN = js ''?''"

definition columnWidth :: "int \<Rightarrow> int \<Rightarrow> (int \<Rightarrow> int \<Rightarrow> jstr) \<Rightarrow> nat" where
  "columnWidth w h tokenAt =
     (let maxIndex = max (w - 1) (h - 1);
          indexLabelWidth = max (length (js ''col'' @ str_of_int maxIndex))
                                (length (js ''row'' @ str_of_int maxIndex));
          maxTokenWidth = foldl max 0 [length (tokenAt x y). y \<leftarrow> [0..h - 1], x \<leftarrow> [0..w - 1]]
      in max 1 (max indexLabelWidth maxTokenWidth))"

definition ruler_lines :: "int \<Rightarrow> int \<Rightarrow> (int \<Rightarrow> int \<Rightarrow> jstr) \<Rightarrow> jstr list" where
  "ruler_lines w h tokenAt =
     (let align = pad_start (columnWidth w h tokenAt) 32;
          line = (\<lambda>slots. join (js '' '') (map align slots))
      in line ([] # map (\<lambda>x. js ''col'' @ str_of_int x) [0..w - 1]) #
         map (\<lambda>y. line ((js ''row'' @ str_of_int y) # map (\<lambda>x. tokenAt x y) [0..w - 1]))
           [0..h - 1])"

definition renderGridWithRuler :: "int \<Rightarrow> int \<Rightarrow> (int \<Rightarrow> int \<Rightarrow> jstr) \<Rightarrow> jstr" where
  "renderGridWithRuler w h tokenAt = join [10] (ruler_lines w h tokenAt)"

definition cell_or_unknown :: "game_state \<Rightarrow> int \<Rightarrow> int \<Rightarrow> cell_status" where
  "cell_or_unknown s x y =
     (if nat y < length (grid s) \<and> nat x < length (grid s ! nat y) then cell_at s x y
      else UNKNOWN)"

definition renderBoardText :: "game_state \<Rightarrow> jstr" where
  "renderBoardText s =
     js ''board size '' @ str_of_int (gwidth s) @ js ''*'' @ str_of_int (gheight s) @ [10, 10] @
     renderGridWithRuler (gwidth s) (gheight s) (\<lambda>x y. cellSymbol (cell_or_unknown s x y))"

section \<open>Lemmas\<close>

subsection \<open>Cells\<close>

lemma cells_iff: "c \<in> cells s \<longleftrightarrow> (\<exists>row \<in> set (grid s). c \<in> set row)"
  by (simp add: cells_def)

lemma cell_at_in_cells: "wf_state s \<Longrightarrow> in_board s x y \<Longrightarrow> cell_at s x y \<in> cells s"
proof -
  assume wf: "wf_state s" and b: "in_board s x y"
  then have y: "nat y < length (grid s)" by (auto simp: wf_state_def in_board_def)
  then have "nat x < length (grid s ! nat y)"
    using wf b by (auto simp: wf_state_def in_board_def)
  with y show ?thesis unfolding cells_iff cell_at_def by (meson nth_mem)
qed

lemma cells_at:
  assumes "wf_state s" and "c \<in> cells s"
  obtains x y where "in_board s x y" and "cell_at s x y = c"
proof -
  from assms(2) obtain j i where "j < length (grid s)" "i < length (grid s ! j)"
    "grid s ! j ! i = c"
    by (auto simp: cells_iff in_set_conv_nth)
  with assms(1) have "in_board s (int i) (int j)" "cell_at s (int i) (int j) = c"
    by (auto simp: in_board_def cell_at_def wf_state_def)
  then show thesis by (rule that)
qed

lemma not_non_win: "c \<notin> NON_WIN_CELLS \<longleftrightarrow> c \<in> {C0, C1, C2, C3, C4, C5, C6, C7, C8, FLAG}"
  by (cases c) (auto simp: NON_WIN_CELLS_def)

lemma isWin_iff:
  "isWin s \<longleftrightarrow>
     cells s \<subseteq> {C0, C1, C2, C3, C4, C5, C6, C7, C8, FLAG} \<and>
     mineCounter s = Some (Decoded (Num 0))"
proof -
  have "cells s \<subseteq> {C0, C1, C2, C3, C4, C5, C6, C7, C8, FLAG} \<longleftrightarrow>
        \<not> list_ex (list_ex (\<lambda>c. c \<in> NON_WIN_CELLS)) (grid s)"
    unfolding subset_eq not_non_win [symmetric] by (auto simp: list_ex_iff cells_iff)
  then show ?thesis
    by (auto simp: isWin_def split: option.splits mine_counter.splits js_number.splits)
qed

subsection \<open>Compatibility\<close>

text \<open>The specification of one cell's transition within a game.\<close>

definition may_become :: "cell_status \<Rightarrow> cell_status \<Rightarrow> bool" where
  "may_become a b \<longleftrightarrow> a = b \<or> a = UNKNOWN \<or> b = UNKNOWN \<or> a \<notin> REVEALED"

lemma compatibleCell_iff: "compatibleCell x y a b = Compatible \<longleftrightarrow> may_become a b"
  by (auto simp: compatibleCell_def may_become_def)

lemma in_board_iff_upto:
  "in_board s x y \<longleftrightarrow> x \<in> set [0..gwidth s - 1] \<and> y \<in> set [0..gheight s - 1]"
  by (auto simp: in_board_def)

lemma first_failure_iff: "first_failure cs = Compatible \<longleftrightarrow> (\<forall>c \<in> set cs. c = Compatible)"
  by (induction cs) auto

lemma checkCompatible_iff:
  "checkCompatible p n = Compatible \<longleftrightarrow>
     gwidth p = gwidth n \<and> gheight p = gheight n \<and>
     (\<forall>x y. in_board p x y \<longrightarrow> may_become (cell_at p x y) (cell_at n x y))"
proof -
  have "first_failure [compatibleCell x y (cell_at p x y) (cell_at n x y).
               y \<leftarrow> [0..gheight p - 1], x \<leftarrow> [0..gwidth p - 1]] = Compatible \<longleftrightarrow>
        (\<forall>x y. in_board p x y \<longrightarrow> may_become (cell_at p x y) (cell_at n x y))"
    unfolding first_failure_iff in_board_iff_upto by (auto simp: compatibleCell_iff)
  note loops = this
  show ?thesis
  proof (cases "gwidth p \<noteq> gwidth n \<or> gheight p \<noteq> gheight n")
    case True
    then show ?thesis by (auto simp: checkCompatible_def)
  next
    case False
    then show ?thesis unfolding checkCompatible_def loops [symmetric] by (simp only: if_False) simp
  qed
qed

subsection \<open>The text board\<close>

lemma length_cellSymbol [simp]: "length (cellSymbol c) = 1"
  by (cases c) simp_all

lemma cellSymbol_inj [simp]: "cellSymbol c = cellSymbol d \<longleftrightarrow> c = d"
  by (cases c; cases d) simp_all

lemma token_width:
  "x \<in> set [0..w - 1] \<Longrightarrow> y \<in> set [0..h - 1] \<Longrightarrow> length (tokenAt x y) \<le> columnWidth w h tokenAt"
proof -
  assume "x \<in> set [0..w - 1]" "y \<in> set [0..h - 1]"
  then have "length (tokenAt x y) \<in> set [length (tokenAt x y). y \<leftarrow> [0..h - 1], x \<leftarrow> [0..w - 1]]"
    by fastforce
  then have "length (tokenAt x y) \<le>
      foldl max 0 [length (tokenAt x y). y \<leftarrow> [0..h - 1], x \<leftarrow> [0..w - 1]]"
    using foldl_max_ge by blast
  then show ?thesis unfolding columnWidth_def Let_def by linarith
qed

text \<open>Every slot fits its column, so every line has the same width.\<close>

lemma label_width:
  assumes "0 \<le> i" and "i < w \<or> i < h"
  shows "length (js ''col'' @ str_of_int i) \<le> columnWidth w h tokenAt"
    and "length (js ''row'' @ str_of_int i) \<le> columnWidth w h tokenAt"
proof -
  have "length (str_of_int i) \<le> length (str_of_int (max (w - 1) (h - 1)))"
    using assms by (auto simp: str_of_int_def intro!: length_str_of_nat_mono)
  then show "length (js ''col'' @ str_of_int i) \<le> columnWidth w h tokenAt"
    and "length (js ''row'' @ str_of_int i) \<le> columnWidth w h tokenAt"
    unfolding columnWidth_def Let_def by auto
qed

definition board_line_width :: "game_state \<Rightarrow> nat" where
  "board_line_width s =
     (nat (gwidth s) + 1) *
     (columnWidth (gwidth s) (gheight s) (\<lambda>x y. cellSymbol (cell_or_unknown s x y)) + 1) - 1"

text \<open>Where the grid text holds the symbol of cell \<open>(x, y)\<close>: the last unit of its slot.\<close>

definition cell_offset :: "game_state \<Rightarrow> int \<Rightarrow> int \<Rightarrow> nat" where
  "cell_offset s x y =
     (let k = columnWidth (gwidth s) (gheight s) (\<lambda>x y. cellSymbol (cell_or_unknown s x y))
      in (nat y + 1) * (board_line_width s + 1) + ((nat x + 1) * (k + 1) + (k - 1)))"

lemma ruler_lines_widths:
  assumes "l \<in> set (ruler_lines w h tokenAt)" and "0 \<le> w" and "0 \<le> h"
  shows "length l = (nat w + 1) * (columnWidth w h tokenAt + 1) - 1"
proof -
  let ?k = "columnWidth w h tokenAt"
  let ?al = "map (pad_start ?k 32)"
  have slots: "length (join (js '' '') (?al ss)) = length ss * (?k + 1) - 1"
    if "\<And>s. s \<in> set ss \<Longrightarrow> length s \<le> ?k" and "ss \<noteq> []" for ss
  proof -
    have "length x = ?k" if "x \<in> set (?al ss)" for x
      using that \<open>\<And>s. s \<in> set ss \<Longrightarrow> length s \<le> ?k\<close> by (auto simp: max.absorb1)
    with \<open>ss \<noteq> []\<close> show ?thesis
      unfolding js_simps by (subst length_join [where k = ?k]) auto
  qed
  from assms(1) consider
      (header) "l = join (js '' '') (?al ([] # map (\<lambda>x. js ''col'' @ str_of_int x) [0..w - 1]))"
    | (row) y where "0 \<le> y" "y < h"
        "l = join (js '' '') (?al ((js ''row'' @ str_of_int y) # map (\<lambda>x. tokenAt x y) [0..w - 1]))"
    by (auto simp: ruler_lines_def Let_def)
  then show ?thesis
  proof cases
    case header
    show ?thesis unfolding header
      by (subst slots) (use label_width(1) assms in fastforce)+
  next
    case row
    have "length s \<le> ?k"
      if "s \<in> set ((js ''row'' @ str_of_int y) # map (\<lambda>x. tokenAt x y) [0..w - 1])" for s
      using that row label_width(2) [of y w h tokenAt] token_width [of _ w y h tokenAt] by auto
    then show ?thesis unfolding row(3)
      by (subst slots) (use assms in auto)
  qed
qed

text \<open>The rendered grid shows each cell at its offset.\<close>

lemma render_cell_at_offset:
  assumes wf: "wf_state s" and b: "in_board s x y"
  shows "[renderGridWithRuler (gwidth s) (gheight s) (\<lambda>x y. cellSymbol (cell_or_unknown s x y)) !
          cell_offset s x y] = cellSymbol (cell_at s x y)"
proof -
  let ?t = "\<lambda>x y. cellSymbol (cell_or_unknown s x y)"
  let ?k = "columnWidth (gwidth s) (gheight s) ?t"
  let ?ls = "ruler_lines (gwidth s) (gheight s) ?t"
  let ?ss = "(js ''row'' @ str_of_int y) # map (\<lambda>x. ?t x y) [0..gwidth s - 1]"
  have b': "nat y < nat (gheight s)" "nat x < nat (gwidth s)" "0 \<le> x" "0 \<le> y"
    and dims: "0 \<le> gwidth s" "0 \<le> gheight s"
    using b wf by (auto simp: in_board_def wf_state_def)
  have k: "1 \<le> ?k" unfolding columnWidth_def Let_def by simp
  have width: "length l = board_line_width s" if "l \<in> set ?ls" for l
    using ruler_lines_widths [OF that] dims by (simp add: board_line_width_def)
  have len: "length ?ls = nat (gheight s) + 1" by (simp add: ruler_lines_def Let_def)
  have line: "?ls ! (nat y + 1) = join (js '' '') (map (pad_start ?k 32) ?ss)"
    using b' by (simp add: ruler_lines_def Let_def upto_nth)
  have slot_len: "length u = ?k" if "u \<in> set (map (pad_start ?k 32) ?ss)" for u
    using that b' label_width(2) [of y "gwidth s" "gheight s" ?t]
      token_width [of _ "gwidth s" y "gheight s" ?t] by (auto simp: max.absorb1)
  have slot: "map (pad_start ?k 32) ?ss ! (nat x + 1) = pad_start ?k 32 (?t x y)"
    using b' by (simp add: upto_nth)
  have "(nat x + 1) * (?k + 1) + (?k - 1) < (nat (gwidth s) + 1) * (?k + 1) - 1"
  proof -
    have "(nat x + 2) * (?k + 1) \<le> (nat (gwidth s) + 1) * (?k + 1)"
      using b' by (intro mult_right_mono) auto
    then show ?thesis using k by (simp add: algebra_simps)
  qed
  then have "join [10] ?ls ! cell_offset s x y =
      ?ls ! (nat y + 1) ! ((nat x + 1) * (?k + 1) + (?k - 1))"
    unfolding cell_offset_def Let_def
    by (intro join_nth width) (use len b' in \<open>auto simp: board_line_width_def\<close>)
  also have "\<dots> = map (pad_start ?k 32) ?ss ! (nat x + 1) ! (?k - 1)"
    unfolding line js_simps using slot_len b' k by (intro join_nth) auto
  also have "\<dots> = last (?t x y)"
    unfolding slot using k by (intro pad_start_last) (auto simp: length_0_conv [symmetric] simp del: length_0_conv)
  also have "cell_or_unknown s x y = cell_at s x y"
    using b' wf by (auto simp: cell_or_unknown_def wf_state_def)
  finally have "renderGridWithRuler (gwidth s) (gheight s) ?t ! cell_offset s x y =
      last (cellSymbol (cell_at s x y))"
    by (simp add: renderGridWithRuler_def)
  then show ?thesis by (cases "cell_at s x y") simp_all
qed

section \<open>Properties\<close>

text \<open>The text board shows every cell: in the board text of a well-formed state the symbol of cell
  \<open>(x, y)\<close> stands at a fixed offset of the grid, whatever the board's size, and distinct cell
  states have distinct symbols, so the model can read the state of every cell back.\<close>
lemma board_text_shows_cells:
  assumes "wf_state s" and "in_board s x y"
  shows "[renderGridWithRuler (gwidth s) (gheight s) (\<lambda>x y. cellSymbol (cell_or_unknown s x y)) !
            cell_offset s x y] = cellSymbol c \<longleftrightarrow> cell_at s x y = c"
  using render_cell_at_offset [OF assms] by simp

end
