(* ===== verification/Board_Pixels.thy ===== *)
theory Board_Pixels
  imports Saolei_Board "HOL-Library.Monad_Syntax"
begin

unbundle bit_operations_syntax

text \<open>
  Screenshot geometry and pixel access: \<open>geometry.ts\<close> and \<open>decode.ts\<close> of
  \<open>projects/game/pkg/saolei-board/src/core\<close>. The PNG decoder (pngjs) is a parameter of the
  recognition; its documented result is an RGBA buffer of \<open>width * height * 4\<close> bytes
  (\<open>wf_image\<close>). An index outside the buffer reads \<open>undefined\<close>: the read is \<open>None\<close>, and
  \<open>extractCellRegion_defined\<close> shows that it does not happen on a decoded image whose pixel
  numbers fit the 32-bit shift of \<open>pixelIndex\<close>.
\<close>

section \<open>Geometry (geometry.ts)\<close>

record board_geometry =
  originXPx :: int
  originYPx :: int
  cellSizePx :: int

definition DEFAULT_GEOMETRY :: board_geometry where
  "DEFAULT_GEOMETRY = \<lparr>originXPx = 24, originYPx = 200, cellSizePx = 32\<rparr>"

definition detectBoardSize :: "int \<Rightarrow> int \<Rightarrow> board_geometry \<Rightarrow> int \<times> int" where
  "detectBoardSize imgWidth imgHeight g =
     (let width = max 1 ((imgWidth - originXPx g) div cellSizePx g);
          height = max 1 ((imgHeight - originYPx g) div cellSizePx g)
      in (width, height))"

definition cellOrigin :: "int \<Rightarrow> int \<Rightarrow> board_geometry \<Rightarrow> int \<times> int" where
  "cellOrigin x y g = (originXPx g + x * cellSizePx g, originYPx g + y * cellSizePx g)"

section \<open>Images (decode.ts)\<close>

record rgb =
  rgb_r :: int
  rgb_g :: int
  rgb_b :: int

record decoded_image =
  img_width :: int
  img_height :: int
  img_data :: bytes

text \<open>\<open>(width * y + x) << 2\<close>: the operand is taken to 32 bits, the result is signed.\<close>

definition pixelIndex :: "int \<Rightarrow> int \<Rightarrow> int \<Rightarrow> int" where
  "pixelIndex width x y = sint (push_bit 2 (word_of_int (width * y + x) :: 32 word))"

definition read_byte :: "bytes \<Rightarrow> int \<Rightarrow> int option" where
  "read_byte data i =
     (if 0 \<le> i \<and> nat i < length data then Some (uint (data ! nat i)) else None)"

definition getRGB :: "bytes \<Rightarrow> int \<Rightarrow> int \<Rightarrow> int \<Rightarrow> rgb option" where
  "getRGB data width x y =
     (let i = pixelIndex width x y in
      do {
        red \<leftarrow> read_byte data i;
        green \<leftarrow> read_byte data (i + 1);
        blue \<leftarrow> read_byte data (i + 2);
        Some \<lparr>rgb_r = red, rgb_g = green, rgb_b = blue\<rparr>
      })"

definition BLACK :: rgb where
  "BLACK = \<lparr>rgb_r = 0, rgb_g = 0, rgb_b = 0\<rparr>"

record cell_region =
  pixels :: "rgb list"
  region_width :: int
  region_height :: int

text \<open>The loop body: a pixel outside the image counts as black.\<close>

definition region_pixel :: "decoded_image \<Rightarrow> int \<Rightarrow> int \<Rightarrow> int \<Rightarrow> int \<Rightarrow> rgb option" where
  "region_pixel img originX originY dx dy =
     (let py = originY + dy; px = originX + dx in
      if py < 0 \<or> py \<ge> img_height img then Some BLACK
      else if px < 0 \<or> px \<ge> img_width img then Some BLACK
      else getRGB (img_data img) (img_width img) px py)"

definition extractCellRegion :: "decoded_image \<Rightarrow> int \<Rightarrow> int \<Rightarrow> int \<Rightarrow> cell_region option" where
  "extractCellRegion img originX originY cellSize =
     do {
       ps \<leftarrow> those [region_pixel img originX originY dx dy.
                     dy \<leftarrow> [0..cellSize - 1], dx \<leftarrow> [0..cellSize - 1]];
       Some \<lparr>pixels = ps, region_width = cellSize, region_height = cellSize\<rparr>
     }"

section \<open>Lemmas\<close>

definition wf_image :: "decoded_image \<Rightarrow> bool" where
  "wf_image img \<longleftrightarrow> 0 \<le> img_width img \<and> 0 \<le> img_height img \<and>
     int (length (img_data img)) = img_width img * img_height img * 4"

text \<open>Below \<open>2 ^ 29\<close> pixels the shift does not wrap.\<close>

lemma pixelIndex_small:
  assumes "0 \<le> width * y + x" and "width * y + x < 2 ^ 29"
  shows "pixelIndex width x y = 4 * (width * y + x)"
proof -
  let ?n = "width * y + x"
  have "push_bit 2 (word_of_int ?n :: 32 word) = word_of_int (4 * ?n)"
    by (simp add: push_bit_eq_mult)
  then have "pixelIndex width x y = signed_take_bit 31 (4 * ?n)"
    unfolding pixelIndex_def by (simp only: sint_sbintrunc') simp
  with assms show ?thesis by (simp add: signed_take_bit_int_eq_self)
qed

lemma pixel_number:
  fixes w h x y :: int
  assumes "0 \<le> x" "x < w" "0 \<le> y" "y < h"
  shows "0 \<le> w * y + x" and "w * y + x < w * h"
proof -
  from assms show "0 \<le> w * y + x" by simp
  have "w * y + x < w * (y + 1)" using assms by (simp add: algebra_simps)
  also have "\<dots> \<le> w * h" using assms by (intro mult_left_mono) auto
  finally show "w * y + x < w * h" .
qed

lemma getRGB_defined:
  assumes "wf_image img" and "img_width img * img_height img \<le> 2 ^ 29"
    and "0 \<le> x" "x < img_width img" "0 \<le> y" "y < img_height img"
  shows "getRGB (img_data img) (img_width img) x y =
     (let i = nat (4 * (img_width img * y + x)) in
      Some \<lparr>rgb_r = uint (img_data img ! i), rgb_g = uint (img_data img ! (i + 1)),
            rgb_b = uint (img_data img ! (i + 2))\<rparr>)"
proof -
  let ?p = "img_width img * y + x"
  note p = pixel_number [OF assms(3-6)]
  have "?p < 2 ^ 29" using p(2) assms(2) by linarith
  then have ix: "pixelIndex (img_width img) x y = 4 * ?p" by (rule pixelIndex_small [OF p(1)])
  have "4 * ?p + 3 < int (length (img_data img))"
    using p(2) assms(1) by (simp add: wf_image_def)
  with p(1) show ?thesis
    by (simp add: getRGB_def ix read_byte_def nat_add_distrib Let_def nat_less_iff)
qed

text \<open>Channels are bytes, as long as they are read from a buffer.\<close>

definition byte_rgb :: "rgb \<Rightarrow> bool" where
  "byte_rgb p \<longleftrightarrow> 0 \<le> rgb_r p \<and> rgb_r p < 256 \<and> 0 \<le> rgb_g p \<and> rgb_g p < 256 \<and>
     0 \<le> rgb_b p \<and> rgb_b p < 256"

lemma uint_byte: "0 \<le> uint (w :: 8 word)" "uint (w :: 8 word) < 256"
  using uint_lt2p [of w] by simp_all

lemma getRGB_byte: "getRGB data w x y = Some p \<Longrightarrow> byte_rgb p"
  by (auto simp: getRGB_def read_byte_def byte_rgb_def uint_byte Let_def split: if_splits
        Option.bind_splits)

lemma region_pixel_defined:
  assumes "wf_image img" and "img_width img * img_height img \<le> 2 ^ 29"
  shows "region_pixel img ox oy dx dy \<noteq> None"
  using getRGB_defined [OF assms, of "ox + dx" "oy + dy"]
  by (auto simp: region_pixel_def Let_def)

lemma extractCellRegion_defined:
  assumes "wf_image img" and "img_width img * img_height img \<le> 2 ^ 29"
  shows "extractCellRegion img ox oy sz =
     Some \<lparr>pixels = [the (region_pixel img ox oy dx dy). dy \<leftarrow> [0..sz - 1], dx \<leftarrow> [0..sz - 1]],
           region_width = sz, region_height = sz\<rparr>"
proof -
  have "those [region_pixel img ox oy dx dy. dy \<leftarrow> [0..sz - 1], dx \<leftarrow> [0..sz - 1]] =
      Some [the (region_pixel img ox oy dx dy). dy \<leftarrow> [0..sz - 1], dx \<leftarrow> [0..sz - 1]]"
    unfolding those_Some_iff
    using region_pixel_defined [OF assms] by (auto simp: map_concat o_def intro!: arg_cong [where f = concat])
  then show ?thesis by (simp add: extractCellRegion_def)
qed

lemma length_concat_const:
  "(\<And>x. x \<in> set xs \<Longrightarrow> length (f x) = k) \<Longrightarrow> length (concat (map f xs)) = length xs * k"
  by (induction xs) auto

lemma extractCellRegion_shape:
  assumes "extractCellRegion img ox oy sz = Some reg"
  shows "region_width reg = sz" "region_height reg = sz"
    "length (pixels reg) = nat sz * nat sz"
proof -
  from assms obtain ps where reg: "reg = \<lparr>pixels = ps, region_width = sz, region_height = sz\<rparr>"
    and ps: "those [region_pixel img ox oy dx dy. dy \<leftarrow> [0..sz - 1], dx \<leftarrow> [0..sz - 1]] = Some ps"
    by (auto simp: extractCellRegion_def split: Option.bind_splits)
  show "region_width reg = sz" "region_height reg = sz" by (simp_all add: reg)
  have "length (pixels reg) =
      length [region_pixel img ox oy dx dy. dy \<leftarrow> [0..sz - 1], dx \<leftarrow> [0..sz - 1]]"
    unfolding reg cell_region.simps using length_those [OF ps] by simp
  also have "\<dots> = nat sz * nat sz" by (subst length_concat_const [where k = "nat sz"]) auto
  finally show "length (pixels reg) = nat sz * nat sz" .
qed

end
