(* ===== verification/Board_Classify.thy ===== *)
theory Board_Classify
  imports Board_Pixels Complex_Main
begin

text \<open>
  \<open>classify.ts\<close>: the state of one cell from its pixels. A loop over pixel positions is the list
  of the pixels it reads (\<open>scan\<close>); a position outside the buffer makes it \<open>None\<close>, as the source
  throws on a property of \<open>undefined\<close>. The mean colour of the centre, which only the debug output
  shows, is left out of the diagnostics. \<open>Math.sqrt(d) > t\<close> is stated on the square, exactly:
  \<open>d\<close> is an integer and \<open>t\<close> a non-negative integer threshold (\<open>sqrt_threshold\<close>); the redness
  is a quotient of half-integers by a pixel count_if, kept as a rational.
\<close>

section \<open>Profile\<close>

record color_profile =
  background :: rgb
  glyphThreshold :: int
  minGlyphPixels :: nat
  bevelWhiteChannelMin :: int
  bevelWhiteMinPixels :: nat
  bevelBorderMargin :: int
  mineBlackChannelMax :: int
  flagRedMinR :: int
  flagRedMaxG :: int
  flagRedMaxB :: int
  flagMinPixels :: nat
  numberRefs :: "(cell_status \<times> rgb) list"
  mineRef :: rgb
  minePixelThreshold :: nat
  redBgThreshold :: rat

definition RGB :: "int \<Rightarrow> int \<Rightarrow> int \<Rightarrow> rgb" where
  "RGB x y z = \<lparr>rgb_r = x, rgb_g = y, rgb_b = z\<rparr>"

definition DEFAULT_COLOR_PROFILE :: color_profile where
  "DEFAULT_COLOR_PROFILE =
     \<lparr>background = RGB 192 192 192, glyphThreshold = 40, minGlyphPixels = 8,
      bevelWhiteChannelMin = 240, bevelWhiteMinPixels = 8, bevelBorderMargin = 4,
      mineBlackChannelMax = 60, flagRedMinR = 150, flagRedMaxG = 100, flagRedMaxB = 100,
      flagMinPixels = 5,
      numberRefs = [(C1, RGB 0 0 255), (C2, RGB 0 128 0), (C3, RGB 255 0 0), (C4, RGB 0 0 128),
                    (C5, RGB 128 0 0), (C6, RGB 0 128 128), (C7, RGB 0 0 0), (C8, RGB 128 128 128)],
      mineRef = RGB 0 0 0, minePixelThreshold = 80, redBgThreshold = 120\<rparr>"

section \<open>Pixel loops\<close>

definition distSq :: "rgb \<Rightarrow> rgb \<Rightarrow> int" where
  "distSq p q =
     (let dr = rgb_r p - rgb_r q; dg = rgb_g p - rgb_g q; db = rgb_b p - rgb_b q
      in dr * dr + dg * dg + db * db)"

definition idx :: "int \<Rightarrow> int \<Rightarrow> int \<Rightarrow> int" where
  "idx cx cy w = cy * w + cx"

definition pixel_at :: "rgb list \<Rightarrow> int \<Rightarrow> rgb option" where
  "pixel_at ps i = (if 0 \<le> i \<and> nat i < length ps then Some (ps ! nat i) else None)"

definition scan :: "rgb list \<Rightarrow> int \<Rightarrow> (int \<times> int) list \<Rightarrow> rgb list option" where
  "scan ps w coords = those (map (\<lambda>(cx, cy). pixel_at ps (idx cx cy w)) coords)"

record center_region =
  c_x0 :: int
  c_y0 :: int
  c_x1 :: int
  c_y1 :: int

definition centerRegion :: "int \<Rightarrow> int \<Rightarrow> center_region" where
  "centerRegion w h =
     (let margin = min w h div 4
      in \<lparr>c_x0 = margin, c_y0 = margin, c_x1 = w - margin, c_y1 = h - margin\<rparr>)"

text \<open>The positions the loops visit: the border ring, the centre, and the frame around it.\<close>

definition border_coords :: "int \<Rightarrow> int \<Rightarrow> int \<Rightarrow> (int \<times> int) list" where
  "border_coords w h bm =
     [(cx, cy). cy \<leftarrow> [0..h - 1], cx \<leftarrow> [0..w - 1],
        cx < bm \<or> cx \<ge> w - bm \<or> cy < bm \<or> cy \<ge> h - bm]"

definition center_coords :: "center_region \<Rightarrow> (int \<times> int) list" where
  "center_coords c = [(cx, cy). cy \<leftarrow> [c_y0 c..c_y1 c - 1], cx \<leftarrow> [c_x0 c..c_x1 c - 1]]"

definition frame_coords :: "int \<Rightarrow> int \<Rightarrow> center_region \<Rightarrow> (int \<times> int) list" where
  "frame_coords w h c =
     [(cx, cy). cy \<leftarrow> [0..h - 1], cx \<leftarrow> [0..w - 1],
        \<not> (cx \<ge> c_x0 c \<and> cx < c_x1 c \<and> cy \<ge> c_y0 c \<and> cy < c_y1 c)]"

definition borderRedness :: "rgb list \<Rightarrow> int \<Rightarrow> int \<Rightarrow> center_region \<Rightarrow> rat option" where
  "borderRedness ps w h c =
     do {
       fr \<leftarrow> scan ps w (frame_coords w h c);
       let total = sum_list (map (\<lambda>p. of_int (rgb_r p) - of_int (rgb_g p + rgb_b p) / 2) fr);
       Some (if 0 < length fr then total / of_nat (length fr) else 0)
     }"

section \<open>Number voting\<close>

text \<open>The nearest reference: the first of those at the least distance.\<close>

fun nearest_from :: "rgb \<Rightarrow> cell_status \<Rightarrow> int option \<Rightarrow> (cell_status \<times> rgb) list \<Rightarrow> cell_status" where
  "nearest_from p nearest nearestD [] = nearest"
| "nearest_from p nearest nearestD ((st, col) # refs) =
     (let d = distSq p col in
      if (case nearestD of None \<Rightarrow> True | Some m \<Rightarrow> d < m)
      then nearest_from p st (Some d) refs
      else nearest_from p nearest nearestD refs)"

definition nearest_ref :: "(cell_status \<times> rgb) list \<Rightarrow> rgb \<Rightarrow> cell_status option" where
  "nearest_ref refs p = (case refs of [] \<Rightarrow> None | (st, _) # _ \<Rightarrow> Some (nearest_from p st None refs))"

record vote_state =
  votes :: "cell_status \<Rightarrow> int"
  bestStatus :: cell_status
  bestVotes :: int

definition start_votes :: vote_state where
  "start_votes = \<lparr>votes = (\<lambda>_. 0), bestStatus = UNKNOWN, bestVotes = -1\<rparr>"

definition cast_vote :: "cell_status \<Rightarrow> vote_state \<Rightarrow> vote_state" where
  "cast_vote k v =
     (let n = votes v k + 1; v' = v\<lparr>votes := (votes v)(k := n)\<rparr>
      in if n > bestVotes v then v'\<lparr>bestVotes := n, bestStatus := k\<rparr> else v')"

definition count_votes :: "(cell_status \<times> rgb) list \<Rightarrow> rgb list \<Rightarrow> vote_state option" where
  "count_votes refs ps =
     do {
       ks \<leftarrow> those (map (nearest_ref refs) ps);
       Some (fold cast_vote ks start_votes)
     }"

section \<open>Cell classification\<close>

datatype winner_ref = NoWinner | MineWinner | Winner cell_status

record cell_diagnostics =
  cd_beveled :: bool
  cd_glyphPixels :: nat
  cd_blackPixels :: nat
  cd_redPixels :: nat
  cd_winnerRef :: winner_ref
  cd_bgRedness :: rat

definition is_white :: "color_profile \<Rightarrow> rgb \<Rightarrow> bool" where
  "is_white pr p \<longleftrightarrow> (let wmin = bevelWhiteChannelMin pr in
     rgb_r p \<ge> wmin \<and> rgb_g p \<ge> wmin \<and> rgb_b p \<ge> wmin)"

definition is_red :: "color_profile \<Rightarrow> rgb \<Rightarrow> bool" where
  "is_red pr p \<longleftrightarrow> rgb_r p \<ge> flagRedMinR pr \<and> rgb_g p \<le> flagRedMaxG pr \<and> rgb_b p \<le> flagRedMaxB pr"

definition is_black :: "color_profile \<Rightarrow> rgb \<Rightarrow> bool" where
  "is_black pr p \<longleftrightarrow> (let bmax = mineBlackChannelMax pr in
     rgb_r p \<le> bmax \<and> rgb_g p \<le> bmax \<and> rgb_b p \<le> bmax)"

definition is_glyph :: "color_profile \<Rightarrow> rgb \<Rightarrow> bool" where
  "is_glyph pr p \<longleftrightarrow> distSq p (background pr) > glyphThreshold pr * glyphThreshold pr"

definition count_if :: "('a \<Rightarrow> bool) \<Rightarrow> 'a list \<Rightarrow> nat" where
  "count_if P xs = length (filter P xs)"

definition classifyCell ::
  "rgb list \<Rightarrow> int \<Rightarrow> int \<Rightarrow> color_profile \<Rightarrow> (cell_status \<times> cell_diagnostics) option" where
  "classifyCell ps width height pr =
     (let center = centerRegion width height in
      do {
        border \<leftarrow> scan ps width (border_coords width height (bevelBorderMargin pr));
        inner \<leftarrow> scan ps width (center_coords center);
        let beveled = (count_if (is_white pr) border \<ge> bevelWhiteMinPixels pr);
        let redPixels = count_if (is_red pr) inner;
        if beveled then
          Some (if redPixels \<ge> flagMinPixels pr then FLAG else INITIAL,
                \<lparr>cd_beveled = beveled, cd_glyphPixels = 0, cd_blackPixels = 0,
                 cd_redPixels = redPixels, cd_winnerRef = NoWinner, cd_bgRedness = 0\<rparr>)
        else do {
          let glyphPixels = filter (is_glyph pr) inner;
          let blackPixels = count_if (is_black pr) inner;
          bgRedness \<leftarrow> borderRedness ps width height center;
          let diagnostics = (\<lambda>winner.
            \<lparr>cd_beveled = beveled, cd_glyphPixels = length glyphPixels,
             cd_blackPixels = blackPixels, cd_redPixels = redPixels, cd_winnerRef = winner,
             cd_bgRedness = bgRedness\<rparr>);
          if blackPixels \<ge> minePixelThreshold pr then
            Some (if bgRedness \<ge> redBgThreshold pr then HIT_MINE else MINE, diagnostics MineWinner)
          else if length glyphPixels < minGlyphPixels pr then
            Some (C0, diagnostics NoWinner)
          else do {
            v \<leftarrow> count_votes (numberRefs pr) glyphPixels;
            Some (bestStatus v, diagnostics (Winner (bestStatus v)))
          }
        }
      })"

section \<open>Lemmas\<close>

text \<open>The comparison with the square root, on the squares.\<close>

lemma sqrt_threshold:
  assumes "0 \<le> d" and "0 \<le> t"
  shows "sqrt (of_int d) > of_int t \<longleftrightarrow> d > t * t"
proof -
  have "sqrt (of_int d) > of_int t \<longleftrightarrow> (of_int t :: real)\<^sup>2 < of_int d"
    using assms by (metis of_int_0_le_iff real_less_lsqrt real_less_rsqrt not_le real_le_lsqrt)
  also have "\<dots> \<longleftrightarrow> d > t * t"
    by (metis of_int_less_iff of_int_mult power2_eq_square)
  finally show ?thesis .
qed

lemma distSq_nonneg: "0 \<le> distSq p q"
  by (simp add: distSq_def Let_def)

lemma distSq_refl [simp]: "distSq p p = 0"
  by (simp add: distSq_def)

subsection \<open>Scans\<close>

definition wf_pixels :: "rgb list \<Rightarrow> int \<Rightarrow> int \<Rightarrow> bool" where
  "wf_pixels ps w h \<longleftrightarrow> 0 \<le> w \<and> 0 \<le> h \<and> length ps = nat w * nat h"

definition in_cell :: "int \<Rightarrow> int \<Rightarrow> (int \<times> int) \<Rightarrow> bool" where
  "in_cell w h = (\<lambda>(cx, cy). 0 \<le> cx \<and> cx < w \<and> 0 \<le> cy \<and> cy < h)"

lemma pixel_at_defined:
  assumes "wf_pixels ps w h" and "in_cell w h (cx, cy)"
  shows "pixel_at ps (idx cx cy w) = Some (ps ! nat (idx cx cy w))"
    and "ps ! nat (idx cx cy w) \<in> set ps"
proof -
  have "0 \<le> w * cy + cx" "w * cy + cx < w * h"
    using assms(2) pixel_number [of cx w cy h] by (auto simp: in_cell_def)
  moreover have "int (length ps) = w * h" using assms(1) by (simp add: wf_pixels_def)
  ultimately have "0 \<le> idx cx cy w" "nat (idx cx cy w) < length ps"
    by (simp_all add: idx_def algebra_simps nat_less_iff)
  then show "pixel_at ps (idx cx cy w) = Some (ps ! nat (idx cx cy w))"
    and "ps ! nat (idx cx cy w) \<in> set ps" by (simp_all add: pixel_at_def)
qed

lemma scan_defined:
  assumes "wf_pixels ps w h" and "\<And>c. c \<in> set cs \<Longrightarrow> in_cell w h c"
  shows "scan ps w cs = Some (map (\<lambda>(cx, cy). ps ! nat (idx cx cy w)) cs)"
  unfolding scan_def those_Some_iff
  using assms by (auto intro: pixel_at_defined)

lemma centerRegion_inside:
  assumes "0 \<le> w" and "0 \<le> h"
  shows "0 \<le> c_x0 (centerRegion w h)" "c_x1 (centerRegion w h) \<le> w"
    "0 \<le> c_y0 (centerRegion w h)" "c_y1 (centerRegion w h) \<le> h"
  using assms by (simp_all add: centerRegion_def Let_def)

lemma border_coords_iff:
  "(cx, cy) \<in> set (border_coords w h bm) \<longleftrightarrow> in_cell w h (cx, cy) \<and>
     (cx < bm \<or> cx \<ge> w - bm \<or> cy < bm \<or> cy \<ge> h - bm)"
  by (auto simp: border_coords_def in_cell_def)

lemma center_coords_iff:
  "(cx, cy) \<in> set (center_coords c) \<longleftrightarrow> c_x0 c \<le> cx \<and> cx < c_x1 c \<and> c_y0 c \<le> cy \<and> cy < c_y1 c"
  by (auto simp: center_coords_def image_iff)

lemma frame_coords_iff:
  "(cx, cy) \<in> set (frame_coords w h c) \<longleftrightarrow> in_cell w h (cx, cy) \<and> (cx, cy) \<notin> set (center_coords c)"
  by (auto simp: frame_coords_def in_cell_def center_coords_iff)

lemma scans_defined:
  assumes "wf_pixels ps w h"
  shows "\<exists>border. scan ps w (border_coords w h bm) = Some border"
    and "\<exists>inner. scan ps w (center_coords (centerRegion w h)) = Some inner \<and> set inner \<subseteq> set ps"
    and "\<exists>red. borderRedness ps w h c = Some red"
proof -
  have wh: "0 \<le> w" "0 \<le> h" using assms by (simp_all add: wf_pixels_def)
  show "\<exists>border. scan ps w (border_coords w h bm) = Some border"
    by (rule exI, rule scan_defined [OF assms]) (auto simp: border_coords_iff)
  have cin: "in_cell w h p" if "p \<in> set (center_coords (centerRegion w h))" for p
  proof -
    obtain cx cy where p: "p = (cx, cy)" by fastforce
    from that have "c_x0 (centerRegion w h) \<le> cx" "cx < c_x1 (centerRegion w h)"
      "c_y0 (centerRegion w h) \<le> cy" "cy < c_y1 (centerRegion w h)"
      unfolding p center_coords_iff by blast+
    with centerRegion_inside [OF wh] show ?thesis unfolding p in_cell_def by simp
  qed
  have "set (map (\<lambda>(cx, cy). ps ! nat (idx cx cy w)) (center_coords (centerRegion w h))) \<subseteq> set ps"
    using cin pixel_at_defined(2) [OF assms] by auto
  with scan_defined [OF assms cin]
  show "\<exists>inner. scan ps w (center_coords (centerRegion w h)) = Some inner \<and> set inner \<subseteq> set ps"
    by blast
  have "scan ps w (frame_coords w h c) =
      Some (map (\<lambda>(cx, cy). ps ! nat (idx cx cy w)) (frame_coords w h c))"
    by (rule scan_defined [OF assms]) (auto simp: frame_coords_iff)
  then show "\<exists>red. borderRedness ps w h c = Some red" by (simp add: borderRedness_def Let_def)
qed

subsection \<open>Voting\<close>

text \<open>The nearest reference is a reference, and no other is closer.\<close>

lemma nearest_from_spec:
  "(nearest_from p st (Some m) refs = st \<and> (\<forall>(s, c) \<in> set refs. m \<le> distSq p c)) \<or>
   (\<exists>col. (nearest_from p st (Some m) refs, col) \<in> set refs \<and> distSq p col < m \<and>
      (\<forall>(s, c) \<in> set refs. distSq p col \<le> distSq p c))"
proof (induction refs arbitrary: st m)
  case (Cons ref refs)
  obtain s c where ref: "ref = (s, c)" by (cases ref)
  show ?case
  proof (cases "distSq p c < m")
    case True
    from Cons.IH [of s "distSq p c"] True show ?thesis by (auto simp: ref Let_def)
  next
    case False
    from Cons.IH [of st m] False show ?thesis by (auto simp: ref Let_def)
  qed
qed simp

lemma nearest_ref_spec:
  assumes "nearest_ref refs p = Some k"
  obtains col where "(k, col) \<in> set refs" and "\<And>s c. (s, c) \<in> set refs \<Longrightarrow> distSq p col \<le> distSq p c"
proof -
  from assms obtain st c refs' where refs: "refs = (st, c) # refs'"
    and k: "k = nearest_from p st (Some (distSq p c)) refs'"
    by (auto simp: nearest_ref_def split: list.splits)
  from nearest_from_spec [of p st "distSq p c" refs'] show thesis
  proof (elim disjE)
    assume a: "nearest_from p st (Some (distSq p c)) refs' = st \<and>
        (\<forall>(s, c') \<in> set refs'. distSq p c \<le> distSq p c')"
    show thesis by (rule that [of c]) (use a in \<open>auto simp: refs k\<close>)
  next
    assume "\<exists>col. (nearest_from p st (Some (distSq p c)) refs', col) \<in> set refs' \<and>
        distSq p col < distSq p c \<and> (\<forall>(s, c) \<in> set refs'. distSq p col \<le> distSq p c)"
    then obtain col where a: "(k, col) \<in> set refs'" "distSq p col < distSq p c"
      "\<forall>(s, c) \<in> set refs'. distSq p col \<le> distSq p c" by (auto simp: k)
    show thesis by (rule that [of col]) (use a in \<open>auto simp: refs\<close>)
  qed
qed

lemma nearest_ref_total: "refs \<noteq> [] \<Longrightarrow> nearest_ref refs p \<noteq> None"
  by (auto simp: nearest_ref_def split: list.splits)

text \<open>The tally: every status has the number of its votes, and the winner has the most.\<close>

lemma cast_vote_best:
  assumes "bestVotes v = votes v (bestStatus v)" and "\<And>k. votes v k \<le> bestVotes v"
  shows "bestVotes (cast_vote x v) = votes (cast_vote x v) (bestStatus (cast_vote x v))"
    and "votes (cast_vote x v) k \<le> bestVotes (cast_vote x v)"
    and "bestStatus (cast_vote x v) \<in> {x, bestStatus v}"
  using assms(1) assms(2) [of k] assms(2) [of x] by (auto simp: cast_vote_def Let_def)

lemma fold_votes:
  defines "run ks \<equiv> fold cast_vote ks start_votes"
  shows "votes (run ks) k = int (count_if ((=) k) ks)" (is "?tally ks")
    and "ks \<noteq> [] \<Longrightarrow> bestStatus (run ks) \<in> set ks \<and>
      bestVotes (run ks) = votes (run ks) (bestStatus (run ks)) \<and>
      (\<forall>k. votes (run ks) k \<le> bestVotes (run ks))"
proof -
  show tally: "votes (run ks) k = int (count_if ((=) k) ks)" for ks k
    unfolding run_def
    by (induction ks rule: rev_induct) (auto simp: start_votes_def cast_vote_def Let_def count_if_def)
  show "ks \<noteq> [] \<Longrightarrow> bestStatus (run ks) \<in> set ks \<and>
      bestVotes (run ks) = votes (run ks) (bestStatus (run ks)) \<and>
      (\<forall>k. votes (run ks) k \<le> bestVotes (run ks))"
  proof (induction ks rule: rev_induct)
    case (snoc x xs)
    show ?case
    proof (cases "xs = []")
      case True
      then show ?thesis by (simp add: run_def cast_vote_def start_votes_def Let_def)
    next
      case False
      with snoc have ih: "bestStatus (run xs) \<in> set xs"
        "bestVotes (run xs) = votes (run xs) (bestStatus (run xs))"
        "\<forall>k. votes (run xs) k \<le> bestVotes (run xs)" by blast+
      have run: "run (xs @ [x]) = cast_vote x (run xs)" by (simp add: run_def)
      note best = cast_vote_best [OF ih(2) spec [OF ih(3)], of x]
      from best(1) best(2) best(3) ih(1) show ?thesis unfolding run by auto
    qed
  qed simp
qed

subsection \<open>Outcomes of the classification\<close>

lemma count_votes_default:
  "\<exists>ks. those (map (nearest_ref (numberRefs DEFAULT_COLOR_PROFILE)) ps) = Some ks \<and>
     set ks \<subseteq> {C1, C2, C3, C4, C5, C6, C7, C8}"
proof -
  let ?refs = "numberRefs DEFAULT_COLOR_PROFILE"
  have "those (map (nearest_ref ?refs) ps) = Some (map (the \<circ> nearest_ref ?refs) ps)"
    by (rule those_map_total) (rule nearest_ref_total, simp add: DEFAULT_COLOR_PROFILE_def)
  moreover have "the (nearest_ref ?refs p) \<in> {C1, C2, C3, C4, C5, C6, C7, C8}" for p
  proof -
    obtain k where k: "nearest_ref ?refs p = Some k"
      using nearest_ref_total [of ?refs p] by (auto simp: DEFAULT_COLOR_PROFILE_def)
    then obtain col where "(k, col) \<in> set ?refs" by (rule nearest_ref_spec)
    with k show ?thesis by (auto simp: DEFAULT_COLOR_PROFILE_def)
  qed
  ultimately show ?thesis by auto
qed

lemma classify_default:
  assumes "wf_pixels ps w h"
  obtains st dg where "classifyCell ps w h DEFAULT_COLOR_PROFILE = Some (st, dg)"
    and "st \<noteq> UNKNOWN" and "st \<in> {FLAG, INITIAL} \<longleftrightarrow> cd_beveled dg"
proof -
  let ?pr = DEFAULT_COLOR_PROFILE and ?c = "centerRegion w h"
  obtain border inner red where sc:
    "scan ps w (border_coords w h (bevelBorderMargin ?pr)) = Some border"
    "scan ps w (center_coords ?c) = Some inner" "borderRedness ps w h ?c = Some red"
    using scans_defined [OF assms] by blast
  let ?gl = "filter (is_glyph ?pr) inner"
  obtain ks where ks: "those (map (nearest_ref (numberRefs ?pr)) ?gl) = Some ks"
    "set ks \<subseteq> {C1, C2, C3, C4, C5, C6, C7, C8}"
    using count_votes_default [of ?gl] by blast
  have win: "bestStatus (fold cast_vote ks start_votes) \<in> {C1, C2, C3, C4, C5, C6, C7, C8}"
    if "8 \<le> length ?gl"
  proof -
    have "ks \<noteq> []" using that length_those [OF ks(1)] by auto
    with fold_votes(2) ks(2) show ?thesis by blast
  qed
  let ?bev = "bevelWhiteMinPixels ?pr \<le> count_if (is_white ?pr) border"
  show thesis
  proof (cases ?bev)
    case True
    with sc show thesis
      by (intro that) (auto simp: classifyCell_def Let_def split: if_splits)
  next
    case False
    show thesis
    proof (cases "minePixelThreshold ?pr \<le> count_if (is_black ?pr) inner")
      case True
      show thesis
        by (rule that, use sc False True in \<open>simp add: classifyCell_def Let_def\<close>)
           (use False in \<open>simp_all split: if_splits\<close>)
    next
      case sparse: False
      show thesis
      proof (cases "length ?gl < minGlyphPixels ?pr")
        case True
        show thesis
          by (rule that, use sc False sparse True in \<open>simp add: classifyCell_def Let_def\<close>)
             (use False in simp_all)
      next
        case many: False
        then have "8 \<le> length ?gl" by (simp add: DEFAULT_COLOR_PROFILE_def)
        from win [OF this]
        have st: "bestStatus (fold cast_vote ks start_votes) \<notin> {UNKNOWN, FLAG, INITIAL}"
          by fastforce
        show thesis
          by (rule that, use sc False sparse many ks(1) in
                \<open>simp add: classifyCell_def Let_def count_votes_def\<close>)
             (use st False in simp_all)
      qed
    qed
  qed
qed

text \<open>A digit painted in its reference colour on the background.\<close>

definition painted_digit :: "rgb list \<Rightarrow> int \<Rightarrow> int \<Rightarrow> rgb \<Rightarrow> bool" where
  "painted_digit ps w h col \<longleftrightarrow>
     (let pr = DEFAULT_COLOR_PROFILE in
      \<exists>border inner.
        scan ps w (border_coords w h (bevelBorderMargin pr)) = Some border \<and>
        scan ps w (center_coords (centerRegion w h)) = Some inner \<and>
        count_if (is_white pr) border < 8 \<and>
        set inner \<subseteq> {background pr, col} \<and>
        8 \<le> count_if ((=) col) inner \<and> count_if ((=) col) inner < 80)"

lemma default_refs_checked:
  "list_all (\<lambda>(n, col). is_glyph DEFAULT_COLOR_PROFILE col \<and>
      nearest_ref (numberRefs DEFAULT_COLOR_PROFILE) col = Some n) (numberRefs DEFAULT_COLOR_PROFILE)"
  "\<not> is_glyph DEFAULT_COLOR_PROFILE (background DEFAULT_COLOR_PROFILE)"
  "\<not> is_black DEFAULT_COLOR_PROFILE (background DEFAULT_COLOR_PROFILE)"
  by code_simp+

lemma default_ref_facts:
  assumes "(n, col) \<in> set (numberRefs DEFAULT_COLOR_PROFILE)"
  shows "is_glyph DEFAULT_COLOR_PROFILE col" "nearest_ref (numberRefs DEFAULT_COLOR_PROFILE) col = Some n"
  using default_refs_checked(1) assms by (auto simp: list_all_iff)

lemma count_if_mono: "(\<And>x. x \<in> set xs \<Longrightarrow> P x \<Longrightarrow> Q x) \<Longrightarrow> count_if P xs \<le> count_if Q xs"
  unfolding count_if_def by (induction xs) auto

lemma fold_same_votes:
  assumes "ks \<noteq> []" and "set ks \<subseteq> {n}"
  shows "bestStatus (fold cast_vote ks start_votes) = n"
  using fold_votes(2) [OF assms(1)] assms(2) by blast

lemma painted_digit_classified:
  assumes "wf_pixels ps w h" and "(n, col) \<in> set (numberRefs DEFAULT_COLOR_PROFILE)"
    and "painted_digit ps w h col"
  shows "map_option fst (classifyCell ps w h DEFAULT_COLOR_PROFILE) = Some n"
proof -
  let ?pr = DEFAULT_COLOR_PROFILE and ?c = "centerRegion w h"
  note ref = default_ref_facts [OF assms(2)]
  obtain border inner where sc:
    "scan ps w (border_coords w h (bevelBorderMargin ?pr)) = Some border"
    "scan ps w (center_coords ?c) = Some inner"
    and white: "count_if (is_white ?pr) border < 8"
    and two: "set inner \<subseteq> {background ?pr, col}"
    and n: "8 \<le> count_if ((=) col) inner" "count_if ((=) col) inner < 80"
    using assms(3) unfolding painted_digit_def Let_def by auto
  obtain red where red: "borderRedness ps w h ?c = Some red"
    using scans_defined(3) [OF assms(1)] by blast
  let ?gl = "filter (is_glyph ?pr) inner"
  have gl: "?gl = filter ((=) col) inner"
    by (rule filter_cong) (use two ref default_refs_checked in auto)
  have "count_if (is_black ?pr) inner \<le> count_if ((=) col) inner"
    by (rule count_if_mono) (use two ref default_refs_checked in auto)
  with n(2) have black: "count_if (is_black ?pr) inner < 80" by simp
  have ks: "map (nearest_ref (numberRefs ?pr)) ?gl = map Some (map (\<lambda>_. n) ?gl)"
    unfolding gl using ref(2) by auto
  have len: "8 \<le> length ?gl" using n(1) by (simp add: gl count_if_def)
  then have "map (\<lambda>_. n) ?gl \<noteq> []" by auto
  then have "bestStatus (fold cast_vote (map (\<lambda>_. n) ?gl) start_votes) = n"
    by (rule fold_same_votes) auto
  moreover have "those (map (nearest_ref (numberRefs ?pr)) ?gl) = Some (map (\<lambda>_. n) ?gl)"
    using ks by (simp add: those_Some_iff)
  ultimately have "count_votes (numberRefs ?pr) ?gl = Some (fold cast_vote (map (\<lambda>_. n) ?gl) start_votes)"
    "bestStatus (fold cast_vote (map (\<lambda>_. n) ?gl) start_votes) = n"
    by (simp_all add: count_votes_def)
  moreover have "\<not> bevelWhiteMinPixels ?pr \<le> count_if (is_white ?pr) border"
    "\<not> minePixelThreshold ?pr \<le> count_if (is_black ?pr) inner"
    "\<not> length ?gl < minGlyphPixels ?pr"
    using white black len by (simp_all add: DEFAULT_COLOR_PROFILE_def)
  ultimately show ?thesis
    using sc red by (simp add: classifyCell_def Let_def)
qed

section \<open>Properties\<close>

text \<open>A digit painted in its reference colour on the plain background is recognized as that digit:
  no white in the border ring, at least 8 and fewer than 80 digit pixels in the centre (so that a
  black 7 is not taken for a mine).\<close>
lemma painted_digit_recognized:
  assumes "wf_pixels ps w h" and "(n, col) \<in> set (numberRefs DEFAULT_COLOR_PROFILE)"
    and "painted_digit ps w h col"
  shows "\<exists>dg. classifyCell ps w h DEFAULT_COLOR_PROFILE = Some (n, dg)"
  using painted_digit_classified [OF assms] by auto

text \<open>Classification with the default profile is defined on every full pixel buffer, never answers
  \<open>UNKNOWN\<close>, and answers an unopened cell (\<open>INITIAL\<close> or \<open>FLAG\<close>) exactly when the border shows the
  white bevel: a revealed cell is never taken for an unopened one by its glyph.\<close>
lemma unopened_iff_beveled:
  assumes "wf_pixels ps w h"
  shows "\<exists>st dg border. classifyCell ps w h DEFAULT_COLOR_PROFILE = Some (st, dg) \<and> st \<noteq> UNKNOWN \<and>
     scan ps w (border_coords w h 4) = Some border \<and>
     (st \<in> {FLAG, INITIAL} \<longleftrightarrow> 8 \<le> count_if (is_white DEFAULT_COLOR_PROFILE) border)"
proof -
  obtain st dg where cl: "classifyCell ps w h DEFAULT_COLOR_PROFILE = Some (st, dg)"
    "st \<noteq> UNKNOWN" "st \<in> {FLAG, INITIAL} \<longleftrightarrow> cd_beveled dg"
    using classify_default [OF assms] by blast
  obtain border where b: "scan ps w (border_coords w h 4) = Some border"
    using scans_defined(1) [OF assms] by blast
  have "cd_beveled dg \<longleftrightarrow> 8 \<le> count_if (is_white DEFAULT_COLOR_PROFILE) border"
  proof -
    have p: "bevelBorderMargin DEFAULT_COLOR_PROFILE = 4" "bevelWhiteMinPixels DEFAULT_COLOR_PROFILE = 8"
      by (simp_all add: DEFAULT_COLOR_PROFILE_def)
    from cl(1) b show ?thesis
      by (auto simp: classifyCell_def Let_def p split: Option.bind_splits if_splits)
  qed
  with cl b show ?thesis by blast
qed

end
