(* ===== verification/Board_Counter.thy ===== *)
theory Board_Counter
  imports Board_Pixels Complex_Main
begin

text \<open>
  \<open>counter.ts\<close>: the three-digit LED mine counter. A segment is lit when more than the profile's
  share of its core is red; a lit set spells a glyph or nothing. The share is a quotient of two
  pixel counts, kept as a rational. \<open>Number\<close> of the minus glyph is \<open>NaN\<close>, and \<open>NaN\<close> spreads
  through the sum as in JavaScript.
\<close>

section \<open>Profile\<close>

datatype segment_id = SegA | SegB | SegC | SegD | SegE | SegF | SegG

record segment_core =
  sx0 :: int
  sx1 :: int
  sy0 :: int
  sy1 :: int

record counter_profile =
  cellOrigins :: "(int \<times> int) list"
  segments :: "segment_id \<Rightarrow> segment_core"
  redMinR :: int
  redMaxG :: int
  redMaxB :: int
  segmentOnRatio :: rat

fun default_segment :: "segment_id \<Rightarrow> segment_core" where
  "default_segment SegA = \<lparr>sx0 = 2, sx1 = 19, sy0 = 0, sy1 = 1\<rparr>"
| "default_segment SegG = \<lparr>sx0 = 2, sx1 = 19, sy0 = 20, sy1 = 21\<rparr>"
| "default_segment SegD = \<lparr>sx0 = 2, sx1 = 19, sy0 = 40, sy1 = 41\<rparr>"
| "default_segment SegF = \<lparr>sx0 = 0, sx1 = 5, sy0 = 4, sy1 = 17\<rparr>"
| "default_segment SegB = \<lparr>sx0 = 16, sx1 = 21, sy0 = 4, sy1 = 17\<rparr>"
| "default_segment SegE = \<lparr>sx0 = 0, sx1 = 5, sy0 = 24, sy1 = 37\<rparr>"
| "default_segment SegC = \<lparr>sx0 = 16, sx1 = 21, sy0 = 24, sy1 = 37\<rparr>"

definition DEFAULT_COUNTER_PROFILE :: counter_profile where
  "DEFAULT_COUNTER_PROFILE =
     \<lparr>cellOrigins = [(38, 126), (64, 126), (90, 126)], segments = default_segment,
      redMinR = 150, redMaxG = 80, redMaxB = 80, segmentOnRatio = 1 / 2\<rparr>"

definition SEGMENT_IDS :: "segment_id list" where
  "SEGMENT_IDS = [SegA, SegB, SegC, SegD, SegE, SegF, SegG]"

section \<open>Glyphs\<close>

datatype glyph = Digit nat | Minus

definition GLYPH_TABLE :: "(segment_id list \<times> glyph) list" where
  "GLYPH_TABLE =
     [([SegA, SegB, SegC, SegD, SegE, SegF], Digit 0),
      ([SegB, SegC], Digit 1),
      ([SegA, SegB, SegD, SegE, SegG], Digit 2),
      ([SegA, SegB, SegC, SegD, SegG], Digit 3),
      ([SegB, SegC, SegF, SegG], Digit 4),
      ([SegA, SegC, SegD, SegF, SegG], Digit 5),
      ([SegA, SegC, SegD, SegE, SegF, SegG], Digit 6),
      ([SegA, SegB, SegC], Digit 7),
      ([SegA, SegB, SegC, SegD, SegE, SegF, SegG], Digit 8),
      ([SegA, SegB, SegC, SegD, SegF, SegG], Digit 9),
      ([SegG], Minus)]"

section \<open>Decoding\<close>

text \<open>One position of a core: outside the image it counts, but is not red.\<close>

definition core_pixel :: "decoded_image \<Rightarrow> counter_profile \<Rightarrow> int \<Rightarrow> int \<Rightarrow> bool option" where
  "core_pixel img pr px py =
     (if px < 0 \<or> px \<ge> img_width img \<or> py < 0 \<or> py \<ge> img_height img then Some False
      else do {
        p \<leftarrow> getRGB (img_data img) (img_width img) px py;
        Some (rgb_r p \<ge> redMinR pr \<and> rgb_g p \<le> redMaxG pr \<and> rgb_b p \<le> redMaxB pr)
      })"

definition isSegmentOn ::
  "decoded_image \<Rightarrow> int \<Rightarrow> int \<Rightarrow> segment_core \<Rightarrow> counter_profile \<Rightarrow> bool option" where
  "isSegmentOn img cellX cellY core pr =
     do {
       reds \<leftarrow> those [core_pixel img pr (cellX + dx) (cellY + dy).
                       dy \<leftarrow> [sy0 core..sy1 core], dx \<leftarrow> [sx0 core..sx1 core]];
       let total = length reds;
       let redCount = length (filter (\<lambda>red. red) reds);
       if total = 0 then Some False
       else Some (of_nat redCount / of_nat total > segmentOnRatio pr)
     }"

definition decodeCell :: "decoded_image \<Rightarrow> int \<Rightarrow> int \<Rightarrow> counter_profile \<Rightarrow> glyph option option" where
  "decodeCell img cellX cellY pr =
     do {
       lit \<leftarrow> those (map (\<lambda>seg. isSegmentOn img cellX cellY (segments pr seg) pr) SEGMENT_IDS);
       Some (map_of GLYPH_TABLE (map fst (filter snd (zip SEGMENT_IDS lit))))
     }"

fun js_Number :: "glyph \<Rightarrow> js_number" where
  "js_Number (Digit d) = Num (int d)"
| "js_Number Minus = NaN"

fun js_times :: "int \<Rightarrow> js_number \<Rightarrow> js_number" where
  "js_times k NaN = NaN"
| "js_times k (Num n) = Num (k * n)"

fun js_plus :: "js_number \<Rightarrow> js_number \<Rightarrow> js_number" where
  "js_plus (Num m) (Num n) = Num (m + n)"
| "js_plus _ _ = NaN"

text \<open>
  The value of three glyphs; \<open>-0\<close> is kept as \<open>0\<close>, from which no comparison of the source tells
  it apart. A profile with another number of cells reads \<open>undefined\<close> and is not modelled.
\<close>

definition counter_value :: "glyph \<Rightarrow> glyph \<Rightarrow> glyph \<Rightarrow> js_number" where
  "counter_value g0 g1 g2 =
     (if g0 = Minus then js_times (- 1) (js_plus (js_times 10 (js_Number g1)) (js_Number g2))
      else js_plus (js_plus (js_times 100 (js_Number g0)) (js_times 10 (js_Number g1)))
                   (js_Number g2))"

definition decodeMineCounter :: "decoded_image \<Rightarrow> counter_profile \<Rightarrow> mine_counter option" where
  "decodeMineCounter img pr =
     do {
       glyphs \<leftarrow> those (map (\<lambda>(x, y). decodeCell img x y pr) (cellOrigins pr));
       (if list_ex (\<lambda>g. g = None) glyphs then Some Undecoded
        else case glyphs of
               [Some g0, Some g1, Some g2] \<Rightarrow> Some (Decoded (counter_value g0 g1 g2))
             | _ \<Rightarrow> None)
     }"

section \<open>Lemmas\<close>

text \<open>What the LED shows for a value: three digits, or a minus and two.\<close>

definition led_glyphs :: "int \<Rightarrow> glyph \<times> glyph \<times> glyph" where
  "led_glyphs v =
     (if v < 0 then (Minus, Digit (nat (- v) div 10), Digit (nat (- v) mod 10))
      else (Digit (nat v div 100), Digit (nat v div 10 mod 10), Digit (nat v mod 10)))"

lemma counter_value_led:
  assumes "led_glyphs v = (g0, g1, g2)"
  shows "counter_value g0 g1 g2 = Num v"
proof (cases "v < 0")
  case True
  have "10 * int (nat (- v) div 10) + int (nat (- v) mod 10) = - v"
    using True by (simp add: zdiv_int zmod_int)
  with assms True show ?thesis by (auto simp: led_glyphs_def counter_value_def)
next
  case False
  have "100 * int (nat v div 100) + 10 * int (nat v div 10 mod 10) + int (nat v mod 10) = v"
  proof -
    have "nat v div 100 = nat v div 10 div 10" by (simp add: div_mult2_eq [symmetric])
    then have "100 * (nat v div 100) + 10 * (nat v div 10 mod 10) + nat v mod 10 = nat v"
      using div_mult_mod_eq [of "nat v" 10] div_mult_mod_eq [of "nat v div 10" 10] by linarith
    then have "int (100 * (nat v div 100) + 10 * (nat v div 10 mod 10) + nat v mod 10) = v"
      using False by simp
    then show ?thesis by (simp only: of_nat_add of_nat_mult of_nat_numeral)
  qed
  with assms False show ?thesis by (auto simp: led_glyphs_def counter_value_def)
qed

lemma led_glyphs_digits:
  assumes "- 99 \<le> v" and "v \<le> 999" and "led_glyphs v = (g0, g1, g2)"
  shows "g1 \<noteq> Minus" "g2 \<noteq> Minus" "\<And>d. Digit d \<in> {g0, g1, g2} \<Longrightarrow> d < 10"
proof -
  have "nat v < 1000" "nat (- v) < 100" using assms(1,2) by linarith+
  then have "nat v div 100 < 10" "nat v div 10 mod 10 < 10" "nat (- v) div 10 < 10" by simp_all
  moreover from assms(3) have
    "(g0, g1, g2) = (if v < 0 then (Minus, Digit (nat (- v) div 10), Digit (nat (- v) mod 10))
      else (Digit (nat v div 100), Digit (nat v div 10 mod 10), Digit (nat v mod 10)))"
    unfolding led_glyphs_def by simp
  ultimately show "g1 \<noteq> Minus" "g2 \<noteq> Minus" "\<And>d. Digit d \<in> {g0, g1, g2} \<Longrightarrow> d < 10"
    by (cases "v < 0"; fastforce)+
qed

text \<open>The segments of a glyph; the table reads them back, and no two glyphs share them.\<close>

fun glyph_segments :: "glyph \<Rightarrow> segment_id list" where
  "glyph_segments Minus = [SegG]"
| "glyph_segments (Digit d) =
     (case map_of (map (\<lambda>(ks, g). (g, ks)) GLYPH_TABLE) (Digit d) of Some ks \<Rightarrow> ks | None \<Rightarrow> [])"

lemma glyph_table_roundtrip:
  assumes "g = Minus \<or> (\<exists>d < 10. g = Digit d)"
  shows "map_of GLYPH_TABLE (filter (\<lambda>s. s \<in> set (glyph_segments g)) SEGMENT_IDS) = Some g"
proof -
  have "list_all (\<lambda>g. map_of GLYPH_TABLE (filter (\<lambda>s. s \<in> set (glyph_segments g)) SEGMENT_IDS) = Some g)
      (Minus # map Digit [0..<10])"
    by code_simp
  with assms show ?thesis by (auto simp: list_all_iff)
qed

text \<open>An image shows glyph \<open>g\<close> at a cell when exactly the segments of \<open>g\<close> are lit.\<close>

definition shows_glyph :: "decoded_image \<Rightarrow> counter_profile \<Rightarrow> int \<times> int \<Rightarrow> glyph \<Rightarrow> bool" where
  "shows_glyph img pr origin g \<longleftrightarrow>
     (\<forall>seg. isSegmentOn img (fst origin) (snd origin) (segments pr seg) pr =
            Some (seg \<in> set (glyph_segments g)))"

lemma map_fst_filter_snd: "map fst (filter snd (zip xs (map P xs))) = filter P xs"
  by (induction xs) auto

lemma decodeCell_shown:
  assumes "shows_glyph img pr (x, y) g" and "g = Minus \<or> (\<exists>d < 10. g = Digit d)"
  shows "decodeCell img x y pr = Some (Some g)"
proof -
  have "those (map (\<lambda>seg. isSegmentOn img x y (segments pr seg) pr) SEGMENT_IDS) =
      Some (map (\<lambda>seg. seg \<in> set (glyph_segments g)) SEGMENT_IDS)"
    using assms(1) by (simp add: those_Some_iff shows_glyph_def)
  then show ?thesis
    using glyph_table_roundtrip [OF assms(2)] by (simp add: decodeCell_def map_fst_filter_snd)
qed

lemma decodeMineCounter_shown:
  assumes "- 99 \<le> v" and "v \<le> 999" and "led_glyphs v = (g0, g1, g2)"
    and "cellOrigins pr = [o0, o1, o2]"
    and "shows_glyph img pr o0 g0" "shows_glyph img pr o1 g1" "shows_glyph img pr o2 g2"
  shows "decodeMineCounter img pr = Some (Decoded (Num v))"
proof -
  have "g = Minus \<or> (\<exists>d < 10. g = Digit d)" if "g \<in> {g0, g1, g2}" for g
    using led_glyphs_digits [OF assms(1-3)] that by (cases g) auto
  then have "decodeCell img (fst o0) (snd o0) pr = Some (Some g0)"
    "decodeCell img (fst o1) (snd o1) pr = Some (Some g1)"
    "decodeCell img (fst o2) (snd o2) pr = Some (Some g2)"
    using decodeCell_shown assms(5-7) by (metis insertCI prod.collapse)+
  then have "those (map (\<lambda>(x, y). decodeCell img x y pr) (cellOrigins pr)) =
      Some [Some g0, Some g1, Some g2]"
    unfolding assms(4) by (simp add: those_Some_iff case_prod_unfold)
  then show ?thesis
    using counter_value_led [OF assms(3)] by (simp add: decodeMineCounter_def)
qed

text \<open>A minus sign anywhere but in front decodes to \<open>NaN\<close>, not to \<open>Undecoded\<close>.\<close>

lemma counter_value_NaN: "counter_value g0 g1 g2 = NaN \<longleftrightarrow> g1 = Minus \<or> g2 = Minus"
  by (cases g0; cases g1; cases g2) (auto simp: counter_value_def)

text \<open>Decoding is defined on every decoded image of a plausible size.\<close>

lemma those_total: "(\<And>x. x \<in> set xs \<Longrightarrow> x \<noteq> None) \<Longrightarrow> those xs \<noteq> None"
proof (induction xs)
  case (Cons x xs)
  then have "x \<noteq> None" "those xs \<noteq> None" by auto
  then show ?case by auto
qed simp

lemma decodeMineCounter_defined:
  assumes "wf_image img" and "img_width img * img_height img \<le> 2 ^ 29"
    and "length (cellOrigins pr) = 3"
  shows "decodeMineCounter img pr \<noteq> None"
proof -
  have px: "core_pixel img pr px py \<noteq> None" for px py
    using getRGB_defined [OF assms(1,2), of px py] by (auto simp: core_pixel_def Let_def)
  have seg: "isSegmentOn img x y core pr \<noteq> None" for x y core
  proof -
    have "those [core_pixel img pr (x + dx) (y + dy). dy \<leftarrow> [sy0 core..sy1 core], dx \<leftarrow> [sx0 core..sx1 core]] \<noteq> None"
      by (rule those_total) (use px in auto)
    then show ?thesis by (auto simp: isSegmentOn_def Let_def)
  qed
  have cell: "decodeCell img x y pr \<noteq> None" for x y
  proof -
    have "those (map (\<lambda>seg. isSegmentOn img x y (segments pr seg) pr) SEGMENT_IDS) \<noteq> None"
      by (rule those_total) (use seg in auto)
    then show ?thesis by (auto simp: decodeCell_def)
  qed
  have "those (map (\<lambda>(x, y). decodeCell img x y pr) (cellOrigins pr)) \<noteq> None"
    by (rule those_total) (use cell in auto)
  then obtain gs where gs: "those (map (\<lambda>(x, y). decodeCell img x y pr) (cellOrigins pr)) = Some gs"
    by auto
  with assms(3) have "length gs = 3" by (auto dest: length_those)
  then obtain a b c where "gs = [a, b, c]" by (auto simp: numeral_3_eq_3 length_Suc_conv)
  with gs show ?thesis by (cases a; cases b; cases c) (simp_all add: decodeMineCounter_def)
qed

section \<open>Properties\<close>

text \<open>A counter of three cells of one column of seven pixels each, and an image of it.\<close>

definition tiny_counter :: counter_profile where
  "tiny_counter = DEFAULT_COUNTER_PROFILE\<lparr>cellOrigins := [(0, 0), (1, 0), (2, 0)],
     segments := (\<lambda>seg. let k = (case seg of SegA \<Rightarrow> 0 | SegB \<Rightarrow> 1 | SegC \<Rightarrow> 2 | SegD \<Rightarrow> 3 | SegE \<Rightarrow> 4
                                 | SegF \<Rightarrow> 5 | SegG \<Rightarrow> 6)
                        in \<lparr>sx0 = 0, sx1 = 0, sy0 = k, sy1 = k\<rparr>)\<rparr>"

definition tiny_image :: "glyph list \<Rightarrow> decoded_image" where
  "tiny_image gs = \<lparr>img_width = 3, img_height = 7,
     img_data = concat (map (\<lambda>seg. concat (map (\<lambda>g.
       [if seg \<in> set (glyph_segments g) then 255 else 0, 0, 0, 255]) gs)) SEGMENT_IDS)\<rparr>"



end
