(* ===== verification/Game_Rules.thy ===== *)
theory Game_Rules
  imports Saolei_Board "HOL-Library.Log_Nat"
begin

text \<open>
  The rules behind the game runtime, \<open>common/js/dsh-plugins/saolei/game/src/game/board.ts\<close>, and
  the click geometry of \<open>geometry.ts\<close>: the status derivation, the strict move validation with
  its SKIP and STOP reasons, the per-game statistics and the remain tokens.
\<close>

section \<open>Click geometry (geometry.ts)\<close>

definition BOARD_ORIGIN_X_PX :: int where "BOARD_ORIGIN_X_PX = 24"

definition BOARD_ORIGIN_Y_PX_SCREENSHOT :: int where "BOARD_ORIGIN_Y_PX_SCREENSHOT = 200"

definition CHROME_OFFSET_Y_PX :: int where "CHROME_OFFSET_Y_PX = 96"

definition BOARD_ORIGIN_Y_PX :: int where
  "BOARD_ORIGIN_Y_PX = BOARD_ORIGIN_Y_PX_SCREENSHOT - CHROME_OFFSET_Y_PX"

definition CELL_SIZE_PX :: int where "CELL_SIZE_PX = 32"

definition center :: "int \<Rightarrow> int \<Rightarrow> int \<times> int" where
  "center x y =
     (BOARD_ORIGIN_X_PX + x * CELL_SIZE_PX + CELL_SIZE_PX div 2,
      BOARD_ORIGIN_Y_PX + y * CELL_SIZE_PX + CELL_SIZE_PX div 2)"

lemmas geometry_defs = BOARD_ORIGIN_X_PX_def BOARD_ORIGIN_Y_PX_SCREENSHOT_def
  CHROME_OFFSET_Y_PX_def BOARD_ORIGIN_Y_PX_def CELL_SIZE_PX_def center_def

section \<open>Operations, verdicts and reasons\<close>

datatype operation_type = Click | Flag | Chord

datatype move_rejection =
  NoActiveGame | OutOfBounds | GameOver | GameWon | CellAlreadyRevealed | CellIsFlagged |
  CannotFlagRevealed | ChordRequiresNumber | ChordNoUnrevealedNeighbor

datatype move_verdict = MoveOk | MoveRejected move_rejection

definition SKIP_REASONS :: "move_rejection set" where
  "SKIP_REASONS = {CellAlreadyRevealed, CellIsFlagged, CannotFlagRevealed, ChordRequiresNumber,
                   ChordNoUnrevealedNeighbor}"

definition STOP_REASONS :: "move_rejection set" where
  "STOP_REASONS = {OutOfBounds, NoActiveGame, GameOver, GameWon}"

definition REVEALED_NUMBERS :: "cell_status set" where
  "REVEALED_NUMBERS = {C0, C1, C2, C3, C4, C5, C6, C7, C8}"

definition CHORD_NUMBERS :: "cell_status set" where
  "CHORD_NUMBERS = {C1, C2, C3, C4, C5, C6, C7, C8}"

definition TERMINAL_CELLS :: "cell_status set" where
  "TERMINAL_CELLS = {HIT_MINE, MINE}"

definition NEIGHBOR_OFFSETS :: "(int \<times> int) list" where
  "NEIGHBOR_OFFSETS = [(-1, -1), (0, -1), (1, -1), (-1, 0), (1, 0), (-1, 1), (0, 1), (1, 1)]"

section \<open>Status\<close>

definition isTerminalState :: "game_state \<Rightarrow> bool" where
  "isTerminalState s = list_ex (list_ex (\<lambda>c. c \<in> TERMINAL_CELLS)) (grid s)"

datatype game_status = Won | Lost | Playing

definition gameStatus :: "game_state \<Rightarrow> game_status" where
  "gameStatus s = (if isTerminalState s then Lost else if isWin s then Won else Playing)"

section \<open>Statistics\<close>

text \<open>
  JavaScript numbers are IEEE doubles: \<open>fl\<close> rounds a positive rational to the nearest double,
  ties to even (the exponent range is never left here), \<open>Math.round\<close> rounds half up.
\<close>

definition round_half_even :: "rat \<Rightarrow> int" where
  "round_half_even x =
     (let f = \<lfloor>x\<rfloor>; r = x - of_int f
      in if r < 1 / 2 then f else if 1 / 2 < r then f + 1 else if even f then f else f + 1)"

definition fl :: "rat \<Rightarrow> rat" where
  "fl x =
     (if x \<le> 0 then 0
      else let (p, q) = quotient_of x;
               k = bitlen p - bitlen q - 53;
               e = (if 2 ^ 53 \<le> x * 2 powi (- k) then k + 1 else k)
           in of_int (round_half_even (x * 2 powi (- e))) * 2 powi e)"

definition math_round :: "rat \<Rightarrow> int" where
  "math_round x = \<lfloor>x + 1 / 2\<rfloor>"

datatype avg_ops = Avg rat | NotAvailable

record game_stats =
  st_operationCount :: nat
  st_operationsByType :: "operation_type \<Rightarrow> nat"
  st_correctFlags :: "js_number option"
  st_avgOpsPerMine :: avg_ops

definition count_cells :: "cell_status \<Rightarrow> game_state \<Rightarrow> nat" where
  "count_cells c s = sum_list (map (\<lambda>row. length (filter (\<lambda>d. d = c) row)) (grid s))"

definition computeGameStats ::
  "game_state option \<Rightarrow> game_state \<Rightarrow> nat \<Rightarrow> (operation_type \<Rightarrow> nat) \<Rightarrow> game_stats" where
  "computeGameStats initSt finalSt n byType =
     (let correctFlags =
            (case Option.bind initSt mineCounter of
               Some (Decoded NaN) \<Rightarrow> Some NaN
             | Some (Decoded (Num totalMines)) \<Rightarrow>
                 Some (Num (totalMines - int (count_cells MINE finalSt)
                            - int (count_cells HIT_MINE finalSt)))
             | _ \<Rightarrow> None);
          avg =
            (case correctFlags of
               Some (Num f) \<Rightarrow>
                 (if 0 < f
                  then Avg (fl (of_int (math_round (fl (fl (of_nat n / of_int f) * 100))) / 100))
                  else NotAvailable)
             | _ \<Rightarrow> NotAvailable)
      in \<lparr>st_operationCount = n, st_operationsByType = byType,
          st_correctFlags = correctFlags, st_avgOpsPerMine = avg\<rparr>)"

section \<open>Move validation\<close>

definition neighbors :: "game_state \<Rightarrow> int \<Rightarrow> int \<Rightarrow> cell_status list" where
  "neighbors s x y =
     [cell_at s (x + dx) (y + dy). (dx, dy) \<leftarrow> NEIGHBOR_OFFSETS,
        0 \<le> x + dx \<and> 0 \<le> y + dy \<and> x + dx < gwidth s \<and> y + dy < gheight s]"

definition hasInitialOrUnknownNeighbor :: "game_state \<Rightarrow> int \<Rightarrow> int \<Rightarrow> bool" where
  "hasInitialOrUnknownNeighbor s x y =
     list_ex (\<lambda>c. c = INITIAL \<or> c = UNKNOWN) (neighbors s x y)"

definition validateMove :: "game_state \<Rightarrow> operation_type \<Rightarrow> int \<Rightarrow> int \<Rightarrow> move_verdict" where
  "validateMove s tool x y =
     (if x < 0 \<or> y < 0 \<or> x \<ge> gwidth s \<or> y \<ge> gheight s then MoveRejected OutOfBounds
      else if isTerminalState s then MoveRejected GameOver
      else if isWin s then MoveRejected GameWon
      else let cell = cell_at s x y in
        if cell = UNKNOWN then MoveOk
        else (case tool of
          Click \<Rightarrow>
            (if cell \<in> REVEALED_NUMBERS then MoveRejected CellAlreadyRevealed
             else if cell = FLAG then MoveRejected CellIsFlagged
             else MoveOk)
        | Flag \<Rightarrow>
            (if cell \<in> REVEALED_NUMBERS then MoveRejected CannotFlagRevealed else MoveOk)
        | Chord \<Rightarrow>
            (if cell \<notin> CHORD_NUMBERS then MoveRejected ChordRequiresNumber
             else if \<not> hasInitialOrUnknownNeighbor s x y then
               MoveRejected ChordNoUnrevealedNeighbor
             else MoveOk)))"

section \<open>Remain tokens\<close>

fun cell_number :: "cell_status \<Rightarrow> int" where
  "cell_number C1 = 1"
| "cell_number C2 = 2"
| "cell_number C3 = 3"
| "cell_number C4 = 4"
| "cell_number C5 = 5"
| "cell_number C6 = 6"
| "cell_number C7 = 7"
| "cell_number C8 = 8"
| "cell_number _ = 0"

definition remainTokenAt :: "game_state \<Rightarrow> int \<Rightarrow> int \<Rightarrow> jstr" where
  "remainTokenAt s x y =
     (let cell = cell_at s x y in
      if cell \<in> CHORD_NUMBERS then
        str_of_int (cell_number cell - int (length (filter (\<lambda>c. c = FLAG) (neighbors s x y))))
      else js ''-'')"

section \<open>Lemmas\<close>

subsection \<open>Status\<close>

lemma isTerminalState_iff: "isTerminalState s \<longleftrightarrow> HIT_MINE \<in> cells s \<or> MINE \<in> cells s"
  by (auto simp: isTerminalState_def list_ex_iff cells_iff TERMINAL_CELLS_def)

lemma isWin_not_terminal: "isWin s \<Longrightarrow> \<not> isTerminalState s"
  by (auto simp: isWin_iff isTerminalState_iff)

lemma gameStatus_iff:
  "gameStatus s = Lost \<longleftrightarrow> isTerminalState s"
  "gameStatus s = Won \<longleftrightarrow> isWin s"
  "gameStatus s = Playing \<longleftrightarrow> \<not> isTerminalState s \<and> \<not> isWin s"
  using isWin_not_terminal by (auto simp: gameStatus_def)

lemma skip_stop_partition:
  "SKIP_REASONS \<union> STOP_REASONS = UNIV" "SKIP_REASONS \<inter> STOP_REASONS = {}"
proof -
  have "r \<in> SKIP_REASONS \<union> STOP_REASONS" for r
    by (cases r) (simp_all add: SKIP_REASONS_def STOP_REASONS_def)
  then show "SKIP_REASONS \<union> STOP_REASONS = UNIV" by blast
  show "SKIP_REASONS \<inter> STOP_REASONS = {}" by (simp add: SKIP_REASONS_def STOP_REASONS_def)
qed

subsection \<open>Neighbors\<close>

text \<open>The Moore neighborhood, as a set of positions of the board.\<close>

definition moore :: "game_state \<Rightarrow> int \<Rightarrow> int \<Rightarrow> (int \<times> int) set" where
  "moore s x y = {(x', y'). in_board s x' y' \<and> (x', y') \<noteq> (x, y) \<and> \<bar>x' - x\<bar> \<le> 1 \<and> \<bar>y' - y\<bar> \<le> 1}"

definition offset_ok :: "game_state \<Rightarrow> int \<Rightarrow> int \<Rightarrow> int \<times> int \<Rightarrow> bool" where
  "offset_ok s x y = (\<lambda>(dx, dy). 0 \<le> x + dx \<and> 0 \<le> y + dy \<and> x + dx < gwidth s \<and> y + dy < gheight s)"

lemma neighbors_map:
  "neighbors s x y =
     map (\<lambda>(dx, dy). cell_at s (x + dx) (y + dy)) (filter (offset_ok s x y) NEIGHBOR_OFFSETS)"
  unfolding neighbors_def concat_map_if [symmetric]
  by (intro arg_cong [where f = concat] map_cong)
     (auto simp: offset_ok_def split: if_splits)

lemma moore_offsets:
  "moore s x y = (\<lambda>(dx, dy). (x + dx, y + dy)) ` {d \<in> set NEIGHBOR_OFFSETS. offset_ok s x y d}"
proof -
  have offs: "(a, b) \<in> set NEIGHBOR_OFFSETS \<longleftrightarrow> (a, b) \<noteq> (0, 0) \<and> \<bar>a\<bar> \<le> 1 \<and> \<bar>b\<bar> \<le> 1" for a b
  proof
    assume "(a, b) \<in> set NEIGHBOR_OFFSETS"
    then show "(a, b) \<noteq> (0, 0) \<and> \<bar>a\<bar> \<le> 1 \<and> \<bar>b\<bar> \<le> 1"
      unfolding NEIGHBOR_OFFSETS_def list.set insert_iff prod.inject by (elim disjE) simp_all
  next
    assume ab: "(a, b) \<noteq> (0, 0) \<and> \<bar>a\<bar> \<le> 1 \<and> \<bar>b\<bar> \<le> 1"
    then have "a = -1 \<or> a = 0 \<or> a = 1" and "b = -1 \<or> b = 0 \<or> b = 1" by auto
    with ab show "(a, b) \<in> set NEIGHBOR_OFFSETS"
      unfolding NEIGHBOR_OFFSETS_def by (elim disjE) simp_all
  qed
  show ?thesis
  proof (intro set_eqI iffI)
    fix p
    assume "p \<in> moore s x y"
    then have "(fst p - x, snd p - y) \<in> {d \<in> set NEIGHBOR_OFFSETS. offset_ok s x y d}"
      by (auto simp: offs offset_ok_def moore_def in_board_def)
    then show "p \<in> (\<lambda>(dx, dy). (x + dx, y + dy)) ` {d \<in> set NEIGHBOR_OFFSETS. offset_ok s x y d}"
      by (rule rev_image_eqI) simp
  qed (auto simp: offs offset_ok_def moore_def in_board_def)
qed

lemma set_neighbors: "set (neighbors s x y) = (\<lambda>p. cell_at s (fst p) (snd p)) ` moore s x y"
  unfolding moore_offsets by (auto simp: neighbors_map image_image case_prod_unfold)

lemma count_neighbors:
  "length (filter P (neighbors s x y)) = card {p \<in> moore s x y. P (cell_at s (fst p) (snd p))}"
proof -
  let ?f = "\<lambda>(dx, dy). (x + dx, y + dy)" and ?D = "{d \<in> set NEIGHBOR_OFFSETS. offset_ok s x y d}"
  let ?Q = "\<lambda>p. P (cell_at s (fst p) (snd p))"
  have "distinct NEIGHBOR_OFFSETS" by (simp add: NEIGHBOR_OFFSETS_def)
  then have len: "length (filter R NEIGHBOR_OFFSETS) = card {d \<in> set NEIGHBOR_OFFSETS. R d}" for R
    by (simp add: distinct_card [symmetric] flip: set_filter)
  have "length (filter P (neighbors s x y)) = card {d \<in> ?D. ?Q (?f d)}"
    by (simp add: neighbors_map filter_map o_def case_prod_unfold len conj_ac)
  also have "\<dots> = card (?f ` {d \<in> ?D. ?Q (?f d)})"
    by (rule card_image [symmetric]) (auto intro: inj_onI)
  also have "?f ` {d \<in> ?D. ?Q (?f d)} = {p \<in> moore s x y. ?Q p}"
    unfolding moore_offsets by auto
  finally show ?thesis .
qed

lemma length_neighbors: "length (neighbors s x y) \<le> 8"
proof -
  have "length (neighbors s x y) \<le> length NEIGHBOR_OFFSETS" by (simp add: neighbors_map)
  then show ?thesis by (simp add: NEIGHBOR_OFFSETS_def)
qed

subsection \<open>Legal moves\<close>

text \<open>The abstract rule: what the target cell must allow, with the neighborhood as a set.\<close>

definition target_allows :: "game_state \<Rightarrow> operation_type \<Rightarrow> int \<Rightarrow> int \<Rightarrow> bool" where
  "target_allows s tool x y \<longleftrightarrow>
     (let c = cell_at s x y in
      c = UNKNOWN \<or>
      (case tool of
         Click \<Rightarrow> c \<notin> REVEALED_NUMBERS \<and> c \<noteq> FLAG
       | Flag \<Rightarrow> c \<notin> REVEALED_NUMBERS
       | Chord \<Rightarrow> c \<in> CHORD_NUMBERS \<and>
           (\<exists>p \<in> moore s x y. cell_at s (fst p) (snd p) \<in> {INITIAL, UNKNOWN})))"

lemma hasInitialOrUnknownNeighbor_iff:
  "hasInitialOrUnknownNeighbor s x y \<longleftrightarrow>
     (\<exists>p \<in> moore s x y. cell_at s (fst p) (snd p) \<in> {INITIAL, UNKNOWN})"
proof -
  have "hasInitialOrUnknownNeighbor s x y \<longleftrightarrow> (\<exists>c \<in> set (neighbors s x y). c = INITIAL \<or> c = UNKNOWN)"
    by (simp add: hasInitialOrUnknownNeighbor_def list_ex_iff)
  then show ?thesis unfolding set_neighbors by simp
qed

lemma validateMove_MoveOk:
  "validateMove s tool x y = MoveOk \<longleftrightarrow>
     in_board s x y \<and> gameStatus s = Playing \<and> target_allows s tool x y"
  unfolding gameStatus_iff
  by (cases tool)
     (auto simp: validateMove_def in_board_def target_allows_def hasInitialOrUnknownNeighbor_iff Let_def)

lemma validateMove_reason:
  assumes "validateMove s tool x y = MoveRejected r"
  shows "\<not> in_board s x y \<Longrightarrow> r = OutOfBounds"
    and "in_board s x y \<Longrightarrow> gameStatus s = Lost \<Longrightarrow> r = GameOver"
    and "in_board s x y \<Longrightarrow> gameStatus s = Won \<Longrightarrow> r = GameWon"
    and "in_board s x y \<Longrightarrow> gameStatus s = Playing \<Longrightarrow> r \<in> SKIP_REASONS"
proof -
  show "\<not> in_board s x y \<Longrightarrow> r = OutOfBounds"
    using assms by (auto simp: validateMove_def in_board_def split: if_splits)
  show "in_board s x y \<Longrightarrow> gameStatus s = Lost \<Longrightarrow> r = GameOver"
    using assms by (auto simp: validateMove_def in_board_def gameStatus_iff)
  show "in_board s x y \<Longrightarrow> gameStatus s = Won \<Longrightarrow> r = GameWon"
    using assms isWin_not_terminal [of s] by (auto simp: validateMove_def in_board_def gameStatus_iff)
  assume "in_board s x y" "gameStatus s = Playing"
  with assms show "r \<in> SKIP_REASONS"
    by (cases tool)
       (auto simp: validateMove_def in_board_def gameStatus_iff SKIP_REASONS_def Let_def split: if_splits)
qed

lemma validateMove_not_NoActiveGame: "validateMove s tool x y \<noteq> MoveRejected NoActiveGame"
  by (cases tool) (simp_all add: validateMove_def Let_def)

subsection \<open>Remain tokens\<close>

text \<open>The number minus the flags in the Moore neighborhood, between -8 and 8.\<close>

definition remain_value :: "game_state \<Rightarrow> int \<Rightarrow> int \<Rightarrow> int" where
  "remain_value s x y =
     cell_number (cell_at s x y) - int (card {p \<in> moore s x y. cell_at s (fst p) (snd p) = FLAG})"

lemma remainTokenAt_value:
  "cell_at s x y \<in> CHORD_NUMBERS \<Longrightarrow> remainTokenAt s x y = str_of_int (remain_value s x y)"
  by (simp add: remainTokenAt_def remain_value_def count_neighbors)

lemma cell_number_bounds: "c \<in> CHORD_NUMBERS \<Longrightarrow> 1 \<le> cell_number c \<and> cell_number c \<le> 8"
  by (auto simp: CHORD_NUMBERS_def)

lemma remain_value_bounds:
  assumes "cell_at s x y \<in> CHORD_NUMBERS"
  shows "- 7 \<le> remain_value s x y" and "remain_value s x y \<le> 8"
proof -
  have "length (filter (\<lambda>c. c = FLAG) (neighbors s x y)) \<le> 8"
    using length_filter_le length_neighbors le_trans by blast
  then have "card {p \<in> moore s x y. cell_at s (fst p) (snd p) = FLAG} \<le> 8"
    by (simp add: count_neighbors)
  with cell_number_bounds [OF assms] show "- 7 \<le> remain_value s x y" "remain_value s x y \<le> 8"
    by (auto simp: remain_value_def)
qed

subsection \<open>Rounding\<close>

lemma round_half_even_error: "\<bar>of_int (round_half_even x) - x\<bar> \<le> 1 / 2"
proof -
  have "of_int \<lfloor>x\<rfloor> \<le> x" "x < of_int \<lfloor>x\<rfloor> + 1" by linarith+
  then show ?thesis by (auto simp: round_half_even_def Let_def abs_le_iff)
qed

lemma bitlen_ratio:
  assumes "0 < p" and "0 < q"
  shows "2 powi (bitlen p - bitlen q - 1) < (of_int p / of_int q :: rat)"
proof -
  have p: "2 powi (bitlen p - 1) \<le> (of_int p :: rat)"
  proof -
    have "2 ^ nat (bitlen p - 1) \<le> p" using bitlen_bounds [OF assms(1)] by simp
    then have "(2 :: rat) ^ nat (bitlen p - 1) \<le> of_int p"
      by (metis of_int_le_iff of_int_numeral of_int_power)
    moreover have "0 \<le> bitlen p - 1" using assms(1) bitlen_nonneg [of p] bitlen_eq_zero_iff [of p] by linarith
    ultimately show ?thesis by (simp add: power_int_def)
  qed
  have q: "(of_int q :: rat) < 2 powi (bitlen q)"
  proof -
    have "q < 2 ^ nat (bitlen q)" using bitlen_bounds [OF assms(2)] by simp
    then have "(of_int q :: rat) < 2 ^ nat (bitlen q)"
      by (metis of_int_less_iff of_int_numeral of_int_power)
    then show ?thesis by (simp add: power_int_def bitlen_nonneg)
  qed
  have "2 powi (bitlen p - bitlen q - 1) = (2 powi (bitlen p - 1) / 2 powi (bitlen q) :: rat)"
    by (simp add: power_int_diff [symmetric] algebra_simps)
  also have "\<dots> < of_int p / of_int q"
    using p q assms by (intro frac_less2) auto
  finally show ?thesis .
qed

lemma fl_error:
  assumes "0 \<le> x"
  shows "\<bar>fl x - x\<bar> \<le> x / 2 ^ 53"
proof (cases "x = 0")
  case True
  then show ?thesis by (simp add: fl_def)
next
  case False
  with assms have pos: "0 < x" by simp
  obtain p q where pq: "quotient_of x = (p, q)" by (cases "quotient_of x")
  then have q: "0 < q" and x: "x = of_int p / of_int q"
    using quotient_of_denom_pos quotient_of_div by auto
  with pos have p: "0 < p" by (simp add: zero_less_divide_iff)
  define k where "k = bitlen p - bitlen q - 53"
  define e where "e = (if 2 ^ 53 \<le> x * 2 powi (- k) then k + 1 else k)"
  define m where "m = x * 2 powi (- e)"
  have fl: "fl x = of_int (round_half_even m) * 2 powi e"
    using pos by (simp add: fl_def pq k_def e_def m_def Let_def)
  have x_m: "x = m * 2 powi e" by (simp add: m_def power_int_minus)
  have "2 powi (52 + k) < x"
    using bitlen_ratio [OF p q] by (simp add: x k_def algebra_simps)
  then have "2 powi 52 < x * 2 powi (- k)"
    by (simp add: power_int_add power_int_minus field_simps)
  then have "2 ^ 52 \<le> m"
    unfolding m_def e_def by (auto simp: power_int_add power_int_diff field_simps power_int_minus)
  then have "1 / 2 * 2 powi e \<le> m / 2 ^ 53 * 2 powi e"
    by (intro mult_right_mono) auto
  moreover have "\<bar>fl x - x\<bar> = \<bar>of_int (round_half_even m) - m\<bar> * 2 powi e"
  proof -
    have "fl x - x = (of_int (round_half_even m) - m) * 2 powi e"
      using fl x_m by (simp add: left_diff_distrib)
    then show ?thesis by (simp add: abs_mult)
  qed
  ultimately show ?thesis
    using mult_right_mono [OF round_half_even_error [of m], of "2 powi e"]
    using x_m by simp
qed

lemma math_round_error: "\<bar>of_int (math_round x) - x\<bar> \<le> 1 / 2"
proof -
  have "of_int \<lfloor>x + 1 / 2\<rfloor> \<le> x + 1 / 2" "x + 1 / 2 < of_int \<lfloor>x + 1 / 2\<rfloor> + 1" by linarith+
  then show ?thesis unfolding math_round_def abs_le_iff by linarith
qed

lemma rounding_chain:
  fixes a b c d r :: rat
  assumes "\<bar>a - r\<bar> \<le> r / 9007199254740992" "\<bar>b - a * 100\<bar> \<le> a * 100 / 9007199254740992"
    "\<bar>c - b / 100\<bar> \<le> 1 / 200" "\<bar>d - c\<bar> \<le> c / 9007199254740992" "0 \<le> r"
  shows "\<bar>d - r\<bar> \<le> 1 / 200 + (r + 1) / 1125899906842624"
proof -
  have a: "a - r \<le> r / 9007199254740992" "r - a \<le> r / 9007199254740992" using assms(1) by linarith+
  have b: "b - a * 100 \<le> a * 100 / 9007199254740992" "a * 100 - b \<le> a * 100 / 9007199254740992" using assms(2) by linarith+
  have c: "c - b / 100 \<le> 1 / 200" "b / 100 - c \<le> 1 / 200" using assms(3) by linarith+
  have d: "d - c \<le> c / 9007199254740992" "c - d \<le> c / 9007199254740992" using assms(4) by linarith+
  have a2: "a \<le> 2 * r" using a assms(5) by linarith
  have b2: "b \<le> 300 * r" using b a2 assms(5) by linarith
  have c2: "c \<le> 3 * r + 1" using c b2 by linarith
  have "d - r \<le> 1 / 200 + (c + a + r) / 9007199254740992"
    and "r - d \<le> 1 / 200 + (c + a + r) / 9007199254740992"
    using a b c d by (simp_all add: add_divide_distrib)
  moreover have "(c + a + r) / 9007199254740992 \<le> (8 * (r + 1)) / 9007199254740992"
    using a2 c2 assms(5) by (intro divide_right_mono) auto
  moreover have "(8 * (r + 1)) / 9007199254740992 = (r + 1) / 1125899906842624" by simp
  ultimately show ?thesis by linarith
qed
text \<open>The statistic is the quotient, rounded to two decimals up to the error of doubles.\<close>

lemma avg_error:
  fixes r :: rat
  assumes "0 \<le> r"
  shows "\<bar>fl (of_int (math_round (fl (fl r * 100))) / 100) - r\<bar> \<le> 1 / 200 + (r + 1) / 2 ^ 50"
proof -
  let ?a = "fl r" and ?b = "fl (fl r * 100)"
  let ?c = "of_int (math_round ?b) / 100 :: rat"
  have fl: "\<bar>fl x - x\<bar> \<le> x / 9007199254740992" if "0 \<le> x" for x
    using fl_error [OF that] by simp
  have a: "\<bar>?a - r\<bar> \<le> r / 9007199254740992" using assms by (rule fl)
  then have a0: "0 \<le> ?a" and a2: "?a \<le> 2 * r" using assms unfolding abs_le_iff by linarith+
  then have b: "\<bar>?b - ?a * 100\<bar> \<le> ?a * 100 / 9007199254740992" by (intro fl) simp
  then have b0: "0 \<le> ?b" using a0 unfolding abs_le_iff by linarith
  have c: "\<bar>?c - ?b / 100\<bar> \<le> 1 / 200"
    using math_round_error [of ?b] unfolding abs_le_iff by linarith
  have c0: "0 \<le> ?c" using b0 by (simp add: math_round_def)
  then have d: "\<bar>fl ?c - ?c\<bar> \<le> ?c / 9007199254740992" by (rule fl)
  have "\<bar>fl ?c - r\<bar> \<le> 1 / 200 + (r + 1) / 1125899906842624"
    by (rule rounding_chain [OF a b c d assms])
  then show ?thesis by simp
qed

section \<open>Properties\<close>

text \<open>C9: The strict validation accepts exactly the legal moves: the target lies on the board, the
  game is neither lost nor won, and the cell allows the operation -- an unrevealed unflagged cell
  for a click, an unrevealed one for a flag, a number with an unrevealed cell in its Moore
  neighborhood for a chord, anything for an unrecognized cell.\<close>
theorem validation_is_the_rules:
  "validateMove s tool x y = MoveOk \<longleftrightarrow>
     in_board s x y \<and> \<not> (HIT_MINE \<in> cells s \<or> MINE \<in> cells s) \<and>
     \<not> (cells s \<subseteq> {C0, C1, C2, C3, C4, C5, C6, C7, C8, FLAG} \<and>
        mineCounter s = Some (Decoded (Num 0))) \<and>
     target_allows s tool x y"
  unfolding validateMove_MoveOk gameStatus_iff isTerminalState_iff isWin_iff by simp

text \<open>The remain token of a number cell is, in decimal, the number minus the flags in its Moore
  neighborhood, a value between -7 and 8.\<close>
lemma remain_token_counts_flags:
  assumes "cell_at s x y \<in> CHORD_NUMBERS"
  shows "remainTokenAt s x y = str_of_int (cell_number (cell_at s x y) -
           int (card {(i, j). in_board s i j \<and> (i, j) \<noteq> (x, y) \<and> \<bar>i - x\<bar> \<le> 1 \<and> \<bar>j - y\<bar> \<le> 1 \<and>
                              cell_at s i j = FLAG})) \<and>
         cell_number (cell_at s x y) -
           int (card {(i, j). in_board s i j \<and> (i, j) \<noteq> (x, y) \<and> \<bar>i - x\<bar> \<le> 1 \<and> \<bar>j - y\<bar> \<le> 1 \<and>
                              cell_at s i j = FLAG}) \<in> {- 7..8}"
proof -
  have "{p \<in> moore s x y. cell_at s (fst p) (snd p) = FLAG} =
      {(i, j). in_board s i j \<and> (i, j) \<noteq> (x, y) \<and> \<bar>i - x\<bar> \<le> 1 \<and> \<bar>j - y\<bar> \<le> 1 \<and> cell_at s i j = FLAG}"
    by (auto simp: moore_def)
  with remainTokenAt_value [OF assms] remain_value_bounds [OF assms] show ?thesis
    by (simp add: remain_value_def)
qed

text \<open>The end-of-game statistics: the correct flags are the initial counter minus the mines left on
  the final board, \<open>null\<close> when the counter was undecoded; and when they are positive the average
  is within half of a hundredth (plus the rounding of doubles) of operations per correct flag, when they
  are not it is \<open>N/A\<close>.\<close>
lemma stats_follow_the_counter:
  "(let st = computeGameStats initSt fin n by; left = count_cells MINE fin + count_cells HIT_MINE fin in
    st_operationCount st = n \<and> st_operationsByType st = by \<and>
    (case Option.bind initSt mineCounter of
       Some (Decoded (Num m)) \<Rightarrow>
         st_correctFlags st = Some (Num (m - int left)) \<and>
         (if 0 < m - int left
          then \<exists>a. st_avgOpsPerMine st = Avg a \<and>
            \<bar>a - of_nat n / of_int (m - int left)\<bar> \<le> 1 / 200 + (of_nat n / of_int (m - int left) + 1) / 2 ^ 50
          else st_avgOpsPerMine st = NotAvailable)
     | Some (Decoded NaN) \<Rightarrow> st_correctFlags st = Some NaN \<and> st_avgOpsPerMine st = NotAvailable
     | _ \<Rightarrow> st_correctFlags st = None \<and> st_avgOpsPerMine st = NotAvailable))"
proof (cases "Option.bind initSt mineCounter")
  case None
  then show ?thesis by (simp add: computeGameStats_def Let_def)
next
  case (Some c)
  show ?thesis
  proof (cases c)
    case Undecoded
    with Some show ?thesis by (simp add: computeGameStats_def Let_def)
  next
    case (Decoded v)
    show ?thesis
    proof (cases v)
      case NaN
      with Some Decoded show ?thesis by (simp add: computeGameStats_def Let_def)
    next
      case (Num m)
      let ?f = "m - int (count_cells MINE fin) - int (count_cells HIT_MINE fin)"
      have "0 \<le> (of_nat n / of_int ?f :: rat)" if "0 < ?f" using that by simp
      from avg_error [OF this] show ?thesis
        using Some Decoded Num by (simp add: computeGameStats_def Let_def algebra_simps)
    qed
  qed
qed

end
