(* ===== verification/Game_Text.thy ===== *)
theory Game_Text
  imports Game_Rules
begin

text \<open>
  The model-visible result texts of \<open>common/js/dsh-plugins/saolei/game/src/game/text.ts\<close>, and
  the data of \<open>runtime.ts\<close> they read (operations, the terminal record). A text is its code
  units.
\<close>

section \<open>Data of the runtime (runtime.ts)\<close>

record cell_operation =
  op_type :: operation_type
  op_x :: int
  op_y :: int

text \<open>A batch stops with the reason of a rejection or with the status that ended the game.\<close>

datatype stopped_reason = RejectedFor move_rejection | EndedWith game_status

record game_event_record =
  ev_status :: game_status
  ev_stats :: game_stats
  ev_endedAt :: int

section \<open>Wire names\<close>

fun type_name :: "operation_type \<Rightarrow> jstr" where
  "type_name Click = js ''click''"
| "type_name Flag = js ''flag''"
| "type_name Chord = js ''chord''"

fun status_name :: "game_status \<Rightarrow> jstr" where
  "status_name Won = js ''won''"
| "status_name Lost = js ''lost''"
| "status_name Playing = js ''playing''"

fun reason_name :: "move_rejection \<Rightarrow> jstr" where
  "reason_name NoActiveGame = js ''no_active_game''"
| "reason_name OutOfBounds = js ''out_of_bounds''"
| "reason_name GameOver = js ''game_over''"
| "reason_name GameWon = js ''game_won''"
| "reason_name CellAlreadyRevealed = js ''cell_already_revealed''"
| "reason_name CellIsFlagged = js ''cell_is_flagged''"
| "reason_name CannotFlagRevealed = js ''cannot_flag_revealed''"
| "reason_name ChordRequiresNumber = js ''chord_requires_number''"
| "reason_name ChordNoUnrevealedNeighbor = js ''chord_no_unrevealed_neighbor''"

fun stopped_name :: "stopped_reason option \<Rightarrow> jstr" where
  "stopped_name None = js ''null''"
| "stopped_name (Some (RejectedFor r)) = reason_name r"
| "stopped_name (Some (EndedWith st)) = status_name st"

section \<open>Result texts (text.ts)\<close>

definition INIT_OUTCOME :: jstr where
  "INIT_OUTCOME = js ''new game started''"

definition REJECT_PREFIX :: jstr where
  "REJECT_PREFIX = js ''rejected:''"

definition UNRECOGNIZABLE_OUTCOME :: jstr where
  "UNRECOGNIZABLE_OUTCOME = js ''unable to recognize board''"

definition REMAIN_OUTCOME :: jstr where
  "REMAIN_OUTCOME = js ''saolei_remain '' @ [0x2192] @ js '' computed''"

definition REMAIN_LEGEND :: jstr where
  "REMAIN_LEGEND =
     js ''legend: each value = mines still unmarked around that number '' @
     js ''cell = cell number '' @ [0x2212] @ js '' adjacent flags (0 or negative when '' @
     js ''over-flagged); it is NOT the count of flags. Columns are x and '' @
     js ''rows are y '' @ [0x2014] @ js '' the same (x, y) as saolei_operate.''"

definition status_line :: "game_state \<Rightarrow> jstr" where
  "status_line s = js ''game status: '' @ status_name (gameStatus s)"

definition initSuccessText :: "game_state \<Rightarrow> jstr" where
  "initSuccessText s = INIT_OUTCOME @ [10] @ status_line s @ [10, 10] @ renderBoardText s"

definition operateResultText ::
  "nat \<Rightarrow> nat \<Rightarrow> game_state \<Rightarrow> cell_operation option \<Rightarrow> stopped_reason option \<Rightarrow> jstr" where
  "operateResultText executed skipped s stoppedOp stoppedReason =
     (let line =
        (case stoppedOp of
           Some op \<Rightarrow>
             js ''saolei_operate '' @ [0x2192] @ js '' stopped at '' @ type_name (op_type op) @
             js ''('' @ str_of_int (op_x op) @ js '','' @ str_of_int (op_y op) @ js '') ('' @ stopped_name stoppedReason @ js '')''
         | None \<Rightarrow>
             (if 0 < skipped then
                js ''saolei_operate '' @ [0x2192] @ js '' executed '' @ str_of_nat executed @
                js '' ops, skipped '' @ str_of_nat skipped @ js '' no-op ops''
              else js ''saolei_operate '' @ [0x2192] @ js '' executed '' @ str_of_nat executed @ js '' ops''))
      in line @ [10] @ status_line s @ [10, 10] @ renderBoardText s)"

definition rejectionText :: "move_rejection \<Rightarrow> game_state option \<Rightarrow> jstr" where
  "rejectionText reason st =
     (case st of
        None \<Rightarrow>
          REJECT_PREFIX @ js '' '' @ reason_name reason @ [10, 10] @
          js ''call saolei_init first to start a game.''
      | Some s \<Rightarrow>
          REJECT_PREFIX @ js '' '' @ reason_name reason @ [10] @ status_line s @ [10, 10] @
          renderBoardText s @ [10] @
          js ''valid range: x 0..'' @ str_of_int (gwidth s - 1) @
          js '', y 0..'' @ str_of_int (gheight s - 1))"

definition unrecognizableText :: jstr where
  "unrecognizableText =
     UNRECOGNIZABLE_OUTCOME @ [10, 10] @ js ''call saolei_init to start a new game.''"

definition remainText :: "game_state \<Rightarrow> jstr" where
  "remainText s =
     REMAIN_OUTCOME @ [10] @ status_line s @ [10, 10] @
     js ''board size '' @ str_of_int (gwidth s) @ js ''*'' @ str_of_int (gheight s) @ [10] @
     REMAIN_LEGEND @ [10, 10] @
     renderGridWithRuler (gwidth s) (gheight s) (remainTokenAt s)"

definition gameStatsText :: "game_event_record \<Rightarrow> jstr" where
  "gameStatsText r =
     (let result = (if ev_status r = Won then [0x80DC, 0x5229] else [0x5931, 0x8D25]);
          n = st_operationsByType (ev_stats r)
      in [0x672C, 0x5C40, 0x6E38, 0x620F, 0x7ED3, 0x675F, 0xFF1A] @ result @ [0x3002, 10] @
         [0x672C, 0x5C40, 0x5171, 0x6267, 0x884C] @ js '' '' @ str_of_nat (st_operationCount (ev_stats r)) @
         js '' '' @ [0x4E2A, 0x64CD, 0x4F5C, 0xFF1A] @ js ''click '' @ str_of_nat (n Click) @
         js '' '' @ [0x6B21, 0x3001] @ js ''flag '' @ str_of_nat (n Flag) @
         js '' '' @ [0x6B21, 0x3001] @ js ''chord '' @ str_of_nat (n Chord) @
         js '' '' @ [0x6B21, 0x3002])"

lemmas text_defs [js_text] = INIT_OUTCOME_def REJECT_PREFIX_def UNRECOGNIZABLE_OUTCOME_def
  REMAIN_OUTCOME_def REMAIN_LEGEND_def

section \<open>Lemmas\<close>

lemma status_name_inj [simp]: "status_name a = status_name b \<longleftrightarrow> a = b"
  by (cases a; cases b) simp_all

lemma reason_name_inj [simp]: "reason_name a = reason_name b \<longleftrightarrow> a = b"
  by (cases a; cases b) simp_all

lemma type_name_inj [simp]: "type_name a = type_name b \<longleftrightarrow> a = b"
  by (cases a; cases b) simp_all

end
