(* ===== verification/Game_Runtime.thy ===== *)
theory Game_Runtime
  imports Game_Text
begin

text \<open>
  The per-game runtime of \<open>common/js/dsh-plugins/saolei/game/src/game/runtime.ts\<close>. The private
  fields of the class are the record \<open>game_runtime\<close>; the injected collaborators are the record
  \<open>runtime_deps\<close> of functions over a world \<open>'w\<close> (desktop, recognition engine, subscriber and
  clock), each returning the world it leaves. A rejected promise or a throw is \<open>None\<close>. Calls are
  sequential, as the tools make them: abort signals and overlapping calls are not modelled.
  The locale \<open>board_engine\<close> states what the runtime relies on of its recognition engine.
\<close>

section \<open>Collaborators\<close>

datatype wire_flow_part =
  KeyboardPress jstr
| MouseMoveAndClick int int jstr jstr

datatype result_status = SUCCEEDED | FAILED | UNSPECIFIED

text \<open>\<open>OperationResult\<close>: the base64 data of the screenshot is absent when no screenshot came.\<close>

record operation_result =
  res_status :: result_status
  res_message :: jstr
  res_data :: "jstr option"

record game_log_entry =
  log_tool :: jstr
  log_operations :: "cell_operation list option"
  log_state :: game_state
  log_status :: game_status

record 'w runtime_deps =
  dispatch :: "wire_flow_part \<Rightarrow> 'w \<Rightarrow> operation_result option \<times> 'w"
  board_init :: "bytes \<Rightarrow> 'w \<Rightarrow> game_state option \<times> 'w"
  board_update :: "bytes \<Rightarrow> 'w \<Rightarrow> game_state option \<times> 'w"
  from_base64 :: "jstr \<Rightarrow> bytes"
  onBoardChange :: "(game_log_entry \<Rightarrow> 'w \<Rightarrow> bool \<times> 'w) option"
  date_now :: "'w \<Rightarrow> int"

section \<open>State and outcomes\<close>

definition KEY_F2 :: jstr where
  "KEY_F2 = js ''KEYBOARD_KEY_F2''"

definition WINDOW_MESSAGE :: jstr where
  "WINDOW_MESSAGE = js ''MOUSE_INPUT_METHOD_WINDOW_MESSAGE''"

fun OPERATION_ACTIONS :: "operation_type \<Rightarrow> jstr" where
  "OPERATION_ACTIONS Click = js ''MOUSE_CLICK_ACTION_LEFT_CLICK''"
| "OPERATION_ACTIONS Flag = js ''MOUSE_CLICK_ACTION_RIGHT_CLICK''"
| "OPERATION_ACTIONS Chord = js ''MOUSE_CLICK_ACTION_LEFT_RIGHT_PRESS''"

text \<open>A text outcome carries the \<open>concludesTurn\<close> marker.\<close>

datatype tool_outcome = TextOutcome jstr bool | ErrorOutcome jstr

definition concludeMarker :: "game_state \<Rightarrow> bool" where
  "concludeMarker s = (let status = gameStatus s in status = Won \<or> status = Lost)"

record game_runtime =
  recognized :: "game_state option"
  initState :: "game_state option"
  operationCount :: nat
  operationsByType :: "operation_type \<Rightarrow> nat"
  gameLog :: "game_log_entry list"
  gameEvent :: "game_event_record option"

definition new_runtime :: game_runtime where
  "new_runtime = \<lparr>recognized = None, initState = None, operationCount = 0,
     operationsByType = (\<lambda>_. 0), gameLog = [], gameEvent = None\<rparr>"

datatype op_execution =
  ExOk game_state game_status
| ExSkip move_rejection
| ExStop move_rejection
| ExDispatchFailed jstr
| ExUnrecognizable
| ExThrew

section \<open>Operations\<close>

text \<open>
  \<open>recognize\<close>: an absent or empty payload, or a recognizer that throws, invalidates the state.
\<close>

definition recognize ::
  "'w runtime_deps \<Rightarrow> operation_result \<Rightarrow> (bytes \<Rightarrow> 'w \<Rightarrow> game_state option \<times> 'w) \<Rightarrow>
   game_runtime \<times> 'w \<Rightarrow> game_state option \<times> (game_runtime \<times> 'w)" where
  "recognize d result recognizer = (\<lambda>(rt, w).
     (case res_data result of
        None \<Rightarrow> (None, rt\<lparr>recognized := None\<rparr>, w)
      | Some data \<Rightarrow>
          if data = [] then (None, rt\<lparr>recognized := None\<rparr>, w)
          else (case recognizer (from_base64 d data) w of
                  (Some s, w') \<Rightarrow> (Some s, rt\<lparr>recognized := Some s\<rparr>, w')
                | (None, w') \<Rightarrow> (None, rt\<lparr>recognized := None\<rparr>, w'))))"

definition init ::
  "'w runtime_deps \<Rightarrow> game_runtime \<times> 'w \<Rightarrow> tool_outcome option \<times> (game_runtime \<times> 'w)" where
  "init d = (\<lambda>(rt, w).
     (case dispatch d (KeyboardPress KEY_F2) w of
        (None, w') \<Rightarrow> (None, rt, w')
      | (Some result, w') \<Rightarrow>
          if res_status result = FAILED then (Some (ErrorOutcome (res_message result)), rt, w')
          else (case recognize d result (board_init d) (rt, w') of
                  (None, s) \<Rightarrow> (Some (TextOutcome unrecognizableText False), s)
                | (Some st, (rt', w'')) \<Rightarrow>
                    (Some (TextOutcome (initSuccessText st) (concludeMarker st)),
                     rt'\<lparr>initState := Some st, operationCount := 0, operationsByType := (\<lambda>_. 0),
                         gameLog := [\<lparr>log_tool = js ''saolei_init'', log_operations = None,
                                      log_state = st, log_status = Playing\<rparr>]\<rparr>, w''))))"

definition op_part :: "cell_operation \<Rightarrow> wire_flow_part" where
  "op_part op =
     (let (xPx, yPx) = center (op_x op) (op_y op)
      in MouseMoveAndClick xPx yPx (OPERATION_ACTIONS (op_type op)) WINDOW_MESSAGE)"

definition executeOperation ::
  "'w runtime_deps \<Rightarrow> cell_operation \<Rightarrow> game_runtime \<times> 'w \<Rightarrow> op_execution \<times> (game_runtime \<times> 'w)" where
  "executeOperation d op = (\<lambda>(rt, w).
     (case recognized rt of
        None \<Rightarrow> (ExStop NoActiveGame, rt, w)
      | Some cur \<Rightarrow>
          (case validateMove cur (op_type op) (op_x op) (op_y op) of
             MoveRejected reason \<Rightarrow>
               (if reason \<in> SKIP_REASONS then ExSkip reason else ExStop reason, rt, w)
           | MoveOk \<Rightarrow>
               (case dispatch d (op_part op) w of
                  (None, w') \<Rightarrow> (ExThrew, rt, w')
                | (Some result, w') \<Rightarrow>
                    if res_status result = FAILED then
                      (ExDispatchFailed (res_message result), rt, w')
                    else (case recognize d result (board_update d) (rt, w') of
                            (None, s) \<Rightarrow> (ExUnrecognizable, s)
                          | (Some st, (rt', w'')) \<Rightarrow>
                              (ExOk st (gameStatus st),
                               rt'\<lparr>operationCount := operationCount rt' + 1,
                                   operationsByType := (operationsByType rt')
                                     (op_type op := operationsByType rt' (op_type op) + 1)\<rparr>,
                               w''))))))"

text \<open>The local variables of \<open>operate\<close>'s loop; the loop ends with them or with an early return.\<close>

record batch =
  executed :: nat
  skipped :: nat
  stoppedOp :: "cell_operation option"
  stoppedReason :: "stopped_reason option"
  endedStatus :: "game_status option"

definition empty_batch :: batch where
  "empty_batch = \<lparr>executed = 0, skipped = 0, stoppedOp = None, stoppedReason = None,
                  endedStatus = None\<rparr>"

fun run_batch ::
  "'w runtime_deps \<Rightarrow> cell_operation list \<Rightarrow> batch \<Rightarrow> game_runtime \<times> 'w \<Rightarrow>
   (tool_outcome option + batch) \<times> (game_runtime \<times> 'w)" where
  "run_batch d [] b s = (Inr b, s)"
| "run_batch d (op # ops) b s =
     (case executeOperation d op s of
        (ExOk st status, s') \<Rightarrow>
          (let b' = b\<lparr>executed := executed b + 1\<rparr> in
           if status \<noteq> Playing then
             (Inr (b'\<lparr>endedStatus := Some status, stoppedOp := Some op,
                      stoppedReason := Some (EndedWith status)\<rparr>), s')
           else run_batch d ops b' s')
      | (ExSkip reason, s') \<Rightarrow> run_batch d ops (b\<lparr>skipped := skipped b + 1\<rparr>) s'
      | (ExStop reason, s') \<Rightarrow>
          (Inr (b\<lparr>stoppedOp := Some op, stoppedReason := Some (RejectedFor reason)\<rparr>), s')
      | (ExDispatchFailed message, s') \<Rightarrow> (Inl (Some (ErrorOutcome message)), s')
      | (ExUnrecognizable, s') \<Rightarrow> (Inl (Some (TextOutcome unrecognizableText False)), s')
      | (ExThrew, s') \<Rightarrow> (Inl None, s'))"

text \<open>The tail of \<open>operate\<close>: log entry, board-change event, terminal record, result.\<close>

definition publish_change ::
  "'w runtime_deps \<Rightarrow> batch \<Rightarrow> game_log_entry \<Rightarrow> 'w \<Rightarrow> bool \<times> 'w" where
  "publish_change d b entry w =
     (case onBoardChange d of
        Some f \<Rightarrow> if 0 < executed b \<and> log_status entry = Playing then f entry w else (True, w)
      | None \<Rightarrow> (True, w))"

definition conclude_game :: "'w runtime_deps \<Rightarrow> batch \<Rightarrow> game_state \<Rightarrow> game_runtime \<times> 'w \<Rightarrow> game_runtime" where
  "conclude_game d b finalState = (\<lambda>(rt, w).
     (case endedStatus b of
        None \<Rightarrow> rt
      | Some status \<Rightarrow>
          rt\<lparr>gameEvent := Some
               \<lparr>ev_status = status,
                ev_stats = computeGameStats (initState rt) finalState (operationCount rt)
                             (operationsByType rt),
                ev_endedAt = date_now d w\<rparr>,
             gameLog := gameLog rt @
               [\<lparr>log_tool = js ''(game-end)'', log_operations = None, log_state = finalState,
                 log_status = status\<rparr>]\<rparr>))"

definition finish_batch ::
  "'w runtime_deps \<Rightarrow> cell_operation list \<Rightarrow> batch \<Rightarrow> game_runtime \<times> 'w \<Rightarrow>
   tool_outcome option \<times> (game_runtime \<times> 'w)" where
  "finish_batch d operations b = (\<lambda>(rt, w).
     (case recognized rt of
        None \<Rightarrow> (Some (TextOutcome (rejectionText NoActiveGame None) False), rt, w)
      | Some finalState \<Rightarrow>
          (let entry = \<lparr>log_tool = js ''saolei_operate'', log_operations = Some operations,
                        log_state = finalState, log_status = gameStatus finalState\<rparr>;
               rt1 = rt\<lparr>gameLog := gameLog rt @ [entry]\<rparr>
           in case publish_change d b entry w of
                (False, w') \<Rightarrow> (None, rt1, w')
              | (True, w') \<Rightarrow>
                  (Some (TextOutcome
                     (operateResultText (executed b) (skipped b) finalState (stoppedOp b)
                        (stoppedReason b))
                     (concludeMarker finalState)),
                   conclude_game d b finalState (rt1, w'), w'))))"

text \<open>The dual-form input: one operation or a batch.\<close>

datatype operate_input = Single cell_operation | Batch "cell_operation list"

fun input_operations :: "operate_input \<Rightarrow> cell_operation list" where
  "input_operations (Single op) = [op]"
| "input_operations (Batch ops) = ops"

definition operate ::
  "'w runtime_deps \<Rightarrow> operate_input \<Rightarrow> game_runtime \<times> 'w \<Rightarrow>
   tool_outcome option \<times> (game_runtime \<times> 'w)" where
  "operate d input s =
     (let operations = input_operations input in
      if operations = [] then
        (Some (case recognized (fst s) of
                 None \<Rightarrow> TextOutcome (rejectionText NoActiveGame None) False
               | Some st \<Rightarrow> TextOutcome (operateResultText 0 0 st None None) (concludeMarker st)), s)
      else
        (case run_batch d operations empty_batch s of
           (Inl out, s') \<Rightarrow> (out, s')
         | (Inr b, s') \<Rightarrow> finish_batch d operations b s'))"

definition remain :: "game_runtime \<Rightarrow> tool_outcome" where
  "remain rt =
     (case recognized rt of
        None \<Rightarrow> TextOutcome (rejectionText NoActiveGame None) False
      | Some s \<Rightarrow> TextOutcome (remainText s) False)"

definition peekGameEvent :: "game_runtime \<Rightarrow> game_event_record option" where
  "peekGameEvent rt = gameEvent rt"

definition peekGameLog :: "game_runtime \<Rightarrow> game_log_entry list" where
  "peekGameLog rt = gameLog rt"

section \<open>What one operation does\<close>

text \<open>The six outcomes of \<open>executeOperation\<close>, each with the state it leaves.\<close>

lemma executeOperation_cases:
  assumes "executeOperation d op (rt, w) = (ex, rt', w')"
  obtains
    (inactive) "recognized rt = None" "ex = ExStop NoActiveGame" "rt' = rt" "w' = w"
  | (rejected) cur r where "recognized rt = Some cur"
      "validateMove cur (op_type op) (op_x op) (op_y op) = MoveRejected r"
      "ex = (if r \<in> SKIP_REASONS then ExSkip r else ExStop r)" "rt' = rt" "w' = w"
  | (threw) cur where "recognized rt = Some cur"
      "validateMove cur (op_type op) (op_x op) (op_y op) = MoveOk"
      "dispatch d (op_part op) w = (None, w')" "ex = ExThrew" "rt' = rt"
  | (failed) cur res where "recognized rt = Some cur"
      "validateMove cur (op_type op) (op_x op) (op_y op) = MoveOk"
      "dispatch d (op_part op) w = (Some res, w')" "res_status res = FAILED"
      "ex = ExDispatchFailed (res_message res)" "rt' = rt"
  | (blind) cur res w1 where "recognized rt = Some cur"
      "validateMove cur (op_type op) (op_x op) (op_y op) = MoveOk"
      "dispatch d (op_part op) w = (Some res, w1)" "res_status res \<noteq> FAILED"
      "ex = ExUnrecognizable" "rt' = rt\<lparr>recognized := None\<rparr>"
  | (executed) cur res w1 data st where "recognized rt = Some cur"
      "validateMove cur (op_type op) (op_x op) (op_y op) = MoveOk"
      "dispatch d (op_part op) w = (Some res, w1)" "res_status res \<noteq> FAILED"
      "res_data res = Some data" "data \<noteq> []"
      "board_update d (from_base64 d data) w1 = (Some st, w')"
      "ex = ExOk st (gameStatus st)"
      "rt' = rt\<lparr>recognized := Some st, operationCount := operationCount rt + 1,
                 operationsByType := (operationsByType rt)
                   (op_type op := operationsByType rt (op_type op) + 1)\<rparr>"
proof (cases "recognized rt")
  case None
  with assms show thesis by (auto simp: executeOperation_def intro: inactive)
next
  case (Some cur)
  note rec = this
  show thesis
  proof (cases "validateMove cur (op_type op) (op_x op) (op_y op)")
    case (MoveRejected r)
    with assms rec show thesis by (auto simp: executeOperation_def intro: rejected)
  next
    case MoveOk
    note ok = this
    obtain r w1 where disp: "dispatch d (op_part op) w = (r, w1)" by (metis prod.collapse)
    show thesis
    proof (cases r)
      case None
      with assms rec ok disp show thesis by (auto simp: executeOperation_def intro: threw)
    next
      case (Some res)
      show thesis
      proof (cases "res_status res = FAILED")
        case True
        with assms rec ok disp Some show thesis
          by (auto simp: executeOperation_def intro: failed)
      next
        case False
        then show thesis
          using assms rec ok disp Some
          by (auto simp: executeOperation_def recognize_def
                split: option.splits prod.splits if_splits intro: blind executed)
      qed
    qed
  qed
qed

text \<open>A state property kept by every operation is kept by a batch.\<close>

lemma run_batch_preserves:
  assumes "\<And>op rt w ex rt' w'. P rt w \<Longrightarrow> executeOperation d op (rt, w) = (ex, rt', w') \<Longrightarrow> P rt' w'"
    and "run_batch d ops b (rt, w) = (res, rt', w')" and "P rt w"
  shows "P rt' w'"
  using assms(2,3)
proof (induction ops arbitrary: b rt w)
  case Nil
  then show ?case by simp
next
  case (Cons op ops)
  obtain ex rt1 w1 where ex: "executeOperation d op (rt, w) = (ex, rt1, w1)" by (metis prod.collapse)
  with Cons.prems assms(1) have P: "P rt1 w1" by blast
  show ?case
    using Cons.prems(1) ex P Cons.IH
    by (auto simp: Let_def split: op_execution.splits if_splits)
qed

text \<open>A batch is its prefix, then the rest unless the prefix stopped.\<close>

lemma run_batch_append:
  assumes "stoppedOp b = None"
  shows "run_batch d (xs @ ys) b s =
     (case run_batch d xs b s of
        (Inr b', s') \<Rightarrow> if stoppedOp b' = None then run_batch d ys b' s' else (Inr b', s')
      | (Inl out, s') \<Rightarrow> (Inl out, s'))"
  using assms
proof (induction xs arbitrary: b s)
  case Nil
  then show ?case by simp
next
  case (Cons op xs)
  obtain ex s1 where "executeOperation d op s = (ex, s1)" by (metis prod.collapse)
  with Cons show ?case by (auto simp: Let_def split: op_execution.splits)
qed

text \<open>An executed operation, and the ways a batch gets past or ends at its first operation.\<close>

lemma executeOperation_ok:
  assumes "executeOperation d op (rt, w) = (ExOk st status, rt', w')"
  shows "status = gameStatus st" "recognized rt' = Some st"
    "operationCount rt' = operationCount rt + 1"
    "operationsByType rt' = (operationsByType rt)(op_type op := operationsByType rt (op_type op) + 1)"
    "gameLog rt' = gameLog rt" "initState rt' = initState rt" "gameEvent rt' = gameEvent rt"
  using assms by (cases rule: executeOperation_cases [OF assms]; simp split: if_splits)+

lemma run_batch_Cons_Inr:
  assumes "run_batch d (op # ops) b (rt, w) = (Inr b', rt', w')"
  obtains
    (stop) r where "executeOperation d op (rt, w) = (ExStop r, rt', w')" "rt' = rt" "w' = w"
      "b' = b\<lparr>stoppedOp := Some op, stoppedReason := Some (RejectedFor r)\<rparr>"
  | (skip) r where "executeOperation d op (rt, w) = (ExSkip r, rt, w)"
      "run_batch d ops (b\<lparr>skipped := skipped b + 1\<rparr>) (rt, w) = (Inr b', rt', w')"
  | (ended) st where "executeOperation d op (rt, w) = (ExOk st (gameStatus st), rt', w')"
      "gameStatus st \<noteq> Playing"
      "b' = b\<lparr>executed := executed b + 1, endedStatus := Some (gameStatus st),
               stoppedOp := Some op, stoppedReason := Some (EndedWith (gameStatus st))\<rparr>"
  | (more) st rt1 w1 where "executeOperation d op (rt, w) = (ExOk st (gameStatus st), rt1, w1)"
      "gameStatus st = Playing"
      "run_batch d ops (b\<lparr>executed := executed b + 1\<rparr>) (rt1, w1) = (Inr b', rt', w')"
proof -
  obtain ex rt1 w1 where ex: "executeOperation d op (rt, w) = (ex, rt1, w1)" by (metis prod.collapse)
  show thesis
  proof (cases ex)
    case (ExOk st status)
    from executeOperation_ok(1) [OF ex [unfolded ExOk]] have "status = gameStatus st" .
    with assms ex ExOk show thesis
      using ended [of st] more [of st] by (auto simp: Let_def split: if_splits)
  next
    case (ExSkip r)
    with ex have "rt1 = rt" "w1 = w" by (cases rule: executeOperation_cases [OF ex]; simp)+
    with assms ex ExSkip show thesis by (intro skip [of r]) simp_all
  next
    case (ExStop r)
    with ex have "rt1 = rt" "w1 = w" by (cases rule: executeOperation_cases [OF ex]; simp)+
    with assms ex ExStop show thesis by (intro stop [of r]) simp_all
  qed (use assms ex in simp_all)
qed

text \<open>The counters of a batch against those of the game, and the way it ended.\<close>

lemma run_batch_counts:
  assumes "run_batch d ops b (rt, w) = (Inr b', rt', w')"
  shows "operationCount rt' + executed b = operationCount rt + executed b'" (is ?count)
    and "executed b' + skipped b' \<le> executed b + skipped b + length ops" (is ?le)
    and "gameLog rt' = gameLog rt \<and> initState rt' = initState rt \<and> gameEvent rt' = gameEvent rt"
      (is ?frame)
proof -
  have "?count \<and> ?le \<and> ?frame"
    using assms
  proof (induction ops arbitrary: b rt w)
    case (Cons op ops)
    from Cons.prems show ?case
    proof (cases rule: run_batch_Cons_Inr)
      case (skip r)
      from Cons.IH [OF this(2)] show ?thesis by simp
    next
      case (ended st)
      from executeOperation_ok [OF this(1)] ended(3) show ?thesis by simp
    next
      case (more st rt1 w1)
      from executeOperation_ok [OF this(1)] Cons.IH [OF this(3)] show ?thesis by simp
    qed simp
  qed simp
  then show ?count ?le ?frame by blast+
qed

lemma run_batch_end:
  assumes "run_batch d ops b (rt, w) = (Inr b', rt', w')"
    and "stoppedOp b = None" and "endedStatus b = None"
  shows "endedStatus b' = Some status \<Longrightarrow>
           status \<noteq> Playing \<and> (\<exists>st. recognized rt' = Some st \<and> gameStatus st = status)"
    and "stoppedOp b' = None \<Longrightarrow> executed b' + skipped b' = executed b + skipped b + length ops"
proof -
  have "(endedStatus b' = Some status \<longrightarrow>
           status \<noteq> Playing \<and> (\<exists>st. recognized rt' = Some st \<and> gameStatus st = status)) \<and>
        (stoppedOp b' = None \<longrightarrow> executed b' + skipped b' = executed b + skipped b + length ops)"
    using assms
  proof (induction ops arbitrary: b rt w)
    case (Cons op ops)
    from Cons.prems(1) show ?case
    proof (cases rule: run_batch_Cons_Inr)
      case (stop r)
      with Cons.prems show ?thesis by simp
    next
      case (skip r)
      from Cons.IH [OF this(2)] Cons.prems show ?thesis by simp
    next
      case (ended st)
      from executeOperation_ok [OF this(1)] ended(2,3) show ?thesis by auto
    next
      case (more st rt1 w1)
      from Cons.IH [OF this(3)] Cons.prems show ?thesis by simp
    qed
  qed simp
  then show "endedStatus b' = Some status \<Longrightarrow>
           status \<noteq> Playing \<and> (\<exists>st. recognized rt' = Some st \<and> gameStatus st = status)"
    and "stoppedOp b' = None \<Longrightarrow> executed b' + skipped b' = executed b + skipped b + length ops"
    by blast+
qed

section \<open>Reachable states of one game runtime\<close>

text \<open>
  The calls a runtime receives, in any order, from a world that satisfies \<open>start\<close>; between calls the world may change by \<open>env\<close>
  (the desktop, the hooks, the clock).
\<close>

inductive runtime_reach ::
  "'w runtime_deps \<Rightarrow> ('w \<Rightarrow> bool) \<Rightarrow> ('w \<Rightarrow> 'w \<Rightarrow> bool) \<Rightarrow> game_runtime \<Rightarrow> 'w \<Rightarrow> bool"
  for d :: "'w runtime_deps" and start :: "'w \<Rightarrow> bool" and env :: "'w \<Rightarrow> 'w \<Rightarrow> bool" where
  new_game_runtime: "start w \<Longrightarrow> runtime_reach d start env new_runtime w"
| call_init: "runtime_reach d start env rt w \<Longrightarrow> init d (rt, w) = (out, rt', w') \<Longrightarrow> runtime_reach d start env rt' w'"
| call_operate:
    "runtime_reach d start env rt w \<Longrightarrow> operate d input (rt, w) = (out, rt', w') \<Longrightarrow>
     runtime_reach d start env rt' w'"
| world: "runtime_reach d start env rt w \<Longrightarrow> env w w' \<Longrightarrow> runtime_reach d start env rt w'"

text \<open>The ways \<open>init\<close> and \<open>operate\<close> end.\<close>

lemma init_cases:
  assumes "init d (rt, w) = (out, rt', w')"
  obtains
    (threw) "dispatch d (KeyboardPress KEY_F2) w = (None, w')" "out = None" "rt' = rt"
  | (failed) res where "dispatch d (KeyboardPress KEY_F2) w = (Some res, w')"
      "out = Some (ErrorOutcome (res_message res))" "rt' = rt"
  | (blind) res w1 where "dispatch d (KeyboardPress KEY_F2) w = (Some res, w1)"
      "recognize d res (board_init d) (rt, w1) = (None, rt', w')"
      "out = Some (TextOutcome unrecognizableText False)" "rt' = rt\<lparr>recognized := None\<rparr>"
  | (started) res w1 st data where "dispatch d (KeyboardPress KEY_F2) w = (Some res, w1)"
      "board_init d (from_base64 d data) w1 = (Some st, w')"
      "out = Some (TextOutcome (initSuccessText st) (concludeMarker st))"
      "rt' = rt\<lparr>recognized := Some st, initState := Some st, operationCount := 0,
                 operationsByType := (\<lambda>_. 0),
                 gameLog := [\<lparr>log_tool = js ''saolei_init'', log_operations = None,
                              log_state = st, log_status = Playing\<rparr>]\<rparr>"
proof -
  obtain r w1 where disp: "dispatch d (KeyboardPress KEY_F2) w = (r, w1)" by (metis prod.collapse)
  show thesis
  proof (cases r)
    case None
    with assms disp show thesis by (auto simp: init_def intro: threw)
  next
    case (Some res)
    show thesis
    proof (cases "res_status res = FAILED")
      case True
      with assms disp Some show thesis by (auto simp: init_def intro: failed)
    next
      case False
      with assms disp Some show thesis
        by (auto simp: init_def recognize_def split: option.splits prod.splits if_splits
              intro: blind started)
    qed
  qed
qed

lemma operate_cases:
  assumes "operate d input (rt, w) = (out, rt', w')"
  obtains
    (empty) "input_operations input = []" "rt' = rt" "w' = w"
      "out = Some (case recognized rt of
                 None \<Rightarrow> TextOutcome (rejectionText NoActiveGame None) False
               | Some st \<Rightarrow> TextOutcome (operateResultText 0 0 st None None) (concludeMarker st))"
  | (aborted) "run_batch d (input_operations input) empty_batch (rt, w) = (Inl out, rt', w')"
  | (finished) b rt1 w1 where
      "run_batch d (input_operations input) empty_batch (rt, w) = (Inr b, rt1, w1)"
      "finish_batch d (input_operations input) b (rt1, w1) = (out, rt', w')"
proof (cases "input_operations input = []")
  case True
  with assms show thesis by (intro empty) (auto simp add: operate_def)
next
  case False
  obtain r rt1 w1 where run: "run_batch d (input_operations input) empty_batch (rt, w) = (r, rt1, w1)"
    by (metis prod.collapse)
  show thesis
  proof (cases r)
    case (Inl out')
    with assms False run show thesis by (intro aborted) (simp add: operate_def)
  next
    case (Inr b)
    with assms False run show thesis by (intro finished [of b rt1 w1]) (simp_all add: operate_def)
  qed
qed

definition operate_entry :: "cell_operation list \<Rightarrow> game_state \<Rightarrow> game_log_entry" where
  "operate_entry ops st = \<lparr>log_tool = js ''saolei_operate'', log_operations = Some ops,
     log_state = st, log_status = gameStatus st\<rparr>"

lemma finish_batch_cases:
  assumes "finish_batch d ops b (rt, w) = (out, rt', w')"
  obtains
    (inactive) "recognized rt = None" "rt' = rt" "w' = w"
      "out = Some (TextOutcome (rejectionText NoActiveGame None) False)"
  | (logged) st where "recognized rt = Some st"
      "publish_change d b (operate_entry ops st) w = (True, w')"
      "rt' = conclude_game d b st (rt\<lparr>gameLog := gameLog rt @ [operate_entry ops st]\<rparr>, w')"
      "out = Some (TextOutcome (operateResultText (executed b) (skipped b) st
                 (stoppedOp b) (stoppedReason b)) (concludeMarker st))"
  | (subscriber_threw) st where "recognized rt = Some st"
      "publish_change d b (operate_entry ops st) w = (False, w')"
      "rt' = rt\<lparr>gameLog := gameLog rt @ [operate_entry ops st]\<rparr>" "out = None"
proof (cases "recognized rt")
  case None
  with assms show thesis by (intro inactive) (auto simp: finish_batch_def)
next
  case (Some st)
  obtain ok w1 where pub: "publish_change d b (operate_entry ops st) w = (ok, w1)"
    by (metis prod.collapse)
  show thesis
  proof (cases ok)
    case True
    have "finish_batch d ops b (rt, w) =
        (Some (TextOutcome (operateResultText (executed b) (skipped b) st
                 (stoppedOp b) (stoppedReason b)) (concludeMarker st)),
         conclude_game d b st (rt\<lparr>gameLog := gameLog rt @ [operate_entry ops st]\<rparr>, w1), w1)"
      using Some pub True by (simp add: finish_batch_def operate_entry_def)
    with assms have "out = Some (TextOutcome (operateResultText (executed b) (skipped b) st
                 (stoppedOp b) (stoppedReason b)) (concludeMarker st))" "w' = w1"
      "rt' = conclude_game d b st (rt\<lparr>gameLog := gameLog rt @ [operate_entry ops st]\<rparr>, w1)"
      by auto
    with Some pub True show thesis by (metis logged)
  next
    case False
    have "finish_batch d ops b (rt, w) =
        (None, rt\<lparr>gameLog := gameLog rt @ [operate_entry ops st]\<rparr>, w1)"
      using Some pub False by (simp add: finish_batch_def operate_entry_def)
    with assms have "out = None" "w' = w1" "rt' = rt\<lparr>gameLog := gameLog rt @ [operate_entry ops st]\<rparr>"
      by auto
    with Some pub False show thesis by (metis subscriber_threw)
  qed
qed

lemma conclude_game_frame [simp]:
  "recognized (conclude_game d b st (rt, w)) = recognized rt"
  "initState (conclude_game d b st (rt, w)) = initState rt"
  "operationCount (conclude_game d b st (rt, w)) = operationCount rt"
  "operationsByType (conclude_game d b st (rt, w)) = operationsByType rt"
  by (simp_all add: conclude_game_def split: option.splits)

lemma conclude_game_log:
  "gameLog (conclude_game d b st (rt, w)) = gameLog rt @
     (case endedStatus b of None \<Rightarrow> [] | Some status \<Rightarrow>
        [\<lparr>log_tool = js ''(game-end)'', log_operations = None, log_state = st, log_status = status\<rparr>])"
  by (simp add: conclude_game_def split: option.splits)

section \<open>Invariants\<close>

text \<open>
  The bookkeeping of one game: the per-type counters sum to the total, an active board belongs
  to a started game, the log starts with the initial board, and at most one terminal record is
  logged per game -- after it no board is in play any more, and the terminal event holds the
  statistics of that record's board.
\<close>

definition end_entries :: "game_runtime \<Rightarrow> game_log_entry list" where
  "end_entries rt = filter (\<lambda>e. log_tool e = js ''(game-end)'') (gameLog rt)"

definition final_record :: "game_runtime \<Rightarrow> bool" where
  "final_record rt \<longleftrightarrow>
     (\<forall>e \<in> set (end_entries rt). \<exists>t. gameEvent rt = Some
        \<lparr>ev_status = gameStatus (log_state e),
         ev_stats = computeGameStats (initState rt) (log_state e) (operationCount rt)
                      (operationsByType rt),
         ev_endedAt = t\<rparr>)"

lemma end_entries_update [simp]:
  "end_entries (rt\<lparr>recognized := r\<rparr>) = end_entries rt"
  "end_entries (rt\<lparr>operationCount := n\<rparr>) = end_entries rt"
  "end_entries (rt\<lparr>operationsByType := f\<rparr>) = end_entries rt"
  "end_entries (rt\<lparr>gameLog := gameLog rt @ [operate_entry ops s]\<rparr>) = end_entries rt"
  by (simp_all add: end_entries_def operate_entry_def)

lemma final_record_simps [simp]:
  "final_record (rt\<lparr>recognized := r\<rparr>) = final_record rt"
  "final_record (rt\<lparr>gameLog := gameLog rt @ [operate_entry ops s]\<rparr>) = final_record rt"
  "end_entries rt = [] \<Longrightarrow> final_record rt"
  by (simp_all add: final_record_def)

definition bookkeeping :: "game_runtime \<Rightarrow> bool" where
  "bookkeeping rt \<longleftrightarrow>
     operationCount rt = operationsByType rt Click + operationsByType rt Flag + operationsByType rt Chord \<and>
     (recognized rt \<noteq> None \<longrightarrow> initState rt \<noteq> None) \<and>
     (case initState rt of
        None \<Rightarrow> gameLog rt = []
      | Some st \<Rightarrow> gameLog rt \<noteq> [] \<and>
          hd (gameLog rt) = \<lparr>log_tool = js ''saolei_init'', log_operations = None,
                             log_state = st, log_status = Playing\<rparr>) \<and>
     length (end_entries rt) \<le> 1 \<and>
     (end_entries rt \<noteq> [] \<longrightarrow> (\<forall>st. recognized rt = Some st \<longrightarrow> gameStatus st \<noteq> Playing)) \<and>
     final_record rt"

lemma bookkeeping_new: "bookkeeping new_runtime"
  by (simp add: bookkeeping_def new_runtime_def end_entries_def)

lemma bookkeeping_fresh:
  "bookkeeping rt \<Longrightarrow> recognized rt = Some st \<Longrightarrow> gameStatus st = Playing \<Longrightarrow> end_entries rt = []"
  by (auto simp: bookkeeping_def)

lemma bookkeeping_execute:
  assumes "bookkeeping rt" and "executeOperation d op (rt, w) = (ex, rt', w')"
  shows "bookkeeping rt'"
  using assms(2)
proof (cases rule: executeOperation_cases)
  case blind
  with assms(1) show ?thesis by (simp add: bookkeeping_def split: option.splits)
next
  case (executed cur res w1 data st)
  have "end_entries rt = []"
    using bookkeeping_fresh [OF assms(1) executed(1)] executed(2) by (simp add: validateMove_MoveOk)
  with assms(1) executed show ?thesis
    by (cases "op_type op") (auto simp: bookkeeping_def split: option.splits)
qed (use assms(1) in simp_all)

lemma bookkeeping_batch:
  assumes "bookkeeping rt" and "run_batch d ops b (rt, w) = (res, rt', w')"
  shows "bookkeeping rt'"
  by (rule run_batch_preserves [where P = "\<lambda>rt _. bookkeeping rt", OF _ assms(2,1)])
     (rule bookkeeping_execute)

lemma bookkeeping_init:
  assumes "bookkeeping rt" and "init d (rt, w) = (out, rt', w')"
  shows "bookkeeping rt'"
  using assms(2)
proof (cases rule: init_cases)
  case started
  then have "end_entries rt' = []" by (simp add: end_entries_def)
  with started show ?thesis by (simp add: bookkeeping_def)
qed (use assms(1) in \<open>simp_all add: bookkeeping_def split: option.splits\<close>)

text \<open>When a batch ended the game, no terminal record was logged before it.\<close>

lemma run_batch_ended_fresh:
  assumes "run_batch d ops b (rt, w) = (Inr b', rt', w')"
    and "bookkeeping rt" and "endedStatus b = None" and "endedStatus b' \<noteq> None"
  shows "end_entries rt' = []"
  using assms
proof (induction ops arbitrary: b rt w)
  case (Cons op ops)
  from Cons.prems(1) show ?case
  proof (cases rule: run_batch_Cons_Inr)
    case (stop r)
    with Cons.prems show ?thesis by simp
  next
    case (skip r)
    with Cons show ?thesis by simp
  next
    case (ended st)
    from ended(1) show ?thesis
    proof (cases rule: executeOperation_cases)
      case (executed cur res w1 data st')
      with Cons.prems(2) have "end_entries rt = []"
        by (auto simp: bookkeeping_def validateMove_MoveOk)
      with executed show ?thesis by simp
    qed (simp_all split: if_splits)
  next
    case (more st rt1 w1)
    from Cons.IH [OF more(3) bookkeeping_execute [OF Cons.prems(2) more(1)]] Cons.prems
    show ?thesis by simp
  qed
qed simp

lemma bookkeeping_log_operate:
  "bookkeeping rt \<Longrightarrow> recognized rt = Some st \<Longrightarrow>
   bookkeeping (rt\<lparr>gameLog := gameLog rt @ [operate_entry ops s]\<rparr>)"
  by (auto simp: bookkeeping_def split: option.splits)

lemma bookkeeping_conclude:
  assumes "bookkeeping rt" and "recognized rt = Some st"
    and "\<And>status. endedStatus b = Some status \<Longrightarrow>
           end_entries rt = [] \<and> status \<noteq> Playing \<and> gameStatus st = status"
  shows "bookkeeping (conclude_game d b st (rt, w))"
proof (cases "endedStatus b")
  case None
  with assms(1) show ?thesis by (simp add: conclude_game_def)
next
  case (Some status)
  let ?rt' = "conclude_game d b st (rt, w)"
  from assms(3) [OF Some] have old: "end_entries rt = []" "status \<noteq> Playing" "gameStatus st = status"
    by simp_all
  then have "end_entries ?rt' = [\<lparr>log_tool = js ''(game-end)'', log_operations = None,
      log_state = st, log_status = status\<rparr>]"
    using Some by (simp add: end_entries_def conclude_game_def)
  moreover from this old Some have "final_record ?rt'"
    by (simp add: final_record_def conclude_game_def)
  ultimately show ?thesis
    using assms(1,2) old Some by (auto simp: bookkeeping_def conclude_game_log split: option.splits)
qed

lemma bookkeeping_operate:
  assumes "bookkeeping rt" and "operate d input (rt, w) = (out, rt', w')"
  shows "bookkeeping rt'"
  using assms(2)
proof (cases rule: operate_cases)
  case empty
  with assms(1) show ?thesis by simp
next
  case aborted
  then show ?thesis by (rule bookkeeping_batch [OF assms(1)])
next
  case (finished b rt1 w1)
  let ?ops = "input_operations input"
  have b0: "stoppedOp empty_batch = None" "endedStatus empty_batch = None"
    by (simp_all add: empty_batch_def)
  have rt1: "bookkeeping rt1" by (rule bookkeeping_batch [OF assms(1) finished(1)])
  from finished(2) show ?thesis
  proof (cases rule: finish_batch_cases)
    case inactive
    with rt1 show ?thesis by simp
  next
    case (logged st)
    let ?rt2 = "rt1\<lparr>gameLog := gameLog rt1 @ [operate_entry ?ops st]\<rparr>"
    have "end_entries rt1 = [] \<and> status \<noteq> Playing \<and> gameStatus st = status"
      if "endedStatus b = Some status" for status
      using that run_batch_ended_fresh [OF finished(1) assms(1) b0(2)]
        run_batch_end(1) [OF finished(1) b0] logged(1) by fastforce
    then show ?thesis
      unfolding logged(3) using logged(1)
      by (intro bookkeeping_conclude [OF bookkeeping_log_operate [OF rt1 logged(1)]]) auto
  next
    case (subscriber_threw st)
    with bookkeeping_log_operate [OF rt1] show ?thesis by simp
  qed
qed

lemma reach_bookkeeping: "runtime_reach d start env rt w \<Longrightarrow> bookkeeping rt"
  by (induction rule: runtime_reach.induct)
     (auto intro: bookkeeping_new bookkeeping_init bookkeeping_operate)

section \<open>The recognition engine as an interface\<close>

text \<open>
  Within a game the cells only evolve: the board keeps its size and a revealed cell its value.
\<close>

definition evolves :: "game_state \<Rightarrow> game_state \<Rightarrow> bool" where
  "evolves p n \<longleftrightarrow> gwidth n = gwidth p \<and> gheight n = gheight p \<and>
     (\<forall>x y. in_board p x y \<longrightarrow> cell_at p x y \<in> REVEALED \<longrightarrow> cell_at n x y = cell_at p x y)"

lemma evolves_refl [simp]: "evolves s s"
  by (simp add: evolves_def)

lemma evolves_trans: "evolves a b \<Longrightarrow> evolves b c \<Longrightarrow> evolves a c"
  by (simp add: evolves_def in_board_def)

lemma compatible_evolves:
  assumes "checkCompatible p n = Compatible"
    and "wf_state p" "UNKNOWN \<notin> cells p" "wf_state n" "UNKNOWN \<notin> cells n"
  shows "evolves p n"
proof -
  have "cell_at n x y = cell_at p x y" if "in_board p x y" "cell_at p x y \<in> REVEALED" for x y
  proof -
    from assms(1) that(1) have "in_board n x y" "may_become (cell_at p x y) (cell_at n x y)"
      by (auto simp: checkCompatible_iff in_board_def)
    with that assms(2-5) cell_at_in_cells [of p x y] cell_at_in_cells [of n x y]
    show ?thesis by (auto simp: may_become_def)
  qed
  with assms(1) show ?thesis by (simp add: evolves_def checkCompatible_iff)
qed

text \<open>
  What the runtime relies on: the engine remembers the board it returned last, returns
  well-formed boards without \<open>UNKNOWN\<close>, updates only within the same game, and nothing else the
  runtime calls moves it. \<open>ok\<close> is the engine's own invariant.
\<close>

locale board_engine =
  fixes d :: "'w runtime_deps" and ok :: "'w \<Rightarrow> bool" and cur :: "'w \<Rightarrow> game_state option"
  assumes init_law: "ok w \<Longrightarrow> board_init d data w = (r, w') \<Longrightarrow>
      ok w' \<and> (\<forall>st. r = Some st \<longrightarrow> wf_state st \<and> UNKNOWN \<notin> cells st \<and> cur w' = Some st)"
    and update_law: "ok w \<Longrightarrow> board_update d data w = (r, w') \<Longrightarrow>
      ok w' \<and> (\<forall>st. r = Some st \<longrightarrow> wf_state st \<and> UNKNOWN \<notin> cells st \<and> cur w' = Some st \<and>
        (\<exists>p. cur w = Some p \<and> checkCompatible p st = Compatible))"
    and dispatch_law: "ok w \<Longrightarrow> dispatch d part w = (res, w') \<Longrightarrow> ok w' \<and> cur w' = cur w"
    and event_law: "ok w \<Longrightarrow> onBoardChange d = Some f \<Longrightarrow> f e w = (fine, w') \<Longrightarrow> ok w' \<and> cur w' = cur w"
begin

definition in_game :: "game_runtime \<Rightarrow> 'w \<Rightarrow> bool" where
  "in_game rt w \<longleftrightarrow> ok w \<and>
     (\<forall>st. recognized rt = Some st \<longrightarrow>
        wf_state st \<and> UNKNOWN \<notin> cells st \<and> cur w = Some st \<and>
        (\<forall>e \<in> set (gameLog rt). evolves (log_state e) st)) \<and>
     sorted_wrt evolves (map log_state (gameLog rt))"

lemma in_game_blind: "in_game rt w \<Longrightarrow> ok w' \<Longrightarrow> in_game (rt\<lparr>recognized := None\<rparr>) w'"
  by (simp add: in_game_def)

lemma in_game_world: "in_game rt w \<Longrightarrow> ok w' \<Longrightarrow> cur w' = cur w \<Longrightarrow> in_game rt w'"
  by (simp add: in_game_def)

lemma in_game_dispatch:
  "in_game rt w \<Longrightarrow> dispatch d part w = (res, w') \<Longrightarrow> in_game rt w'"
  using dispatch_law in_game_world by (metis in_game_def)

text \<open>Recognition failing leaves the engine consistent.\<close>

lemma recognize_ok:
  assumes "ok w" and "recognize d res f (rt, w) = (r, rt', w')" and "f = board_init d \<or> f = board_update d"
  shows "ok w'"
proof (cases "res_data res = None \<or> res_data res = Some []")
  case True
  with assms(1,2) show ?thesis by (auto simp: recognize_def)
next
  case False
  then obtain data where data: "res_data res = Some data" "data \<noteq> []" by auto
  obtain q w1 where q: "f (from_base64 d data) w = (q, w1)" by (metis prod.collapse)
  with assms(2) data have "w' = w1" by (auto simp: recognize_def split: option.splits)
  with assms(1,3) q init_law update_law show ?thesis by blast
qed

lemma in_game_execute:
  assumes "in_game rt w" and "executeOperation d op (rt, w) = (ex, rt', w')"
  shows "in_game rt' w'"
  using assms(2)
proof (cases rule: executeOperation_cases)
  case (blind p res w1)
  have "in_game rt w1" by (rule in_game_dispatch [OF assms(1) blind(3)])
  then have "ok w1" by (simp add: in_game_def)
  moreover obtain r rt2 where "recognize d res (board_update d) (rt, w1) = (r, rt2, w')"
    using assms(2) blind by (auto simp: executeOperation_def split: option.splits prod.splits)
  ultimately have "ok w'" by (blast intro: recognize_ok)
  with assms(1) show ?thesis unfolding blind(6) by (rule in_game_blind)
next
  case (executed p res w1 data st)
  have w1: "in_game rt w1" by (rule in_game_dispatch [OF assms(1) executed(3)])
  then have "ok w1" by (simp add: in_game_def)
  from update_law [OF this executed(7)]
  obtain q where st: "ok w'" "wf_state st" "UNKNOWN \<notin> cells st" "cur w' = Some st"
    and q: "cur w1 = Some q" "checkCompatible q st = Compatible" by auto
  from w1 executed(1) q(1) have "q = p" and p: "wf_state p" "UNKNOWN \<notin> cells p"
    by (auto simp: in_game_def)
  with compatible_evolves [OF q(2)] st have ev: "evolves p st" by simp
  have "evolves (log_state e) st" if "e \<in> set (gameLog rt)" for e
    using assms(1) executed(1) that evolves_trans [OF _ ev] by (auto simp: in_game_def)
  with assms(1) st executed(9) show ?thesis by (simp add: in_game_def)
qed (use assms(1) in \<open>auto intro: in_game_dispatch\<close>)

lemma in_game_batch:
  assumes "in_game rt w" and "run_batch d ops b (rt, w) = (res, rt', w')"
  shows "in_game rt' w'"
  by (rule run_batch_preserves [where P = in_game, OF _ assms(2,1)]) (rule in_game_execute)

lemma in_game_init:
  assumes "in_game rt w" and "init d (rt, w) = (out, rt', w')"
  shows "in_game rt' w'"
  using assms(2)
proof (cases rule: init_cases)
  case (blind res w1)
  have "ok w1" using in_game_dispatch [OF assms(1) blind(1)] by (simp add: in_game_def)
  then have "ok w'" using blind(2) by (blast intro: recognize_ok)
  with assms(1) show ?thesis unfolding blind(4) by (rule in_game_blind)
next
  case (started res w1 st data)
  have "ok w1" using in_game_dispatch [OF assms(1) started(1)] by (simp add: in_game_def)
  from init_law [OF this started(2)] started show ?thesis by (simp add: in_game_def)
qed (use assms(1) in \<open>auto intro: in_game_dispatch\<close>)

lemma in_game_log:
  assumes "in_game rt w" and "recognized rt = Some st" and "ok w'" and "cur w' = cur w"
    and "log_state e = st"
  shows "in_game (rt\<lparr>gameLog := gameLog rt @ [e]\<rparr>) w'"
  using assms by (auto simp: in_game_def sorted_wrt_append)

lemma in_game_conclude:
  assumes "in_game rt w" and "recognized rt = Some st"
  shows "in_game (conclude_game d b st (rt, w'')) w"
proof (cases "endedStatus b")
  case None
  with assms show ?thesis by (simp add: conclude_game_def)
next
  case (Some status)
  have "ok w" using assms(1) by (simp add: in_game_def)
  then have "in_game (rt\<lparr>gameLog := gameLog rt @ [\<lparr>log_tool = js ''(game-end)'',
      log_operations = None, log_state = st, log_status = status\<rparr>]\<rparr>) w"
    by (intro in_game_log [OF assms]) simp_all
  with Some show ?thesis by (simp add: conclude_game_def in_game_def)
qed

lemma publish_law: "ok w \<Longrightarrow> publish_change d b e w = (fine, w') \<Longrightarrow> ok w' \<and> cur w' = cur w"
  using event_law [of w _ e fine w'] by (auto simp: publish_change_def split: option.splits if_splits)

lemma in_game_operate:
  assumes "in_game rt w" and "operate d input (rt, w) = (out, rt', w')"
  shows "in_game rt' w'"
  using assms(2)
proof (cases rule: operate_cases)
  case empty
  with assms(1) show ?thesis by simp
next
  case aborted
  then show ?thesis by (rule in_game_batch [OF assms(1)])
next
  case (finished b rt1 w1)
  have rt1: "in_game rt1 w1" by (rule in_game_batch [OF assms(1) finished(1)])
  then have ok1: "ok w1" by (simp add: in_game_def)
  have app: "in_game (rt1\<lparr>gameLog := gameLog rt1 @ [operate_entry ops st]\<rparr>) w'"
    if "recognized rt1 = Some st" "publish_change d b (operate_entry ops st) w1 = (fine, w')" for fine ops st
    using in_game_log [OF rt1 that(1)] publish_law [OF ok1 that(2)] by (simp add: operate_entry_def)
  from finished(2) show ?thesis
  proof (cases rule: finish_batch_cases)
    case (logged st)
    with app [OF logged(1,2)] show ?thesis by (auto intro: in_game_conclude)
  next
    case (subscriber_threw st)
    with app [OF subscriber_threw(1,2)] show ?thesis by simp
  qed (use rt1 in simp)
qed

text \<open>Runs that start in a consistent world, under worlds that change without moving the engine.\<close>

lemma reach_in_game:
  assumes "runtime_reach d ok env rt w" and "\<And>w w'. env w w' \<Longrightarrow> ok w \<Longrightarrow> ok w' \<and> cur w' = cur w"
  shows "in_game rt w"
  using assms(1)
proof (induction rule: runtime_reach.induct)
  case (new_game_runtime w)
  then show ?case by (simp add: in_game_def new_runtime_def)
next
  case (call_init rt w out rt' w')
  then show ?case by (auto intro: in_game_init)
next
  case (call_operate rt w input out rt' w')
  then show ?case by (auto intro: in_game_operate)
next
  case (world rt w w')
  with assms(2) show ?case by (auto simp: in_game_def)
qed

text \<open>The log of a game is a monotone history: what one entry shows revealed, all later ones show.\<close>

lemma log_monotone:
  assumes "runtime_reach d ok env rt w" and "\<And>w w'. env w w' \<Longrightarrow> ok w \<Longrightarrow> ok w' \<and> cur w' = cur w"
    and "i < j" and "j < length (gameLog rt)"
  shows "evolves (log_state (gameLog rt ! i)) (log_state (gameLog rt ! j))"
  using reach_in_game [OF assms(1,2)] assms(3,4)
  by (auto simp: in_game_def sorted_wrt_iff_nth_less)

end

section \<open>Observing the board-change seam\<close>

text \<open>The same collaborators with a subscriber that records the entries it is called with.\<close>

definition spied :: "'w runtime_deps \<Rightarrow> ('w \<times> game_log_entry list) runtime_deps" where
  "spied d =
     \<lparr>dispatch = (\<lambda>part (w, l). case dispatch d part w of (r, w') \<Rightarrow> (r, w', l)),
      board_init = (\<lambda>b (w, l). case board_init d b w of (r, w') \<Rightarrow> (r, w', l)),
      board_update = (\<lambda>b (w, l). case board_update d b w of (r, w') \<Rightarrow> (r, w', l)),
      from_base64 = from_base64 d,
      onBoardChange = Some (\<lambda>e (w, l). (True, w, l @ [e])),
      date_now = (\<lambda>(w, l). date_now d w)\<rparr>"

lemma spied_batch:
  assumes "run_batch (spied d) ops b (rt, w) = (res, rt', w')"
  shows "snd w' = snd w"
proof -
  have "snd w2 = snd w"
    if "snd w1 = snd w" "executeOperation (spied d) op (rt1, w1) = (ex, rt2, w2)"
    for op rt1 w1 ex rt2 w2
    using that(2)
  proof (cases rule: executeOperation_cases)
    case (blind cur res w3)
    with that show ?thesis
      by (auto simp: executeOperation_def recognize_def spied_def
            split: prod.splits option.splits if_splits)
  qed (use that(1) in \<open>auto simp: spied_def split: prod.splits\<close>)
  from run_batch_preserves [where P = "\<lambda>_ w1. snd w1 = snd w", OF this assms] show ?thesis by simp
qed

lemma spied_publish:
  assumes "publish_change (spied d) b e (w, l) = (ok, w', l')"
  shows "ok" "w' = w" "l' = l @ (if 0 < executed b \<and> log_status e = Playing then [e] else [])"
  using assms by (auto simp: publish_change_def spied_def split: if_splits)

lemma run_batch_Inl_text:
  assumes "run_batch d ops b (rt, w) = (Inl (Some (TextOutcome t c)), rt', w')"
  shows "recognized rt' = None \<and> c = False"
  using assms
proof (induction ops arbitrary: b rt w)
  case (Cons op ops)
  obtain ex rt1 w1 where ex: "executeOperation d op (rt, w) = (ex, rt1, w1)" by (metis prod.collapse)
  have blind: "ex = ExUnrecognizable \<Longrightarrow> recognized rt1 = None"
    using ex by (cases rule: executeOperation_cases) (auto split: if_splits)
  show ?case
  proof (cases ex)
    case (ExOk st status)
    with Cons ex show ?thesis by (simp add: Let_def split: if_splits) blast
  next
    case (ExSkip r)
    with Cons ex show ?thesis by simp blast
  qed (use Cons ex blind in simp_all)
qed simp

text \<open>Every text outcome carries the marker of the board recognized then.\<close>

definition in_play :: "game_runtime \<Rightarrow> bool" where
  "in_play rt \<longleftrightarrow> (\<exists>st. recognized rt = Some st \<and> gameStatus st = Playing)"

definition over :: "game_runtime \<Rightarrow> bool" where
  "over rt \<longleftrightarrow> (\<exists>st. recognized rt = Some st \<and> gameStatus st \<noteq> Playing)"

lemma concludeMarker_iff: "concludeMarker s \<longleftrightarrow> gameStatus s \<noteq> Playing"
  by (cases "gameStatus s") (simp_all add: concludeMarker_def)

lemma init_marker: "init d (rt, w) = (Some (TextOutcome t c), rt', w') \<Longrightarrow> c \<longleftrightarrow> over rt'"
  by (erule init_cases) (auto simp: over_def concludeMarker_iff)

lemma operate_marker:
  assumes "operate d input (rt, w) = (Some (TextOutcome t c), rt', w')"
  shows "c \<longleftrightarrow> over rt'"
  using assms
proof (cases rule: operate_cases)
  case empty
  then show ?thesis by (auto simp: over_def concludeMarker_iff split: option.splits)
next
  case aborted
  from run_batch_Inl_text [OF this] show ?thesis by (simp add: over_def)
next
  case (finished b rt1 w1)
  from finished(2) show ?thesis
    by (cases rule: finish_batch_cases) (auto simp: over_def concludeMarker_iff)
qed

text \<open>An entry is published by the call that logs it, when that call changed a board in play.\<close>

lemma spied_operate:
  assumes "operate (spied d) input (rt, w, l) = (Some (TextOutcome t c), rt', w', l')"
  shows "l' = l @ (if operationCount rt < operationCount rt' \<and> in_play rt'
      then [operate_entry (input_operations input) (the (recognized rt'))] else [])"
  using assms
proof (cases rule: operate_cases)
  case aborted
  from spied_batch [OF this] run_batch_Inl_text [OF aborted] show ?thesis by (simp add: in_play_def)
next
  case (finished b rt1 w1)
  obtain v k where w1: "w1 = (v, k)" by (cases w1)
  from spied_batch [OF finished(1)] have k: "k = l" by (simp add: w1)
  from run_batch_counts(1) [OF finished(1)] have n: "operationCount rt1 = operationCount rt + executed b"
    by (simp add: empty_batch_def)
  from finished(2) show ?thesis
  proof (cases rule: finish_batch_cases)
    case (logged st)
    from logged(1,3) have "recognized rt' = Some st" "operationCount rt' = operationCount rt1" by simp_all
    moreover from spied_publish(3) [OF logged(2) [unfolded w1 k]]
    have "l' = l @ (if 0 < executed b \<and> gameStatus st = Playing
        then [operate_entry (input_operations input) st] else [])"
      by (simp add: operate_entry_def)
    ultimately show ?thesis using n by (simp add: in_play_def)
  qed (use w1 k in \<open>auto simp: in_play_def\<close>)
qed simp

section \<open>Properties\<close>

text \<open>
  Scripted collaborators for concrete runs: the world is the list of boards the next
  screenshots show, every dispatch succeeds.
\<close>

definition scripted :: "game_state list runtime_deps" where
  "scripted =
     \<lparr>dispatch = (\<lambda>part w. (Some \<lparr>res_status = SUCCEEDED, res_message = [], res_data = Some (js ''AA'')\<rparr>, w)),
      board_init = (\<lambda>b w. case w of [] \<Rightarrow> (None, []) | s # w' \<Rightarrow> (Some s, w')),
      board_update = (\<lambda>b w. case w of [] \<Rightarrow> (None, []) | s # w' \<Rightarrow> (Some s, w')),
      from_base64 = (\<lambda>_. [0]), onBoardChange = None, date_now = (\<lambda>w. int (length w))\<rparr>"

text \<open>A game on a board of two cells, won by revealing one and flagging the other.\<close>

definition two_cells :: "cell_status \<Rightarrow> cell_status \<Rightarrow> int \<Rightarrow> game_state" where
  "two_cells a b n = \<lparr>gwidth = 2, gheight = 1, grid = [[a, b]], mineCounter = Some (Decoded (Num n))\<rparr>"

definition game_script :: "game_state list" where
  "game_script = [two_cells INITIAL INITIAL 1, two_cells C1 INITIAL 1, two_cells C1 FLAG 0]"

definition op_at :: "operation_type \<Rightarrow> int \<Rightarrow> int \<Rightarrow> cell_operation" where
  "op_at t x y = \<lparr>op_type = t, op_x = x, op_y = y\<rparr>"


text \<open>C3: A move the rules forbid is never dispatched: the runtime and the world are left as they
  are, and the operation is skipped exactly when it lies on the board of a game in progress (the
  target cell does not allow it); off the board or after the end it stops the batch.\<close>
theorem illegal_move_never_dispatched:
  assumes "recognized rt = Some cur"
    and "\<not> (in_board cur (op_x op) (op_y op) \<and> gameStatus cur = Playing \<and>
            target_allows cur (op_type op) (op_x op) (op_y op))"
  shows "\<exists>r. executeOperation d op (rt, w) =
     (if in_board cur (op_x op) (op_y op) \<and> gameStatus cur = Playing then ExSkip r else ExStop r, rt, w)"
proof -
  from assms(2) obtain r where r: "validateMove cur (op_type op) (op_x op) (op_y op) = MoveRejected r"
    unfolding validateMove_MoveOk [symmetric] by (cases "validateMove cur (op_type op) (op_x op) (op_y op)") auto
  note v = validateMove_reason [OF r]
  have "r \<in> SKIP_REASONS \<longleftrightarrow> in_board cur (op_x op) (op_y op) \<and> gameStatus cur = Playing"
    using v by (cases "gameStatus cur"; cases "in_board cur (op_x op) (op_y op)")
      (simp_all add: SKIP_REASONS_def)
  with assms(1) r show ?thesis by (auto simp: executeOperation_def)
qed

theorem illegal_move_never_dispatched_witness:
  "\<exists>r. executeOperation scripted (op_at Click 0 0)
      (new_runtime\<lparr>recognized := Some (two_cells C1 INITIAL 1)\<rparr>, game_script) =
      (ExSkip r, new_runtime\<lparr>recognized := Some (two_cells C1 INITIAL 1)\<rparr>, game_script)"
proof -
  have p: "in_board (two_cells C1 INITIAL 1) 0 0" "gameStatus (two_cells C1 INITIAL 1) = Playing"
    "\<not> target_allows (two_cells C1 INITIAL 1) Click 0 0"
    by (simp_all add: two_cells_def in_board_def gameStatus_def isTerminalState_def TERMINAL_CELLS_def
          isWin_def NON_WIN_CELLS_def target_allows_def cell_at_def REVEALED_NUMBERS_def)
  then show ?thesis
    using illegal_move_never_dispatched [where op = "op_at Click 0 0" and d = scripted and w = game_script
      and rt = "new_runtime\<lparr>recognized := Some (two_cells C1 INITIAL 1)\<rparr>" and cur = "two_cells C1 INITIAL 1"]
    by (simp add: op_at_def)
qed

text \<open>C4: In every reachable state of a runtime the game's books are in order: the per-type counters
  sum to the operation count, the log of a started game opens with its initial board, at most one
  \<open>(game-end)\<close> record is logged per game, and then the board in view is a finished one and the
  terminal event carries its status and the statistics of that board and of the whole game.\<close>
theorem books_in_order:
  assumes "runtime_reach d start env rt w"
  shows "operationCount rt = operationsByType rt Click + operationsByType rt Flag + operationsByType rt Chord \<and>
     length (end_entries rt) \<le> 1 \<and> (end_entries rt \<noteq> [] \<longrightarrow> \<not> in_play rt) \<and>
     (\<forall>e \<in> set (end_entries rt). \<exists>t. gameEvent rt = Some
        \<lparr>ev_status = gameStatus (log_state e),
         ev_stats = computeGameStats (initState rt) (log_state e) (operationCount rt) (operationsByType rt),
         ev_endedAt = t\<rparr>) \<and>
     (\<forall>st. initState rt = Some st \<longrightarrow> gameLog rt \<noteq> [] \<and> log_state (hd (gameLog rt)) = st)"
  using reach_bookkeeping [OF assms]
  by (auto simp: bookkeeping_def final_record_def in_play_def)

theorem books_in_order_witness:
  "let rt = fst (snd (operate scripted (Batch [op_at Click 0 0, op_at Flag 1 0])
        (snd (init scripted (new_runtime, game_script))))) in
   length (end_entries rt) = 1 \<and> operationCount rt = 2 \<and> \<not> in_play rt"
proof -
  let ?s0 = "(new_runtime, game_script)"
  let ?s1 = "snd (init scripted ?s0)"
  let ?s2 = "snd (operate scripted (Batch [op_at Click 0 0, op_at Flag 1 0]) ?s1)"
  have "runtime_reach scripted (\<lambda>_. True) (=) (fst ?s1) (snd ?s1)"
    by (rule call_init [OF new_game_runtime]) (simp_all add: prod_eq_iff)
  then have "runtime_reach scripted (\<lambda>_. True) (=) (fst ?s2) (snd ?s2)"
    by (rule call_operate) (simp add: prod_eq_iff)
  note books_in_order [OF this]
  moreover have "length (end_entries (fst ?s2)) = 1" "operationCount (fst ?s2) = 2"
    by code_simp+
  ultimately show ?thesis unfolding Let_def by (metis list.size(3) zero_neq_one)
qed

text \<open>A text result of \<open>init\<close> or \<open>operate\<close> concludes the model's turn exactly when the board
  recognized at that moment is won or lost; an unrecognized board never concludes it.\<close>
lemma concludes_turn_iff_over:
  assumes "init d (rt, w) = (Some (TextOutcome t c), rt', w') \<or>
           operate d input (rt, w) = (Some (TextOutcome t c), rt', w')"
  shows "c \<longleftrightarrow> (\<exists>st. recognized rt' = Some st \<and> gameStatus st \<in> {Won, Lost})"
proof -
  have "st \<in> {Won, Lost} \<longleftrightarrow> st \<noteq> Playing" for st by (cases st) simp_all
  moreover have "c \<longleftrightarrow> over rt'" using assms by (elim disjE) (erule init_marker operate_marker)+
  ultimately show ?thesis by (simp add: over_def)
qed



end
