(* ===== verification/Board_Recognize.thy ===== *)
theory Board_Recognize
  imports Board_Classify Board_Counter Game_Runtime
begin

text \<open>
  \<open>recognize.ts\<close>: the recognition of a whole board and the stateful \<open>SaoleiBoard\<close>; the default
  board engine of \<open>board.ts\<close> and the runtime \<open>createGameRuntime\<close> wires around it. The PNG
  decoder is the parameter \<open>decodePng\<close> (\<open>None\<close> when it throws). The engine meets the interface
  \<open>board_engine\<close> of the runtime: \<open>default_engine\<close> interprets it.
\<close>

section \<open>Recognition (recognize.ts)\<close>

record recognize_options =
  opt_geometry :: board_geometry
  opt_profile :: color_profile
  opt_counterProfile :: counter_profile
  opt_width :: "int option"
  opt_height :: "int option"

definition default_options :: recognize_options where
  "default_options = \<lparr>opt_geometry = DEFAULT_GEOMETRY, opt_profile = DEFAULT_COLOR_PROFILE,
     opt_counterProfile = DEFAULT_COUNTER_PROFILE, opt_width = None, opt_height = None\<rparr>"

text \<open>\<open>UndefinedPixel\<close> stands for a read outside the pixel buffer.\<close>

datatype board_error =
  PngError
| UndefinedPixel
| BoardDimensionMismatchError "int \<times> int" "int \<times> int"
| BoardStateIncompatibleError jstr
| BoardNotInitialized

definition board_size :: "recognize_options \<Rightarrow> decoded_image \<Rightarrow> int \<times> int" where
  "board_size opts img =
     (case (opt_width opts, opt_height opts) of
        (Some w, Some h) \<Rightarrow>
          if w \<noteq> 0 \<and> h \<noteq> 0 then (w, h)
          else detectBoardSize (img_width img) (img_height img) (opt_geometry opts)
      | _ \<Rightarrow> detectBoardSize (img_width img) (img_height img) (opt_geometry opts))"

definition recognize_cell :: "recognize_options \<Rightarrow> decoded_image \<Rightarrow> int \<Rightarrow> int \<Rightarrow> cell_status option" where
  "recognize_cell opts img x y =
     (let (ox, oy) = cellOrigin x y (opt_geometry opts) in
      do {
        region \<leftarrow> extractCellRegion img ox oy (cellSizePx (opt_geometry opts));
        result \<leftarrow> classifyCell (pixels region) (region_width region) (region_height region)
                    (opt_profile opts);
        Some (fst result)
      })"

definition recognizeBoard ::
  "(bytes \<Rightarrow> decoded_image option) \<Rightarrow> bytes \<Rightarrow> recognize_options \<Rightarrow> board_error + game_state" where
  "recognizeBoard decodePng png opts =
     (case decodePng png of
        None \<Rightarrow> Inl PngError
      | Some img \<Rightarrow>
          (let (width, height) = board_size opts img in
           case do {
             rows \<leftarrow> those (map (\<lambda>y. those (map (\<lambda>x. recognize_cell opts img x y) [0..width - 1]))
                             [0..height - 1]);
             counter \<leftarrow> decodeMineCounter img (opt_counterProfile opts);
             Some \<lparr>gwidth = width, gheight = height, grid = rows, mineCounter = Some counter\<rparr>
           } of None \<Rightarrow> Inl UndefinedPixel | Some st \<Rightarrow> Inr st))"

record saolei_board =
  sb_width :: int
  sb_height :: int
  sb_geometry :: board_geometry
  sb_profile :: color_profile
  sb_counterProfile :: counter_profile
  sb_current :: game_state

definition SaoleiBoard_init ::
  "(bytes \<Rightarrow> decoded_image option) \<Rightarrow> bytes \<Rightarrow> recognize_options \<Rightarrow> board_error + saolei_board" where
  "SaoleiBoard_init decodePng png opts =
     (case recognizeBoard decodePng png opts of
        Inl e \<Rightarrow> Inl e
      | Inr st \<Rightarrow> Inr \<lparr>sb_width = gwidth st, sb_height = gheight st, sb_geometry = opt_geometry opts,
                      sb_profile = opt_profile opts, sb_counterProfile = opt_counterProfile opts,
                      sb_current = st\<rparr>)"

text \<open>The update recognizes with the board's profile and geometry, not with its size.\<close>

definition update_options :: "saolei_board \<Rightarrow> recognize_options" where
  "update_options sb = \<lparr>opt_geometry = sb_geometry sb, opt_profile = sb_profile sb,
     opt_counterProfile = sb_counterProfile sb, opt_width = None, opt_height = None\<rparr>"

definition updateFromScreenshot ::
  "(bytes \<Rightarrow> decoded_image option) \<Rightarrow> bytes \<Rightarrow> saolei_board \<Rightarrow> (board_error + game_state) \<times> saolei_board" where
  "updateFromScreenshot decodePng png sb =
     (case recognizeBoard decodePng png (update_options sb) of
        Inl e \<Rightarrow> (Inl e, sb)
      | Inr st \<Rightarrow>
          (case checkCompatible (sb_current sb) st of
             Incompatible Dimension _ \<Rightarrow>
               (Inl (BoardDimensionMismatchError (sb_width sb, sb_height sb) (gwidth st, gheight st)), sb)
           | Incompatible State reason \<Rightarrow> (Inl (BoardStateIncompatibleError reason), sb)
           | Compatible \<Rightarrow> (Inr st, sb\<lparr>sb_current := st\<rparr>)))"

section \<open>The default engine (board.ts, createDefaultBoardApi)\<close>

definition board_api_init ::
  "(bytes \<Rightarrow> decoded_image option) \<Rightarrow> bytes \<Rightarrow> saolei_board option \<Rightarrow>
   (board_error + game_state) \<times> saolei_board option" where
  "board_api_init decodePng png board =
     (case SaoleiBoard_init decodePng png default_options of
        Inl e \<Rightarrow> (Inl e, board)
      | Inr sb \<Rightarrow> (Inr (sb_current sb), Some sb))"

definition board_api_update ::
  "(bytes \<Rightarrow> decoded_image option) \<Rightarrow> bytes \<Rightarrow> saolei_board option \<Rightarrow>
   (board_error + game_state) \<times> saolei_board option" where
  "board_api_update decodePng png board =
     (case board of
        None \<Rightarrow> (Inl BoardNotInitialized, None)
      | Some sb \<Rightarrow> (case updateFromScreenshot decodePng png sb of (r, sb') \<Rightarrow> (r, Some sb')))"

fun result_option :: "'e + 'a \<Rightarrow> 'a option" where
  "result_option (Inl e) = None"
| "result_option (Inr x) = Some x"

text \<open>
  \<open>createGameRuntime\<close>: the world is the engine's board and the rest \<open>'v\<close>, which the desktop
  bridge, the subscriber and the clock act on; the dispatch is bound to the session name.
\<close>

definition createGameRuntime ::
  "(bytes \<Rightarrow> decoded_image option) \<Rightarrow> (jstr \<Rightarrow> bytes) \<Rightarrow> ('v \<Rightarrow> int) \<Rightarrow> jstr \<Rightarrow>
   (jstr \<Rightarrow> wire_flow_part \<Rightarrow> 'v \<Rightarrow> operation_result option \<times> 'v) \<Rightarrow>
   (game_log_entry \<Rightarrow> 'v \<Rightarrow> bool \<times> 'v) option \<Rightarrow> (saolei_board option \<times> 'v) runtime_deps" where
  "createGameRuntime decodePng base64 now sessionName bridge subscriber =
     \<lparr>dispatch = (\<lambda>part (board, v). case bridge sessionName part v of (r, v') \<Rightarrow> (r, board, v')),
      board_init = (\<lambda>png (board, v). case board_api_init decodePng png board of
                      (r, board') \<Rightarrow> (result_option r, board', v)),
      board_update = (\<lambda>png (board, v). case board_api_update decodePng png board of
                      (r, board') \<Rightarrow> (result_option r, board', v)),
      from_base64 = base64,
      onBoardChange = map_option (\<lambda>f e (board, v). case f e v of (fine, v') \<Rightarrow> (fine, board, v'))
                        subscriber,
      date_now = (\<lambda>(board, v). now v)\<rparr>"

section \<open>Lemmas\<close>

lemma those_shape:
  "those (map f xs) = Some ys \<Longrightarrow> length ys = length xs \<and> (\<forall>y \<in> set ys. \<exists>x \<in> set xs. f x = Some y)"
proof (induction xs arbitrary: ys)
  case (Cons x xs)
  then show ?case by (cases "f x"; cases "those (map f xs)") auto
qed simp

lemma detectBoardSize_pos: "detectBoardSize iw ih geo = (w, h) \<Longrightarrow> 1 \<le> w \<and> 1 \<le> h"
  by (auto simp: detectBoardSize_def Let_def)

lemma recognizeBoard_Inr:
  assumes "recognizeBoard decodePng png opts = Inr st"
  obtains img where "decodePng png = Some img" "(gwidth st, gheight st) = board_size opts img"
    "those (map (\<lambda>y. those (map (\<lambda>x. recognize_cell opts img x y) [0..gwidth st - 1]))
       [0..gheight st - 1]) = Some (grid st)"
    "\<exists>c. mineCounter st = Some c \<and> decodeMineCounter img (opt_counterProfile opts) = Some c"
  using assms
  by (auto simp: recognizeBoard_def Let_def split: option.splits prod.splits Option.bind_splits)

lemma board_size_default:
  assumes "opt_width opts = None"
  shows "board_size opts img = detectBoardSize (img_width img) (img_height img) (opt_geometry opts)"
  using assms by (simp add: board_size_def)

text \<open>With the detected size every recognized board has the declared shape.\<close>

lemma recognizeBoard_wf:
  assumes "recognizeBoard decodePng png opts = Inr st" and "opt_width opts = None"
  shows "wf_state st" "1 \<le> gwidth st" "1 \<le> gheight st"
proof -
  from assms(1) obtain img where sz: "(gwidth st, gheight st) = board_size opts img"
    and rows: "those (map (\<lambda>y. those (map (\<lambda>x. recognize_cell opts img x y) [0..gwidth st - 1]))
       [0..gheight st - 1]) = Some (grid st)"
    by (rule recognizeBoard_Inr)
  from sz assms(2) show pos: "1 \<le> gwidth st" "1 \<le> gheight st"
    using detectBoardSize_pos by (metis board_size_default)+
  from those_shape [OF rows] have "length (grid st) = nat (gheight st)"
    and "\<forall>row \<in> set (grid st). \<exists>y. those (map (\<lambda>x. recognize_cell opts img x y) [0..gwidth st - 1]) = Some row"
    by auto
  moreover have "\<forall>row \<in> set (grid st). length row = nat (gwidth st)"
  proof
    fix row
    assume "row \<in> set (grid st)"
    with calculation(2) obtain y where
      "those (map (\<lambda>x. recognize_cell opts img x y) [0..gwidth st - 1]) = Some row" by blast
    then show "length row = nat (gwidth st)" by (auto dest!: length_those)
  qed
  ultimately show "wf_state st" using pos by (simp add: wf_state_def)
qed

lemma recognize_cell_default:
  assumes "recognize_cell opts img x y = Some st" and "opt_profile opts = DEFAULT_COLOR_PROFILE"
    and "0 \<le> cellSizePx (opt_geometry opts)"
  shows "st \<noteq> UNKNOWN"
proof -
  from assms(1) obtain ox oy reg dg where "extractCellRegion img ox oy (cellSizePx (opt_geometry opts)) = Some reg"
    and cl: "classifyCell (pixels reg) (region_width reg) (region_height reg) (opt_profile opts) = Some (st, dg)"
    by (auto simp: recognize_cell_def Let_def split: prod.splits Option.bind_splits)
  from extractCellRegion_shape [OF this(1)] assms(3)
  have "wf_pixels (pixels reg) (region_width reg) (region_height reg)"
    by (simp add: wf_pixels_def)
  from classify_default [OF this] cl assms(2) show ?thesis by (metis option.inject prod.inject)
qed

lemma recognizeBoard_no_unknown:
  assumes "recognizeBoard decodePng png opts = Inr st" and "opt_profile opts = DEFAULT_COLOR_PROFILE"
    and "0 \<le> cellSizePx (opt_geometry opts)"
  shows "UNKNOWN \<notin> cells st"
proof
  assume "UNKNOWN \<in> cells st"
  then obtain row where row: "row \<in> set (grid st)" "UNKNOWN \<in> set row" by (auto simp: cells_iff)
  from assms(1) obtain img where
    rows: "those (map (\<lambda>y. those (map (\<lambda>x. recognize_cell opts img x y) [0..gwidth st - 1]))
       [0..gheight st - 1]) = Some (grid st)"
    by (rule recognizeBoard_Inr)
  from those_shape [OF rows] row(1) obtain y where
    "those (map (\<lambda>x. recognize_cell opts img x y) [0..gwidth st - 1]) = Some row" by auto
  from those_shape [OF this] row(2) obtain x where "recognize_cell opts img x y = Some UNKNOWN" by auto
  from recognize_cell_default [OF this assms(2,3)] show False by simp
qed

text \<open>Recognition is defined on every image the decoder documents.\<close>

lemma recognize_cell_defined:
  assumes "wf_image img" and "img_width img * img_height img \<le> 2 ^ 29"
    and "opt_profile opts = DEFAULT_COLOR_PROFILE" and "0 \<le> cellSizePx (opt_geometry opts)"
  shows "recognize_cell opts img x y \<noteq> None"
proof -
  obtain ox oy where o: "cellOrigin x y (opt_geometry opts) = (ox, oy)" by fastforce
  obtain reg where reg: "extractCellRegion img ox oy (cellSizePx (opt_geometry opts)) = Some reg"
    using extractCellRegion_defined [OF assms(1,2)] by blast
  from extractCellRegion_shape [OF this] assms(4)
  have "wf_pixels (pixels reg) (region_width reg) (region_height reg)" by (simp add: wf_pixels_def)
  from classify_default [OF this] obtain st dg where
    "classifyCell (pixels reg) (region_width reg) (region_height reg) (opt_profile opts) = Some (st, dg)"
    unfolding assms(3) by blast
  with reg o show ?thesis by (simp add: recognize_cell_def)
qed

lemma recognizeBoard_defined:
  assumes "decodePng png = Some img" and "wf_image img" and "img_width img * img_height img \<le> 2 ^ 29"
    and "opt_profile opts = DEFAULT_COLOR_PROFILE" "opt_geometry opts = DEFAULT_GEOMETRY"
    and "opt_counterProfile opts = DEFAULT_COUNTER_PROFILE"
  shows "\<exists>st. recognizeBoard decodePng png opts = Inr st"
proof -
  obtain w h where sz: "board_size opts img = (w, h)" by fastforce
  have cell: "recognize_cell opts img x y \<noteq> None" for x y
    by (rule recognize_cell_defined [OF assms(2-4)]) (simp add: assms(5) DEFAULT_GEOMETRY_def)
  have "those (map (\<lambda>x. recognize_cell opts img x y) [0..w - 1]) \<noteq> None" for y
    by (rule those_total) (use cell in auto)
  then have "those (map (\<lambda>y. those (map (\<lambda>x. recognize_cell opts img x y) [0..w - 1])) [0..h - 1]) \<noteq> None"
    by (intro those_total) auto
  moreover have "decodeMineCounter img (opt_counterProfile opts) \<noteq> None"
    by (rule decodeMineCounter_defined [OF assms(2,3)])
       (simp add: assms(6) DEFAULT_COUNTER_PROFILE_def)
  ultimately show ?thesis using assms(1) sz by (auto simp: recognizeBoard_def)
qed

lemma default_options_simps [simp]:
  "opt_width default_options = None" "opt_profile default_options = DEFAULT_COLOR_PROFILE"
  "opt_geometry default_options = DEFAULT_GEOMETRY"
  "opt_counterProfile default_options = DEFAULT_COUNTER_PROFILE"
  by (simp_all add: default_options_def)

subsection \<open>Updates\<close>

lemma updateFromScreenshot_cases:
  assumes "updateFromScreenshot decodePng png sb = (r, sb')"
  obtains (failed) e where "recognizeBoard decodePng png (update_options sb) = Inl e" "r = Inl e" "sb' = sb"
  | (incompatible) st k why where "recognizeBoard decodePng png (update_options sb) = Inr st"
      "checkCompatible (sb_current sb) st = Incompatible k why"
      "r = Inl (if k = Dimension
                then BoardDimensionMismatchError (sb_width sb, sb_height sb) (gwidth st, gheight st)
                else BoardStateIncompatibleError why)" "sb' = sb"
  | (updated) st where "recognizeBoard decodePng png (update_options sb) = Inr st"
      "checkCompatible (sb_current sb) st = Compatible" "r = Inr st" "sb' = sb\<lparr>sb_current := st\<rparr>"
proof (cases "recognizeBoard decodePng png (update_options sb)")
  case (Inl e)
  with assms show thesis by (intro failed [of e]) (simp_all add: updateFromScreenshot_def)
next
  case (Inr st)
  note rec = this
  show thesis
  proof (cases "checkCompatible (sb_current sb) st")
    case Compatible
    with assms rec show thesis by (intro updated [of st]) (auto simp: updateFromScreenshot_def)
  next
    case (Incompatible k why)
    have "r = Inl (if k = Dimension
          then BoardDimensionMismatchError (sb_width sb, sb_height sb) (gwidth st, gheight st)
          else BoardStateIncompatibleError why)" and "sb' = sb"
      using assms rec Incompatible by (cases k; auto simp: updateFromScreenshot_def)+
    with rec Incompatible show thesis by (rule incompatible)
  qed
qed

lemma first_failure_kind:
  "(\<And>c k why. c \<in> set cs \<Longrightarrow> c = Incompatible k why \<Longrightarrow> k = State) \<Longrightarrow>
   first_failure cs = Incompatible k why \<Longrightarrow> k = State"
  by (induction cs) (auto split: if_splits)

lemma checkCompatible_dimension:
  assumes "checkCompatible p n = Incompatible k why"
  shows "k = Dimension \<longleftrightarrow> (gwidth p, gheight p) \<noteq> (gwidth n, gheight n)"
proof (cases "gwidth p \<noteq> gwidth n \<or> gheight p \<noteq> gheight n")
  case True
  with assms show ?thesis by (auto simp: checkCompatible_def)
next
  case False
  with assms have "first_failure [compatibleCell x y (cell_at p x y) (cell_at n x y).
             y \<leftarrow> [0..gheight p - 1], x \<leftarrow> [0..gwidth p - 1]] = Incompatible k why"
    unfolding checkCompatible_def by (simp only: if_False)
  then have "k = State"
    by (rule first_failure_kind [rotated]) (auto simp: compatibleCell_def split: if_splits)
  with False show ?thesis by simp
qed

section \<open>The default engine meets the interface\<close>

definition engine_ok :: "saolei_board option \<times> 'v \<Rightarrow> bool" where
  "engine_ok w \<longleftrightarrow> (\<forall>sb. fst w = Some sb \<longrightarrow>
     sb_profile sb = DEFAULT_COLOR_PROFILE \<and> sb_geometry sb = DEFAULT_GEOMETRY)"

definition engine_cur :: "saolei_board option \<times> 'v \<Rightarrow> game_state option" where
  "engine_cur w = map_option sb_current (fst w)"

lemma recognized_default:
  assumes "recognizeBoard decodePng png opts = Inr st" "opt_width opts = None"
    "opt_profile opts = DEFAULT_COLOR_PROFILE" "opt_geometry opts = DEFAULT_GEOMETRY"
  shows "wf_state st" "UNKNOWN \<notin> cells st"
  using recognizeBoard_wf(1) [OF assms(1,2)] recognizeBoard_no_unknown [OF assms(1,3)] assms(4)
  by (simp_all add: DEFAULT_GEOMETRY_def)

lemma board_api_init_law:
  assumes "board_api_init decodePng png board = (r, board')" and "engine_ok (board, v)"
  shows "engine_ok (board', v')"
    "r = Inr st \<Longrightarrow> wf_state st \<and> UNKNOWN \<notin> cells st \<and> map_option sb_current board' = Some st"
proof -
  show "engine_ok (board', v')"
    using assms by (auto simp: board_api_init_def SaoleiBoard_init_def engine_ok_def default_options_def
        split: sum.splits)
  assume r: "r = Inr st"
  with assms(1) have "recognizeBoard decodePng png default_options = Inr st"
    "map_option sb_current board' = Some st"
    by (auto simp: board_api_init_def SaoleiBoard_init_def split: sum.splits)
  with recognized_default [OF this(1)]
  show "wf_state st \<and> UNKNOWN \<notin> cells st \<and> map_option sb_current board' = Some st"
    by (simp add: default_options_def)
qed

lemma board_api_update_law:
  assumes "board_api_update decodePng png board = (r, board')" and "engine_ok (board, v)"
  shows "engine_ok (board', v')"
    "r = Inr st \<Longrightarrow> wf_state st \<and> UNKNOWN \<notin> cells st \<and> map_option sb_current board' = Some st \<and>
       (\<exists>p. map_option sb_current board = Some p \<and> checkCompatible p st = Compatible)"
proof -
  show "engine_ok (board', v')"
  proof (cases board)
    case (Some sb)
    obtain q sb' where u: "updateFromScreenshot decodePng png sb = (q, sb')" by (metis prod.collapse)
    from u have "sb_profile sb' = sb_profile sb \<and> sb_geometry sb' = sb_geometry sb"
      by (cases rule: updateFromScreenshot_cases) simp_all
    with assms Some u show ?thesis by (auto simp: board_api_update_def engine_ok_def)
  qed (use assms in \<open>auto simp: board_api_update_def engine_ok_def\<close>)
  assume r: "r = Inr st"
  with assms(1) obtain sb sb' where board: "board = Some sb" "board' = Some sb'"
    and u: "updateFromScreenshot decodePng png sb = (Inr st, sb')"
    by (auto simp: board_api_update_def split: option.splits prod.splits)
  from u show "wf_state st \<and> UNKNOWN \<notin> cells st \<and> map_option sb_current board' = Some st \<and>
       (\<exists>p. map_option sb_current board = Some p \<and> checkCompatible p st = Compatible)"
  proof (cases rule: updateFromScreenshot_cases)
    case (updated st')
    with recognized_default [OF updated(1)] assms(2) board show ?thesis
      by (auto simp: engine_ok_def update_options_def)
  qed simp_all
qed

interpretation default_engine: board_engine
  "createGameRuntime decodePng base64 now sessionName bridge subscriber" engine_ok engine_cur
  for decodePng base64 now sessionName bridge subscriber
proof unfold_locales
  fix w :: "saolei_board option \<times> 'a" and data r w'
  assume ok: "engine_ok w" and "board_init
      (createGameRuntime decodePng base64 now sessionName bridge subscriber) data w = (r, w')"
  moreover obtain board v where w: "w = (board, v)" by (cases w)
  moreover obtain q board' where api: "board_api_init decodePng data board = (q, board')"
    by (metis prod.collapse)
  ultimately have "w' = (board', v)" "r = result_option q" by (auto simp: createGameRuntime_def)
  with board_api_init_law [OF api ok [unfolded w]]
  show "engine_ok w' \<and> (\<forall>st. r = Some st \<longrightarrow>
      wf_state st \<and> UNKNOWN \<notin> cells st \<and> engine_cur w' = Some st)"
    by (cases q) (auto simp: engine_cur_def)
next
  fix w :: "saolei_board option \<times> 'a" and data r w'
  assume ok: "engine_ok w" and "board_update
      (createGameRuntime decodePng base64 now sessionName bridge subscriber) data w = (r, w')"
  moreover obtain board v where w: "w = (board, v)" by (cases w)
  moreover obtain q board' where api: "board_api_update decodePng data board = (q, board')"
    by (metis prod.collapse)
  ultimately have "w' = (board', v)" "r = result_option q" by (auto simp: createGameRuntime_def)
  with board_api_update_law [OF api ok [unfolded w]] w
  show "engine_ok w' \<and> (\<forall>st. r = Some st \<longrightarrow>
      wf_state st \<and> UNKNOWN \<notin> cells st \<and> engine_cur w' = Some st \<and>
      (\<exists>p. engine_cur w = Some p \<and> checkCompatible p st = Compatible))"
    by (cases q) (auto simp: engine_cur_def)
qed (auto simp: createGameRuntime_def engine_ok_def engine_cur_def split: prod.splits)

lemma runtime_reach_mono:
  "runtime_reach d start env rt w \<Longrightarrow> (\<And>w. start w \<Longrightarrow> start' w) \<Longrightarrow> runtime_reach d start' env rt w"
  by (induction rule: runtime_reach.induct) (auto intro: runtime_reach.intros)

section \<open>Properties\<close>

text \<open>A one-pixel screenshot, and the option record with an explicit size.\<close>

definition pixel_image :: decoded_image where
  "pixel_image = \<lparr>img_width = 1, img_height = 1, img_data = [0, 0, 0, 255]\<rparr>"

definition explicit_size :: "int \<Rightarrow> int \<Rightarrow> recognize_options" where
  "explicit_size w h = default_options\<lparr>opt_width := Some w, opt_height := Some h\<rparr>"

text \<open>C6: Recognition of a decoded screenshot (an RGBA buffer of the declared size, at most \<open>2 ^ 29\<close>
  pixels) always returns a board: never an undefined pixel, at least one cell, a grid of exactly
  the declared width and height, and no cell left \<open>UNKNOWN\<close>.\<close>
theorem recognition_total:
  assumes "decodePng png = Some img" and "wf_image img" and "img_width img * img_height img \<le> 2 ^ 29"
  shows "\<exists>st. recognizeBoard decodePng png default_options = Inr st \<and> wf_state st \<and>
     1 \<le> gwidth st \<and> 1 \<le> gheight st \<and> UNKNOWN \<notin> cells st"
proof -
  obtain st where st: "recognizeBoard decodePng png default_options = Inr st"
    using recognizeBoard_defined [of decodePng png img default_options] assms by auto
  then show ?thesis
    using recognizeBoard_wf [OF st] recognized_default(2) [OF st] by simp
qed

theorem recognition_total_witness:
  "\<exists>st. recognizeBoard (\<lambda>_. Some pixel_image) [] default_options = Inr st \<and> wf_state st \<and>
     1 \<le> gwidth st \<and> 1 \<le> gheight st \<and> UNKNOWN \<notin> cells st"
  by (rule recognition_total [of "\<lambda>_. Some pixel_image" "[]" pixel_image])
     (simp_all add: pixel_image_def wf_image_def)

text \<open>C1: In the game log of a runtime wired by \<open>createGameRuntime\<close>, whatever calls it received and
  whatever the desktop answered, a later entry's board has the size of an earlier one's and shows
  every cell the earlier one shows revealed with the same value: the history the model sees never
  takes a reveal back.\<close>
theorem game_history_monotone:
  assumes "runtime_reach (createGameRuntime decodePng base64 now sessionName bridge subscriber)
      (\<lambda>w. fst w = None) env rt w"
    and "\<And>w w'. env w w' \<Longrightarrow> fst w' = fst w"
    and "i < j" and "j < length (gameLog rt)"
  shows "evolves (log_state (gameLog rt ! i)) (log_state (gameLog rt ! j))"
proof (rule default_engine.log_monotone)
  show "runtime_reach (createGameRuntime decodePng base64 now sessionName bridge subscriber)
      engine_ok env rt w"
    by (rule runtime_reach_mono [OF assms(1)]) (simp add: engine_ok_def)
  show "\<And>w w'. env w w' \<Longrightarrow> engine_ok w \<Longrightarrow> engine_ok w' \<and> engine_cur w' = engine_cur w"
    using assms(2) by (simp add: engine_ok_def engine_cur_def)
qed (use assms(3,4) in auto)

text \<open>A desktop that answers every dispatch with a screenshot, and its runtime.\<close>

definition answering_bridge :: "jstr \<Rightarrow> wire_flow_part \<Rightarrow> unit \<Rightarrow> operation_result option \<times> unit" where
  "answering_bridge s part v =
     (Some \<lparr>res_status = SUCCEEDED, res_message = [], res_data = Some (js ''AA'')\<rparr>, v)"

definition sample_runtime :: "(saolei_board option \<times> unit) runtime_deps" where
  "sample_runtime = createGameRuntime (\<lambda>_. Some pixel_image) (\<lambda>_. []) (\<lambda>_. 0) [] answering_bridge None"

theorem game_history_monotone_witness:
  "let rt = fst (snd (operate sample_runtime (Single (op_at Click (- 1) 0))
        (snd (init sample_runtime (new_runtime, None, ()))))) in
   length (gameLog rt) = 2 \<and> evolves (log_state (gameLog rt ! 0)) (log_state (gameLog rt ! 1))"
proof -
  let ?d = "createGameRuntime (\<lambda>_. Some pixel_image) (\<lambda>_. []) (\<lambda>_. 0) [] answering_bridge None"
  let ?s1 = "snd (init sample_runtime (new_runtime, None, ()))"
  let ?s2 = "snd (operate sample_runtime (Single (op_at Click (- 1) 0)) ?s1)"
  obtain st where st: "recognizeBoard (\<lambda>_. Some pixel_image) [] default_options = Inr st"
    using recognizeBoard_defined [of "\<lambda>_. Some pixel_image" "[]" pixel_image default_options]
    by (auto simp: pixel_image_def wf_image_def)
  have r1: "runtime_reach ?d (\<lambda>w. fst w = None) (=) (fst ?s1) (snd ?s1)"
    by (rule call_init [OF new_game_runtime]) (simp_all add: sample_runtime_def prod_eq_iff)
  then have r2: "runtime_reach ?d (\<lambda>w. fst w = None) (=) (fst ?s2) (snd ?s2)"
    by (rule call_operate) (simp add: sample_runtime_def prod_eq_iff)
  have "recognized (fst ?s1) = Some st \<and> length (gameLog (fst ?s1)) = 1"
    using st by (simp add: init_def recognize_def sample_runtime_def createGameRuntime_def
        answering_bridge_def board_api_init_def SaoleiBoard_init_def)
  then have len: "length (gameLog (fst ?s2)) = 2"
    by (cases ?s1) (simp add: operate_def executeOperation_def validateMove_def op_at_def
        STOP_REASONS_def SKIP_REASONS_def empty_batch_def finish_batch_def publish_change_def
        sample_runtime_def createGameRuntime_def conclude_game_def Let_def)
  from game_history_monotone [OF r2, of 0 1] len show ?thesis by (simp add: Let_def)
qed

definition legal_successor :: "game_state \<Rightarrow> game_state \<Rightarrow> bool" where
  "legal_successor p n \<longleftrightarrow> (\<forall>x y. in_board p x y \<longrightarrow> may_become (cell_at p x y) (cell_at n x y))"

text \<open>C7: An update leaves the board's state exactly when it fails; it succeeds only with a board of
  the same size in which every transition is legal, and otherwise reports a dimension mismatch
  (with both sizes) exactly when the sizes differ and an illegal transition when they agree.\<close>
theorem update_refines_compatibility:
  "updateFromScreenshot decodePng png sb =
     (case recognizeBoard decodePng png (update_options sb) of
        Inl e \<Rightarrow> (Inl e, sb)
      | Inr st \<Rightarrow>
          if (gwidth (sb_current sb), gheight (sb_current sb)) \<noteq> (gwidth st, gheight st) then
            (Inl (BoardDimensionMismatchError (sb_width sb, sb_height sb) (gwidth st, gheight st)), sb)
          else if legal_successor (sb_current sb) st then (Inr st, sb\<lparr>sb_current := st\<rparr>)
          else (Inl (BoardStateIncompatibleError
                  (case checkCompatible (sb_current sb) st of Incompatible k why \<Rightarrow> why)), sb))"
proof (cases "recognizeBoard decodePng png (update_options sb)")
  case (Inl e)
  then show ?thesis by (simp add: updateFromScreenshot_def)
next
  case (Inr st)
  note rec = this
  let ?p = "sb_current sb"
  show ?thesis
  proof (cases "(gwidth ?p, gheight ?p) \<noteq> (gwidth st, gheight st)")
    case True
    then obtain k why where inc: "checkCompatible ?p st = Incompatible k why"
      by (cases "checkCompatible ?p st") (auto simp: checkCompatible_iff)
    with checkCompatible_dimension True have "k = Dimension" by blast
    with rec True inc show ?thesis by (simp add: updateFromScreenshot_def)
  next
    case False
    then have legal: "checkCompatible ?p st = Compatible \<longleftrightarrow> legal_successor ?p st"
      by (simp add: checkCompatible_iff legal_successor_def)
    show ?thesis
    proof (cases "checkCompatible ?p st")
      case Compatible
      with rec False legal show ?thesis by (simp add: updateFromScreenshot_def)
    next
      case (Incompatible k why)
      with checkCompatible_dimension False have "k = State" by (cases k) blast+
      with rec False legal Incompatible show ?thesis by (simp add: updateFromScreenshot_def)
    qed
  qed
qed

text \<open>A board initialized with an explicit size that is not the detected one cannot be updated:
  the update detects the size anew, so even the very same screenshot is rejected as a different
  board.\<close>
lemma explicit_size_never_updates:
  assumes "SaoleiBoard_init decodePng png (explicit_size w h) = Inr sb"
    and "w \<noteq> 0" "h \<noteq> 0"
    and "decodePng png = Some img" "wf_image img" "img_width img * img_height img \<le> 2 ^ 29"
    and "detectBoardSize (img_width img) (img_height img) DEFAULT_GEOMETRY = (w', h')"
    and "(w, h) \<noteq> (w', h')"
  shows "updateFromScreenshot decodePng png sb = (Inl (BoardDimensionMismatchError (w, h) (w', h')), sb)"
proof -
  obtain st where st: "recognizeBoard decodePng png (explicit_size w h) = Inr st"
    and sb: "sb = \<lparr>sb_width = gwidth st, sb_height = gheight st, sb_geometry = DEFAULT_GEOMETRY,
      sb_profile = DEFAULT_COLOR_PROFILE, sb_counterProfile = DEFAULT_COUNTER_PROFILE, sb_current = st\<rparr>"
    using assms(1) by (auto simp: SaoleiBoard_init_def explicit_size_def split: sum.splits)
  from st have wh: "gwidth st = w" "gheight st = h"
    using assms(2,3,4)
    by (auto elim!: recognizeBoard_Inr simp: board_size_def explicit_size_def)
  have up: "update_options sb = default_options"
    by (simp add: sb update_options_def default_options_def)
  obtain st' where st': "recognizeBoard decodePng png default_options = Inr st'"
    using recognizeBoard_defined [of decodePng png img default_options] assms(4-6) by auto
  then have "(gwidth st', gheight st') = (w', h')"
    using assms(4,7) by (auto elim!: recognizeBoard_Inr simp: board_size_def default_options_def)
  then have dims: "gwidth st' = w'" "gheight st' = h'" by simp_all
  have "(gwidth (sb_current sb), gheight (sb_current sb)) \<noteq> (gwidth st', gheight st')"
    using assms(8) wh dims by (simp add: sb)
  then obtain why where "checkCompatible (sb_current sb) st' = Incompatible Dimension why"
    by (auto simp: checkCompatible_def)
  with st' up wh dims show ?thesis by (simp add: updateFromScreenshot_def sb)
qed

text \<open>The client-space pixel a move clicks is the middle of the screenshot square its cell is
  recognized from, 96 pixels of window chrome higher, and it lies strictly inside that square.\<close>
lemma click_hits_recognized_cell:
  "center x y = (fst (cellOrigin x y DEFAULT_GEOMETRY) + cellSizePx DEFAULT_GEOMETRY div 2,
                 snd (cellOrigin x y DEFAULT_GEOMETRY) + cellSizePx DEFAULT_GEOMETRY div 2
                   - CHROME_OFFSET_Y_PX)"
  by (simp add: geometry_defs cellOrigin_def DEFAULT_GEOMETRY_def)

end
