(* ===== verification/Memory_Store.thy ===== *)
theory Memory_Store
  imports JS_Prelude "HOL-Library.Monad_Syntax"
begin

text \<open>
  The storage adapters of \<open>common/js/memory/src/store.ts\<close>: resource names, the two clients that
  turn domain calls into RPC requests, and the page walk of \<open>listMemories\<close>. The injected service
  client, called through the injected unary policy, is the record \<open>memory_calls\<close> (resp.
  \<open>wiki_calls\<close>) of functions over a world \<open>'w\<close>; a rejected call is a \<open>store_error\<close>. A page walk
  that never meets an empty token does not return, so it is a \<open>partial_function (option)\<close>, and
  \<open>listMemories\<close> returns an option. \<open>memory_service\<close> states the service's contract, and
  \<open>reference_service\<close> is the smallest service with that contract.
\<close>

declare js_simps(2) [simp del]

section \<open>Errors and names\<close>

record store_error =
  err_code :: "int option"
  err_message :: jstr

definition describeErr :: "store_error \<Rightarrow> jstr" where
  "describeErr e = err_message e"

definition scope_parent :: "jstr \<Rightarrow> jstr \<Rightarrow> jstr" where
  "scope_parent template preset = js ''templates/'' @ template @ js ''/presets/'' @ preset"

definition memoryName :: "jstr \<Rightarrow> jstr \<Rightarrow> jstr \<Rightarrow> jstr" where
  "memoryName template preset memoryId =
     js ''templates/'' @ template @ js ''/presets/'' @ preset @ js ''/memories/'' @ memoryId"

text \<open>\<open>name.slice(name.lastIndexOf("/") + 1)\<close>: the units after the last slash.\<close>

definition after_last_slash :: "jstr \<Rightarrow> jstr" where
  "after_last_slash name = rev (takeWhile (\<lambda>c. c \<noteq> 47) (rev name))"

definition parseMemoryName :: "jstr \<Rightarrow> jstr" where
  "parseMemoryName name = after_last_slash name"

definition wikiName :: "jstr \<Rightarrow> jstr \<Rightarrow> jstr" where
  "wikiName template wikiId = js ''templates/'' @ template @ js ''/wikis/'' @ wikiId"

definition parseWikiName :: "jstr \<Rightarrow> jstr" where
  "parseWikiName name = after_last_slash name"

section \<open>The memory call surface\<close>

record memory_entry =
  memory_id :: jstr
  entry_content :: jstr

record listed_memory =
  listed_name :: "jstr option"
  listed_content :: "jstr option"

record list_memories_options =
  orderBy :: "jstr option"
  pageSize :: "nat option"

definition no_options :: list_memories_options where
  "no_options = \<lparr>orderBy = None, pageSize = None\<rparr>"

record create_memory_request =
  create_parent :: jstr
  create_memoryId :: jstr
  create_name :: jstr
  create_content :: jstr

record update_memory_request =
  update_name :: jstr
  update_content :: jstr
  update_mask :: "jstr list"

record list_memories_request =
  list_parent :: jstr
  list_pageToken :: "jstr option"
  list_pageSize :: "nat option"
  list_orderBy :: "jstr option"

record list_memories_response =
  listed_memories :: "listed_memory list"
  listed_nextPageToken :: "jstr option"

record 'w memory_calls =
  rpc_createMemory :: "create_memory_request \<Rightarrow> 'w \<Rightarrow> (store_error + unit) \<times> 'w"
  rpc_updateMemory :: "update_memory_request \<Rightarrow> 'w \<Rightarrow> (store_error + unit) \<times> 'w"
  rpc_deleteMemory :: "jstr \<Rightarrow> 'w \<Rightarrow> (store_error + unit) \<times> 'w"
  rpc_listMemories :: "list_memories_request \<Rightarrow> 'w \<Rightarrow> (store_error + list_memories_response option) \<times> 'w"

record 'w memory_store =
  createMemory :: "jstr \<Rightarrow> jstr \<Rightarrow> jstr \<Rightarrow> jstr \<Rightarrow> 'w \<Rightarrow> (store_error + unit) \<times> 'w"
  updateMemory :: "jstr \<Rightarrow> jstr \<Rightarrow> jstr \<Rightarrow> jstr \<Rightarrow> 'w \<Rightarrow> (store_error + unit) \<times> 'w"
  deleteMemory :: "jstr \<Rightarrow> jstr \<Rightarrow> jstr \<Rightarrow> 'w \<Rightarrow> (store_error + unit) \<times> 'w"
  listMemories :: "jstr \<Rightarrow> jstr \<Rightarrow> list_memories_options \<Rightarrow> 'w \<Rightarrow>
                   ((store_error + memory_entry list) \<times> 'w) option"

section \<open>The memory client\<close>

definition client_createMemory ::
  "'w memory_calls \<Rightarrow> jstr \<Rightarrow> jstr \<Rightarrow> jstr \<Rightarrow> jstr \<Rightarrow> 'w \<Rightarrow> (store_error + unit) \<times> 'w" where
  "client_createMemory calls template preset memoryId content w =
     rpc_createMemory calls
       \<lparr>create_parent = scope_parent template preset, create_memoryId = memoryId,
        create_name = memoryName template preset memoryId, create_content = content\<rparr> w"

definition client_updateMemory ::
  "'w memory_calls \<Rightarrow> jstr \<Rightarrow> jstr \<Rightarrow> jstr \<Rightarrow> jstr \<Rightarrow> 'w \<Rightarrow> (store_error + unit) \<times> 'w" where
  "client_updateMemory calls template preset memoryId content w =
     rpc_updateMemory calls
       \<lparr>update_name = memoryName template preset memoryId, update_content = content,
        update_mask = [js ''content'']\<rparr> w"

definition client_deleteMemory ::
  "'w memory_calls \<Rightarrow> jstr \<Rightarrow> jstr \<Rightarrow> jstr \<Rightarrow> 'w \<Rightarrow> (store_error + unit) \<times> 'w" where
  "client_deleteMemory calls template preset memoryId w =
     rpc_deleteMemory calls (memoryName template preset memoryId) w"

text \<open>The entries of one response: those with a name and a content.\<close>

definition page_entries :: "list_memories_response option \<Rightarrow> memory_entry list" where
  "page_entries response =
     (case response of
        None \<Rightarrow> []
      | Some page \<Rightarrow>
          concat (map (\<lambda>m. case (listed_name m, listed_content m) of
                             (Some name, Some content) \<Rightarrow>
                               [\<lparr>memory_id = parseMemoryName name, entry_content = content\<rparr>]
                           | _ \<Rightarrow> []) (listed_memories page)))"

definition next_token :: "bool \<Rightarrow> list_memories_response option \<Rightarrow> jstr" where
  "next_token singlePage response =
     (if singlePage then []
      else case Option.bind response listed_nextPageToken of None \<Rightarrow> [] | Some token \<Rightarrow> token)"

definition list_request :: "jstr \<Rightarrow> jstr \<Rightarrow> list_memories_options \<Rightarrow> jstr \<Rightarrow> list_memories_request" where
  "list_request template preset options pageToken =
     \<lparr>list_parent = scope_parent template preset,
      list_pageToken = (if pageToken = [] then None else Some pageToken),
      list_pageSize = pageSize options, list_orderBy = orderBy options\<rparr>"

partial_function (option) walk_pages ::
  "'w memory_calls \<Rightarrow> jstr \<Rightarrow> jstr \<Rightarrow> list_memories_options \<Rightarrow> jstr \<Rightarrow> memory_entry list \<Rightarrow> 'w \<Rightarrow>
   ((store_error + memory_entry list) \<times> 'w) option" where
  "walk_pages calls template preset options pageToken entries w =
     (case rpc_listMemories calls (list_request template preset options pageToken) w of
        (Inl e, w') \<Rightarrow> Some (Inl e, w')
      | (Inr response, w') \<Rightarrow>
          (let entries' = entries @ page_entries response;
               token = next_token (pageSize options \<noteq> None) response
           in if token = [] then Some (Inr entries', w')
              else walk_pages calls template preset options token entries' w'))"

declare walk_pages.simps [code]

definition client_listMemories ::
  "'w memory_calls \<Rightarrow> jstr \<Rightarrow> jstr \<Rightarrow> list_memories_options \<Rightarrow> 'w \<Rightarrow>
   ((store_error + memory_entry list) \<times> 'w) option" where
  "client_listMemories calls template preset options w =
     walk_pages calls template preset options [] [] w"

definition memory_client :: "'w memory_calls \<Rightarrow> 'w memory_store" where
  "memory_client calls =
     \<lparr>createMemory = client_createMemory calls, updateMemory = client_updateMemory calls,
      deleteMemory = client_deleteMemory calls, listMemories = client_listMemories calls\<rparr>"

section \<open>The wiki call surface and client\<close>

record wiki_summary =
  ws_name :: jstr
  ws_title :: jstr

record wiki =
  wiki_name :: jstr
  wiki_title :: jstr
  wiki_content :: jstr

record search_wikis_request =
  search_parent :: jstr
  search_query :: jstr
  search_pageToken :: "jstr option"
  search_pageSize :: "nat option"

record listed_wiki =
  lw_name :: "jstr option"
  lw_title :: "jstr option"
  lw_content :: "jstr option"

record search_wikis_page =
  page_wikis :: "wiki_summary list"
  page_nextPageToken :: jstr

record list_wikis_page =
  listed_page_wikis :: "wiki list"
  listed_page_nextPageToken :: jstr

record 'w wiki_calls =
  rpc_searchWikis :: "search_wikis_request \<Rightarrow> 'w \<Rightarrow>
      (store_error + (listed_wiki list \<times> jstr option) option) \<times> 'w"
  rpc_getWiki :: "jstr \<Rightarrow> 'w \<Rightarrow> (store_error + listed_wiki option) \<times> 'w"
  rpc_createWiki :: "jstr \<Rightarrow> jstr \<Rightarrow> wiki \<Rightarrow> 'w \<Rightarrow> (store_error + unit) \<times> 'w"
  rpc_updateWiki :: "jstr \<Rightarrow> jstr \<Rightarrow> jstr list \<Rightarrow> 'w \<Rightarrow> (store_error + unit) \<times> 'w"
  rpc_deleteWiki :: "jstr \<Rightarrow> 'w \<Rightarrow> (store_error + unit) \<times> 'w"
  rpc_listWikis :: "jstr \<Rightarrow> jstr option \<Rightarrow> nat option \<Rightarrow> 'w \<Rightarrow>
      (store_error + (listed_wiki list \<times> jstr option) option) \<times> 'w"

record page_options =
  po_pageSize :: "nat option"
  po_pageToken :: "jstr option"

text \<open>\<open>options?.pageToken || undefined\<close>: an empty token is not sent.\<close>

definition sent_token :: "jstr option \<Rightarrow> jstr option" where
  "sent_token t = (if t = Some [] then None else t)"

fun summaries :: "listed_wiki list \<Rightarrow> wiki_summary list" where
  "summaries [] = []"
| "summaries (x # xs) =
     (case (lw_name x, lw_title x) of
        (Some name, Some title) \<Rightarrow> \<lparr>ws_name = name, ws_title = title\<rparr> # summaries xs
      | _ \<Rightarrow> summaries xs)"

fun full_wikis :: "listed_wiki list \<Rightarrow> wiki list" where
  "full_wikis [] = []"
| "full_wikis (x # xs) =
     (case (lw_name x, lw_title x) of
        (Some name, Some title) \<Rightarrow>
          \<lparr>wiki_name = name, wiki_title = title,
           wiki_content = (case lw_content x of None \<Rightarrow> [] | Some c \<Rightarrow> c)\<rparr> # full_wikis xs
      | _ \<Rightarrow> full_wikis xs)"

definition wikis_parent :: "jstr \<Rightarrow> jstr" where
  "wikis_parent template = js ''templates/'' @ template"

definition client_searchWikis ::
  "'w wiki_calls \<Rightarrow> jstr \<Rightarrow> jstr \<Rightarrow> page_options \<Rightarrow> 'w \<Rightarrow> (store_error + search_wikis_page) \<times> 'w" where
  "client_searchWikis calls template query opts w =
     (case rpc_searchWikis calls
             \<lparr>search_parent = wikis_parent template, search_query = query,
              search_pageToken = sent_token (po_pageToken opts),
              search_pageSize = po_pageSize opts\<rparr> w of
        (Inl e, w') \<Rightarrow> (Inl e, w')
      | (Inr None, w') \<Rightarrow> (Inr \<lparr>page_wikis = [], page_nextPageToken = []\<rparr>, w')
      | (Inr (Some (ws, token)), w') \<Rightarrow>
          (Inr \<lparr>page_wikis = summaries ws,
                page_nextPageToken = (case token of None \<Rightarrow> [] | Some t \<Rightarrow> t)\<rparr>, w'))"

definition client_getWiki :: "'w wiki_calls \<Rightarrow> jstr \<Rightarrow> jstr \<Rightarrow> 'w \<Rightarrow> (store_error + wiki) \<times> 'w" where
  "client_getWiki calls template wikiId w =
     (let name = wikiName template wikiId in
      case rpc_getWiki calls name w of
        (Inl e, w') \<Rightarrow> (Inl e, w')
      | (Inr response, w') \<Rightarrow>
          (let field = (\<lambda>get dflt. case Option.bind response get of None \<Rightarrow> dflt | Some v \<Rightarrow> v)
           in (Inr \<lparr>wiki_name = field lw_name name, wiki_title = field lw_title [],
                    wiki_content = field lw_content []\<rparr>, w')))"

definition client_createWiki ::
  "'w wiki_calls \<Rightarrow> jstr \<Rightarrow> jstr \<Rightarrow> jstr \<Rightarrow> jstr \<Rightarrow> 'w \<Rightarrow> (store_error + unit) \<times> 'w" where
  "client_createWiki calls template wikiId title content w =
     rpc_createWiki calls (wikis_parent template) wikiId
       \<lparr>wiki_name = wikiName template wikiId, wiki_title = title, wiki_content = content\<rparr> w"

definition client_updateWiki ::
  "'w wiki_calls \<Rightarrow> jstr \<Rightarrow> jstr \<Rightarrow> jstr \<Rightarrow> 'w \<Rightarrow> (store_error + unit) \<times> 'w" where
  "client_updateWiki calls template wikiId content w =
     rpc_updateWiki calls (wikiName template wikiId) content [js ''content''] w"

definition client_deleteWiki :: "'w wiki_calls \<Rightarrow> jstr \<Rightarrow> jstr \<Rightarrow> 'w \<Rightarrow> (store_error + unit) \<times> 'w" where
  "client_deleteWiki calls template wikiId w = rpc_deleteWiki calls (wikiName template wikiId) w"

definition client_listWikis ::
  "'w wiki_calls \<Rightarrow> jstr \<Rightarrow> page_options \<Rightarrow> 'w \<Rightarrow> (store_error + list_wikis_page) \<times> 'w" where
  "client_listWikis calls template opts w =
     (case rpc_listWikis calls (wikis_parent template) (sent_token (po_pageToken opts))
             (po_pageSize opts) w of
        (Inl e, w') \<Rightarrow> (Inl e, w')
      | (Inr None, w') \<Rightarrow> (Inr \<lparr>listed_page_wikis = [], listed_page_nextPageToken = []\<rparr>, w')
      | (Inr (Some (ws, token)), w') \<Rightarrow>
          (Inr \<lparr>listed_page_wikis = full_wikis ws,
                listed_page_nextPageToken = (case token of None \<Rightarrow> [] | Some t \<Rightarrow> t)\<rparr>, w'))"

record 'w wiki_store =
  searchWikis :: "jstr \<Rightarrow> jstr \<Rightarrow> page_options \<Rightarrow> 'w \<Rightarrow> (store_error + search_wikis_page) \<times> 'w"
  getWiki :: "jstr \<Rightarrow> jstr \<Rightarrow> 'w \<Rightarrow> (store_error + wiki) \<times> 'w"
  createWiki :: "jstr \<Rightarrow> jstr \<Rightarrow> jstr \<Rightarrow> jstr \<Rightarrow> 'w \<Rightarrow> (store_error + unit) \<times> 'w"
  updateWiki :: "jstr \<Rightarrow> jstr \<Rightarrow> jstr \<Rightarrow> 'w \<Rightarrow> (store_error + unit) \<times> 'w"

definition wiki_client :: "'w wiki_calls \<Rightarrow> 'w wiki_store" where
  "wiki_client calls =
     \<lparr>searchWikis = client_searchWikis calls, getWiki = client_getWiki calls,
      createWiki = client_createWiki calls, updateWiki = client_updateWiki calls\<rparr>"

section \<open>Names\<close>

lemma after_last_slash_append: "47 \<notin> set i \<Longrightarrow> after_last_slash (a @ 47 # i) = i"
proof -
  assume "47 \<notin> set i"
  then have "takeWhile (\<lambda>c. c \<noteq> 47) (rev i @ 47 # rev a) = rev i"
    by (subst takeWhile_append2) auto
  then show ?thesis by (simp add: after_last_slash_def)
qed

lemma parse_memoryName [simp]: "47 \<notin> set i \<Longrightarrow> parseMemoryName (memoryName t p i) = i"
proof -
  assume i: "47 \<notin> set i"
  have "memoryName t p i = (js ''templates/'' @ t @ js ''/presets/'' @ p @ js ''/memories'') @ 47 # i"
    by (simp add: memoryName_def js_simps)
  then show ?thesis unfolding parseMemoryName_def using after_last_slash_append [OF i] by metis
qed

lemma parse_wikiName [simp]: "47 \<notin> set i \<Longrightarrow> parseWikiName (wikiName t i) = i"
proof -
  assume i: "47 \<notin> set i"
  have "wikiName t i = (js ''templates/'' @ t @ js ''/wikis'') @ 47 # i" by (simp add: wikiName_def js_simps)
  then show ?thesis unfolding parseWikiName_def using after_last_slash_append [OF i] by metis
qed

section \<open>The service's contract\<close>

text \<open>
  What the memory operations rely on of the service behind the store (AIP-132 to AIP-135): a
  collection per scope, listed whole in some order; create fails with \<open>ALREADY_EXISTS\<close> (6) on a
  live id, update and delete with \<open>NOT_FOUND\<close> (5) on another; a failed call changes nothing.
  \<open>ok\<close> is the service's own invariant.
\<close>

definition entries_map :: "memory_entry list \<Rightarrow> jstr \<Rightarrow> jstr option" where
  "entries_map es = map_of (map (\<lambda>e. (memory_id e, entry_content e)) es)"

locale memory_service =
  fixes store :: "'w memory_store" and ok :: "'w \<Rightarrow> bool"
    and view :: "'w \<Rightarrow> jstr \<Rightarrow> jstr \<Rightarrow> jstr \<Rightarrow> jstr option"
  assumes list_law: "ok w \<Longrightarrow> \<exists>es. listMemories store t p no_options w = Some (Inr es, w) \<and>
      distinct (map memory_id es) \<and> entries_map es = view w t p"
    and id_law: "ok w \<Longrightarrow> view w t p i \<noteq> None \<Longrightarrow> i \<noteq> [] \<and> 47 \<notin> set i"
    and create_law: "ok w \<Longrightarrow> i \<noteq> [] \<Longrightarrow> 47 \<notin> set i \<Longrightarrow> createMemory store t p i c w = (r, w') \<Longrightarrow>
      (if view w t p i = None then ok w' \<and> r = Inr () \<and> view w' t p = (view w t p)(i \<mapsto> c)
       else (\<exists>e. r = Inl e \<and> err_code e = Some 6) \<and> w' = w)"
    and update_law: "ok w \<Longrightarrow> 47 \<notin> set i \<Longrightarrow> updateMemory store t p i c w = (r, w') \<Longrightarrow>
      (if view w t p i \<noteq> None then ok w' \<and> r = Inr () \<and> view w' t p = (view w t p)(i \<mapsto> c)
       else (\<exists>e. r = Inl e \<and> err_code e = Some 5) \<and> w' = w)"
    and delete_law: "ok w \<Longrightarrow> 47 \<notin> set i \<Longrightarrow> deleteMemory store t p i w = (r, w') \<Longrightarrow>
      (if view w t p i \<noteq> None then ok w' \<and> r = Inr () \<and> view w' t p = (view w t p)(i := None)
       else (\<exists>e. r = Inl e \<and> err_code e = Some 5) \<and> w' = w)"
begin

lemma create_fresh:
  "ok w \<Longrightarrow> i \<noteq> [] \<Longrightarrow> 47 \<notin> set i \<Longrightarrow> view w t p i = None \<Longrightarrow>
   \<exists>w'. createMemory store t p i c w = (Inr (), w') \<and> ok w' \<and> view w' t p = (view w t p)(i \<mapsto> c)"
  using create_law [of w i t p c] by (metis prod.collapse)

lemma create_live:
  "ok w \<Longrightarrow> view w t p i \<noteq> None \<Longrightarrow>
   \<exists>e. createMemory store t p i c w = (Inl e, w) \<and> err_code e = Some 6"
  using create_law [of w i t p c] id_law [of w t p i] by (metis prod.collapse)

lemma update_live:
  "ok w \<Longrightarrow> view w t p i \<noteq> None \<Longrightarrow>
   \<exists>w'. updateMemory store t p i c w = (Inr (), w') \<and> ok w' \<and> view w' t p = (view w t p)(i \<mapsto> c)"
  using update_law [of w i t p c] id_law [of w t p i] by (metis prod.collapse)

lemma delete_live:
  "ok w \<Longrightarrow> view w t p i \<noteq> None \<Longrightarrow>
   \<exists>w'. deleteMemory store t p i w = (Inr (), w') \<and> ok w' \<and> view w' t p = (view w t p)(i := None)"
  using delete_law [of w i t p] id_law [of w t p i] by (metis prod.collapse)

end

section \<open>The client over a paged service\<close>

text \<open>
  The reference service: per parent an ordered list of ids and contents; a page starts after the
  entry its token names and holds at most the requested, else the default, number of entries.
\<close>

type_synonym service_state = "jstr \<Rightarrow> (jstr \<times> jstr) list"

definition name_parent :: "jstr \<Rightarrow> jstr" where
  "name_parent name = take (length name - length (js ''/memories/'' @ after_last_slash name)) name"

definition service_error :: "int \<Rightarrow> store_error" where
  "service_error code = \<lparr>err_code = Some code, err_message = js ''rpc failed''\<rparr>"

definition resume_after :: "jstr option \<Rightarrow> (jstr \<times> 'a) list \<Rightarrow> (jstr \<times> 'a) list" where
  "resume_after token es =
     (case token of None \<Rightarrow> es | Some k \<Rightarrow> tl (dropWhile (\<lambda>e. fst e \<noteq> k) es))"

definition service_page :: "nat \<Rightarrow> (jstr \<times> jstr) list \<Rightarrow> jstr \<Rightarrow> list_memories_response" where
  "service_page n rest parent =
     \<lparr>listed_memories = map (\<lambda>(i, c). \<lparr>listed_name = Some (parent @ js ''/memories/'' @ i),
                                       listed_content = Some c\<rparr>) (take n rest),
      listed_nextPageToken = (if n < length rest then Some (fst (rest ! (n - 1))) else Some [])\<rparr>"

definition overwrite :: "jstr \<Rightarrow> jstr \<Rightarrow> (jstr \<times> jstr) list \<Rightarrow> (jstr \<times> jstr) list" where
  "overwrite i v es = map (\<lambda>(k, c). (k, if k = i then v else c)) es"

definition reference_service :: "nat \<Rightarrow> service_state memory_calls" where
  "reference_service dflt =
     \<lparr>rpc_createMemory = (\<lambda>req s.
        let es = s (create_parent req); i = create_memoryId req in
        if i \<in> fst ` set es then (Inl (service_error 6), s)
        else (Inr (), s(create_parent req := es @ [(i, create_content req)]))),
      rpc_updateMemory = (\<lambda>req s.
        let parent = name_parent (update_name req); i = parseMemoryName (update_name req);
            es = s parent in
        if i \<in> fst ` set es then (Inr (), s(parent := overwrite i (update_content req) es))
        else (Inl (service_error 5), s)),
      rpc_deleteMemory = (\<lambda>name s.
        let parent = name_parent name; i = parseMemoryName name; es = s parent in
        if i \<in> fst ` set es then (Inr (), s(parent := filter (\<lambda>e. fst e \<noteq> i) es))
        else (Inl (service_error 5), s)),
      rpc_listMemories = (\<lambda>req s.
        (Inr (Some (service_page (case list_pageSize req of None \<Rightarrow> dflt | Some n \<Rightarrow> n)
                      (resume_after (list_pageToken req) (s (list_parent req)))
                      (list_parent req))), s))\<rparr>"

definition service_ok :: "service_state \<Rightarrow> bool" where
  "service_ok s \<longleftrightarrow> (\<forall>parent. distinct (map fst (s parent)) \<and>
     (\<forall>i \<in> fst ` set (s parent). i \<noteq> [] \<and> 47 \<notin> set i))"

definition service_view :: "service_state \<Rightarrow> jstr \<Rightarrow> jstr \<Rightarrow> jstr \<Rightarrow> jstr option" where
  "service_view s t p = map_of (s (scope_parent t p))"

lemma name_parent_memoryName [simp]: "47 \<notin> set i \<Longrightarrow> name_parent (memoryName t p i) = scope_parent t p"
proof -
  assume i: "47 \<notin> set i"
  have m: "memoryName t p i = scope_parent t p @ js ''/memories/'' @ i"
    by (simp add: memoryName_def scope_parent_def)
  from i have "after_last_slash (memoryName t p i) = i" by (metis parseMemoryName_def parse_memoryName)
  then show ?thesis by (simp add: name_parent_def m)
qed

definition as_entry :: "jstr \<times> jstr \<Rightarrow> memory_entry" where
  "as_entry e = \<lparr>memory_id = fst e, entry_content = snd e\<rparr>"

lemma service_page_entries:
  assumes "\<forall>i \<in> fst ` set rest. 47 \<notin> set i"
  shows "page_entries (Some (service_page n rest (scope_parent t p))) = map as_entry (take n rest)"
proof -
  have name: "scope_parent t p @ js ''/memories/'' @ i = memoryName t p i" for i
    by (simp add: memoryName_def scope_parent_def)
  have id: "parseMemoryName (memoryName t p i) = i" if "(i, c) \<in> set (take n rest)" for i c
    using that assms by (intro parse_memoryName) (metis fst_conv image_eqI in_set_takeD)
  have "concat (map (\<lambda>m. case (listed_name m, listed_content m) of
            (Some name, Some content) \<Rightarrow> [\<lparr>memory_id = parseMemoryName name, entry_content = content\<rparr>]
          | _ \<Rightarrow> []) (map (\<lambda>(i, c). \<lparr>listed_name = Some (memoryName t p i), listed_content = Some c\<rparr>) es))
      = map as_entry es" if "set es \<subseteq> set (take n rest)" for es
    using that by (induction es) (auto simp: as_entry_def id split: prod.splits)
  from this [of "take n rest"] show ?thesis
    unfolding page_entries_def service_page_def option.case list_memories_response.simps name by simp
qed

lemma service_next_token:
  "next_token False (Some (service_page n rest parent)) =
     (if n < length rest then fst (rest ! (n - 1)) else [])"
  by (simp add: next_token_def service_page_def)

lemma resume_after_prefix:
  assumes "distinct (map fst (pre @ e # rest))"
  shows "resume_after (Some (fst e)) (pre @ e # rest) = rest"
proof -
  have "dropWhile (\<lambda>x. fst x \<noteq> fst e) (pre @ e # rest) = e # rest"
    using assms by (subst dropWhile_append2) (auto simp: image_iff)
  then show ?thesis by (simp add: resume_after_def)
qed

text \<open>The walk over a service with a positive page size returns the whole collection, in order.\<close>

lemma walk_pages_all:
  assumes "0 < n" and "service_ok s" and "s (scope_parent t p) = pre @ rest"
    and "token = (if pre = [] then [] else fst (last pre))"
  shows "walk_pages (reference_service n) t p \<lparr>orderBy = ord, pageSize = None\<rparr> token acc s =
           Some (Inr (acc @ map as_entry rest), s)"
  using assms(3,4)
proof (induction "length rest" arbitrary: pre rest token acc rule: less_induct)
  case less
  let ?opts = "\<lparr>orderBy = ord, pageSize = None\<rparr>"
  from assms(2) less.prems(1) have dist: "distinct (map fst (pre @ rest))"
    and ids: "\<forall>i \<in> fst ` set (pre @ rest). i \<noteq> [] \<and> 47 \<notin> set i"
    by (metis service_ok_def)+
  have res: "resume_after (list_pageToken (list_request t p ?opts token)) (s (scope_parent t p)) = rest"
  proof (cases "pre = []")
    case True
    with less.prems show ?thesis by (simp add: list_request_def resume_after_def)
  next
    case False
    then obtain q e where q: "pre = q @ [e]" by (cases pre rule: rev_cases) auto
    with ids have "fst e \<noteq> []" by auto
    with less.prems q have "list_pageToken (list_request t p ?opts token) = Some (fst e)"
      by (simp add: list_request_def)
    with resume_after_prefix [of q e rest] dist q less.prems(1) show ?thesis by simp
  qed
  have page: "rpc_listMemories (reference_service n) (list_request t p ?opts token) s =
      (Inr (Some (service_page n rest (scope_parent t p))), s)"
    using res by (simp add: reference_service_def list_request_def)
  have entries: "page_entries (Some (service_page n rest (scope_parent t p))) = map as_entry (take n rest)"
    by (rule service_page_entries) (use ids in auto)
  show ?case
  proof (cases "n < length rest")
    case False
    then show ?thesis
      by (subst walk_pages.simps)
         (simp add: page entries service_next_token Let_def)
  next
    case True
    let ?tok = "fst (rest ! (n - 1))"
    have split: "rest = take n rest @ drop n rest" by simp
    have "take n rest \<noteq> []" using True assms(1) by auto
    then have last: "last (take n rest) = rest ! (n - 1)" "take n rest \<noteq> []"
      using True assms(1) by (simp_all add: last_conv_nth min_def del: take_eq_Nil)
    have "?tok \<noteq> []" using ids True assms(1) by (auto simp: image_iff)
    moreover have "walk_pages (reference_service n) t p ?opts ?tok (acc @ map as_entry (take n rest)) s =
        Some (Inr ((acc @ map as_entry (take n rest)) @ map as_entry (drop n rest)), s)"
      by (rule less.hyps [where pre = "pre @ take n rest"])
         (use True assms(1) less.prems(1) last in auto)
    moreover have "map as_entry (take n rest) @ map as_entry (drop n rest) = map as_entry rest"
      by (metis append_take_drop_id map_append)
    ultimately show ?thesis
      by (subst walk_pages.simps)
         (simp add: page entries service_next_token Let_def True)
  qed
qed

lemma client_lists_all:
  assumes "0 < n" and "service_ok s"
  shows "client_listMemories (reference_service n) t p no_options s =
           Some (Inr (map as_entry (s (scope_parent t p))), s)"
  using walk_pages_all [OF assms, of t p "[]" "s (scope_parent t p)" "[]" None "[]"]
  by (simp add: client_listMemories_def no_options_def)

text \<open>A single page is one request: the first entries, whatever follows them.\<close>

lemma client_lists_page:
  assumes "service_ok s" and "pageSize opts = Some k"
  shows "client_listMemories (reference_service n) t p opts s =
           Some (Inr (map as_entry (take k (s (scope_parent t p)))), s)"
proof -
  have ids: "\<forall>i \<in> fst ` set (s (scope_parent t p)). 47 \<notin> set i"
    using assms(1) by (simp add: service_ok_def)
  have "rpc_listMemories (reference_service n) (list_request t p opts []) s =
      (Inr (Some (service_page k (s (scope_parent t p)) (scope_parent t p))), s)"
    using assms(2) by (simp add: reference_service_def list_request_def resume_after_def)
  then show ?thesis
    unfolding client_listMemories_def
    by (subst walk_pages.simps) (simp add: service_page_entries [OF ids] assms(2) next_token_def Let_def)
qed

lemma entries_map_as_entry: "entries_map (map as_entry es) = map_of es"
  by (simp add: entries_map_def as_entry_def o_def)

lemma map_of_update_all:
  "map_of (overwrite i v es) = (if i \<in> fst ` set es then (map_of es)(i \<mapsto> v) else map_of es)"
  by (induction es) (auto simp: overwrite_def fun_eq_iff image_iff)

lemma map_of_filter_key: "map_of (filter (\<lambda>e. fst e \<noteq> i) es) = (map_of es)(i := None)"
  by (induction es) (auto simp: fun_eq_iff)

lemma map_of_snoc_fresh: "i \<notin> fst ` set es \<Longrightarrow> map_of (es @ [(i, c)]) = (map_of es)(i \<mapsto> c)"
proof -
  assume "i \<notin> fst ` set es"
  then have "map_of es i = None" by (simp add: map_of_eq_None_iff)
  then show ?thesis by (auto simp: fun_eq_iff map_add_def split: option.splits)
qed

lemma service_ok_update:
  assumes "service_ok s" and "distinct (map fst es)" and "\<And>i. i \<in> fst ` set es \<Longrightarrow> i \<noteq> [] \<and> 47 \<notin> set i"
  shows "service_ok (s(parent := es))"
  using assms by (simp add: service_ok_def)

lemma service_ok_at:
  "service_ok s \<Longrightarrow> distinct (map fst (s parent))"
  "service_ok s \<Longrightarrow> i \<in> fst ` set (s parent) \<Longrightarrow> i \<noteq> [] \<and> 47 \<notin> set i"
  by (auto simp: service_ok_def)

lemma live_id: "service_view s t p i \<noteq> None \<longleftrightarrow> i \<in> fst ` set (s (scope_parent t p))"
  by (simp add: service_view_def map_of_eq_None_iff)

lemma client_create_law:
  assumes "service_ok s" and "i \<noteq> []" "47 \<notin> set i"
    and "client_createMemory (reference_service n) t p i c s = (r, s')"
  shows "if service_view s t p i = None
      then service_ok s' \<and> r = Inr () \<and> service_view s' t p = (service_view s t p)(i \<mapsto> c)
      else (\<exists>e. r = Inl e \<and> err_code e = Some 6) \<and> s' = s"
proof (cases "i \<in> fst ` set (s (scope_parent t p))")
  case True
  with assms(4) live_id [of s t p i] show ?thesis
    by (auto simp: client_createMemory_def reference_service_def service_error_def Let_def)
next
  case False
  with assms(4) have r: "r = Inr ()"
    "s' = s(scope_parent t p := s (scope_parent t p) @ [(i, c)])"
    by (auto simp: client_createMemory_def reference_service_def Let_def)
  have "service_ok s'" unfolding r(2)
    by (rule service_ok_update [OF assms(1)])
       (use False assms(2,3) service_ok_at(1) [OF assms(1)] service_ok_at(2) [OF assms(1)] in
         \<open>simp, force\<close>)
  with r False live_id [of s t p i] show ?thesis
    by (auto simp: service_view_def map_of_snoc_fresh simp del: map_of_append)
qed

lemma client_update_law:
  assumes "service_ok s" and "47 \<notin> set i"
    and "client_updateMemory (reference_service n) t p i c s = (r, s')"
  shows "if service_view s t p i \<noteq> None
      then service_ok s' \<and> r = Inr () \<and> service_view s' t p = (service_view s t p)(i \<mapsto> c)
      else (\<exists>e. r = Inl e \<and> err_code e = Some 5) \<and> s' = s"
proof (cases "i \<in> fst ` set (s (scope_parent t p))")
  case False
  with assms live_id [of s t p i] show ?thesis
    by (auto simp: client_updateMemory_def reference_service_def service_error_def Let_def)
next
  case True
  let ?es = "overwrite i c (s (scope_parent t p))"
  from True assms(2,3) have r: "r = Inr ()" "s' = s(scope_parent t p := ?es)"
    by (simp_all add: client_updateMemory_def reference_service_def Let_def)
  have keys: "map fst ?es = map fst (s (scope_parent t p))" by (auto simp: overwrite_def)
  have "service_ok s'" unfolding r(2)
    by (rule service_ok_update [OF assms(1)])
       (use service_ok_at [OF assms(1)] keys in \<open>simp_all flip: set_map\<close>)
  with r True live_id [of s t p i] show ?thesis
    by (auto simp: service_view_def map_of_update_all)
qed

lemma client_delete_law:
  assumes "service_ok s" and "47 \<notin> set i"
    and "client_deleteMemory (reference_service n) t p i s = (r, s')"
  shows "if service_view s t p i \<noteq> None
      then service_ok s' \<and> r = Inr () \<and> service_view s' t p = (service_view s t p)(i := None)
      else (\<exists>e. r = Inl e \<and> err_code e = Some 5) \<and> s' = s"
proof (cases "i \<in> fst ` set (s (scope_parent t p))")
  case False
  with assms live_id [of s t p i] show ?thesis
    by (auto simp: client_deleteMemory_def reference_service_def service_error_def Let_def)
next
  case True
  let ?es = "filter (\<lambda>e. fst e \<noteq> i) (s (scope_parent t p))"
  from True assms(2,3) have r: "r = Inr ()" "s' = s(scope_parent t p := ?es)"
    by (simp_all add: client_deleteMemory_def reference_service_def Let_def)
  have "service_ok s'" unfolding r(2)
    by (rule service_ok_update [OF assms(1)])
       (use service_ok_at [OF assms(1)] in \<open>auto intro: distinct_map_filter\<close>)
  with r True live_id [of s t p i] show ?thesis
    by (auto simp: service_view_def map_of_filter_key)
qed

interpretation client_service: memory_service
  "memory_client (reference_service (Suc n))" service_ok service_view for n
proof unfold_locales
  fix s t p
  assume ok: "service_ok s"
  have "listMemories (memory_client (reference_service (Suc n))) t p no_options s =
      Some (Inr (map as_entry (s (scope_parent t p))), s)"
    using client_lists_all [OF _ ok, of "Suc n"] by (simp add: memory_client_def)
  moreover have "distinct (map memory_id (map as_entry (s (scope_parent t p))))"
    using service_ok_at(1) [OF ok] by (simp add: as_entry_def o_def)
  ultimately show "\<exists>es. listMemories (memory_client (reference_service (Suc n))) t p no_options s = Some (Inr es, s) \<and>
      distinct (map memory_id es) \<and> entries_map es = service_view s t p"
    by (auto simp: service_view_def entries_map_as_entry)
next
  fix s t p i
  assume "service_ok s" "service_view s t p i \<noteq> None"
  then show "i \<noteq> [] \<and> 47 \<notin> set i" unfolding live_id by (rule service_ok_at(2))
qed (unfold memory_client_def memory_store.simps,
     (assumption | erule client_create_law client_update_law client_delete_law)+)

end
