(* ===== verification/Memory_Ops.thy ===== *)
theory Memory_Ops
  imports Memory_Store
begin

declare js_simps(2) [simp del]

text \<open>
  The memory tool's operations, \<open>common/js/memory/src/operations.ts\<close>: single add, replace and
  remove, and the two-phase batch (preflight on a working copy, then the queued writes one by
  one). A thrown error is \<open>Inl\<close>; an operation whose listing never returns is \<open>None\<close>. SHA-256 is
  the parameter \<open>sha256_hex\<close> (text to lower-case hex digest).
\<close>

section \<open>Arguments\<close>

text \<open>An action outside the declared three arrives as an arbitrary string.\<close>

datatype memory_action = Add | Replace | Remove | OtherAction jstr

record memory_op =
  op_action :: memory_action
  op_content :: "jstr option"
  op_old_text :: "jstr option"

record memory_tool_args =
  arg_action :: "memory_action option"
  arg_content :: "jstr option"
  arg_old_text :: "jstr option"
  arg_operations :: "memory_op list option"

definition or_empty :: "jstr option \<Rightarrow> jstr" where
  "or_empty t = (case t of None \<Rightarrow> [] | Some s \<Rightarrow> s)"

definition MEMORY_CONTENT_MAX_RUNES :: nat where
  "MEMORY_CONTENT_MAX_RUNES = 1024"

section \<open>Texts\<close>

definition preview :: "jstr \<Rightarrow> jstr" where
  "preview content = (if 80 < length content then take 80 content @ js ''...'' else content)"

definition renderEntries :: "memory_entry list \<Rightarrow> jstr" where
  "renderEntries entries =
     (if entries = [] then js ''(no entries)''
      else join [10] (map (\<lambda>e. js ''- '' @ entry_content e) entries))"

definition ADDED_TEXT :: jstr where "ADDED_TEXT = js ''memory added''"
definition REPLACED_TEXT :: jstr where "REPLACED_TEXT = js ''memory replaced''"
definition REMOVED_TEXT :: jstr where "REMOVED_TEXT = js ''memory removed''"

definition DEDUPE_TEXT :: jstr where
  "DEDUPE_TEXT = js ''memory already exists (no duplicate added)''"

definition INVALID_CALL_TEXT :: jstr where
  "INVALID_CALL_TEXT =
     js ''memory: invalid call. Use action=add/replace/remove with content/'' @
     js ''old_text, or operations (batch).''"

definition AMBIGUOUS_ARGS_TEXT :: jstr where
  "AMBIGUOUS_ARGS_TEXT =
     js ''memory: provide EITHER action/content/old_text (single operation) '' @
     js ''OR operations (batch), not both.''"

definition MISSING_ARGS_TEXT :: jstr where
  "MISSING_ARGS_TEXT =
     js ''memory: provide EITHER action/content/old_text (single operation) '' @
     js ''OR operations (batch).''"

definition EMPTY_CONTENT_TEXT :: jstr where
  "EMPTY_CONTENT_TEXT = js ''memory: content cannot be empty''"

definition EMPTY_BATCH_TEXT :: jstr where
  "EMPTY_BATCH_TEXT = js ''memory: operations list is empty''"

definition contentLimitSentence :: "nat \<Rightarrow> jstr" where
  "contentLimitSentence n =
     js ''memory: content exceeds '' @ str_of_nat MEMORY_CONTENT_MAX_RUNES @
     js '' characters (got '' @ str_of_nat n @
     js ''). Keep entries short; store longer knowledge with wiki_write''"

definition contentLimitText :: "nat \<Rightarrow> jstr" where
  "contentLimitText n = contentLimitSentence n @ js ''.''"

definition quoted :: "jstr \<Rightarrow> jstr" where
  "quoted s = [39] @ s @ [39]"

section \<open>Ids and matching\<close>

definition generateMemoryId :: "(jstr \<Rightarrow> jstr) \<Rightarrow> jstr \<Rightarrow> jstr" where
  "generateMemoryId sha256_hex content = take 32 (sha256_hex content)"

definition matchBySubstring :: "memory_entry list \<Rightarrow> jstr \<Rightarrow> jstr + memory_entry" where
  "matchBySubstring entries oldText =
     (let old = trim oldText in
      if old = [] then
        Inl (js ''memory: old_text cannot be empty. Check the current entries '' @
             js ''and retry:'' @ [10] @ renderEntries entries)
      else
        let hits = filter (\<lambda>e. contains (entry_content e) old) entries in
        case hits of
          [] \<Rightarrow> Inl (js ''memory: no entry matched '' @ quoted old @
                    js ''. Check the current entries '' @
                    js ''and retry with a more specific old_text:'' @ [10] @ renderEntries entries)
        | h # _ \<Rightarrow>
            if 1 < length hits \<and> 1 < card (set (map entry_content hits)) then
              Inl (js ''memory: multiple entries matched '' @ quoted old @
                   js ''. Be more specific (matched previews):'' @ [10] @
                   join [10] (map (\<lambda>e. js ''- '' @ preview (entry_content e)) hits))
            else Inr h)"

section \<open>Single operations\<close>

type_synonym 'w outcome = "((store_error + jstr) \<times> 'w) option"

definition applyAdd ::
  "(jstr \<Rightarrow> jstr) \<Rightarrow> 'w memory_store \<Rightarrow> jstr \<Rightarrow> jstr \<Rightarrow> jstr \<Rightarrow> 'w \<Rightarrow> 'w outcome" where
  "applyAdd sha256_hex store template preset content w =
     (let text = trim content; runes = count_runes text in
      if text = [] then Some (Inr EMPTY_CONTENT_TEXT, w)
      else if MEMORY_CONTENT_MAX_RUNES < runes then Some (Inr (contentLimitText runes), w)
      else do {
        (listed, w1) \<leftarrow> listMemories store template preset no_options w;
        (case listed of
           Inl e \<Rightarrow> Some (Inl e, w1)
         | Inr entries \<Rightarrow>
             if list_ex (\<lambda>e. entry_content e = text) entries then Some (Inr DEDUPE_TEXT, w1)
             else (case createMemory store template preset (generateMemoryId sha256_hex text) text w1 of
                     (Inl e, w2) \<Rightarrow>
                       Some (if err_code e = Some 6 then Inr DEDUPE_TEXT else Inl e, w2)
                   | (Inr _, w2) \<Rightarrow> Some (Inr ADDED_TEXT, w2)))
      })"

definition applyReplace ::
  "'w memory_store \<Rightarrow> jstr \<Rightarrow> jstr \<Rightarrow> jstr \<Rightarrow> jstr \<Rightarrow> 'w \<Rightarrow> 'w outcome" where
  "applyReplace store template preset oldText content w =
     (let text = trim content; runes = count_runes text in
      if text = [] then
        Some (Inr (EMPTY_CONTENT_TEXT @ js '' (use action=remove to delete entries)''), w)
      else if MEMORY_CONTENT_MAX_RUNES < runes then Some (Inr (contentLimitText runes), w)
      else do {
        (listed, w1) \<leftarrow> listMemories store template preset no_options w;
        (case listed of
           Inl e \<Rightarrow> Some (Inl e, w1)
         | Inr entries \<Rightarrow>
             (case matchBySubstring entries oldText of
                Inl err \<Rightarrow> Some (Inr err, w1)
              | Inr entry \<Rightarrow>
                  (case updateMemory store template preset (memory_id entry) text w1 of
                     (Inl e, w2) \<Rightarrow> Some (Inl e, w2)
                   | (Inr _, w2) \<Rightarrow> Some (Inr REPLACED_TEXT, w2))))
      })"

definition applyRemove ::
  "'w memory_store \<Rightarrow> jstr \<Rightarrow> jstr \<Rightarrow> jstr \<Rightarrow> 'w \<Rightarrow> 'w outcome" where
  "applyRemove store template preset oldText w =
     do {
       (listed, w1) \<leftarrow> listMemories store template preset no_options w;
       (case listed of
          Inl e \<Rightarrow> Some (Inl e, w1)
        | Inr entries \<Rightarrow>
            (case matchBySubstring entries oldText of
               Inl err \<Rightarrow> Some (Inr err, w1)
             | Inr entry \<Rightarrow>
                 (case deleteMemory store template preset (memory_id entry) w1 of
                    (Inl e, w2) \<Rightarrow> Some (Inl e, w2)
                  | (Inr _, w2) \<Rightarrow> Some (Inr REMOVED_TEXT, w2))))
     }"

section \<open>The batch\<close>

text \<open>The runs of consecutive positions, as the loop closes them.\<close>

fun position_runs :: "nat \<Rightarrow> nat \<Rightarrow> nat list \<Rightarrow> (nat \<times> nat) list" where
  "position_runs start end [] = [(start, end)]"
| "position_runs start end (p # ps) =
     (if p = end + 1 then position_runs start p ps else (start, end) # position_runs p p ps)"

definition run_text :: "nat \<times> nat \<Rightarrow> jstr" where
  "run_text r = (if fst r = snd r then str_of_nat (fst r)
                 else str_of_nat (fst r) @ js ''-'' @ str_of_nat (snd r))"

definition formatAppliedPositions :: "nat list \<Rightarrow> jstr" where
  "formatAppliedPositions positions =
     join (js '', '') (map run_text (position_runs (hd positions) (hd positions) (tl positions)))"

datatype batch_write =
  CreateWrite jstr jstr nat
| UpdateWrite jstr jstr nat
| DeleteWrite jstr nat

fun write_index :: "batch_write \<Rightarrow> nat" where
  "write_index (CreateWrite i c n) = n"
| "write_index (UpdateWrite i c n) = n"
| "write_index (DeleteWrite i n) = n"

text \<open>\<open>working[findIndex(...)] = ...\<close> and \<open>splice\<close>: the first entry with the id.\<close>

fun set_content :: "jstr \<Rightarrow> jstr \<Rightarrow> memory_entry list \<Rightarrow> memory_entry list" where
  "set_content i c [] = []"
| "set_content i c (e # es) =
     (if memory_id e = i then \<lparr>memory_id = i, entry_content = c\<rparr> # es else e # set_content i c es)"

fun remove_entry :: "jstr \<Rightarrow> memory_entry list \<Rightarrow> memory_entry list" where
  "remove_entry i [] = []"
| "remove_entry i (e # es) = (if memory_id e = i then es else e # remove_entry i es)"

fun action_name :: "memory_action \<Rightarrow> jstr" where
  "action_name Add = js ''add''"
| "action_name Replace = js ''replace''"
| "action_name Remove = js ''remove''"
| "action_name (OtherAction s) = s"

text \<open>One preflighted operation: the reason it fails, or the new working copy and its write.\<close>

definition preflight_op ::
  "(jstr \<Rightarrow> jstr) \<Rightarrow> nat \<Rightarrow> memory_op \<Rightarrow> memory_entry list \<Rightarrow>
   jstr + memory_entry list \<times> batch_write list" where
  "preflight_op sha256_hex i op working =
     (case op_action op of
        Add \<Rightarrow>
          (let content = trim (or_empty (op_content op)); runes = count_runes content in
           if content = [] then Inl (js ''content is required'')
           else if MEMORY_CONTENT_MAX_RUNES < runes then Inl (contentLimitSentence runes)
           else if list_ex (\<lambda>e. entry_content e = content) working then Inr (working, [])
           else let mid = generateMemoryId sha256_hex content
                in Inr (working @ [\<lparr>memory_id = mid, entry_content = content\<rparr>],
                        [CreateWrite mid content i]))
      | Replace \<Rightarrow>
          (let oldText = or_empty (op_old_text op);
               content = trim (or_empty (op_content op)); runes = count_runes content in
           if trim oldText = [] then Inl (js ''old_text is required'')
           else if content = [] then
             Inl (js ''content is required (use action=remove to delete)'')
           else if MEMORY_CONTENT_MAX_RUNES < runes then Inl (contentLimitSentence runes)
           else (case matchBySubstring working oldText of
                   Inl err \<Rightarrow> Inl err
                 | Inr entry \<Rightarrow> Inr (set_content (memory_id entry) content working,
                                     [UpdateWrite (memory_id entry) content i])))
      | Remove \<Rightarrow>
          (let oldText = or_empty (op_old_text op) in
           if trim oldText = [] then Inl (js ''old_text is required'')
           else (case matchBySubstring working oldText of
                   Inl err \<Rightarrow> Inl err
                 | Inr entry \<Rightarrow> Inr (remove_entry (memory_id entry) working,
                                     [DeleteWrite (memory_id entry) i])))
      | OtherAction a \<Rightarrow>
          Inl (js ''unknown action '' @ quoted a @ js '' (use add, replace, or remove)''))"

fun preflight ::
  "(jstr \<Rightarrow> jstr) \<Rightarrow> nat \<Rightarrow> memory_op list \<Rightarrow> memory_entry list \<Rightarrow> batch_write list \<Rightarrow>
   (nat \<times> jstr) + memory_entry list \<times> batch_write list" where
  "preflight sha256_hex i [] working writes = Inr (working, writes)"
| "preflight sha256_hex i (op # ops) working writes =
     (case preflight_op sha256_hex i op working of
        Inl reason \<Rightarrow> Inl (i, reason)
      | Inr (working', new) \<Rightarrow> preflight sha256_hex (i + 1) ops working' (writes @ new))"

definition batchError :: "memory_entry list \<Rightarrow> nat \<Rightarrow> jstr \<Rightarrow> jstr" where
  "batchError entries i reason =
     js ''memory: operation '' @ str_of_nat (i + 1) @ js '' failed: '' @ reason @
     js ''. No operations were applied. Current entries:'' @ [10] @ renderEntries entries"

fun run_write ::
  "'w memory_store \<Rightarrow> jstr \<Rightarrow> jstr \<Rightarrow> batch_write \<Rightarrow> 'w \<Rightarrow> (store_error + unit) \<times> 'w" where
  "run_write store template preset (CreateWrite mid content _) w =
     createMemory store template preset mid content w"
| "run_write store template preset (UpdateWrite mid content _) w =
     updateMemory store template preset mid content w"
| "run_write store template preset (DeleteWrite mid _) w =
     deleteMemory store template preset mid w"

definition partial_failure :: "store_error \<Rightarrow> nat list \<Rightarrow> store_error" where
  "partial_failure e applied =
     (if applied = [] then e
      else let noun = (if length applied = 1 then js ''operation'' else js ''operations'');
               verb = (if length applied = 1 then js ''was'' else js ''were'')
           in \<lparr>err_code = None,
               err_message = describeErr e @ js ''; '' @ noun @ js '' '' @
                 formatAppliedPositions applied @ js '' '' @ verb @ js '' applied before the failure''\<rparr>)"

fun commit_writes ::
  "'w memory_store \<Rightarrow> jstr \<Rightarrow> jstr \<Rightarrow> batch_write list \<Rightarrow> nat list \<Rightarrow> 'w \<Rightarrow> (store_error + unit) \<times> 'w" where
  "commit_writes store template preset [] applied w = (Inr (), w)"
| "commit_writes store template preset (wr # wrs) applied w =
     (case run_write store template preset wr w of
        (Inl e, w') \<Rightarrow> (Inl (partial_failure e applied), w')
      | (Inr _, w') \<Rightarrow> commit_writes store template preset wrs (applied @ [write_index wr + 1]) w')"

definition applyBatch ::
  "(jstr \<Rightarrow> jstr) \<Rightarrow> 'w memory_store \<Rightarrow> jstr \<Rightarrow> jstr \<Rightarrow> memory_op list \<Rightarrow> 'w \<Rightarrow> 'w outcome" where
  "applyBatch sha256_hex store template preset operations w =
     (if operations = [] then Some (Inr EMPTY_BATCH_TEXT, w)
      else do {
        (listed, w1) \<leftarrow> listMemories store template preset no_options w;
        (case listed of
           Inl e \<Rightarrow> Some (Inl e, w1)
         | Inr entries \<Rightarrow>
             (case preflight sha256_hex 0 operations entries [] of
                Inl (i, reason) \<Rightarrow> Some (Inr (batchError entries i reason), w1)
              | Inr (working, writes) \<Rightarrow>
                  (case commit_writes store template preset writes [] w1 of
                     (Inl e, w2) \<Rightarrow> Some (Inl e, w2)
                   | (Inr _, w2) \<Rightarrow>
                       Some (Inr (js ''memory: applied '' @ str_of_nat (length writes) @
                                  js '' operation(s)''), w2))))
      })"

definition applyMemoryCall ::
  "(jstr \<Rightarrow> jstr) \<Rightarrow> 'w memory_store \<Rightarrow> jstr \<Rightarrow> jstr \<Rightarrow> memory_tool_args \<Rightarrow> 'w \<Rightarrow> 'w outcome" where
  "applyMemoryCall sha256_hex store template preset args w =
     (case (arg_action args, arg_operations args) of
        (Some _, Some _) \<Rightarrow> Some (Inr AMBIGUOUS_ARGS_TEXT, w)
      | (None, None) \<Rightarrow> Some (Inr MISSING_ARGS_TEXT, w)
      | (None, Some ops) \<Rightarrow> applyBatch sha256_hex store template preset ops w
      | (Some Add, None) \<Rightarrow>
          applyAdd sha256_hex store template preset (or_empty (arg_content args)) w
      | (Some Replace, None) \<Rightarrow>
          applyReplace store template preset (or_empty (arg_old_text args))
            (or_empty (arg_content args)) w
      | (Some Remove, None) \<Rightarrow>
          applyRemove store template preset (or_empty (arg_old_text args)) w
      | (Some (OtherAction _), None) \<Rightarrow> Some (Inr INVALID_CALL_TEXT, w))"

section \<open>Matching\<close>

lemma one_content: "card (set (x # xs)) \<le> 1 \<longleftrightarrow> (\<forall>y \<in> set xs. y = x)"
  unfolding One_nat_def card_le_Suc0_iff_eq [OF finite_set] by (auto, metis)

lemma match_Inr:
  "matchBySubstring entries oldText = Inr e \<longleftrightarrow>
     trim oldText \<noteq> [] \<and>
     (\<exists>hits. filter (\<lambda>e. contains (entry_content e) (trim oldText)) entries = e # hits \<and>
        (\<forall>h \<in> set hits. entry_content h = entry_content e))"
proof (cases "filter (\<lambda>e. contains (entry_content e) (trim oldText)) entries")
  case Nil
  then show ?thesis by (simp add: matchBySubstring_def Let_def)
next
  case (Cons h hits)
  have many: "\<not> 1 < card (set (map entry_content (h # hits))) \<longleftrightarrow>
      (\<forall>x \<in> set hits. entry_content x = entry_content h)"
    unfolding not_less list.map one_content by simp
  have "\<not> 1 < length (h # hits) \<Longrightarrow> (\<forall>x \<in> set hits. entry_content x = entry_content h)" by simp
  with many have amb: "\<not> (1 < length (h # hits) \<and> 1 < card (set (map entry_content (h # hits)))) \<longleftrightarrow>
      (\<forall>x \<in> set hits. entry_content x = entry_content h)" by blast
  show ?thesis
  proof (cases "trim oldText = []")
    case True
    then show ?thesis by (simp add: matchBySubstring_def)
  next
    case False
    have "matchBySubstring entries oldText = Inr e \<longleftrightarrow>
        \<not> (1 < length (h # hits) \<and> 1 < card (set (map entry_content (h # hits)))) \<and> e = h"
      using False by (auto simp: matchBySubstring_def Let_def Cons simp del: length_Cons list.map)
    then show ?thesis unfolding amb using Cons False by auto
  qed
qed

lemma match_member: "matchBySubstring entries oldText = Inr e \<Longrightarrow> e \<in> set entries"
  unfolding match_Inr by (metis filter_is_subset list.set_intros(1) subsetD)

section \<open>Applied positions\<close>

lemma position_runs_expand:
  "start \<le> end \<Longrightarrow> concat (map (\<lambda>r. [fst r..<snd r + 1]) (position_runs start end ps)) = [start..<end + 1] @ ps"
proof (induction start "end" ps rule: position_runs.induct)
  case (2 start "end" p ps)
  show ?case
  proof (cases "p = end + 1")
    case True
    with 2 show ?thesis by simp
  next
    case False
    with "2.IH"(2) show ?thesis by simp
  qed
qed simp

lemma position_runs_ne: "position_runs start end ps \<noteq> []"
  by (induction start "end" ps rule: position_runs.induct) auto

text \<open>No two runs could be merged.\<close>

lemma position_runs_maximal:
  "(\<forall>i. Suc i < length (position_runs start end ps) \<longrightarrow>
      fst (position_runs start end ps ! Suc i) \<noteq> snd (position_runs start end ps ! i) + 1) \<and>
   fst (hd (position_runs start end ps)) = start"
proof (induction start "end" ps rule: position_runs.induct)
  case (2 start "end" p ps)
  show ?case
  proof (cases "p = end + 1")
    case True
    with 2 show ?thesis by simp
  next
    case False
    with "2.IH"(2) have ih: "\<forall>i. Suc i < length (position_runs p p ps) \<longrightarrow>
        fst (position_runs p p ps ! Suc i) \<noteq> snd (position_runs p p ps ! i) + 1"
      "fst (hd (position_runs p p ps)) = p" by auto
    have ne: "position_runs p p ps \<noteq> []" by (rule position_runs_ne)
    with ih have "fst (position_runs p p ps ! 0) = p" by (simp add: hd_conv_nth)
    with ih False show ?thesis by (auto simp: nth_Cons split: nat.splits)
  qed
qed simp

section \<open>The working copy is the collection the writes leave\<close>

fun write_effect :: "batch_write \<Rightarrow> (jstr \<Rightarrow> jstr option) \<Rightarrow> jstr \<Rightarrow> jstr option" where
  "write_effect (CreateWrite i c _) m = m(i \<mapsto> c)"
| "write_effect (UpdateWrite i c _) m = m(i \<mapsto> c)"
| "write_effect (DeleteWrite i _) m = m(i := None)"

fun write_applies :: "batch_write \<Rightarrow> (jstr \<Rightarrow> jstr option) \<Rightarrow> bool" where
  "write_applies (CreateWrite i c _) m = (m i = None \<and> i \<noteq> [] \<and> 47 \<notin> set i)"
| "write_applies (UpdateWrite i c _) m = (m i \<noteq> None)"
| "write_applies (DeleteWrite i _) m = (m i \<noteq> None)"

fun writes_apply :: "batch_write list \<Rightarrow> (jstr \<Rightarrow> jstr option) \<Rightarrow> bool" where
  "writes_apply [] m = True"
| "writes_apply (wr # wrs) m = (write_applies wr m \<and> writes_apply wrs (write_effect wr m))"

text \<open>The adds of a batch take ids that no live entry holds at their turn.\<close>

fun fresh_creates :: "batch_write list \<Rightarrow> (jstr \<Rightarrow> jstr option) \<Rightarrow> bool" where
  "fresh_creates [] m = True"
| "fresh_creates (wr # wrs) m =
     ((case wr of CreateWrite i _ _ \<Rightarrow> m i = None | _ \<Rightarrow> True) \<and> fresh_creates wrs (write_effect wr m))"

lemma writes_apply_append:
  "writes_apply (a @ b) m \<longleftrightarrow> writes_apply a m \<and> writes_apply b (fold write_effect a m)"
  by (induction a arbitrary: m) auto

lemma fresh_creates_append:
  "fresh_creates (a @ b) m \<longleftrightarrow> fresh_creates a m \<and> fresh_creates b (fold write_effect a m)"
  by (induction a arbitrary: m) auto

lemma entries_map_simps [simp]:
  "entries_map [] = (\<lambda>_. None)"
  "entries_map (e # es) = (entries_map es)(memory_id e \<mapsto> entry_content e)"
  by (simp_all add: entries_map_def fun_eq_iff)

lemma entries_map_None: "entries_map es i = None \<longleftrightarrow> i \<notin> memory_id ` set es"
  by (induction es) auto

lemma set_content_map:
  "i \<in> memory_id ` set es \<Longrightarrow> entries_map (set_content i c es) = (entries_map es)(i \<mapsto> c)"
  by (induction es) (auto simp: fun_eq_iff)

lemma set_content_ids [simp]: "map memory_id (set_content i c es) = map memory_id es"
  by (induction es) auto

lemma remove_entry_map:
  "distinct (map memory_id es) \<Longrightarrow> entries_map (remove_entry i es) = (entries_map es)(i := None)"
proof (induction es)
  case (Cons e es)
  then show ?case using entries_map_None [of es i] by (auto simp: fun_eq_iff image_iff)
qed simp

lemma remove_entry_ids:
  "distinct (map memory_id es) \<Longrightarrow>
   map memory_id (remove_entry i es) = filter (\<lambda>k. k \<noteq> i) (map memory_id es)"
  by (induction es) (auto intro!: filter_True [symmetric])

lemma entries_map_snoc: "i \<notin> memory_id ` set es \<Longrightarrow>
   entries_map (es @ [\<lparr>memory_id = i, entry_content = c\<rparr>]) = (entries_map es)(i \<mapsto> c)"
  by (induction es) (auto simp: fun_eq_iff)

definition good_digest :: "(jstr \<Rightarrow> jstr) \<Rightarrow> bool" where
  "good_digest sha256_hex \<longleftrightarrow>
     (\<forall>c. generateMemoryId sha256_hex c \<noteq> [] \<and> 47 \<notin> set (generateMemoryId sha256_hex c))"

lemma preflight_op_step:
  assumes "preflight_op sha i op working = Inr (working', new)"
    and "distinct (map memory_id working)" and "fresh_creates new (entries_map working)"
    and "good_digest sha"
  shows "entries_map working' = fold write_effect new (entries_map working)"
    "distinct (map memory_id working')" "writes_apply new (entries_map working)"
proof -
  have "entries_map working' = fold write_effect new (entries_map working) \<and>
    distinct (map memory_id working') \<and> writes_apply new (entries_map working)"
  proof (cases "op_action op")
    case Add
    let ?c = "trim (or_empty (op_content op))"
    show ?thesis
    proof (cases "list_ex (\<lambda>e. entry_content e = ?c) working")
      case True
      with Add assms show ?thesis by (auto simp: preflight_op_def Let_def split: if_splits)
    next
      case False
      with Add assms(1) have new: "new = [CreateWrite (generateMemoryId sha ?c) ?c i]"
        "working' = working @ [\<lparr>memory_id = generateMemoryId sha ?c, entry_content = ?c\<rparr>]"
        by (auto simp: preflight_op_def Let_def split: if_splits)
      with assms(3) have "generateMemoryId sha ?c \<notin> memory_id ` set working"
        by (simp add: entries_map_None)
      with new assms(2,4) show ?thesis by (simp add: entries_map_snoc entries_map_None good_digest_def)
    qed
  next
    case Replace
    with assms(1) obtain e c where m: "matchBySubstring working (or_empty (op_old_text op)) = Inr e"
      and new: "new = [UpdateWrite (memory_id e) c i]" "working' = set_content (memory_id e) c working"
      by (auto simp: preflight_op_def Let_def split: if_splits sum.splits)
    from match_member [OF m] have "memory_id e \<in> memory_id ` set working" by simp
    with new assms(2) show ?thesis
      using entries_map_None [of working "memory_id e"] by (simp add: set_content_map)
  next
    case Remove
    with assms(1) obtain e where m: "matchBySubstring working (or_empty (op_old_text op)) = Inr e"
      and new: "new = [DeleteWrite (memory_id e) i]" "working' = remove_entry (memory_id e) working"
      by (auto simp: preflight_op_def Let_def split: if_splits sum.splits)
    from match_member [OF m] have "memory_id e \<in> memory_id ` set working" by simp
    with new assms(2) show ?thesis
      using entries_map_None [of working "memory_id e"]
      by (simp add: remove_entry_map remove_entry_ids)
  qed (use assms(1) in \<open>simp add: preflight_op_def\<close>)
  then show "entries_map working' = fold write_effect new (entries_map working)"
    "distinct (map memory_id working')" "writes_apply new (entries_map working)" by blast+
qed

lemma preflight_writes_prefix:
  "preflight sha i ops working writes = Inr (working', writes') \<Longrightarrow> \<exists>new. writes' = writes @ new"
  by (induction ops arbitrary: i working writes) (auto split: sum.splits, metis append.assoc)

lemma preflight_effect:
  assumes "preflight sha i ops working writes = Inr (working', writes @ new)"
    and "distinct (map memory_id working)" and "fresh_creates new (entries_map working)"
    and "good_digest sha"
  shows "entries_map working' = fold write_effect new (entries_map working) \<and>
    writes_apply new (entries_map working)"
  using assms(1-3)
proof (induction ops arbitrary: i working writes new)
  case (Cons op ops)
  from Cons.prems(1) obtain w1 n1 where op: "preflight_op sha i op working = Inr (w1, n1)"
    and rest: "preflight sha (i + 1) ops w1 (writes @ n1) = Inr (working', writes @ new)"
    by (auto split: sum.splits)
  from preflight_writes_prefix [OF rest] obtain n2 where new: "new = n1 @ n2" by auto
  with Cons.prems(3) have fresh: "fresh_creates n1 (entries_map working)"
    "fresh_creates n2 (fold write_effect n1 (entries_map working))"
    by (simp_all add: fresh_creates_append)
  note step = preflight_op_step [OF op Cons.prems(2) fresh(1) assms(4)]
  from rest new have "preflight sha (i + 1) ops w1 (writes @ n1) = Inr (working', (writes @ n1) @ n2)" by simp
  from Cons.IH [OF this step(2)] fresh(2) step(1)
  have "entries_map working' = fold write_effect n2 (entries_map w1) \<and> writes_apply n2 (entries_map w1)"
    by simp
  with step new show ?case by (simp add: writes_apply_append)
qed simp

section \<open>Operations against the service\<close>

text \<open>The lemmas below hold for any store that meets the service's contract.\<close>

context memory_service begin

lemma run_write_applies:
  assumes "ok w" and "write_applies wr (view w t p)"
  shows "\<exists>w'. run_write store t p wr w = (Inr (), w') \<and> ok w' \<and> view w' t p = write_effect wr (view w t p)"
  using assms create_fresh update_live delete_live by (cases wr) auto

lemma commit_applies:
  assumes "ok w" and "writes_apply wrs (view w t p)"
  shows "\<exists>w'. commit_writes store t p wrs applied w = (Inr (), w') \<and> ok w' \<and>
     view w' t p = fold write_effect wrs (view w t p)"
  using assms
proof (induction wrs arbitrary: w applied)
  case (Cons wr wrs)
  then obtain w1 where w1: "run_write store t p wr w = (Inr (), w1)" "ok w1"
    "view w1 t p = write_effect wr (view w t p)"
    using run_write_applies [of w wr t p] by auto
  with Cons.prems(2) have "writes_apply wrs (view w1 t p)" by simp
  from Cons.IH [OF w1(2) this] w1 show ?case by auto
qed simp

text \<open>A batch: an invalid operation writes nothing; a valid batch whose adds take fresh ids leaves
  the working copy.\<close>

lemma batch_invalid:
  assumes "listMemories store t p no_options w = Some (Inr entries, w)" and "ops \<noteq> []"
    and "preflight sha 0 ops entries [] = Inl (i, reason)"
  shows "applyBatch sha store t p ops w = Some (Inr (batchError entries i reason), w)"
  using assms by (simp add: applyBatch_def)

lemma batch_applies:
  assumes "ok w" and "good_digest sha" and "ops \<noteq> []"
    and "listMemories store t p no_options w = Some (Inr entries, w)"
    and "preflight sha 0 ops entries [] = Inr (working, writes)"
    and "fresh_creates writes (view w t p)"
  shows "\<exists>w'. applyBatch sha store t p ops w =
      Some (Inr (js ''memory: applied '' @ str_of_nat (length writes) @ js '' operation(s)''), w') \<and>
      ok w' \<and> view w' t p = entries_map working"
proof -
  from list_law [OF assms(1), of t p] assms(4)
  have es: "distinct (map memory_id entries)" "entries_map entries = view w t p" by auto
  from preflight_effect [of sha 0 ops entries "[]" working writes] assms(2,5,6) es
  have "entries_map working = fold write_effect writes (view w t p)" "writes_apply writes (view w t p)"
    by simp_all
  with commit_applies [OF assms(1), of writes t p "[]"]
  obtain w' where "commit_writes store t p writes [] w = (Inr (), w')" "ok w'"
    "view w' t p = entries_map working" by auto
  with assms(3-5) show ?thesis by (simp add: applyBatch_def)
qed

text \<open>An add whose id a replaced entry still holds reports success and stores nothing.\<close>

lemma add_collides:
  assumes "ok w" and "listMemories store t p no_options w = Some (Inr entries, w)"
    and "body = trim content" "body \<noteq> []" "count_runes body \<le> MEMORY_CONTENT_MAX_RUNES"
    and "body \<notin> entry_content ` set entries"
    and "generateMemoryId sha body \<in> memory_id ` set entries"
  shows "applyAdd sha store t p content w = Some (Inr DEDUPE_TEXT, w)"
proof -
  from list_law [OF assms(1), of t p] assms(2) have "entries_map entries = view w t p" by auto
  with assms(7) have "view w t p (generateMemoryId sha body) \<noteq> None"
    by (metis entries_map_None)
  from create_live [OF assms(1) this, of body] obtain e where
    "createMemory store t p (generateMemoryId sha body) body w = (Inl e, w)" "err_code e = Some 6"
    by blast
  moreover have "\<not> list_ex (\<lambda>e. entry_content e = body) entries"
    using assms(6) by (auto simp: list_ex_iff)
  ultimately show ?thesis
    using assms(2-5) by (simp add: applyAdd_def Let_def not_less)
qed

end

section \<open>Properties\<close>

text \<open>A digest with two fixed values, for concrete runs.\<close>

definition sample_digest :: "jstr \<Rightarrow> jstr" where
  "sample_digest c = (if c = js ''A'' then js ''a1'' else js ''b2'')"

definition sample_service :: service_state where
  "sample_service = (\<lambda>_. [(js ''a1'', js ''A'')])"

text \<open>C10: A batch whose operations all pass the preflight and whose adds take ids no live entry holds
  commits completely, and the stored collection is then exactly the working copy the preflight
  computed -- through the gRPC client over a paged service, whatever the page size.\<close>
theorem batch_commits_working_copy:
  assumes "service_ok s" and "good_digest sha" and "ops \<noteq> []"
    and "client_listMemories (reference_service (Suc n)) t p no_options s = Some (Inr entries, s)"
    and "preflight sha 0 ops entries [] = Inr (working, writes)"
    and "fresh_creates writes (service_view s t p)"
  shows "\<exists>s'. applyBatch sha (memory_client (reference_service (Suc n))) t p ops s =
      Some (Inr (js ''memory: applied '' @ str_of_nat (length writes) @ js '' operation(s)''), s') \<and>
      service_ok s' \<and> service_view s' t p = entries_map working"
  by (rule client_service.batch_applies [OF assms(1-3) _ assms(5,6)])
     (simp add: memory_client_def assms(4))

definition sample_ops :: "memory_op list" where
  "sample_ops =
     [\<lparr>op_action = Remove, op_content = None, op_old_text = Some (js ''A'')\<rparr>,
      \<lparr>op_action = Add, op_content = Some (js ''B''), op_old_text = None\<rparr>]"

theorem batch_commits_working_copy_witness:
  "\<exists>s'. applyBatch sample_digest (memory_client (reference_service (Suc 0))) [] [] sample_ops sample_service =
      Some (Inr (js ''memory: applied '' @ str_of_nat 2 @ js '' operation(s)''), s') \<and>
      service_ok s' \<and> service_view s' [] [] = [js ''b2'' \<mapsto> js ''B'']"
proof -
  have ok: "service_ok sample_service"
    by (auto simp: service_ok_def sample_service_def js_simps)
  have dg: "good_digest sample_digest"
    by (auto simp: good_digest_def generateMemoryId_def sample_digest_def js_simps)
  have pre: "preflight sample_digest 0 sample_ops [\<lparr>memory_id = js ''a1'', entry_content = js ''A''\<rparr>] [] =
      Inr ([\<lparr>memory_id = js ''b2'', entry_content = js ''B''\<rparr>],
           [DeleteWrite (js ''a1'') 0, CreateWrite (js ''b2'') (js ''B'') 1])"
    by code_simp
  have list: "client_listMemories (reference_service (Suc 0)) [] [] no_options sample_service =
      Some (Inr [\<lparr>memory_id = js ''a1'', entry_content = js ''A''\<rparr>], sample_service)"
    using client_lists_all [OF _ ok, of "Suc 0" "[]" "[]"] by (simp add: sample_service_def as_entry_def)
  have "fresh_creates [DeleteWrite (js ''a1'') 0, CreateWrite (js ''b2'') (js ''B'') 1]
      (service_view sample_service [] [])"
    by (simp add: service_view_def sample_service_def js_simps)
  from batch_commits_working_copy [OF ok dg _ list pre this] show ?thesis
    by (simp add: sample_ops_def numeral_2_eq_2)
qed

text \<open>A batch in which some operation fails the preflight writes nothing: the store and the whole
  world after the listing are untouched, and the answer names that operation with its reason and
  shows the entries as they were listed.\<close>
lemma invalid_batch_writes_nothing:
  assumes "listMemories store t p no_options w = Some (Inr entries, w1)" and "ops \<noteq> []"
    and "preflight sha 0 ops entries [] = Inl (i, reason)"
  shows "applyBatch sha store t p ops w = Some (Inr (batchError entries i reason), w1)"
  using assms by (simp add: applyBatch_def)

text \<open>C13: An entry's id is the digest of the content it was added with, and a replace keeps the id:
  adding the replaced content again then collides with the live id, and the tool answers that the
  memory already exists although no stored entry has that content, and stores nothing.\<close>
theorem add_after_replace_is_lost:
  assumes "service_ok s"
    and "client_listMemories (reference_service (Suc n)) t p no_options s = Some (Inr entries, s)"
    and "trim content \<noteq> []" "count_runes (trim content) \<le> MEMORY_CONTENT_MAX_RUNES"
    and "trim content \<notin> entry_content ` set entries"
    and "generateMemoryId sha (trim content) \<in> memory_id ` set entries"
  shows "applyAdd sha (memory_client (reference_service (Suc n))) t p content s =
           Some (Inr (js ''memory already exists (no duplicate added)''), s)"
  using client_service.add_collides [OF assms(1) _ refl assms(3-6)] assms(2)
  by (simp add: memory_client_def DEDUPE_TEXT_def)

theorem add_after_replace_is_lost_witness:
  "let s = (\<lambda>_. [(js ''a1'', js ''other'')]) in
   applyAdd sample_digest (memory_client (reference_service (Suc 0))) [] [] (js ''A'') s =
     Some (Inr (js ''memory already exists (no duplicate added)''), s)"
proof -
  let ?s = "\<lambda>_. [(js ''a1'', js ''other'')]"
  have ok: "service_ok ?s" by (auto simp: service_ok_def js_simps)
  have trim: "trim (js ''A'') = js ''A''" by code_simp
  have "applyAdd sample_digest (memory_client (reference_service (Suc 0))) [] [] (js ''A'') ?s =
     Some (Inr (js ''memory already exists (no duplicate added)''), ?s)"
  proof (rule add_after_replace_is_lost [OF ok])
    show "client_listMemories (reference_service (Suc 0)) [] [] no_options ?s =
        Some (Inr [\<lparr>memory_id = js ''a1'', entry_content = js ''other''\<rparr>], ?s)"
      using client_lists_all [OF _ ok, of "Suc 0" "[]" "[]"] by (simp add: as_entry_def)
  qed (unfold trim, simp_all add: js_simps MEMORY_CONTENT_MAX_RUNES_def generateMemoryId_def sample_digest_def)
  then show ?thesis by (simp add: Let_def)
qed

text \<open>The locator of replace and remove succeeds exactly when the trimmed text is not empty, some
  entry contains it and all entries that do have the same content; it is then the first of them.\<close>
lemma locator_is_unambiguous:
  "matchBySubstring entries oldText = Inr e \<longleftrightarrow>
     trim oldText \<noteq> [] \<and>
     (\<exists>before after. entries = before @ e # after \<and> sublist (trim oldText) (entry_content e) \<and>
        list_all (\<lambda>b. \<not> sublist (trim oldText) (entry_content b)) before \<and>
        entry_content ` {a \<in> set after. sublist (trim oldText) (entry_content a)} \<subseteq> {entry_content e})"
proof -
  have same: "(\<forall>h \<in> set (filter (\<lambda>x. sublist (trim oldText) (entry_content x)) after).
        entry_content h = entry_content e) \<longleftrightarrow>
      entry_content ` {a \<in> set after. sublist (trim oldText) (entry_content a)} \<subseteq> {entry_content e}" for after
    by auto
  have none: "(\<forall>b \<in> set before. \<not> sublist (trim oldText) (entry_content b)) \<longleftrightarrow>
      list_all (\<lambda>b. \<not> sublist (trim oldText) (entry_content b)) before" for before
    by (simp add: list_all_iff)
  show ?thesis
    unfolding match_Inr includes_sublist filter_eq_Cons_iff none same [symmetric] by blast
qed

text \<open>The positions named after a mid-commit failure are exact: expanding the printed runs gives
  back the applied positions, and no two printed runs could be merged.\<close>
lemma applied_positions_expand:
  "\<exists>runs. formatAppliedPositions (q # qs) = join (js '', '') (map run_text runs) \<and>
     concat (map (\<lambda>r. [fst r..<snd r + 1]) runs) = q # qs \<and>
     (\<nexists>i. Suc i < length runs \<and> fst (runs ! Suc i) = snd (runs ! i) + 1)"
proof -
  have "concat (map (\<lambda>r. [fst r..<snd r + 1]) (position_runs q q qs)) = q # qs"
    using position_runs_expand [of q q qs] by simp
  with position_runs_maximal [of q q qs] show ?thesis
    by (intro exI [of _ "position_runs q q qs"]) (simp add: formatAppliedPositions_def)
qed

text \<open>Listing without a page size walks every page: over a service that serves any positive page
  size the client returns the scope's whole collection, in order, and the walk ends.\<close>
lemma listing_walks_every_page:
  assumes "service_ok s"
  shows "client_listMemories (reference_service (Suc n)) t p no_options s =
           Some (Inr (map as_entry (s (scope_parent t p))), s)"
  by (rule client_lists_all [OF _ assms]) simp

end
