(* ===== verification/Wiki_Ops.thy ===== *)
theory Wiki_Ops
  imports Memory_Ops
begin

declare js_simps(2) [simp del]

text \<open>
  The wiki tools' operations, \<open>common/js/memory/src/wiki-operations.ts\<close>. The title
  normalization (NFKC, then lower case) is the parameter \<open>norm\<close>, the digest \<open>sha256_hex\<close>; a search
  that never meets an empty page token does not return (\<open>None\<close>).
\<close>

section \<open>Constants and texts\<close>

definition WIKI_SEARCH_PAGE_SIZE :: nat where "WIKI_SEARCH_PAGE_SIZE = 100"
definition WIKI_TITLE_MAX_RUNES :: nat where "WIKI_TITLE_MAX_RUNES = 128"
definition WIKI_CONTENT_MAX_BYTES :: nat where "WIKI_CONTENT_MAX_BYTES = 64 * 1024"

definition WIKI_SEARCH_EMPTY_QUERY_TEXT :: jstr where
  "WIKI_SEARCH_EMPTY_QUERY_TEXT =
     js ''wiki: query cannot be empty. Provide a keyword or phrase to search titles.''"

definition WIKI_GET_EMPTY_TITLES_TEXT :: jstr where
  "WIKI_GET_EMPTY_TITLES_TEXT =
     js ''wiki: titles cannot be empty. Provide one or more titles to retrieve.''"

definition WIKI_WRITE_AMBIGUOUS_ARGS_TEXT :: jstr where
  "WIKI_WRITE_AMBIGUOUS_ARGS_TEXT =
     js ''wiki: provide EITHER title/content (single entry) OR entries (batch), not both.''"

definition WIKI_WRITE_MISSING_ARGS_TEXT :: jstr where
  "WIKI_WRITE_MISSING_ARGS_TEXT =
     js ''wiki: provide EITHER title/content (single entry) OR entries (batch).''"

definition WIKI_WRITE_EMPTY_ENTRIES_TEXT :: jstr where
  "WIKI_WRITE_EMPTY_ENTRIES_TEXT =
     js ''wiki: entries cannot be empty. Provide title/content (single entry) or a '' @
     js ''non-empty entries list (batch).''"

definition generateWikiId :: "(jstr \<Rightarrow> jstr) \<Rightarrow> jstr \<Rightarrow> jstr" where
  "generateWikiId sha256_hex titleNorm = take 32 (sha256_hex titleNorm)"

section \<open>Search\<close>

text \<open>The hits of one page: those whose name was not seen yet.\<close>

fun add_hits :: "wiki_summary list \<Rightarrow> wiki_summary list \<Rightarrow> wiki_summary list" where
  "add_hits hits [] = hits"
| "add_hits hits (x # xs) =
     (if ws_name x \<in> set (map ws_name hits) then add_hits hits xs else add_hits (hits @ [x]) xs)"

partial_function (option) searchAll ::
  "'w wiki_store \<Rightarrow> jstr \<Rightarrow> jstr \<Rightarrow> jstr option \<Rightarrow> wiki_summary list \<Rightarrow> 'w \<Rightarrow>
   ((store_error + wiki_summary list) \<times> 'w) option" where
  "searchAll store template query pageToken hits w =
     (case searchWikis store template query
             \<lparr>po_pageSize = Some WIKI_SEARCH_PAGE_SIZE, po_pageToken = pageToken\<rparr> w of
        (Inl e, w') \<Rightarrow> Some (Inl e, w')
      | (Inr page, w') \<Rightarrow>
          (let hits' = add_hits hits (page_wikis page) in
           if page_nextPageToken page = [] then Some (Inr hits', w')
           else searchAll store template query (Some (page_nextPageToken page)) hits' w'))"

definition resolveWiki ::
  "(jstr \<Rightarrow> jstr) \<Rightarrow> 'w wiki_store \<Rightarrow> jstr \<Rightarrow> jstr \<Rightarrow> 'w \<Rightarrow>
   ((store_error + wiki_summary option) \<times> 'w) option" where
  "resolveWiki norm store template title w =
     do {
       (found, w') \<leftarrow> searchAll store template (norm title) None [] w;
       Some (case found of
               Inl e \<Rightarrow> Inl e
             | Inr hits \<Rightarrow> Inr (List.find (\<lambda>h. norm (ws_title h) = norm title) hits), w')
     }"

definition wikiSearch :: "'w wiki_store \<Rightarrow> jstr \<Rightarrow> jstr \<Rightarrow> 'w \<Rightarrow> 'w outcome" where
  "wikiSearch store template query w =
     (let trimmed = trim query in
      if trimmed = [] then Some (Inr WIKI_SEARCH_EMPTY_QUERY_TEXT, w)
      else do {
        (found, w') \<leftarrow> searchAll store template trimmed None [] w;
        Some (case found of
                Inl e \<Rightarrow> Inl e
              | Inr [] \<Rightarrow> Inr (js ''wiki: no titles matched '' @ quoted trimmed @ js ''. '' @
                  js ''Try a different or shorter keyword, or a different term for the same idea.'')
              | Inr hits \<Rightarrow> Inr (join [10]
                  ((js ''wiki: '' @ str_of_nat (length hits) @ js '' title(s) matched '' @
                    quoted trimmed @ js '':'') # map (\<lambda>h. js ''- '' @ ws_title h) hits)), w')
      })"

section \<open>Get\<close>

text \<open>The loop over the requested titles, with the found bodies and the missing titles so far.\<close>

fun get_titles ::
  "(jstr \<Rightarrow> jstr) \<Rightarrow> 'w wiki_store \<Rightarrow> jstr \<Rightarrow> jstr list \<Rightarrow> jstr list \<Rightarrow> jstr list \<Rightarrow> 'w \<Rightarrow>
   ((store_error + jstr list \<times> jstr list) \<times> 'w) option" where
  "get_titles norm store template [] found missing w = Some (Inr (found, missing), w)"
| "get_titles norm store template (raw # raws) found missing w =
     (let title = trim raw in
      if title = [] then get_titles norm store template raws found (missing @ [title]) w
      else do {
        (hit, w1) \<leftarrow> resolveWiki norm store template title w;
        (case hit of
           Inl e \<Rightarrow> Some (Inl e, w1)
         | Inr None \<Rightarrow> get_titles norm store template raws found (missing @ [title]) w1
         | Inr (Some summary) \<Rightarrow>
             (case getWiki store template (parseWikiName (ws_name summary)) w1 of
                (Inl e, w2) \<Rightarrow> Some (Inl e, w2)
              | (Inr entry, w2) \<Rightarrow>
                  get_titles norm store template raws
                    (found @ [js ''## '' @ wiki_title entry @ [10] @ wiki_content entry]) missing w2))
      })"

definition get_text :: "jstr list \<Rightarrow> jstr list \<Rightarrow> jstr" where
  "get_text found missing =
     (let hits = (if found = [] then []
                  else (js ''wiki: '' @ str_of_nat (length found) @ js '' entry(ies) retrieved.'') # found);
          miss = (if missing = [] then []
                  else [js ''wiki: '' @ str_of_nat (length missing) @ js '' title(s) not found: '' @
                        join (js '', '') (map quoted missing) @
                        js ''. Run wiki_search with a keyword to find the exact title, then retry wiki_get.''])
      in join [10, 10] (hits @ miss))"

definition wikiGet :: "(jstr \<Rightarrow> jstr) \<Rightarrow> 'w wiki_store \<Rightarrow> jstr \<Rightarrow> jstr list \<Rightarrow> 'w \<Rightarrow> 'w outcome" where
  "wikiGet norm store template titles w =
     (if titles = [] then Some (Inr WIKI_GET_EMPTY_TITLES_TEXT, w)
      else do {
        (r, w') \<leftarrow> get_titles norm store template titles [] [] w;
        Some (case r of Inl e \<Rightarrow> Inl e | Inr (found, missing) \<Rightarrow> Inr (get_text found missing), w')
      })"

section \<open>Write\<close>

record wiki_write_entry =
  we_title :: "jstr option"
  we_content :: "jstr option"

record wiki_write_args =
  wa_title :: "jstr option"
  wa_content :: "jstr option"
  wa_entries :: "wiki_write_entry list option"

datatype write_kind = CreateKind | UpdateKind

record planned_wiki_write =
  pw_kind :: write_kind
  pw_id :: jstr
  pw_title :: jstr
  pw_content :: jstr

definition normalizeWriteEntries :: "wiki_write_args \<Rightarrow> wiki_write_entry list" where
  "normalizeWriteEntries args =
     (case wa_entries args of
        Some entries \<Rightarrow> entries
      | None \<Rightarrow> [\<lparr>we_title = wa_title args, we_content = wa_content args\<rparr>])"

definition failureText :: "bool \<Rightarrow> nat \<Rightarrow> jstr \<Rightarrow> jstr" where
  "failureText hasBatch i reason =
     (if hasBatch then js ''wiki: entry '' @ str_of_nat (i + 1) @ js '' failed: '' @ reason @
                       js ''. No entries were written.''
      else js ''wiki: '' @ reason @ js ''. Nothing was written.'')"

text \<open>The checks of one entry: the reason it is invalid, if any.\<close>

definition entry_problem :: "wiki_write_entry \<Rightarrow> jstr option" where
  "entry_problem entry =
     (let title = trim (or_empty (we_title entry)); content = or_empty (we_content entry) in
      if title = [] then Some (js ''title is required'')
      else if WIKI_TITLE_MAX_RUNES < count_runes title then
        Some (js ''title exceeds '' @ str_of_nat WIKI_TITLE_MAX_RUNES @ js '' characters'')
      else if trim content = [] then Some (js ''content is required'')
      else if WIKI_CONTENT_MAX_BYTES < utf8_length content then
        Some (js ''content exceeds '' @ str_of_nat WIKI_CONTENT_MAX_BYTES @ js '' bytes'')
      else None)"

text \<open>
  The preflight loop: \<open>planned\<close> maps the normalized titles of this batch to their ids. It ends with
  the failing position and reason, an infrastructure error, or the planned writes.
\<close>

datatype plan_end = PlanInvalid nat jstr | PlanError store_error | Planned "planned_wiki_write list"

fun plan_writes ::
  "(jstr \<Rightarrow> jstr) \<Rightarrow> (jstr \<Rightarrow> jstr) \<Rightarrow> 'w wiki_store \<Rightarrow> jstr \<Rightarrow> nat \<Rightarrow> wiki_write_entry list \<Rightarrow>
   (jstr \<Rightarrow> jstr option) \<Rightarrow> planned_wiki_write list \<Rightarrow> 'w \<Rightarrow> (plan_end \<times> 'w) option" where
  "plan_writes norm sha256_hex store template i [] planned writes w = Some (Planned writes, w)"
| "plan_writes norm sha256_hex store template i (entry # entries) planned writes w =
     (case entry_problem entry of
        Some reason \<Rightarrow> Some (PlanInvalid i reason, w)
      | None \<Rightarrow>
          (let title = trim (or_empty (we_title entry)); content = or_empty (we_content entry);
               write = (\<lambda>kind wid. \<lparr>pw_kind = kind, pw_id = wid, pw_title = title, pw_content = content\<rparr>)
           in case planned (norm title) of
                Some plannedId \<Rightarrow>
                  plan_writes norm sha256_hex store template (i + 1) entries planned
                    (writes @ [write UpdateKind plannedId]) w
              | None \<Rightarrow>
                  do {
                    (hit, w') \<leftarrow> resolveWiki norm store template title w;
                    (case hit of
                       Inl e \<Rightarrow> Some (PlanError e, w')
                     | Inr found \<Rightarrow>
                         (let (wid, kind) = (case found of
                                None \<Rightarrow> (generateWikiId sha256_hex (norm title), CreateKind)
                              | Some summary \<Rightarrow> (parseWikiName (ws_name summary), UpdateKind))
                          in plan_writes norm sha256_hex store template (i + 1) entries
                               (planned(norm title \<mapsto> wid)) (writes @ [write kind wid]) w'))
                  }))"

definition run_wiki_write ::
  "'w wiki_store \<Rightarrow> jstr \<Rightarrow> planned_wiki_write \<Rightarrow> 'w \<Rightarrow> (store_error + unit) \<times> 'w" where
  "run_wiki_write store template wr w =
     (case pw_kind wr of
        CreateKind \<Rightarrow> createWiki store template (pw_id wr) (pw_title wr) (pw_content wr) w
      | UpdateKind \<Rightarrow> updateWiki store template (pw_id wr) (pw_content wr) w)"

definition wiki_partial_failure :: "store_error \<Rightarrow> jstr list \<Rightarrow> store_error" where
  "wiki_partial_failure e written =
     (if written = [] then e
      else \<lparr>err_code = None,
            err_message = describeErr e @ js ''; entries written before the failure: '' @
              join (js '', '') (map quoted written)\<rparr>)"

fun commit_wiki_writes ::
  "'w wiki_store \<Rightarrow> jstr \<Rightarrow> planned_wiki_write list \<Rightarrow> jstr list \<Rightarrow> 'w \<Rightarrow> (store_error + unit) \<times> 'w" where
  "commit_wiki_writes store template [] written w = (Inr (), w)"
| "commit_wiki_writes store template (wr # wrs) written w =
     (case run_wiki_write store template wr w of
        (Inl e, w') \<Rightarrow> (Inl (wiki_partial_failure e written), w')
      | (Inr _, w') \<Rightarrow> commit_wiki_writes store template wrs (written @ [pw_title wr]) w')"

definition applied_text :: "planned_wiki_write list \<Rightarrow> jstr" where
  "applied_text writes =
     join [10] ((js ''wiki: '' @ str_of_nat (length writes) @ js '' entry(ies) applied'') #
       map (\<lambda>wr. (case pw_kind wr of CreateKind \<Rightarrow> js ''created'' | UpdateKind \<Rightarrow> js ''updated'') @
                  js '': '' @ quoted (pw_title wr)) writes)"

definition wikiWrite ::
  "(jstr \<Rightarrow> jstr) \<Rightarrow> (jstr \<Rightarrow> jstr) \<Rightarrow> 'w wiki_store \<Rightarrow> jstr \<Rightarrow> wiki_write_args \<Rightarrow> 'w \<Rightarrow> 'w outcome" where
  "wikiWrite norm sha256_hex store template args w =
     (let hasSingle = (wa_title args \<noteq> None \<or> wa_content args \<noteq> None);
          hasBatch = (wa_entries args \<noteq> None) in
      if hasSingle \<and> hasBatch then Some (Inr WIKI_WRITE_AMBIGUOUS_ARGS_TEXT, w)
      else if \<not> hasSingle \<and> \<not> hasBatch then Some (Inr WIKI_WRITE_MISSING_ARGS_TEXT, w)
      else if wa_entries args = Some [] then Some (Inr WIKI_WRITE_EMPTY_ENTRIES_TEXT, w)
      else do {
        (plan, w1) \<leftarrow> plan_writes norm sha256_hex store template 0 (normalizeWriteEntries args)
                        (\<lambda>_. None) [] w;
        (case plan of
           PlanInvalid i reason \<Rightarrow> Some (Inr (failureText hasBatch i reason), w1)
         | PlanError e \<Rightarrow> Some (Inl e, w1)
         | Planned writes \<Rightarrow>
             (case commit_wiki_writes store template writes [] w1 of
                (Inl e, w2) \<Rightarrow> Some (Inl e, w2)
              | (Inr _, w2) \<Rightarrow> Some (Inr (applied_text writes), w2)))
      })"

section \<open>Lemmas\<close>

text \<open>Hits are listed once per name, in the order of their first appearance.\<close>

lemma add_hits_spec:
  assumes "distinct (map ws_name hits)"
  shows "distinct (map ws_name (add_hits hits xs))"
    and "ws_name ` set (add_hits hits xs) = ws_name ` (set hits \<union> set xs)"
    and "prefix hits (add_hits hits xs)"
proof -
  have "distinct (map ws_name (add_hits hits xs)) \<and>
    ws_name ` set (add_hits hits xs) = ws_name ` (set hits \<union> set xs) \<and>
    prefix hits (add_hits hits xs)"
    using assms
  proof (induction hits xs rule: add_hits.induct)
    case (2 hits x xs)
    show ?case
    proof (cases "ws_name x \<in> set (map ws_name hits)")
      case True
      with 2 show ?thesis by auto
    next
      case False
      with "2.IH"(2) "2.prems" show ?thesis by (auto dest: append_prefixD)
    qed
  qed simp
  then show "distinct (map ws_name (add_hits hits xs))"
    and "ws_name ` set (add_hits hits xs) = ws_name ` (set hits \<union> set xs)"
    and "prefix hits (add_hits hits xs)" by blast+
qed

definition title_of :: "wiki_write_entry \<Rightarrow> jstr" where
  "title_of entry = trim (or_empty (we_title entry))"

definition content_of :: "wiki_write_entry \<Rightarrow> jstr" where
  "content_of entry = or_empty (we_content entry)"

text \<open>An invalid entry before the first lookup failure ends the plan at its position.\<close>

lemma plan_invalid:
  "plan_writes norm sha store t i entries planned writes w = Some (PlanInvalid k reason, w') \<Longrightarrow>
   i \<le> k \<and> k - i < length entries \<and> entry_problem (entries ! (k - i)) = Some reason"
proof (induction entries arbitrary: i planned writes w)
  case (Cons entry entries)
  show ?case
  proof (cases "entry_problem entry")
    case (Some r)
    with Cons.prems show ?thesis by simp
  next
    case None
    with Cons.prems obtain planned' writes' w1 where
      "plan_writes norm sha store t (i + 1) entries planned' writes' w1 = Some (PlanInvalid k reason, w')"
      by (auto simp: Let_def split: option.splits sum.splits prod.splits bind_splits)
    from Cons.IH [OF this] show ?thesis by (auto simp: nth_Cons' Suc_diff_le)
  qed
qed simp

end
