(* ===== verification/Wiki_Service.thy ===== *)
theory Wiki_Service
  imports Wiki_Ops
begin

declare js_simps(2) [simp del]

text \<open>
  What the wiki operations rely on of the service behind the store, and what they then promise. A
  template's wiki collection is seen by normalized title: \<open>view w t nt\<close> is the id, the stored title
  and the content of the entry whose normalized title is \<open>nt\<close>. The search normalizes its query
  again and matches it as a substring of the normalized titles
  (\<open>projects/game/memory/handler/wiki_handler.go\<close>, \<open>SearchWikis\<close>). \<open>wiki_reference\<close> is the
  smallest paged service with that contract.
\<close>

section \<open>The contract\<close>

type_synonym wiki_view = "jstr \<Rightarrow> (jstr \<times> jstr \<times> jstr) option"

definition summary_of :: "jstr \<Rightarrow> jstr \<times> jstr \<times> jstr \<Rightarrow> wiki_summary" where
  "summary_of t e = \<lparr>ws_name = wikiName t (fst e), ws_title = fst (snd e)\<rparr>"

definition id_unused :: "jstr \<Rightarrow> wiki_view \<Rightarrow> bool" where
  "id_unused i m \<longleftrightarrow> i \<noteq> [] \<and> 47 \<notin> set i \<and> i \<notin> fst ` ran m"

text \<open>The intended effect of one written entry: its title keeps its id and stored title if it is
  live, and takes the derived id otherwise.\<close>

definition upsert :: "(jstr \<Rightarrow> jstr) \<Rightarrow> (jstr \<Rightarrow> jstr) \<Rightarrow> wiki_write_entry \<Rightarrow> wiki_view \<Rightarrow> wiki_view" where
  "upsert norm sha entry m =
     (let nt = norm (title_of entry) in
      case m nt of
        None \<Rightarrow> m(nt \<mapsto> (generateWikiId sha nt, title_of entry, content_of entry))
      | Some (i, title, _) \<Rightarrow> m(nt \<mapsto> (i, title, content_of entry)))"

text \<open>Every new title of the batch gets an id no live entry has.\<close>

fun fresh_ids :: "(jstr \<Rightarrow> jstr) \<Rightarrow> (jstr \<Rightarrow> jstr) \<Rightarrow> wiki_write_entry list \<Rightarrow> wiki_view \<Rightarrow> bool" where
  "fresh_ids norm sha [] m = True"
| "fresh_ids norm sha (entry # entries) m \<longleftrightarrow>
     (m (norm (title_of entry)) = None \<longrightarrow> id_unused (generateWikiId sha (norm (title_of entry))) m) \<and>
     fresh_ids norm sha entries (upsert norm sha entry m)"

text \<open>The writes the plan of valid entries holds, over the collection \<open>v\<close> it is made against.\<close>

definition target_of ::
  "(jstr \<Rightarrow> jstr) \<Rightarrow> (jstr \<Rightarrow> jstr) \<Rightarrow> wiki_view \<Rightarrow> (jstr \<Rightarrow> jstr option) \<Rightarrow> wiki_write_entry \<Rightarrow>
   jstr \<times> write_kind" where
  "target_of norm sha v planned entry =
     (let nt = norm (title_of entry) in
      case planned nt of
        Some p \<Rightarrow> (p, UpdateKind)
      | None \<Rightarrow> (case v nt of None \<Rightarrow> (generateWikiId sha nt, CreateKind) | Some e \<Rightarrow> (fst e, UpdateKind)))"

fun plan_of ::
  "(jstr \<Rightarrow> jstr) \<Rightarrow> (jstr \<Rightarrow> jstr) \<Rightarrow> wiki_view \<Rightarrow> (jstr \<Rightarrow> jstr option) \<Rightarrow> wiki_write_entry list \<Rightarrow>
   planned_wiki_write list" where
  "plan_of norm sha v planned [] = []"
| "plan_of norm sha v planned (entry # entries) =
     \<lparr>pw_kind = snd (target_of norm sha v planned entry), pw_id = fst (target_of norm sha v planned entry),
      pw_title = title_of entry, pw_content = content_of entry\<rparr> #
     plan_of norm sha v (planned(norm (title_of entry) \<mapsto> fst (target_of norm sha v planned entry))) entries"

text \<open>What a get of \<open>titles\<close> shows of a collection.\<close>

definition shown :: "(jstr \<Rightarrow> jstr) \<Rightarrow> wiki_view \<Rightarrow> jstr \<Rightarrow> jstr list" where
  "shown norm m raw =
     (if trim raw = [] then []
      else case m (norm (trim raw)) of
             None \<Rightarrow> []
           | Some (i, title, c) \<Rightarrow> [js ''## '' @ title @ [10] @ c])"

locale wiki_service =
  fixes norm :: "jstr \<Rightarrow> jstr" and store :: "'w wiki_store" and ok :: "'w \<Rightarrow> bool"
    and view :: "'w \<Rightarrow> jstr \<Rightarrow> wiki_view"
  assumes search_law: "ok w \<Longrightarrow> \<exists>hits. searchAll store t q None [] w = Some (Inr hits, w) \<and>
      (\<forall>nt. List.find (\<lambda>h. norm (ws_title h) = nt) hits =
         (if contains nt (norm q) then map_option (summary_of t) (view w t nt) else None))"
    and view_law: "ok w \<Longrightarrow> view w t nt = Some (i, title, c) \<Longrightarrow> norm title = nt \<and> i \<noteq> [] \<and> 47 \<notin> set i"
    and get_law: "ok w \<Longrightarrow> view w t nt = Some (i, title, c) \<Longrightarrow>
      getWiki store t i w = (Inr \<lparr>wiki_name = wikiName t i, wiki_title = title, wiki_content = c\<rparr>, w)"
    and create_law: "ok w \<Longrightarrow> id_unused i (view w t) \<Longrightarrow> view w t (norm title) = None \<Longrightarrow>
      \<exists>w'. createWiki store t i title c w = (Inr (), w') \<and> ok w' \<and>
           view w' t = (view w t)(norm title \<mapsto> (i, title, c))"
    and duplicate_law: "ok w \<Longrightarrow> view w t (norm title) \<noteq> None \<Longrightarrow>
      \<exists>e. createWiki store t i title c w = (Inl e, w)"
    and update_law: "ok w \<Longrightarrow> view w t nt = Some (i, title, c0) \<Longrightarrow>
      \<exists>w'. updateWiki store t i c w = (Inr (), w') \<and> ok w' \<and> view w' t = (view w t)(nt \<mapsto> (i, title, c))"
begin

lemma resolve_finds:
  assumes "ok w"
  shows "resolveWiki norm store t title w =
     Some (Inr (if contains (norm title) (norm (norm title))
                then map_option (summary_of t) (view w t (norm title)) else None), w)"
  using search_law [OF assms, of t "norm title"] by (auto simp: resolveWiki_def)

lemma resolve_exact:
  assumes "ok w" and "norm (norm title) = norm title"
  shows "resolveWiki norm store t title w =
     Some (Inr (map_option (summary_of t) (view w t (norm title))), w)"
  by (simp add: resolve_finds [OF assms(1)] assms(2))

lemma parse_live:
  "ok w \<Longrightarrow> view w t nt = Some e \<Longrightarrow> parseWikiName (ws_name (summary_of t e)) = fst e"
  using view_law [of w t nt] by (cases e) (auto simp: summary_of_def)

lemma plan_valid:
  assumes "ok w" and "\<And>e. e \<in> set entries \<Longrightarrow> entry_problem e = None"
    and "\<And>e. e \<in> set entries \<Longrightarrow> norm (norm (title_of e)) = norm (title_of e)"
  shows "plan_writes norm sha store t i entries planned writes w =
     Some (Planned (writes @ plan_of norm sha (view w t) planned entries), w)"
  using assms(2,3)
proof (induction entries arbitrary: i planned writes)
  case (Cons entry entries)
  note IH = Cons.IH [OF Cons.prems(1) Cons.prems(2)]
  from Cons.prems have valid: "entry_problem entry = None" and
    idem: "norm (norm (title_of entry)) = norm (title_of entry)" by simp_all
  show ?case
  proof (cases "planned (norm (title_of entry))")
    case None
    then show ?thesis
      using resolve_exact [OF assms(1) idem, of t] valid IH parse_live [OF assms(1), of t "norm (title_of entry)"]
      by (cases "view w t (norm (title_of entry))")
         (simp_all add: target_of_def title_of_def content_of_def Let_def)
  next
    case (Some p)
    with valid IH show ?thesis
      by (simp add: target_of_def title_of_def content_of_def Let_def fun_upd_idem)
  qed
qed simp

lemma commit_upserts:
  assumes "ok w" and "fresh_ids norm sha entries (view w t)"
    and "\<And>nt. planned nt = None \<Longrightarrow> view w t nt = v nt"
    and "\<And>nt p. planned nt = Some p \<Longrightarrow> \<exists>e. view w t nt = Some e \<and> fst e = p"
  shows "\<exists>w'. commit_wiki_writes store t (plan_of norm sha v planned entries) written w = (Inr (), w') \<and>
     ok w' \<and> view w' t = fold (upsert norm sha) entries (view w t)"
  using assms
proof (induction entries arbitrary: w planned written)
  case (Cons entry entries)
  let ?nt = "norm (title_of entry)"
  let ?wr = "\<lparr>pw_kind = snd (target_of norm sha v planned entry), pw_id = fst (target_of norm sha v planned entry),
      pw_title = title_of entry, pw_content = content_of entry\<rparr>"
  let ?planned = "planned(?nt \<mapsto> fst (target_of norm sha v planned entry))"
  have "\<exists>w1. run_wiki_write store t ?wr w = (Inr (), w1) \<and> ok w1 \<and>
      view w1 t = upsert norm sha entry (view w t) \<and>
      (\<exists>e. view w1 t ?nt = Some e \<and> fst e = fst (target_of norm sha v planned entry))"
  proof (cases "view w t ?nt")
    case None
    with Cons.prems(3,4) have "planned ?nt = None" "v ?nt = None" by (metis option.distinct(1) not_None_eq)+
    with None Cons.prems(1,2) create_law [of w "generateWikiId sha ?nt" t "title_of entry" "content_of entry"]
    show ?thesis by (auto simp: run_wiki_write_def target_of_def upsert_def Let_def)
  next
    case (Some e)
    obtain i title c0 where e: "e = (i, title, c0)" by (cases e)
    from Some e Cons.prems(3,4) [of ?nt] have "target_of norm sha v planned entry = (i, UpdateKind)"
      by (cases "planned ?nt") (auto simp: target_of_def Let_def)
    with Some e Cons.prems(1) update_law [of w t ?nt i title c0 "content_of entry"]
    show ?thesis by (auto simp: run_wiki_write_def upsert_def Let_def)
  qed
  then obtain w1 where w1: "run_wiki_write store t ?wr w = (Inr (), w1)" "ok w1"
    "view w1 t = upsert norm sha entry (view w t)"
    "\<exists>e. view w1 t ?nt = Some e \<and> fst e = fst (target_of norm sha v planned entry)" by blast
  have other: "view w1 t nt = view w t nt" if "nt \<noteq> ?nt" for nt
    using that w1(3) by (auto simp: upsert_def Let_def split: option.splits)
  have "fresh_ids norm sha entries (view w1 t)" using Cons.prems(2) w1(3) by simp
  moreover have "view w1 t nt = v nt" if "?planned nt = None" for nt
    using that Cons.prems(3) other by (simp split: if_splits)
  moreover have "\<exists>e. view w1 t nt = Some e \<and> fst e = p" if "?planned nt = Some p" for nt p
  proof (cases "nt = ?nt")
    case True
    with that w1(4) show ?thesis by simp
  next
    case False
    with that Cons.prems(4) [of nt p] other show ?thesis by simp
  qed
  ultimately have "\<exists>w2. commit_wiki_writes store t (plan_of norm sha v ?planned entries)
      (written @ [title_of entry]) w1 = (Inr (), w2) \<and> ok w2 \<and>
      view w2 t = fold (upsert norm sha) entries (view w1 t)"
    by (rule Cons.IH [OF w1(2)])
  then  obtain w2 where "commit_wiki_writes store t (plan_of norm sha v ?planned entries) (written @ [title_of entry]) w1 = (Inr (), w2)"
    "ok w2" "view w2 t = fold (upsert norm sha) entries (view w1 t)" by blast
  with w1(1,3) show ?case by auto
qed simp

lemma get_shows:
  assumes "ok w" and "\<And>raw. raw \<in> set titles \<Longrightarrow> norm (norm (trim raw)) = norm (trim raw)"
  shows "get_titles norm store t titles found missing w =
     Some (Inr (found @ concat (map (shown norm (view w t)) titles),
                missing @ filter (\<lambda>title. title = [] \<or> view w t (norm title) = None) (map trim titles)), w)"
  using assms(2)
proof (induction titles arbitrary: found missing)
  case (Cons raw titles)
  note IH = Cons.IH [OF Cons.prems]
  have idem: "norm (norm (trim raw)) = norm (trim raw)" using Cons.prems by simp
  show ?case
  proof (cases "trim raw = []")
    case True
    with IH show ?thesis by (simp add: shown_def)
  next
    case False
    note res = resolve_exact [OF assms(1) idem, of t]
    show ?thesis
    proof (cases "view w t (norm (trim raw))")
      case None
      with False IH res show ?thesis by (simp add: shown_def)
    next
      case (Some e)
      obtain i title c where e: "e = (i, title, c)" by (cases e)
      from parse_live [OF assms(1) Some] e have "parseWikiName (ws_name (summary_of t (i, title, c))) = i" by simp
      with False IH res Some e get_law [OF assms(1), of t "norm (trim raw)" i title c] show ?thesis
        by (simp add: shown_def)
    qed
  qed
qed simp

text \<open>The whole calls.\<close>

lemma write_upserts:
  assumes "ok w" and "entries \<noteq> []" and "\<And>e. e \<in> set entries \<Longrightarrow> entry_problem e = None"
    and "\<And>e. e \<in> set entries \<Longrightarrow> norm (norm (title_of e)) = norm (title_of e)"
    and "fresh_ids norm sha entries (view w t)"
  shows "\<exists>w'. wikiWrite norm sha store t \<lparr>wa_title = None, wa_content = None, wa_entries = Some entries\<rparr> w =
      Some (Inr (applied_text (plan_of norm sha (view w t) (\<lambda>_. None) entries)), w') \<and>
      ok w' \<and> view w' t = fold (upsert norm sha) entries (view w t)"
proof -
  have "plan_writes norm sha store t 0 entries (\<lambda>_. None) [] w =
      Some (Planned (plan_of norm sha (view w t) (\<lambda>_. None) entries), w)"
    using plan_valid [OF assms(1,3,4), of entries sha t 0 "\<lambda>_. None" "[]"] by simp
  with commit_upserts [OF assms(1,5), of "\<lambda>_. None" "view w t" "[]"] assms(2) show ?thesis
    by (auto simp: wikiWrite_def normalizeWriteEntries_def Let_def)
qed

lemma plan_first_invalid:
  assumes "ok w" and "\<And>e. e \<in> set pre \<Longrightarrow> entry_problem e = None"
    and "\<And>e. e \<in> set pre \<Longrightarrow> norm (norm (title_of e)) = norm (title_of e)"
    and "entry_problem e = Some reason"
  shows "plan_writes norm sha store t i (pre @ e # rest) planned writes w =
    Some (PlanInvalid (i + length pre) reason, w)"
  using assms(2,3)
proof (induction pre arbitrary: i planned writes)
  case Nil
  with assms(4) show ?case by simp
next
  case (Cons entry pre)
  note IH = Cons.IH [OF Cons.prems(1) Cons.prems(2)]
  from Cons.prems have valid: "entry_problem entry = None" and
    idem: "norm (norm (title_of entry)) = norm (title_of entry)" by simp_all
  show ?case
  proof (cases "planned (norm (title_of entry))")
    case None
    then show ?thesis
      using resolve_exact [OF assms(1) idem, of t] valid IH
      by (cases "view w t (norm (title_of entry))") (simp_all add: title_of_def Let_def)
  next
    case (Some p)
    with valid IH show ?thesis by (simp add: title_of_def Let_def)
  qed
qed

lemma unstable_title_fails:
  assumes "ok w" and "entry_problem \<lparr>we_title = Some title, we_content = Some content\<rparr> = None"
    and "view w t (norm (trim title)) \<noteq> None"
    and "\<not> contains (norm (trim title)) (norm (norm (trim title)))"
  shows "\<exists>e. wikiWrite norm sha store t \<lparr>wa_title = Some title, wa_content = Some content, wa_entries = None\<rparr> w =
      Some (Inl e, w)"
proof -
  let ?id = "generateWikiId sha (norm (trim title))"
  have "resolveWiki norm store t (trim title) w = Some (Inr None, w)"
    using resolve_finds [OF assms(1), of t "trim title"] assms(4) by simp
  moreover from duplicate_law [OF assms(1,3)] obtain e where
    "createWiki store t ?id (trim title) content w = (Inl e, w)" by blast
  ultimately show ?thesis using assms(2)
    by (simp add: wikiWrite_def normalizeWriteEntries_def or_empty_def Let_def run_wiki_write_def
        wiki_partial_failure_def)
qed

end

section \<open>The reference service\<close>

type_synonym wiki_state = "jstr \<Rightarrow> (jstr \<times> jstr \<times> jstr) list"

definition wiki_parent :: "jstr \<Rightarrow> jstr" where
  "wiki_parent name = take (length name - length (js ''/wikis/'' @ after_last_slash name)) name"

definition title_norm :: "(jstr \<Rightarrow> jstr) \<Rightarrow> jstr \<times> jstr \<times> jstr \<Rightarrow> jstr" where
  "title_norm norm e = norm (fst (snd e))"

definition matching :: "(jstr \<Rightarrow> jstr) \<Rightarrow> jstr \<Rightarrow> (jstr \<times> jstr \<times> jstr) list \<Rightarrow> (jstr \<times> jstr \<times> jstr) list" where
  "matching norm q es = filter (\<lambda>e. contains (title_norm norm e) (norm q)) es"

definition listed_of :: "jstr \<Rightarrow> jstr \<times> jstr \<times> jstr \<Rightarrow> listed_wiki" where
  "listed_of parent e =
     \<lparr>lw_name = Some (parent @ js ''/wikis/'' @ fst e), lw_title = Some (fst (snd e)), lw_content = None\<rparr>"

definition wiki_page ::
  "nat \<Rightarrow> jstr \<Rightarrow> (jstr \<times> jstr \<times> jstr) list \<Rightarrow> listed_wiki list \<times> jstr option" where
  "wiki_page k parent rest =
     (map (listed_of parent) (take k rest), if k < length rest then Some (fst (rest ! (k - 1))) else None)"

definition put_content :: "jstr \<Rightarrow> jstr \<Rightarrow> (jstr \<times> jstr \<times> jstr) list \<Rightarrow> (jstr \<times> jstr \<times> jstr) list" where
  "put_content i c es = map (\<lambda>e. if fst e = i then (i, fst (snd e), c) else e) es"

definition wiki_reference :: "(jstr \<Rightarrow> jstr) \<Rightarrow> nat \<Rightarrow> wiki_state wiki_calls" where
  "wiki_reference norm n =
     \<lparr>rpc_searchWikis = (\<lambda>req s.
        (Inr (Some (wiki_page (case search_pageSize req of None \<Rightarrow> Suc n | Some m \<Rightarrow> min (Suc n) m)
                      (search_parent req)
                      (resume_after (search_pageToken req)
                        (matching norm (search_query req) (s (search_parent req)))))), s)),
      rpc_getWiki = (\<lambda>name s.
        case List.find (\<lambda>e. fst e = parseWikiName name) (s (wiki_parent name)) of
          None \<Rightarrow> (Inl (service_error 5), s)
        | Some (i, title, c) \<Rightarrow>
            (Inr (Some \<lparr>lw_name = Some name, lw_title = Some title, lw_content = Some c\<rparr>), s)),
      rpc_createWiki = (\<lambda>parent i wiki s.
        if i \<in> fst ` set (s parent) \<or> norm (wiki_title wiki) \<in> title_norm norm ` set (s parent)
        then (Inl (service_error 6), s)
        else (Inr (), s(parent := s parent @ [(i, wiki_title wiki, wiki_content wiki)]))),
      rpc_updateWiki = (\<lambda>name content mask s.
        let parent = wiki_parent name; i = parseWikiName name in
        if i \<in> fst ` set (s parent) then (Inr (), s(parent := put_content i content (s parent)))
        else (Inl (service_error 5), s)),
      rpc_deleteWiki = (\<lambda>name s.
        let parent = wiki_parent name; i = parseWikiName name in
        if i \<in> fst ` set (s parent) then (Inr (), s(parent := filter (\<lambda>e. fst e \<noteq> i) (s parent)))
        else (Inl (service_error 5), s)),
      rpc_listWikis = (\<lambda>parent token size s.
        (Inr (Some (wiki_page (case size of None \<Rightarrow> Suc n | Some m \<Rightarrow> min (Suc n) m) parent
                      (resume_after token (s parent)))), s))\<rparr>"

definition wiki_ok :: "(jstr \<Rightarrow> jstr) \<Rightarrow> wiki_state \<Rightarrow> bool" where
  "wiki_ok norm s \<longleftrightarrow> (\<forall>parent. distinct (map fst (s parent)) \<and> distinct (map (title_norm norm) (s parent)) \<and>
     (\<forall>i \<in> fst ` set (s parent). i \<noteq> [] \<and> 47 \<notin> set i))"

definition keyed :: "(jstr \<Rightarrow> jstr) \<Rightarrow> (jstr \<times> jstr \<times> jstr) list \<Rightarrow> wiki_view" where
  "keyed norm es = map_of (map (\<lambda>e. (title_norm norm e, e)) es)"

definition wiki_state_view :: "(jstr \<Rightarrow> jstr) \<Rightarrow> wiki_state \<Rightarrow> jstr \<Rightarrow> wiki_view" where
  "wiki_state_view norm s t = keyed norm (s (wikis_parent t))"

lemma wiki_parent_wikiName [simp]: "47 \<notin> set i \<Longrightarrow> wiki_parent (wikiName t i) = wikis_parent t"
proof -
  assume i: "47 \<notin> set i"
  have m: "wikiName t i = wikis_parent t @ js ''/wikis/'' @ i"
    by (simp add: wikiName_def wikis_parent_def)
  from i have "after_last_slash (wikiName t i) = i" by (metis parseWikiName_def parse_wikiName)
  then show ?thesis by (simp add: wiki_parent_def m)
qed

lemma wikiName_split: "wikis_parent t @ js ''/wikis/'' @ i = wikiName t i"
  by (simp add: wikiName_def wikis_parent_def)

lemma wikiName_inject [simp]: "wikiName t i = wikiName t j \<longleftrightarrow> i = j"
  by (simp add: wikiName_def)

lemma wiki_ok_at:
  "wiki_ok norm s \<Longrightarrow> distinct (map fst (s parent))"
  "wiki_ok norm s \<Longrightarrow> distinct (map (title_norm norm) (s parent))"
  "wiki_ok norm s \<Longrightarrow> e \<in> set (s parent) \<Longrightarrow> fst e \<noteq> [] \<and> 47 \<notin> set (fst e)"
  by (auto simp: wiki_ok_def)

lemma wiki_ok_update:
  assumes "wiki_ok norm s" and "distinct (map fst es)" and "distinct (map (title_norm norm) es)"
    and "\<And>e. e \<in> set es \<Longrightarrow> fst e \<noteq> [] \<and> 47 \<notin> set (fst e)"
  shows "wiki_ok norm (s(parent := es))"
  using assms by (auto simp: wiki_ok_def)

text \<open>The walk over the pages collects every match once.\<close>

lemma add_hits_fresh:
  "distinct (map ws_name (hits @ xs)) \<Longrightarrow> add_hits hits xs = hits @ xs"
  by (induction hits xs rule: add_hits.induct) (auto simp: image_iff)

lemma summaries_listed: "summaries (map (listed_of (wikis_parent t)) es) = map (summary_of t) es"
  by (induction es) (auto simp: listed_of_def summary_of_def wikiName_split)

lemma search_walk:
  assumes "wiki_ok norm s" and "matching norm q (s (wikis_parent t)) = pre @ rest"
    and "token = (if pre = [] then None else Some (fst (last pre)))"
  shows "searchAll (wiki_client (wiki_reference norm n)) t q token (map (summary_of t) pre) s =
     Some (Inr (map (summary_of t) (pre @ rest)), s)"
  using assms(2,3)
proof (induction "length rest" arbitrary: pre rest token rule: less_induct)
  case less
  let ?k = "min (Suc n) WIKI_SEARCH_PAGE_SIZE"
  have k: "0 < ?k" by (simp add: WIKI_SEARCH_PAGE_SIZE_def)
  have sub: "set (pre @ rest) \<subseteq> set (s (wikis_parent t))"
    unfolding less.prems(1) [symmetric] by (auto simp: matching_def)
  have dist: "distinct (map fst (pre @ rest))"
    unfolding less.prems(1) [symmetric] matching_def
    by (rule distinct_map_filter) (rule wiki_ok_at(1) [OF assms(1)])
  have ids: "fst e \<noteq> []" if "e \<in> set (pre @ rest)" for e
    using that sub wiki_ok_at(3) [OF assms(1)] by blast
  have res: "resume_after (sent_token token) (pre @ rest) = rest"
  proof (cases "pre = []")
    case True
    with less.prems show ?thesis by (simp add: sent_token_def resume_after_def)
  next
    case False
    then obtain p e where q: "pre = p @ [e]" by (cases pre rule: rev_cases) auto
    with ids have "fst e \<noteq> []" by auto
    with less.prems q resume_after_prefix [of p e rest] dist show ?thesis by (simp add: sent_token_def)
  qed
  have "searchWikis (wiki_client (wiki_reference norm n)) t q
        \<lparr>po_pageSize = Some WIKI_SEARCH_PAGE_SIZE, po_pageToken = token\<rparr> s =
      (Inr \<lparr>page_wikis = map (summary_of t) (take ?k rest),
            page_nextPageToken = (if ?k < length rest then fst (rest ! (?k - 1)) else [])\<rparr>, s)"
    by (simp add: wiki_client_def client_searchWikis_def wiki_reference_def less.prems(1) res wiki_page_def
        summaries_listed)
  moreover have "add_hits (map (summary_of t) pre) (map (summary_of t) (take ?k rest)) =
      map (summary_of t) (pre @ take ?k rest)"
  proof -
    have eq: "pre @ take ?k rest = take (length pre + ?k) (pre @ rest)" by simp
    have "distinct (map fst (pre @ take ?k rest))"
      unfolding eq take_map [symmetric] using dist by (rule distinct_take)
    then have "distinct (map (wikiName t) (map fst (pre @ take ?k rest)))"
      by (subst distinct_map) (simp add: inj_on_def)
    then have "distinct (map ws_name (map (summary_of t) (pre @ take ?k rest)))"
      by (simp add: summary_of_def o_def)
    from add_hits_fresh [OF this [unfolded map_append [of "summary_of t"]]]
    show ?thesis by (simp only: map_append)
  qed
  ultimately have step: "searchAll (wiki_client (wiki_reference norm n)) t q token (map (summary_of t) pre) s =
      (if ?k < length rest
       then searchAll (wiki_client (wiki_reference norm n)) t q (Some (fst (rest ! (?k - 1))))
              (map (summary_of t) (pre @ take ?k rest)) s
       else Some (Inr (map (summary_of t) (pre @ take ?k rest)), s))"
    using ids k by (subst searchAll.simps) (auto simp: Let_def simp del: map_append)
  show ?case
  proof (cases "?k < length rest")
    case False
    then have "take ?k rest = rest" by (intro take_all) (simp only: not_less)
    with step False show ?thesis by simp
  next
    case True
    have "take ?k rest \<noteq> []" using True k by auto
    then have last: "last (take ?k rest) = rest ! (?k - 1)" "take ?k rest \<noteq> []"
      using True k by (simp_all add: last_conv_nth min_def del: take_eq_Nil)
    have "searchAll (wiki_client (wiki_reference norm n)) t q (Some (fst (rest ! (?k - 1))))
              (map (summary_of t) (pre @ take ?k rest)) s =
        Some (Inr (map (summary_of t) ((pre @ take ?k rest) @ drop ?k rest)), s)"
      by (rule less.hyps) (use True k less.prems(1) last in auto)
    with step True show ?thesis by simp
  qed
qed

lemma summary_title [simp]: "ws_title (summary_of t e) = fst (snd e)"
  by (simp add: summary_of_def)

lemma find_summaries:
  "List.find (\<lambda>h. norm (ws_title h) = nt) (map (summary_of t) (matching norm q es)) =
     (if contains nt (norm q) then map_option (summary_of t) (keyed norm es nt) else None)"
  by (induction es) (auto simp: matching_def keyed_def title_norm_def)

lemma keyed_Some: "keyed norm es nt = Some e \<Longrightarrow> e \<in> set es \<and> title_norm norm e = nt"
  by (auto simp: keyed_def dest!: map_of_SomeD)

lemma keyed_None: "keyed norm es nt = None \<longleftrightarrow> nt \<notin> title_norm norm ` set es"
  by (simp add: keyed_def map_of_eq_None_iff image_image)

lemma keyed_snoc:
  "keyed norm es (title_norm norm e) = None \<Longrightarrow> keyed norm (es @ [e]) = (keyed norm es)(title_norm norm e \<mapsto> e)"
  by (auto simp: keyed_def fun_eq_iff map_add_def split: option.splits)

lemma find_live:
  "distinct (map fst es) \<Longrightarrow> e \<in> set es \<Longrightarrow> List.find (\<lambda>x. fst x = fst e) es = Some e"
  by (induction es) (auto simp: image_iff)

lemma in_keyed:
  "distinct (map (title_norm norm) es) \<Longrightarrow> e \<in> set es \<Longrightarrow> keyed norm es (title_norm norm e) = Some e"
  by (auto simp: keyed_def o_def intro!: map_of_is_SomeI)

lemma put_content_simps [simp]:
  "map fst (put_content i c es) = map fst es"
  "map (title_norm norm) (put_content i c es) = map (title_norm norm) es"
  by (auto simp: put_content_def title_norm_def)

lemma keyed_put:
  assumes "distinct (map fst es)" and "distinct (map (title_norm norm) es)" and "(i, title, c0) \<in> set es"
  shows "keyed norm (put_content i c es) = (keyed norm es)(norm title \<mapsto> (i, title, c))"
  using assms
proof (induction es)
  case (Cons e es)
  show ?case
  proof (cases "fst e = i")
    case True
    with Cons.prems have e: "e = (i, title, c0)" by (cases e) (force simp: image_iff)
    with Cons.prems(1) have "i \<notin> fst ` set es" by simp
    then have "put_content i c es = es" unfolding put_content_def by (intro map_idI) (metis image_eqI)
    with e show ?thesis by (auto simp: keyed_def put_content_def title_norm_def fun_eq_iff)
  next
    case False
    with Cons.prems have "(i, title, c0) \<in> set es" by auto
    moreover from this Cons.prems(2) have "title_norm norm e \<noteq> norm title"
      by (force simp: title_norm_def image_iff)
    ultimately show ?thesis using Cons False
      by (auto simp: keyed_def put_content_def fun_eq_iff)
  qed
qed simp

lemma ran_keyed:
  "distinct (map (title_norm norm) es) \<Longrightarrow> ran (keyed norm es) = set es"
  using in_keyed [of norm es] keyed_Some [of norm es] by (auto simp: ran_def)

interpretation wiki_client_service: wiki_service
  norm "wiki_client (wiki_reference norm n)" "wiki_ok norm" "wiki_state_view norm" for norm n
proof unfold_locales
  fix s t q
  assume "wiki_ok norm s"
  from search_walk [OF this, of q t "[]" _ None n]
  have "searchAll (wiki_client (wiki_reference norm n)) t q None [] s =
    Some (Inr (map (summary_of t) (matching norm q (s (wikis_parent t)))), s)" by simp
  with find_summaries [of norm _ t q "s (wikis_parent t)"]
  show "\<exists>hits. searchAll (wiki_client (wiki_reference norm n)) t q None [] s = Some (Inr hits, s) \<and>
      (\<forall>nt. List.find (\<lambda>h. norm (ws_title h) = nt) hits =
         (if contains nt (norm q) then map_option (summary_of t) (wiki_state_view norm s t nt) else None))"
    by (auto simp: wiki_state_view_def)
next
  fix s t nt i title c
  assume ok: "wiki_ok norm s" and live: "wiki_state_view norm s t nt = Some (i, title, c)"
  from keyed_Some [OF live [unfolded wiki_state_view_def]]
  have e: "(i, title, c) \<in> set (s (wikis_parent t))" "norm title = nt" by (simp_all add: title_norm_def)
  from wiki_ok_at(3) [OF ok e(1)] have i: "i \<noteq> []" "47 \<notin> set i" by simp_all
  with e show "norm title = nt \<and> i \<noteq> [] \<and> 47 \<notin> set i" by simp
  from find_live [OF wiki_ok_at(1) [OF ok] e(1)] i
  show "getWiki (wiki_client (wiki_reference norm n)) t i s =
      (Inr \<lparr>wiki_name = wikiName t i, wiki_title = title, wiki_content = c\<rparr>, s)"
    by (simp add: wiki_client_def client_getWiki_def wiki_reference_def Let_def)
next
  fix s i t title c
  assume ok: "wiki_ok norm s" and i: "id_unused i (wiki_state_view norm s t)"
    and fresh: "wiki_state_view norm s t (norm title) = None"
  let ?es = "s (wikis_parent t)"
  from i ran_keyed [OF wiki_ok_at(2) [OF ok]] have ids: "i \<noteq> []" "47 \<notin> set i" "i \<notin> fst ` set ?es"
    by (simp_all add: id_unused_def wiki_state_view_def)
  from fresh have nt: "norm title \<notin> title_norm norm ` set ?es" by (simp add: wiki_state_view_def keyed_None)
  have "wiki_ok norm (s(wikis_parent t := ?es @ [(i, title, c)]))"
    by (rule wiki_ok_update [OF ok])
       (use ids nt wiki_ok_at(1,2) [OF ok, of "wikis_parent t"] wiki_ok_at(3) [OF ok] in \<open>auto simp: title_norm_def\<close>)
  with ids nt keyed_snoc [of norm ?es "(i, title, c)"] fresh
  show "\<exists>s'. createWiki (wiki_client (wiki_reference norm n)) t i title c s = (Inr (), s') \<and> wiki_ok norm s' \<and>
      wiki_state_view norm s' t = (wiki_state_view norm s t)(norm title \<mapsto> (i, title, c))"
    by (simp add: wiki_client_def client_createWiki_def wiki_reference_def wiki_state_view_def title_norm_def)
next
  fix s t i title c
  assume "wiki_ok norm s" "wiki_state_view norm s t (norm title) \<noteq> None"
  then show "\<exists>e. createWiki (wiki_client (wiki_reference norm n)) t i title c s = (Inl e, s)"
    using keyed_None [of norm "s (wikis_parent t)" "norm title"]
    by (simp add: wiki_client_def client_createWiki_def wiki_reference_def wiki_state_view_def)
next
  fix s t nt i title c0 c
  assume ok: "wiki_ok norm s" and live: "wiki_state_view norm s t nt = Some (i, title, c0)"
  let ?es = "s (wikis_parent t)"
  from keyed_Some [OF live [unfolded wiki_state_view_def]]
  have e: "(i, title, c0) \<in> set ?es" "norm title = nt" by (simp_all add: title_norm_def)
  from wiki_ok_at(3) [OF ok e(1)] have i: "i \<noteq> []" "47 \<notin> set i" by simp_all
  have ids: "fst ` set (put_content i c ?es) = fst ` set ?es" by (metis list.set_map put_content_simps(1))
  have "fst x \<noteq> [] \<and> 47 \<notin> set (fst x)" if "x \<in> set (put_content i c ?es)" for x
  proof -
    from that ids have "fst x \<in> fst ` set ?es" by blast
    then obtain y where "y \<in> set ?es" "fst x = fst y" by (elim imageE)
    with wiki_ok_at(3) [OF ok this(1)] show ?thesis by simp
  qed
  then have "wiki_ok norm (s(wikis_parent t := put_content i c ?es))"
    by (intro wiki_ok_update [OF ok]) (simp_all add: wiki_ok_at(1,2) [OF ok])
  moreover from e(1) have "i \<in> fst ` set ?es" by force
  ultimately show "\<exists>s'. updateWiki (wiki_client (wiki_reference norm n)) t i c s = (Inr (), s') \<and> wiki_ok norm s' \<and>
      wiki_state_view norm s' t = (wiki_state_view norm s t)(nt \<mapsto> (i, title, c))"
    using i keyed_put [OF wiki_ok_at(1,2) [OF ok] e(1), of c] e(2)
    by (simp add: wiki_client_def client_updateWiki_def wiki_reference_def wiki_state_view_def Let_def)
qed

section \<open>Properties\<close>

text \<open>A normalization for concrete runs: ASCII lower case, and for a capital J with a combining caron
  first the small letter with its caron, then (a second time) the composed letter.\<close>

definition sample_norm :: "jstr \<Rightarrow> jstr" where
  "sample_norm s =
     (if s = [0x4A, 0x30C] then [0x6A, 0x30C]
      else if s = [0x6A, 0x30C] then [0x1F0]
      else map (\<lambda>c. if 65 \<le> c \<and> c \<le> 90 then c + 32 else c) s)"

definition sample_wikis :: wiki_state where
  "sample_wikis = (\<lambda>_. [(js ''k1'', js ''Aa'', js ''old'')])"

definition sample_entries :: "wiki_write_entry list" where
  "sample_entries =
     [\<lparr>we_title = Some (js ''aA''), we_content = Some (js ''new'')\<rparr>,
      \<lparr>we_title = Some (js ''B''), we_content = Some (js ''first'')\<rparr>,
      \<lparr>we_title = Some (js ''b''), we_content = Some (js ''second'')\<rparr>]"


lemma short_entry_ok:
  assumes "title_of e \<noteq> []" and "length (title_of e) \<le> 128"
    and "trim (content_of e) \<noteq> []" and "length (content_of e) \<le> 21845"
  shows "entry_problem e = None"
  using assms count_runes_le [of "title_of e"] utf8_length_bounds [of "content_of e"]
  by (simp add: entry_problem_def title_of_def content_of_def WIKI_TITLE_MAX_RUNES_def
      WIKI_CONTENT_MAX_BYTES_def Let_def not_less)

lemma sample_wikis_ok: "wiki_ok norm sample_wikis"
  by (simp add: wiki_ok_def sample_wikis_def js_simps)

lemma sample_entries_ok:
  "list_all (\<lambda>e. entry_problem e = None \<and> sample_norm (sample_norm (title_of e)) = sample_norm (title_of e))
     sample_entries"
proof -
  have t: "map title_of sample_entries = [js ''aA'', js ''B'', js ''b'']"
    "map content_of sample_entries = [js ''new'', js ''first'', js ''second'']"
    "map trim (map content_of sample_entries) = [js ''new'', js ''first'', js ''second'']"
    "map (sample_norm \<circ> sample_norm) (map title_of sample_entries) =
     map sample_norm (map title_of sample_entries)" by code_simp+
  have "entry_problem e = None" if "e \<in> set sample_entries" for e
  proof (rule short_entry_ok)
    from that have "title_of e \<in> set (map title_of sample_entries)" by simp
    then show "title_of e \<noteq> []" "length (title_of e) \<le> 128" unfolding t(1) by (auto simp: js_simps)
    from that have "content_of e \<in> set (map content_of sample_entries)" by simp
    then show "length (content_of e) \<le> 21845" unfolding t(2) by auto
    from that have "trim (content_of e) \<in> set (map trim (map content_of sample_entries))" by simp
    then show "trim (content_of e) \<noteq> []" unfolding t(3) by (auto simp: js_simps)
  qed
  with t(4) show ?thesis by (simp add: list_all_iff)
qed


text \<open>The first invalid entry of a wiki batch aborts the call with its position and reason, and
  nothing is written, whatever the entries before and after it.\<close>
lemma wiki_invalid_entry_writes_nothing:
  assumes "wiki_ok norm s"
    and "list_all (\<lambda>e. entry_problem e = None \<and> norm (norm (title_of e)) = norm (title_of e)) pre"
    and "entry_problem e = Some reason"
  shows "wikiWrite norm sha (wiki_client (wiki_reference norm n)) t
        \<lparr>wa_title = None, wa_content = None, wa_entries = Some (pre @ e # rest)\<rparr> s =
      Some (Inr (failureText True (length pre) reason), s)"
  using wiki_client_service.plan_first_invalid [OF assms(1), of pre e reason sha n t 0 rest "\<lambda>_. None" "[]"] assms(2,3)
  by (simp add: wikiWrite_def normalizeWriteEntries_def Let_def list_all_iff)

text \<open>A get reads every requested title independently: the bodies of the titles the collection
  holds, in request order, then the list of the others; a missing title never discards a hit, and
  nothing changes.\<close>
lemma wiki_get_reads_collection:
  assumes "wiki_ok norm s" and "titles \<noteq> []"
    and "list_all (\<lambda>raw. norm (norm (trim raw)) = norm (trim raw)) titles"
  shows "wikiGet norm (wiki_client (wiki_reference norm n)) t titles s =
     Some (Inr (get_text (concat (map (shown norm (wiki_state_view norm s t)) titles))
       (filter (\<lambda>title. title = [] \<or> wiki_state_view norm s t (norm title) = None) (map trim titles))), s)"
  using wiki_client_service.get_shows [OF assms(1), of titles n t "[]" "[]"] assms(2,3)
  by (simp add: wikiGet_def list_all_iff)

text \<open>Where normalizing a normalized title changes it again, the entry stored under that title can
  no longer be written: the lookup, whose query the service normalizes a second time, misses it,
  and the call ends in the service's rejection of the duplicate create.\<close>
lemma wiki_unstable_title_unwritable:
  assumes "wiki_ok norm s"
    and "entry_problem \<lparr>we_title = Some title, we_content = Some content\<rparr> = None"
    and "wiki_state_view norm s t (norm (trim title)) \<noteq> None"
    and "\<not> contains (norm (trim title)) (norm (norm (trim title)))"
  shows "\<exists>e. wikiWrite norm sha (wiki_client (wiki_reference norm n)) t
      \<lparr>wa_title = Some title, wa_content = Some content, wa_entries = None\<rparr> s = Some (Inl e, s)"
  using assms by (rule wiki_client_service.unstable_title_fails)

end
