(* ===== verification/Memory_Face.thy ===== *)
theory Memory_Face
  imports Wiki_Service
begin

declare js_simps(2) [simp del]

text \<open>
  What an agent sees of the stores: the per-member faces and the frozen snapshot (\<open>face.ts\<close>,
  \<open>snapshot.ts\<close>), the four tools (\<open>tool.ts\<close>, \<open>wiki-tools.ts\<close>), the prompt sections and the capability
  units (\<open>guidance.ts\<close>, \<open>units.ts\<close>, \<open>capabilities.ts\<close>) of \<open>common/js/memory/src\<close>. The JSON parameter
  schemas of the tools are not modelled: the arguments reach the operations already parsed.
\<close>

section \<open>Texts\<close>

definition MEMORY_GUIDANCE :: jstr where
  "MEMORY_GUIDANCE =
     js ''## Memory and wiki'' @
     [10] @
     [10] @
     js ''Two stores hold information across turns, and they serve different '' @
     js ''roles:'' @
     [10] @
     [10] @
     js ''- **Memory** is a small set of recent working notes. It is always '' @
     js ''visible in your system prompt, but only as a recency-bounded snapshot: '' @
     js ''the 10 most recently updated entries. It is the place for short, '' @
     js ''immediately relevant facts: keep each entry to roughly 1000 characters '' @
     js ''or fewer, since longer knowledge belongs in the wiki. It persists '' @
     js ''across games for the same persona: the entries keep influencing every '' @
     js ''later game played by that persona until you correct them.'' @
     [10] @
     js ''- **Wiki** is a large knowledge base. It never enters your system '' @
     js ''prompt on its own and is read only on demand, so it can grow without '' @
     js ''crowding your context. It is the place for knowledge that persists '' @
     js ''across sessions and is worth keeping in depth.'' @
     [10] @
     [10] @
     js ''Prefer memory for what you need on every turn; prefer the wiki for what '' @
     js ''you need only occasionally and in depth.''"

definition WIKI_GUIDANCE :: jstr where
  "WIKI_GUIDANCE =
     js ''## Wiki workflow'' @
     [10] @
     [10] @
     js ''The three wiki tools form one discover '' @ [0x2192] @ js '' retrieve '' @ [0x2192] @ js '' persist flow:'' @
     [10] @
     [10] @
     js ''- `wiki_search` '' @ [0x2014] @ js '' find out what exists: it matches titles and returns '' @
     js ''the matching titles, so start here when you are unsure whether relevant '' @
     js ''knowledge is already stored.'' @
     [10] @
     js ''- `wiki_get` '' @ [0x2014] @ js '' retrieve entries by exact title and return their full '' @
     js ''content.'' @
     [10] @
     js ''- `wiki_write` '' @ [0x2014] @ js '' persist knowledge by title. Writing is an upsert: a '' @
     js ''new title is created, an existing title has its content overwritten, so '' @
     js ''you never need to choose between '' @ [0x22] @ js ''create'' @ [0x22] @ js '' and '' @ [0x22] @ js ''update'' @ [0x22] @ js ''.'' @
     [10] @
     [10] @
     js ''Search first, retrieve only what you need, and write back knowledge '' @
     js ''that is worth reusing.''"

definition MEMORY_TOOL_DESCRIPTION :: jstr where
  "MEMORY_TOOL_DESCRIPTION =
     js ''Manage long-term memory entries. action=add records a new entry '' @
     js ''(content); action=replace/remove locate an existing entry by a SHORT '' @
     js ''old_text substring and update (content) or delete it; operations '' @
     js ''applies a batch of actions in one call. Substring matching is '' @
     js ''case-sensitive; a 0/multiple match returns the current entries to pick '' @
     js ''a more specific old_text. Writes persist immediately and act on the '' @
     js ''full stored memory. The memory snapshot in your system prompt contains '' @
     js ''only the 10 most recently updated entries and is not refreshed by '' @
     js ''writes.''"

definition WIKI_SEARCH_TOOL_DESCRIPTION :: jstr where
  "WIKI_SEARCH_TOOL_DESCRIPTION =
     js ''Search the wiki by title and return the matching titles only (no '' @
     js ''content). Matching is case-insensitive and full-width/half-width '' @
     js ''insensitive, at any position within a title, and supports CJK input.''"

definition WIKI_GET_TOOL_DESCRIPTION :: jstr where
  "WIKI_GET_TOOL_DESCRIPTION =
     js ''Retrieve the full content of wiki entries by exact title. Accepts one '' @
     js ''or more titles; titles that do not resolve to an entry are reported in '' @
     js ''the result together with the entries that did.''"

definition WIKI_WRITE_TOOL_DESCRIPTION :: jstr where
  "WIKI_WRITE_TOOL_DESCRIPTION =
     js ''Create or update wiki entries addressed by title: an entry whose '' @
     js ''normalized title already exists has its content overwritten, otherwise '' @
     js ''it is created. Accepts a single title/content pair OR an entries batch.''"

definition MEMORY_TOOL_NAME :: jstr where "MEMORY_TOOL_NAME = js ''memory''"
definition WIKI_SEARCH_TOOL_NAME :: jstr where "WIKI_SEARCH_TOOL_NAME = js ''wiki_search''"
definition WIKI_GET_TOOL_NAME :: jstr where "WIKI_GET_TOOL_NAME = js ''wiki_get''"
definition WIKI_WRITE_TOOL_NAME :: jstr where "WIKI_WRITE_TOOL_NAME = js ''wiki_write''"

section \<open>The snapshot\<close>

definition MEMORY_SNAPSHOT_SECTION_NAME :: jstr where
  "MEMORY_SNAPSHOT_SECTION_NAME = js ''memory:snapshot''"
definition MEMORY_SNAPSHOT_SECTION_ORDER :: nat where "MEMORY_SNAPSHOT_SECTION_ORDER = 200"
definition SNAPSHOT_ORDER_BY :: jstr where "SNAPSHOT_ORDER_BY = js ''update_time desc''"
definition SNAPSHOT_ENTRY_LIMIT :: nat where "SNAPSHOT_ENTRY_LIMIT = 10"

definition renderMemorySnapshot :: "memory_entry list \<Rightarrow> jstr" where
  "renderMemorySnapshot entries =
     (if entries = [] then []
      else [0x957F, 0x671F, 0x8BB0, 0x5FC6, 0xFF1A, 10] @ join [10] (map entry_content entries))"

record prompt_section =
  section_name :: jstr
  section_order :: nat
  section_text :: jstr

definition memorySnapshotSection :: "jstr \<Rightarrow> prompt_section" where
  "memorySnapshotSection t =
     \<lparr>section_name = MEMORY_SNAPSHOT_SECTION_NAME, section_order = MEMORY_SNAPSHOT_SECTION_ORDER,
      section_text = t\<rparr>"

section \<open>The faces\<close>

record memory_scope =
  scope_template :: jstr
  scope_preset :: jstr

text \<open>The closure of \<open>createMemoryFace\<close>: the store, the scope and the frozen text.\<close>

record 'w memory_face =
  face_store :: "'w memory_store"
  face_scope :: memory_scope
  snapshotText :: jstr

definition createMemoryFace :: "'w memory_store \<Rightarrow> memory_scope \<Rightarrow> 'w memory_face" where
  "createMemoryFace store scope = \<lparr>face_store = store, face_scope = scope, snapshotText = []\<rparr>"

definition prefetch :: "'w memory_face \<Rightarrow> 'w \<Rightarrow> ((store_error + unit) \<times> 'w memory_face \<times> 'w) option" where
  "prefetch face w =
     do {
       (listed, w') \<leftarrow> listMemories (face_store face) (scope_template (face_scope face))
                         (scope_preset (face_scope face))
                         \<lparr>orderBy = Some SNAPSHOT_ORDER_BY, pageSize = Some SNAPSHOT_ENTRY_LIMIT\<rparr> w;
       (case listed of
          Inl e \<Rightarrow> Some (Inl e, face, w')
        | Inr entries \<Rightarrow> Some (Inr (), face\<lparr>snapshotText := renderMemorySnapshot entries\<rparr>, w'))
     }"

definition applyCall ::
  "(jstr \<Rightarrow> jstr) \<Rightarrow> 'w memory_face \<Rightarrow> memory_tool_args \<Rightarrow> 'w \<Rightarrow> 'w outcome" where
  "applyCall sha256_hex face args w =
     applyMemoryCall sha256_hex (face_store face) (scope_template (face_scope face))
       (scope_preset (face_scope face)) args w"

record 'w wiki_face =
  wface_store :: "'w wiki_store"
  wface_template :: jstr

definition createWikiFace :: "'w wiki_store \<Rightarrow> jstr \<Rightarrow> 'w wiki_face" where
  "createWikiFace store template = \<lparr>wface_store = store, wface_template = template\<rparr>"

section \<open>The tools\<close>

text \<open>The calling agent as the tools see it: its id and the faces its context resolves.\<close>

record ('m, 'w) agent_ctx =
  agent_id :: jstr
  ctx_memory :: "'m memory_face option"
  ctx_wiki :: "'w wiki_face option"

definition no_agent :: "jstr \<Rightarrow> jstr" where
  "no_agent toolName = toolName @ js '' tool requires an agent caller: no agent on the tool execution''"

definition resolveMemoryFace :: "('m, 'w) agent_ctx option \<Rightarrow> jstr \<Rightarrow> jstr + 'm memory_face" where
  "resolveMemoryFace agent toolName =
     (case agent of
        None \<Rightarrow> Inl (no_agent toolName)
      | Some a \<Rightarrow>
          (case ctx_memory a of
             None \<Rightarrow> Inl (js ''memory tools require the agent-scoped '' @ [34] @ js ''memory'' @ [34] @
                 js '' service; agent '' @ [34] @ agent_id a @ [34] @ js '' has none'' @ [10] @
                 js ''(the team-layer materialization setup registers it from the memory capability mount)'')
           | Some face \<Rightarrow> Inr face))"

definition resolveWikiFace :: "('m, 'w) agent_ctx option \<Rightarrow> jstr \<Rightarrow> jstr + 'w wiki_face" where
  "resolveWikiFace agent toolName =
     (case agent of
        None \<Rightarrow> Inl (no_agent toolName)
      | Some a \<Rightarrow>
          (case ctx_wiki a of
             None \<Rightarrow> Inl (js ''wiki tools require the agent-scoped '' @ [34] @ js ''wiki'' @ [34] @
                 js '' service; agent '' @ [34] @ agent_id a @ [34] @ js '' has none'' @ [10] @
                 js ''(the team-layer materialization setup registers it from the wiki capability mount)'')
           | Some face \<Rightarrow> Inr face))"

text \<open>The \<open>try\<close>/\<open>catch\<close> of the tools: an unresolved face or a rejected call is a text.\<close>

definition as_text :: "jstr \<Rightarrow> store_error + jstr \<Rightarrow> jstr" where
  "as_text lead r = (case r of Inl e \<Rightarrow> lead @ describeErr e | Inr text \<Rightarrow> text)"

definition executeMemoryTool ::
  "(jstr \<Rightarrow> jstr) \<Rightarrow> memory_tool_args \<Rightarrow> ('m, 'w) agent_ctx option \<Rightarrow> 'm \<Rightarrow> (jstr \<times> 'm) option" where
  "executeMemoryTool sha256_hex args agent w =
     (case resolveMemoryFace agent MEMORY_TOOL_NAME of
        Inl msg \<Rightarrow> Some (js ''memory failed: '' @ msg, w)
      | Inr face \<Rightarrow> map_option (map_prod (as_text (js ''memory failed: '')) (\<lambda>w. w))
                      (applyCall sha256_hex face args w))"

definition wiki_tool ::
  "jstr \<Rightarrow> ('m, 'w) agent_ctx option \<Rightarrow> ('w wiki_face \<Rightarrow> 'w \<Rightarrow> 'w outcome) \<Rightarrow> 'w \<Rightarrow> (jstr \<times> 'w) option" where
  "wiki_tool toolName agent call w =
     (case resolveWikiFace agent toolName of
        Inl msg \<Rightarrow> Some (js ''wiki failed: '' @ msg, w)
      | Inr face \<Rightarrow> map_option (map_prod (as_text (js ''wiki failed: '')) (\<lambda>w. w)) (call face w))"

definition executeWikiSearchTool ::
  "jstr option \<Rightarrow> ('m, 'w) agent_ctx option \<Rightarrow> 'w \<Rightarrow> (jstr \<times> 'w) option" where
  "executeWikiSearchTool query agent w =
     wiki_tool WIKI_SEARCH_TOOL_NAME agent
       (\<lambda>face. wikiSearch (wface_store face) (wface_template face) (or_empty query)) w"

definition executeWikiGetTool ::
  "(jstr \<Rightarrow> jstr) \<Rightarrow> jstr list option \<Rightarrow> ('m, 'w) agent_ctx option \<Rightarrow> 'w \<Rightarrow> (jstr \<times> 'w) option" where
  "executeWikiGetTool norm titles agent w =
     wiki_tool WIKI_GET_TOOL_NAME agent
       (\<lambda>face. wikiGet norm (wface_store face) (wface_template face)
                 (case titles of None \<Rightarrow> [] | Some ts \<Rightarrow> ts)) w"

definition executeWikiWriteTool ::
  "(jstr \<Rightarrow> jstr) \<Rightarrow> (jstr \<Rightarrow> jstr) \<Rightarrow> wiki_write_args \<Rightarrow> ('m, 'w) agent_ctx option \<Rightarrow> 'w \<Rightarrow>
   (jstr \<times> 'w) option" where
  "executeWikiWriteTool norm sha256_hex args agent w =
     wiki_tool WIKI_WRITE_TOOL_NAME agent
       (\<lambda>face. wikiWrite norm sha256_hex (wface_store face) (wface_template face) args) w"

section \<open>The capability units\<close>

record tool_definition =
  tool_name :: jstr
  tool_description :: jstr

record ('m, 'w) capability_unit =
  unit_memory_face :: "'m memory_face option"
  unit_wiki_face :: "'w wiki_face option"
  unit_tools :: "tool_definition list"
  unit_sections :: "'m memory_face \<Rightarrow> prompt_section list"
  unit_ready :: "'m memory_face \<Rightarrow> 'm \<Rightarrow> ((store_error + unit) \<times> 'm memory_face \<times> 'm) option"

text \<open>A section whose text is an accessor is a function of the face it reads when it renders.\<close>

definition buildMemoryUnit :: "memory_scope \<Rightarrow> 'm memory_calls \<Rightarrow> ('m, 'w) capability_unit" where
  "buildMemoryUnit scope calls =
     \<lparr>unit_memory_face = Some (createMemoryFace (memory_client calls) scope),
      unit_wiki_face = None,
      unit_tools = [\<lparr>tool_name = MEMORY_TOOL_NAME, tool_description = MEMORY_TOOL_DESCRIPTION\<rparr>],
      unit_sections = (\<lambda>face. [memorySnapshotSection (snapshotText face)]),
      unit_ready = prefetch\<rparr>"

definition buildWikiUnit :: "jstr \<Rightarrow> 'w wiki_calls \<Rightarrow> ('m, 'w) capability_unit" where
  "buildWikiUnit template calls =
     \<lparr>unit_memory_face = None,
      unit_wiki_face = Some (createWikiFace (wiki_client calls) template),
      unit_tools =
        [\<lparr>tool_name = WIKI_SEARCH_TOOL_NAME, tool_description = WIKI_SEARCH_TOOL_DESCRIPTION\<rparr>,
         \<lparr>tool_name = WIKI_GET_TOOL_NAME, tool_description = WIKI_GET_TOOL_DESCRIPTION\<rparr>,
         \<lparr>tool_name = WIKI_WRITE_TOOL_NAME, tool_description = WIKI_WRITE_TOOL_DESCRIPTION\<rparr>],
      unit_sections = (\<lambda>_.
        [\<lparr>section_name = js ''wiki:guidance'', section_order = 120, section_text = WIKI_GUIDANCE\<rparr>]),
      unit_ready = (\<lambda>face w. Some (Inr (), face, w))\<rparr>"

definition buildMemoryWikiComposition ::
  "memory_scope \<Rightarrow> 'm memory_calls \<Rightarrow> 'w wiki_calls \<Rightarrow> ('m, 'w) capability_unit" where
  "buildMemoryWikiComposition scope memoryCalls wikiCalls =
     (let memory = (buildMemoryUnit scope memoryCalls :: ('m, 'w) capability_unit);
          wiki = buildWikiUnit (scope_template scope) wikiCalls;
          division = \<lparr>section_name = js ''memory:guidance'', section_order = 110,
                      section_text = MEMORY_GUIDANCE\<rparr>
      in \<lparr>unit_memory_face = unit_memory_face memory,
          unit_wiki_face = unit_wiki_face wiki,
          unit_tools = unit_tools memory @ unit_tools wiki,
          unit_sections = (\<lambda>face. division # unit_sections wiki face @ unit_sections memory face),
          unit_ready = unit_ready memory\<rparr>)"

section \<open>Every call answers\<close>

definition plain_id :: "jstr \<Rightarrow> bool" where
  "plain_id i \<longleftrightarrow> i \<noteq> [] \<and> 47 \<notin> set i"

fun write_id :: "batch_write \<Rightarrow> jstr" where
  "write_id (CreateWrite i c n) = i"
| "write_id (UpdateWrite i c n) = i"
| "write_id (DeleteWrite i n) = i"

lemma preflight_op_ids:
  assumes "preflight_op sha n op working = Inr (working', new)" and "good_digest sha"
    and "list_all plain_id (map memory_id working)"
  shows "list_all plain_id (map memory_id working') \<and> list_all plain_id (map write_id new)"
proof -
  have digest: "plain_id (generateMemoryId sha c)" for c using assms(2) by (simp add: good_digest_def plain_id_def)
  have old: "plain_id (memory_id x)" if "x \<in> set working" for x
    using that assms(3) by (simp add: list_all_iff)
  have "set (remove_entry i es) \<subseteq> set es" for i es by (induction es) auto
  with old have removed: "plain_id (memory_id x)" if "x \<in> set (remove_entry i working)" for x i
    using that by blast
  have member: "plain_id (memory_id e)" if "matchBySubstring working t = Inr e" for t e
    using match_member [OF that] old by simp
  have content: "plain_id (memory_id x)" if x: "x \<in> set (set_content i c working)" for x i c
  proof -
    from imageI [OF x, of memory_id] have "memory_id x \<in> memory_id ` set working"
      unfolding set_map [symmetric] set_content_ids .
    with old show ?thesis by auto
  qed
  show ?thesis
  proof (cases "op_action op")
    case Replace
    with assms(1) content member show ?thesis
      by (auto simp: preflight_op_def Let_def list_all_iff split: if_splits sum.splits)
  next
    case Remove
    with assms(1) removed member show ?thesis
      by (auto simp: preflight_op_def Let_def list_all_iff split: if_splits sum.splits)
  qed (use assms(1) old digest in \<open>auto simp: preflight_op_def Let_def list_all_iff split: if_splits\<close>)
qed

lemma preflight_ids:
  "preflight sha n ops working writes = Inr (working', writes') \<Longrightarrow> good_digest sha \<Longrightarrow>
   list_all plain_id (map memory_id working) \<Longrightarrow> list_all plain_id (map write_id writes) \<Longrightarrow>
   list_all plain_id (map write_id writes')"
proof (induction ops arbitrary: n working writes)
  case (Cons op ops)
  then obtain w1 new where "preflight_op sha n op working = Inr (w1, new)"
    "preflight sha (n + 1) ops w1 (writes @ new) = Inr (working', writes')"
    by (auto split: sum.splits)
  with Cons preflight_op_ids [OF this(1)] show ?case by auto
qed simp

context memory_service begin

lemma create_ok: "ok w \<Longrightarrow> plain_id i \<Longrightarrow> createMemory store t p i c w = (r, w') \<Longrightarrow> ok w'"
  using create_law [of w i t p c r w'] by (auto simp: plain_id_def split: if_splits)

lemma update_ok: "ok w \<Longrightarrow> plain_id i \<Longrightarrow> updateMemory store t p i c w = (r, w') \<Longrightarrow> ok w'"
  using update_law [of w i t p c r w'] by (auto simp: plain_id_def split: if_splits)

lemma delete_ok: "ok w \<Longrightarrow> plain_id i \<Longrightarrow> deleteMemory store t p i w = (r, w') \<Longrightarrow> ok w'"
  using delete_law [of w i t p r w'] by (auto simp: plain_id_def split: if_splits)

lemma commit_ok:
  "ok w \<Longrightarrow> list_all plain_id (map write_id wrs) \<Longrightarrow> ok (snd (commit_writes store t p wrs applied w))"
proof (induction wrs arbitrary: w applied)
  case (Cons wr wrs)
  obtain r w1 where wr: "run_write store t p wr w = (r, w1)" by fastforce
  with Cons.prems have "ok w1" by (cases wr) (auto intro: create_ok update_ok delete_ok)
  with Cons wr show ?case by (auto split: sum.splits)
qed simp

lemma listed_ids:
  assumes "ok w"
  obtains es where "listMemories store t p no_options w = Some (Inr es, w)"
    "list_all plain_id (map memory_id es)"
proof -
  from list_law [OF assms, of t p] obtain es where es:
    "listMemories store t p no_options w = Some (Inr es, w)" "entries_map es = view w t p" by blast
  have "plain_id (memory_id e)" if "e \<in> set es" for e
    using that es(2) id_law [OF assms, of t p "memory_id e"] entries_map_None [of es "memory_id e"]
    by (auto simp: plain_id_def)
  with es(1) that show ?thesis by (simp add: list_all_iff)
qed

text \<open>Whatever the arguments, a call returns and keeps the service's invariant.\<close>

lemma call_answers:
  assumes "ok w" and "good_digest sha"
  shows "\<exists>r w'. applyMemoryCall sha store t p args w = Some (r, w') \<and> ok w'"
proof -
  obtain es where es: "listMemories store t p no_options w = Some (Inr es, w)"
    and ids: "list_all plain_id (map memory_id es)" by (rule listed_ids [OF assms(1)])
  have member: "plain_id (memory_id e)" if "matchBySubstring es t = Inr e" for t e
    using match_member [OF that] ids by (simp add: list_all_iff)
  have digest: "plain_id (generateMemoryId sha c)" for c using assms(2) by (simp add: good_digest_def plain_id_def)
  have add: "\<exists>r w'. applyAdd sha store t p c w = Some (r, w') \<and> ok w'" for c
    using es assms(1) create_ok [OF assms(1) digest]
    by (auto simp: applyAdd_def Let_def split: sum.splits prod.splits)
  have replace: "\<exists>r w'. applyReplace store t p old c w = Some (r, w') \<and> ok w'" for old c
    using es assms(1) update_ok [OF assms(1) member]
    by (auto simp: applyReplace_def Let_def split: sum.splits prod.splits)
  have remove: "\<exists>r w'. applyRemove store t p old w = Some (r, w') \<and> ok w'" for old
    using es assms(1) delete_ok [OF assms(1) member]
    by (auto simp: applyRemove_def Let_def split: sum.splits prod.splits)
  have batch: "\<exists>r w'. applyBatch sha store t p ops w = Some (r, w') \<and> ok w'" for ops
  proof (cases "preflight sha 0 ops es []")
    case (Inl x)
    with es assms(1) show ?thesis by (cases x) (simp add: applyBatch_def)
  next
    case (Inr x)
    obtain working writes where x: "x = (working, writes)" by (cases x)
    from commit_ok [OF assms(1), of writes t p "[]"] preflight_ids [OF Inr [unfolded x] assms(2) ids]
    show ?thesis using es assms(1) Inr x
      by (auto simp: applyBatch_def split: sum.splits prod.splits)
  qed
  from add replace remove batch assms(1) show ?thesis
    by (auto simp: applyMemoryCall_def split: option.splits memory_action.splits)
qed

end

section \<open>Properties\<close>

text \<open>A member's tool calls, one after the other.\<close>

fun memory_session ::
  "(jstr \<Rightarrow> jstr) \<Rightarrow> memory_tool_args list \<Rightarrow> ('m, 'w) agent_ctx option \<Rightarrow> 'm \<Rightarrow> (jstr list \<times> 'm) option" where
  "memory_session sha256_hex [] agent w = Some ([], w)"
| "memory_session sha256_hex (args # rest) agent w =
     do {
       (answer, w1) \<leftarrow> executeMemoryTool sha256_hex args agent w;
       (answers, w2) \<leftarrow> memory_session sha256_hex rest agent w1;
       Some (answer # answers, w2)
     }"

lemma memory_tool_answers:
  assumes "service_ok s" and "good_digest sha"
    and "agent = None \<or> ctx_memory (the agent) = None \<or>
         face_store (the (ctx_memory (the agent))) = memory_client (reference_service (Suc n))"
  shows "\<exists>text s'. executeMemoryTool sha args agent s = Some (text, s') \<and> service_ok s'"
proof (cases "resolveMemoryFace agent MEMORY_TOOL_NAME")
  case (Inl m)
  with assms(1) show ?thesis by (simp add: executeMemoryTool_def)
next
  case (Inr face)
  then obtain a where "agent = Some a" "ctx_memory a = Some face"
    by (auto simp: resolveMemoryFace_def split: option.splits)
  with assms(3) have "face_store face = memory_client (reference_service (Suc n))" by simp
  with client_service.call_answers [OF assms(1,2), of n "scope_template (face_scope face)"
      "scope_preset (face_scope face)" args] Inr
  show ?thesis by (auto simp: executeMemoryTool_def applyCall_def)
qed

text \<open>C12: The memory tool always answers: whatever calls an agent makes, in whatever order and with
  whatever arguments, each of them returns a text and leaves the service's collections well formed
  -- through the client over a paged service, and also for an agent without the face.\<close>
theorem memory_tool_always_answers:
  assumes "service_ok s" and "good_digest sha"
    and "agent = None \<or> ctx_memory (the agent) = None \<or>
         face_store (the (ctx_memory (the agent))) = memory_client (reference_service (Suc n))"
  shows "\<exists>texts s'. memory_session sha calls agent s = Some (texts, s') \<and> length texts = length calls \<and>
    service_ok s'"
  using assms(1)
proof (induction calls arbitrary: s)
  case (Cons args rest)
  from memory_tool_answers [OF Cons.prems assms(2,3), where args = args]
  obtain t s1 where t: "executeMemoryTool sha args agent s = Some (t, s1)" "service_ok s1" by blast
  from Cons.IH [OF t(2)] t(1) show ?case by auto
qed simp

lemma sample_digest_good: "good_digest sample_digest"
  by (simp add: good_digest_def generateMemoryId_def sample_digest_def js_simps)

theorem memory_tool_always_answers_witness:
  "\<exists>texts s'. memory_session sample_digest
      [\<lparr>arg_action = Some Add, arg_content = Some (js ''B''), arg_old_text = None, arg_operations = None\<rparr>,
       \<lparr>arg_action = Some Remove, arg_content = None, arg_old_text = Some (js ''A''), arg_operations = None\<rparr>]
      (Some \<lparr>agent_id = js ''a'',
             ctx_memory = Some (createMemoryFace (memory_client (reference_service (Suc 0)))
               \<lparr>scope_template = js ''t'', scope_preset = js ''p''\<rparr>),
             ctx_wiki = (None :: unit wiki_face option)\<rparr>) (\<lambda>_. []) = Some (texts, s') \<and>
    length texts = length
      [\<lparr>arg_action = Some Add, arg_content = Some (js ''B''), arg_old_text = None, arg_operations = None\<rparr>,
       \<lparr>arg_action = Some Remove, arg_content = None, arg_old_text = Some (js ''A''), arg_operations = None\<rparr>] \<and>
    service_ok s'"
  by (rule memory_tool_always_answers [OF _ sample_digest_good, where n = 0])
     (simp_all add: service_ok_def createMemoryFace_def)

text \<open>When the composed memory and wiki unit is ready, its prompt sections are the division, the
  wiki workflow and the snapshot, in the order of their slots, and the snapshot shows the contents
  of the first ten entries of the service's page, one block each, and no id; with no entry it is
  empty. The read changes nothing.\<close>
lemma ready_unit_sections:
  assumes "service_ok s"
    and "unit_ready (buildMemoryWikiComposition scope (reference_service n) calls)
           (createMemoryFace (memory_client (reference_service n)) scope) s = Some (r, face, s')"
  shows "r = Inr () \<and> s' = s \<and>
    unit_sections (buildMemoryWikiComposition scope (reference_service n) calls) face =
      [\<lparr>section_name = js ''memory:guidance'', section_order = 110, section_text = MEMORY_GUIDANCE\<rparr>,
       \<lparr>section_name = js ''wiki:guidance'', section_order = 120, section_text = WIKI_GUIDANCE\<rparr>,
       \<lparr>section_name = js ''memory:snapshot'', section_order = 200,
        section_text =
          (let shown = take 10 (s (scope_parent (scope_template scope) (scope_preset scope)))
           in if shown = [] then []
              else [0x957F, 0x671F, 0x8BB0, 0x5FC6, 0xFF1A, 10] @ join [10] (map snd shown))\<rparr>]"
proof -
  let ?es = "s (scope_parent (scope_template scope) (scope_preset scope))"
  have contents: "map (entry_content \<circ> as_entry) xs = map snd xs" for xs by (simp add: as_entry_def)
  have "client_listMemories (reference_service n) (scope_template scope) (scope_preset scope)
      \<lparr>orderBy = Some SNAPSHOT_ORDER_BY, pageSize = Some SNAPSHOT_ENTRY_LIMIT\<rparr> s =
    Some (Inr (map as_entry (take SNAPSHOT_ENTRY_LIMIT ?es)), s)"
    by (rule client_lists_page [OF assms(1)]) simp
  with assms(2) have "r = Inr ()" "s' = s"
    "snapshotText face = renderMemorySnapshot (map as_entry (take SNAPSHOT_ENTRY_LIMIT ?es))"
    by (auto simp: buildMemoryWikiComposition_def buildMemoryUnit_def prefetch_def createMemoryFace_def
        memory_client_def Let_def)
  then show ?thesis
    by (simp add: buildMemoryWikiComposition_def buildMemoryUnit_def buildWikiUnit_def
        memorySnapshotSection_def MEMORY_SNAPSHOT_SECTION_NAME_def MEMORY_SNAPSHOT_SECTION_ORDER_def
        renderMemorySnapshot_def SNAPSHOT_ENTRY_LIMIT_def contents Let_def)
qed

definition sample_ready :: "(store_error + unit) \<times> service_state memory_face \<times> service_state" where
  "sample_ready =
     (Inr (), (createMemoryFace (memory_client (reference_service 1))
        \<lparr>scope_template = js ''t'', scope_preset = js ''p''\<rparr>)
        \<lparr>snapshotText := renderMemorySnapshot [as_entry (js ''a1'', js ''A'')]\<rparr>, sample_service)"

end
