(* ===== verification/Team_Broadcast.thy ===== *)
theory Team_Broadcast
  imports JS_Prelude "HOL-Library.Product_Lexorder"
begin

declare js_simps(2) [simp del]

text \<open>
  Broadcast units and the texts of the team plugin: \<open>common/js/dsh-plugins/team/src/broadcast.ts\<close>
  and \<open>section.ts\<close>. A session log is a list of events; a unit is the anchor of a logged
  production, and rendering reads the log back. Event times and sequence numbers are integers.
\<close>

section \<open>Session events\<close>

text \<open>A block other than text is rendered as its JSON text, which it carries here.\<close>

datatype content_block = TextBlock jstr | OtherBlock jstr

datatype message_source =
  TeamBroadcast jstr jstr jstr "jstr option"  \<comment> \<open>role, sender, anchor, context\<close>
| UserSource
| OtherSource

datatype event_data =
  AssistantMessage jstr "content_block list"
| ToolCall jstr jstr jstr  \<comment> \<open>call id, name, arguments\<close>
| ToolResult jstr "content_block list"
| UserMessage message_source
| OtherEvent

record session_event =
  ev_time :: int
  ev_seq :: int
  ev_data :: event_data

datatype unit_kind = MessageUnit | ToolUnit

record broadcast_unit =
  unit_kind :: unit_kind
  unit_anchor :: jstr
  unit_time :: int
  unit_seq :: int

section \<open>Tags and bodies\<close>

text \<open>
  \<open>toLowerCase\<close> as far as the tag can see it: the units whose lower case contains a character of
  the tag alphabet are the ASCII capitals, the Kelvin sign and the dotted capital I; every other
  unit is replaced by a dash, before and after lower casing.
\<close>

definition lower_unit :: "16 word \<Rightarrow> jstr" where
  "lower_unit c =
     (if 65 \<le> c \<and> c \<le> 90 then [c + 32]
      else if c = 0x212A then [0x6B]
      else if c = 0x130 then [0x69, 0x307]
      else [c])"

definition tag_char :: "16 word \<Rightarrow> bool" where
  "tag_char c \<longleftrightarrow> 97 \<le> c \<and> c \<le> 122 \<or> 48 \<le> c \<and> c \<le> 57 \<or> c = 95 \<or> c = 45"

text \<open>\<open>replace(/[^a-z0-9_-]+/g, "-")\<close>: \<open>inside\<close> says a run of other characters is open.\<close>

fun dash_runs :: "bool \<Rightarrow> jstr \<Rightarrow> jstr" where
  "dash_runs inside [] = []"
| "dash_runs inside (c # cs) =
     (if tag_char c then c # dash_runs False cs
      else if inside then dash_runs True cs
      else 45 # dash_runs True cs)"

definition strip_dashes :: "jstr \<Rightarrow> jstr" where
  "strip_dashes s = rev (dropWhile (\<lambda>c. c = 45) (rev (dropWhile (\<lambda>c. c = 45) s)))"

definition tagName :: "jstr \<Rightarrow> jstr" where
  "tagName role =
     (let normalized = strip_dashes (dash_runs False (concat (map lower_unit (trim role))))
      in if normalized = [] then js ''member'' else normalized)"

fun text_of :: "content_block \<Rightarrow> jstr list" where
  "text_of (TextBlock t) = [t]"
| "text_of (OtherBlock _) = []"

definition messageBody :: "content_block list \<Rightarrow> jstr" where
  "messageBody content = join [10, 10] (concat (map text_of content))"

fun block_body :: "content_block \<Rightarrow> jstr" where
  "block_body (TextBlock t) = t"
| "block_body (OtherBlock json) = json"

definition toolResultBody :: "content_block list \<Rightarrow> jstr" where
  "toolResultBody content = join [10] (map block_body content)"

section \<open>Units\<close>

type_synonym open_calls = "jstr \<Rightarrow> (int \<times> int) option"

definition unit_at :: "unit_kind \<Rightarrow> jstr \<Rightarrow> int \<times> int \<Rightarrow> broadcast_unit" where
  "unit_at kind anchor key =
     \<lparr>unit_kind = kind, unit_anchor = anchor, unit_time = fst key, unit_seq = snd key\<rparr>"

fun derive_from :: "open_calls \<Rightarrow> session_event list \<Rightarrow> broadcast_unit list" where
  "derive_from calls [] = []"
| "derive_from calls (event # events) =
     (case ev_data event of
        AssistantMessage mid content \<Rightarrow>
          if messageBody content = [] then derive_from calls events
          else unit_at MessageUnit mid (ev_time event, ev_seq event) # derive_from calls events
      | ToolCall callId name args \<Rightarrow>
          derive_from (calls(callId \<mapsto> (ev_time event, ev_seq event))) events
      | ToolResult callId content \<Rightarrow>
          (case calls callId of
             None \<Rightarrow> derive_from calls events
           | Some call \<Rightarrow> unit_at ToolUnit callId call # derive_from (calls(callId := None)) events)
      | _ \<Rightarrow> derive_from calls events)"

definition deriveUnits :: "session_event list \<Rightarrow> broadcast_unit list" where
  "deriveUnits events = derive_from Map.empty events"

fun consumed_anchor :: "event_data \<Rightarrow> jstr list" where
  "consumed_anchor (UserMessage (TeamBroadcast role sender anchor context)) = [anchor]"
| "consumed_anchor _ = []"

definition consumedAnchors :: "session_event list \<Rightarrow> jstr set" where
  "consumedAnchors events = set (concat (map (\<lambda>e. consumed_anchor (ev_data e)) events))"

text \<open>The key \<open>compareUnits\<close> orders by.\<close>

definition unit_key :: "('a broadcast_unit_scheme) \<Rightarrow> int \<times> int" where
  "unit_key u = (unit_time u, unit_seq u)"

definition compareUnits :: "'a broadcast_unit_scheme \<Rightarrow> 'a broadcast_unit_scheme \<Rightarrow> int" where
  "compareUnits a b =
     (if unit_time a - unit_time b \<noteq> 0 then unit_time a - unit_time b else unit_seq a - unit_seq b)"

section \<open>Rendering\<close>

fun findAssistantMessage :: "session_event list \<Rightarrow> jstr \<Rightarrow> content_block list option" where
  "findAssistantMessage [] anchor = None"
| "findAssistantMessage (event # events) anchor =
     (case ev_data event of
        AssistantMessage mid content \<Rightarrow>
          if mid = anchor then Some content else findAssistantMessage events anchor
      | _ \<Rightarrow> findAssistantMessage events anchor)"

fun findToolCall :: "session_event list \<Rightarrow> jstr \<Rightarrow> (jstr \<times> jstr) option" where
  "findToolCall [] anchor = None"
| "findToolCall (event # events) anchor =
     (case ev_data event of
        ToolCall callId name args \<Rightarrow>
          if callId = anchor then Some (name, args) else findToolCall events anchor
      | _ \<Rightarrow> findToolCall events anchor)"

fun findToolResult :: "session_event list \<Rightarrow> jstr \<Rightarrow> content_block list option" where
  "findToolResult [] anchor = None"
| "findToolResult (event # events) anchor =
     (case ev_data event of
        ToolResult callId content \<Rightarrow>
          if callId = anchor then Some content else findToolResult events anchor
      | _ \<Rightarrow> findToolResult events anchor)"

definition tagged :: "jstr \<Rightarrow> jstr \<Rightarrow> jstr" where
  "tagged name body = js ''<'' @ name @ js ''>'' @ [10] @ body @ [10] @ js ''</'' @ name @ js ''>''"

definition renderBroadcast ::
  "jstr \<Rightarrow> 'a broadcast_unit_scheme \<Rightarrow> session_event list \<Rightarrow> jstr option \<Rightarrow> jstr + jstr" where
  "renderBroadcast role u senderEvents context =
     (let tag = tagName role; anchor = unit_anchor u in
      case unit_kind u of
        MessageUnit \<Rightarrow>
          (case findAssistantMessage senderEvents anchor of
             None \<Rightarrow> Inl (js ''team broadcast: sender log has no assistant/message for anchor '' @
                          [34] @ anchor @ [34])
           | Some content \<Rightarrow> Inr (tagged (tag @ js ''-message'') (messageBody content)))
      | ToolUnit \<Rightarrow>
          (case (findToolCall senderEvents anchor, findToolResult senderEvents anchor) of
             (Some (name, args), Some result) \<Rightarrow>
               Inr (tagged (tag @ js ''-tool-call'')
                 (join [10] ((case context of None \<Rightarrow> [] | Some c \<Rightarrow> [js ''context: '' @ c]) @
                    [js ''tool: '' @ name, js ''args: '' @ args, js ''result: '' @ toolResultBody result])))
           | _ \<Rightarrow> Inl (js ''team broadcast: sender log has no complete tool unit for anchor '' @
                       [34] @ anchor @ [34])))"

record user_message =
  um_text :: jstr
  um_source :: message_source

definition buildBroadcastMessage ::
  "jstr \<Rightarrow> 'a broadcast_unit_scheme \<Rightarrow> jstr \<Rightarrow> session_event list \<Rightarrow> jstr option \<Rightarrow>
   jstr + user_message" where
  "buildBroadcastMessage role u senderSessionId senderEvents context =
     (case renderBroadcast role u senderEvents context of
        Inl e \<Rightarrow> Inl e
      | Inr t \<Rightarrow> Inr \<lparr>um_text = t,
                     um_source = TeamBroadcast role senderSessionId (unit_anchor u) context\<rparr>)"

section \<open>The team section\<close>

definition renderTeamSection :: "jstr \<Rightarrow> (jstr \<times> jstr) list \<Rightarrow> jstr" where
  "renderTeamSection goal members =
     (let roster = join [10] (map (\<lambda>(role, summary). js ''- ['' @ role @ js ''] '' @ summary) members)
      in join [10]
       [js ''## '' @ [0x56E2, 0x961F],
        [],
        [0x4F60, 0x6240, 0x5728, 0x7684, 0x56E2, 0x961F, 0x76EE, 0x6807, 0xFF1A] @ goal,
        [],
        [0x56E2, 0x961F, 0x6210, 0x5458, 0xFF1A],
        roster,
        [],
        [0x5176, 0x4ED6, 0x6210, 0x5458, 0x7684, 0x8F93, 0x51FA, 0x4F1A, 0x4EE5, 0x7FA4, 0x804A,
        0x5E7F, 0x64AD, 0x6D88, 0x606F, 0x53D1, 0x9001, 0x7ED9, 0x4F60, 0xFF0C, 0x6B63,
        0x6587, 0x7531, 0x6807, 0x7B7E, 0x5BF9, 0x5305, 0x88F9, 0x3001, 0x539F, 0x6837,
        0x5448, 0x73B0, 0xFF08, 0x4E0D, 0x622A, 0x65AD, 0x3001, 0x4E0D, 0x6458, 0x8981,
        0x3001, 0x4E0D, 0x542B, 0x601D, 0x8003, 0xFF09, 0xFF1A],
        js ''- '' @ [0x53D1, 0x8A00, 0xFF1A] @ js ''`<'' @ [0x89D2, 0x8272] @ js ''-message>'' @
        [0x2026] @ js ''</'' @ [0x89D2, 0x8272] @ js ''-message>` '' @ [0x4E4B, 0x95F4,
        0x4E3A, 0x53D1, 0x8A00, 0x539F, 0x6587, 0xFF1B],
        js ''- '' @ [0x5DE5, 0x5177, 0x8C03, 0x7528, 0xFF1A] @ js ''`<'' @ [0x89D2, 0x8272] @ js
        ''-tool-call>'' @ [0x2026] @ js ''</'' @ [0x89D2, 0x8272] @ js ''-tool-call>` ''
        @ [0x4E4B, 0x95F4, 0x4F9D, 0x6B21, 0x4E3A] @ js '' `tool:`'' @ [0x3001] @ js
        ''`args:`'' @ [0x3001] @ js ''`result:`'' @ [0xFF08, 0x5DE5, 0x5177, 0x540D,
        0x3001, 0x5B8C, 0x6574, 0x53C2, 0x6570, 0x539F, 0x6587, 0x3001, 0x5B8C, 0x6574,
        0x7ED3, 0x679C, 0x539F, 0x6587, 0xFF09, 0xFF1B, 0x5E7F, 0x64AD, 0x65B9, 0x63D0,
        0x4F9B, 0x4E0A, 0x4E0B, 0x6587, 0x65F6] @ js '' `context: '' @ [0x5C40] @ js ''
        id` '' @ [0x884C, 0x4F4D, 0x4E8E] @ js '' `tool:` '' @ [0x4E4B, 0x524D, 0x3002],
        js ''- '' @ [0x8FD9, 0x4E9B, 0x6807, 0x7B7E, 0x683C, 0x5F0F, 0x53EA, 0x7528, 0x4E8E,
        0x7CFB, 0x7EDF, 0x5411, 0x4F60, 0x5448, 0x73B0, 0x4ED6, 0x4EBA, 0x7684, 0x8F93,
        0x51FA, 0xFF1A, 0x4F60, 0x81EA, 0x5DF1, 0x7684, 0x8F93, 0x51FA, 0x4E0D, 0x9700,
        0x8981, 0x3001, 0x4E5F, 0x4E0D, 0x5E94, 0x8BE5, 0x4F7F, 0x7528] @ js '' `<'' @
        [0x89D2, 0x8272] @ js ''-message>`/`<'' @ [0x89D2, 0x8272] @ js ''-tool-call>` ''
        @ [0x7B49, 0x6807, 0x7B7E, 0x81EA, 0x6211, 0x5305, 0x88C5, 0xFF08, 0x6B63,
        0x6587, 0x76F4, 0x63A5, 0x8F93, 0x51FA, 0xFF0C, 0x5DE5, 0x5177, 0x8C03, 0x7528,
        0x6309, 0x5DE5, 0x5177, 0x534F, 0x8BAE, 0x53D1, 0x8D77, 0xFF09, 0x3002],
        [0x6D88, 0x606F, 0x6B63, 0x6587, 0x4E2D, 0x7684] @ js '' @'' @ [0x89D2, 0x8272] @ js ''
        '' @ [0x662F, 0x53D1, 0x9001, 0x8005, 0x7684, 0x8868, 0x8FBE, 0xFF1A, 0x5E7F,
        0x64AD, 0x9762, 0x5411, 0x5168, 0x4F53, 0x6210, 0x5458, 0xFF0C, 0x7CFB, 0x7EDF,
        0x4E0D, 0x6309] @ js '' @ '' @ [0x5B9A, 0x5411, 0x6295, 0x9012, 0x3002]])"

section \<open>Lemmas on tags\<close>

lemma dash_runs_chars: "c \<in> set (dash_runs b s) \<Longrightarrow> tag_char c"
  by (induction b s rule: dash_runs.induct) (auto simp: tag_char_def split: if_splits)

lemma strip_dashes_subset: "set (strip_dashes s) \<subseteq> set s"
  unfolding strip_dashes_def set_rev by (auto dest!: set_dropWhileD)

lemma strip_dashes_ends:
  assumes "strip_dashes s \<noteq> []"
  shows "hd (strip_dashes s) \<noteq> 45" "last (strip_dashes s) \<noteq> 45"
proof -
  let ?t = "dropWhile (\<lambda>c. c = 45) s"
  have s: "strip_dashes s = rev (dropWhile (\<lambda>c. c = 45) (rev ?t))" by (simp add: strip_dashes_def)
  from assms have ne: "dropWhile (\<lambda>c. c = 45) (rev ?t) \<noteq> []" unfolding s by simp
  from hd_dropWhile [OF ne] show "last (strip_dashes s) \<noteq> 45" unfolding s by (simp add: last_rev)
  have "prefix (strip_dashes s) ?t"
    using suffix_dropWhile [of "\<lambda>c. c = 45" "rev ?t"] by (simp add: s suffix_to_prefix)
  then obtain u where u: "?t = strip_dashes s @ u" by (rule prefixE)
  with assms have "hd ?t = hd (strip_dashes s)" "?t \<noteq> []" by (simp_all add: hd_append)
  with hd_dropWhile [of "\<lambda>c. c = 45" s] show "hd (strip_dashes s) \<noteq> 45" by simp
qed

section \<open>Lemmas on units\<close>

text \<open>What a derivation from \<open>calls\<close> still expects of the log.\<close>

lemma unit_at_simps [simp]:
  "unit_kind (unit_at k a t) = k" "unit_anchor (unit_at k a t) = a"
  "unit_time (unit_at k a t) = fst t" "unit_seq (unit_at k a t) = snd t"
  by (simp_all add: unit_at_def)

lemma derived_message:
  "u \<in> set (derive_from calls events) \<Longrightarrow> unit_kind u = MessageUnit \<Longrightarrow>
   findAssistantMessage events (unit_anchor u) \<noteq> None"
  by (induction calls events rule: derive_from.induct)
     (auto split: event_data.splits if_splits option.splits)

lemma derived_tool:
  "u \<in> set (derive_from calls events) \<Longrightarrow> unit_kind u = ToolUnit \<Longrightarrow>
   findToolResult events (unit_anchor u) \<noteq> None \<and>
   (calls (unit_anchor u) = None \<longrightarrow> findToolCall events (unit_anchor u) \<noteq> None)"
  by (induction calls events rule: derive_from.induct)
     (auto split: event_data.splits if_splits option.splits)

lemma derived_renders:
  assumes "u \<in> set (deriveUnits events)"
  shows "\<exists>text. renderBroadcast role u events context = Inr text"
  using assms derived_message [of u Map.empty events] derived_tool [of u Map.empty events]
  by (cases "unit_kind u") (auto simp: deriveUnits_def renderBroadcast_def Let_def)

text \<open>Rendering looks only at kind and anchor.\<close>

lemma render_truncate:
  "renderBroadcast role (broadcast_unit.truncate u) events context = renderBroadcast role u events context"
  by (simp add: renderBroadcast_def broadcast_unit.truncate_def)

text \<open>The derivation of a growing log only adds units at its end.\<close>

fun calls_after :: "open_calls \<Rightarrow> session_event list \<Rightarrow> open_calls" where
  "calls_after calls [] = calls"
| "calls_after calls (event # events) =
     (case ev_data event of
        ToolCall callId name args \<Rightarrow> calls_after (calls(callId \<mapsto> (ev_time event, ev_seq event))) events
      | ToolResult callId content \<Rightarrow> calls_after (calls(callId := None)) events
      | _ \<Rightarrow> calls_after calls events)"

lemma derive_append:
  "derive_from calls (xs @ ys) = derive_from calls xs @ derive_from (calls_after calls xs) ys"
proof (induction xs arbitrary: calls)
  case (Cons e xs)
  then show ?case
  proof (cases "ev_data e")
    case (ToolResult callId content)
    with Cons show ?thesis by (cases "calls callId") (simp_all add: fun_upd_idem, simp_all add: fun_upd_def)
  qed (simp_all add: fun_upd_def)
qed simp

lemma calls_after_append: "calls_after calls (xs @ ys) = calls_after (calls_after calls xs) ys"
proof (induction xs arbitrary: calls)
  case (Cons e xs)
  then show ?case by (cases "ev_data e") (simp_all add: fun_upd_def)
qed simp

lemma derive_prefix: "prefix xs ys \<Longrightarrow> prefix (deriveUnits xs) (deriveUnits ys)"
  by (auto simp: prefix_def deriveUnits_def derive_append)

lemma consumed_append: "consumedAnchors (xs @ ys) = consumedAnchors xs \<union> consumedAnchors ys"
  by (simp add: consumedAnchors_def)

section \<open>Properties\<close>

text \<open>C16: Every role yields a safe tag stem: a nonempty word over lower-case letters, digits, underscores
  and dashes that neither starts nor ends with a dash.\<close>
theorem tag_is_safe:
  shows "tagName role \<noteq> [] \<and> list_all tag_char (tagName role) \<and> hd (tagName role) \<noteq> 45 \<and>
    last (tagName role) \<noteq> 45"
proof -
  let ?n = "strip_dashes (dash_runs False (concat (map lower_unit (trim role))))"
  have chars: "list_all tag_char ?n"
    using strip_dashes_subset dash_runs_chars by (fastforce simp: list_all_iff)
  show ?thesis
  proof (cases "?n = []")
    case True
    have "list_all tag_char (js ''member'') \<and> hd (js ''member'') \<noteq> 45 \<and> last (js ''member'') \<noteq> 45"
      by code_simp
    with True show ?thesis by (simp add: tagName_def js_simps)
  next
    case False
    with chars strip_dashes_ends [OF False] show ?thesis by (simp add: tagName_def)
  qed
qed

text \<open>Every derived unit renders: the log it was derived from still has the message, or the call and
  the result, its anchor names, whatever the role and the context.\<close>
lemma derived_units_render:
  shows "list_all (\<lambda>u. case renderBroadcast role u events context of Inl e \<Rightarrow> False | Inr t \<Rightarrow> True)
    (deriveUnits events)"
  unfolding list_all_iff
proof
  fix u
  assume "u \<in> set (deriveUnits events)"
  from derived_renders [OF this, of role "context"]
  show "case renderBroadcast role u events context of Inl e \<Rightarrow> False | Inr t \<Rightarrow> True" by auto
qed

end
