(* ===== verification/Team.thy ===== *)
theory Team
  imports Team_Broadcast "HOL-Library.AList" "HOL-Library.Sublist"
begin

declare js_simps(2) [simp del]

text \<open>
  The group-chat service \<open>common/js/dsh-plugins/team/src/team.ts\<close>: registration with the team
  section, the live relay of anchors, drain and reconcile, and the unified event stream. A team
  object is an index into \<open>teams\<close>; its members are an association list in the order of the
  source's \<open>Map\<close>. The members' session logs are read through the function \<open>logs\<close> from member ids to
  events. What the service does to its surroundings is recorded: the registered sections, the
  messages handed to in-flight faces, the warnings, and the notifications of stream consumers.
\<close>

section \<open>State\<close>

definition TEAM_SECTION_ORDER :: nat where "TEAM_SECTION_ORDER = 10"
definition TEAM_SECTION_NAME :: jstr where "TEAM_SECTION_NAME = js ''team:roster''"

text \<open>The in-flight face of a member: its result is the reason a delivery failed.\<close>

record member_source =
  src_id :: jstr
  src_consumes :: bool
  src_section :: bool
  src_deliver :: "(user_message \<Rightarrow> jstr option) option"

record member_registration =
  reg_source :: member_source
  reg_role :: jstr
  reg_summary :: jstr

record pending_unit = broadcast_unit +
  pu_sender :: jstr
  pu_role :: jstr

record member_state =
  ms_registration :: member_registration
  ms_sectionText :: jstr
  ms_pending :: "pending_unit list"
  ms_drained :: "jstr set"
  ms_pendingCalls :: open_calls

record team_state =
  team_goal :: jstr
  team_context :: "jstr option"
  team_members :: "(jstr \<times> member_state) list"
  team_consumers :: "nat list"

text \<open>A live event is opaque to the team.\<close>

datatype production = LogEvent session_event | LiveEvent jstr

record envelope =
  env_role :: jstr
  env_member :: jstr
  env_production :: production

record team_service =
  byMember :: "jstr \<Rightarrow> nat option"
  teams :: "nat \<Rightarrow> team_state"
  next_team :: nat
  sections :: "(jstr \<times> jstr) list"
  inflight :: "(jstr \<times> user_message) list"
  warnings :: "jstr list"
  streamed :: "(nat \<times> envelope) list"

definition no_team :: team_state where
  "no_team = \<lparr>team_goal = [], team_context = None, team_members = [], team_consumers = []\<rparr>"

definition new_service :: team_service where
  "new_service =
     \<lparr>byMember = Map.empty, teams = (\<lambda>_. no_team), next_team = 0, sections = [], inflight = [],
      warnings = [], streamed = []\<rparr>"

abbreviation member_of :: "team_service \<Rightarrow> nat \<Rightarrow> jstr \<Rightarrow> member_state option" where
  "member_of svc tid i \<equiv> map_of (team_members (teams svc tid)) i"

definition put_team :: "nat \<Rightarrow> team_state \<Rightarrow> team_service \<Rightarrow> team_service" where
  "put_team tid t svc = svc\<lparr>teams := (teams svc)(tid := t)\<rparr>"

definition put_member :: "nat \<Rightarrow> jstr \<Rightarrow> member_state \<Rightarrow> team_service \<Rightarrow> team_service" where
  "put_member tid i ms svc =
     put_team tid ((teams svc tid)\<lparr>team_members := AList.update i ms (team_members (teams svc tid))\<rparr>) svc"

section \<open>Reading back\<close>

definition buildMessage ::
  "(jstr \<Rightarrow> session_event list) \<Rightarrow> team_state \<Rightarrow> pending_unit \<Rightarrow> jstr + user_message" where
  "buildMessage logs t u =
     buildBroadcastMessage (pu_role u) u (pu_sender u)
       (case map_of (team_members t) (pu_sender u) of
          None \<Rightarrow> []
        | Some sender \<Rightarrow> logs (src_id (reg_source (ms_registration sender))))
       (team_context t)"

definition pend :: "jstr \<Rightarrow> jstr \<Rightarrow> broadcast_unit \<Rightarrow> pending_unit" where
  "pend sender role u =
     \<lparr>unit_kind = unit_kind u, unit_anchor = unit_anchor u, unit_time = unit_time u,
      unit_seq = unit_seq u, pu_sender = sender, pu_role = role\<rparr>"

definition reconcile ::
  "(jstr \<Rightarrow> session_event list) \<Rightarrow> team_service \<Rightarrow> member_state \<Rightarrow> member_state" where
  "reconcile logs svc member =
     (let source = reg_source (ms_registration member); me = src_id source in
      if \<not> src_consumes source then member
      else case byMember svc me of
             None \<Rightarrow> member
           | Some tid \<Rightarrow>
               (let consumed = consumedAnchors (logs me);
                    drained = ms_drained member - consumed;
                    pending = concat (map (\<lambda>(sid, sender).
                      let reg = ms_registration sender; from_id = src_id (reg_source reg) in
                      if sid = me then []
                      else map (pend from_id (reg_role reg))
                             (filter (\<lambda>u. unit_anchor u \<notin> consumed \<and> unit_anchor u \<notin> drained)
                               (deriveUnits (logs from_id)))) (team_members (teams svc tid)))
                in member\<lparr>ms_drained := drained, ms_pending := sort_key unit_key pending\<rparr>))"

section \<open>Registration\<close>

definition registerSection :: "member_registration \<Rightarrow> jstr \<Rightarrow> team_service \<Rightarrow> team_service" where
  "registerSection registration t svc =
     (if src_section (reg_source registration)
      then svc\<lparr>sections := sections svc @ [(src_id (reg_source registration), t)]\<rparr> else svc)"

definition section_off :: "jstr \<Rightarrow> team_service \<Rightarrow> team_service" where
  "section_off i svc = svc\<lparr>sections := filter (\<lambda>e. fst e \<noteq> i) (sections svc)\<rparr>"

definition createMember :: "member_registration \<Rightarrow> jstr \<Rightarrow> member_state" where
  "createMember registration sectionText =
     \<lparr>ms_registration = registration, ms_sectionText = sectionText, ms_pending = [],
      ms_drained = {}, ms_pendingCalls = Map.empty\<rparr>"

definition refresh_section ::
  "member_state \<Rightarrow> member_registration \<Rightarrow> jstr \<Rightarrow> team_service \<Rightarrow> team_service" where
  "refresh_section state registration sectionText svc =
     (if ms_sectionText state \<noteq> sectionText
      then registerSection registration sectionText
             (section_off (src_id (reg_source (ms_registration state))) svc)
      else svc)"

definition add_member :: "nat \<Rightarrow> jstr \<Rightarrow> member_registration \<Rightarrow> team_service \<Rightarrow> team_service" where
  "add_member tid sectionText member svc =
     (let i = src_id (reg_source member);
          svc1 = (case member_of svc tid i of
                    None \<Rightarrow> put_member tid i (createMember member sectionText)
                              (registerSection member sectionText svc)
                  | Some existing \<Rightarrow>
                      put_member tid i
                        (existing\<lparr>ms_registration := member, ms_sectionText := sectionText\<rparr>)
                        (refresh_section existing member sectionText svc))
      in svc1\<lparr>byMember := (byMember svc1)(i \<mapsto> tid)\<rparr>)"

definition dropMember :: "jstr \<Rightarrow> team_service \<Rightarrow> team_service" where
  "dropMember i svc =
     (case byMember svc i of
        None \<Rightarrow> svc
      | Some tid \<Rightarrow>
          (let svc1 = svc\<lparr>byMember := (byMember svc)(i := None)\<rparr> in
           case member_of svc1 tid i of
             None \<Rightarrow> svc1
           | Some state \<Rightarrow>
               section_off i (put_team tid
                 ((teams svc1 tid)\<lparr>team_members := AList.delete i (team_members (teams svc1 tid))\<rparr>) svc1)))"

definition disposeTeam :: "nat \<Rightarrow> team_service \<Rightarrow> team_service" where
  "disposeTeam tid svc =
     (let svc1 = fold dropMember (map fst (team_members (teams svc tid))) svc
      in put_team tid ((teams svc1 tid)\<lparr>team_consumers := []\<rparr>) svc1)"

fun listed_twice :: "jstr list \<Rightarrow> jstr list \<Rightarrow> jstr option" where
  "listed_twice seen [] = None"
| "listed_twice seen (i # is) = (if i \<in> set seen then Some i else listed_twice (i # seen) is)"

fun resolve_from :: "team_service \<Rightarrow> nat option \<Rightarrow> jstr list \<Rightarrow> jstr + nat option" where
  "resolve_from svc found [] = Inr found"
| "resolve_from svc found (i # is) =
     (case byMember svc i of
        None \<Rightarrow> resolve_from svc found is
      | Some tid \<Rightarrow>
          if found \<noteq> None \<and> found \<noteq> Some tid
          then Inl (js ''team register: members of different teams cannot be mixed'')
          else resolve_from svc (Some tid) is)"

definition resolveTeam :: "jstr list \<Rightarrow> team_service \<Rightarrow> jstr + nat \<times> team_service" where
  "resolveTeam is svc =
     (case resolve_from svc None is of
        Inl e \<Rightarrow> Inl e
      | Inr (Some tid) \<Rightarrow> Inr (tid, svc)
      | Inr None \<Rightarrow> Inr (next_team svc, put_team (next_team svc) no_team svc\<lparr>next_team := next_team svc + 1\<rparr>))"

definition reconcile_member ::
  "(jstr \<Rightarrow> session_event list) \<Rightarrow> nat \<Rightarrow> jstr \<Rightarrow> team_service \<Rightarrow> team_service" where
  "reconcile_member logs tid i svc =
     (case member_of svc tid i of
        None \<Rightarrow> svc
      | Some ms \<Rightarrow> put_member tid i (reconcile logs svc ms) svc)"

definition register ::
  "(jstr \<Rightarrow> session_event list) \<Rightarrow> jstr \<Rightarrow> jstr option \<Rightarrow> member_registration list \<Rightarrow> team_service \<Rightarrow>
   (jstr + nat) \<times> team_service" where
  "register logs goal context members svc =
     (let ids = map (\<lambda>m. src_id (reg_source m)) members in
      if members = [] then (Inl (js ''team register: at least one member is required''), svc)
      else case listed_twice [] ids of
        Some i \<Rightarrow> (Inl (js ''team register: member '' @ [34] @ i @ [34] @ js '' is listed twice''), svc)
      | None \<Rightarrow>
          (case resolveTeam ids svc of
             Inl e \<Rightarrow> (Inl e, svc)
           | Inr (tid, svc1) \<Rightarrow>
               (let svc2 = put_team tid ((teams svc1 tid)\<lparr>team_goal := goal, team_context := context\<rparr>) svc1;
                    sectionText = renderTeamSection goal (map (\<lambda>m. (reg_role m, reg_summary m)) members);
                    svc3 = fold (add_member tid sectionText) members svc2;
                    svc4 = fold dropMember
                      (filter (\<lambda>i. i \<notin> set ids) (map fst (team_members (teams svc3 tid)))) svc3;
                    svc5 = fold (reconcile_member logs tid) (map fst (team_members (teams svc4 tid))) svc4
                in (Inr tid, svc5))))"

section \<open>Drain\<close>

text \<open>The loop over the units taken: the messages built so far, and the drained marks.\<close>

fun drain_units ::
  "(jstr \<Rightarrow> session_event list) \<Rightarrow> team_state \<Rightarrow> pending_unit list \<Rightarrow> jstr set \<Rightarrow> user_message list \<Rightarrow>
   (jstr + user_message list) \<times> jstr set" where
  "drain_units logs t [] drained messages = (Inr messages, drained)"
| "drain_units logs t (u # us) drained messages =
     (case buildMessage logs t u of
        Inl e \<Rightarrow> (Inl e, drained)
      | Inr message \<Rightarrow> drain_units logs t us (insert (unit_anchor u) drained) (messages @ [message]))"

definition drain ::
  "(jstr \<Rightarrow> session_event list) \<Rightarrow> jstr \<Rightarrow> team_service \<Rightarrow> (jstr + user_message list) \<times> team_service" where
  "drain logs i svc =
     (case Option.bind (byMember svc i) (\<lambda>tid. map_option (Pair tid) (member_of svc tid i)) of
        None \<Rightarrow> (Inl (js ''team drain: member '' @ [34] @ i @ [34] @ js '' is not a registered member''), svc)
      | Some (tid, state) \<Rightarrow>
          if \<not> src_consumes (reg_source (ms_registration state)) then
            (Inl (js ''team drain: member '' @ [34] @ i @ [34] @
                  js '' is announce-only and cannot consume broadcasts''), svc)
          else
            (let state1 = reconcile logs svc state;
                 (r, drained) = drain_units logs (teams svc tid) (ms_pending state1) (ms_drained state1) []
             in (r, put_member tid i (state1\<lparr>ms_pending := [], ms_drained := drained\<rparr>) svc)))"

section \<open>The live relay and the event stream\<close>

definition deliverInFlight ::
  "(jstr \<Rightarrow> session_event list) \<Rightarrow> nat \<Rightarrow> member_registration \<Rightarrow> pending_unit \<Rightarrow> team_service \<Rightarrow>
   (jstr + unit) \<times> team_service" where
  "deliverInFlight logs tid receiver u svc =
     (case src_deliver (reg_source receiver) of
        None \<Rightarrow> (Inr (), svc)
      | Some deliver \<Rightarrow>
          (case buildMessage logs (teams svc tid) u of
             Inl e \<Rightarrow> (Inl e, svc)
           | Inr message \<Rightarrow>
               (let i = src_id (reg_source receiver);
                    svc1 = svc\<lparr>inflight := inflight svc @ [(i, message)]\<rparr>
                in (Inr (), case deliver message of
                      None \<Rightarrow> svc1
                    | Some reason \<Rightarrow>
                        svc1\<lparr>warnings := warnings svc1 @
                          [js ''team relay: in-flight delivery to member '' @ [34] @ i @ [34] @
                           js '' failed; the pending baseline still holds the anchor: '' @ reason]\<rparr>))))"

fun relay ::
  "(jstr \<Rightarrow> session_event list) \<Rightarrow> nat \<Rightarrow> member_registration \<Rightarrow> broadcast_unit \<Rightarrow> jstr list \<Rightarrow>
   team_service \<Rightarrow> (jstr + unit) \<times> team_service" where
  "relay logs tid sender u [] svc = (Inr (), svc)"
| "relay logs tid sender u (i # is) svc =
     (case member_of svc tid i of
        None \<Rightarrow> relay logs tid sender u is svc
      | Some receiver \<Rightarrow>
          (let senderId = src_id (reg_source sender) in
           if i = senderId \<or> \<not> src_consumes (reg_source (ms_registration receiver)) \<or>
              unit_anchor u \<in> ms_drained receiver
           then relay logs tid sender u is svc
           else
             (let p = pend senderId (reg_role sender) u;
                  svc1 = put_member tid i (receiver\<lparr>ms_pending := ms_pending receiver @ [p]\<rparr>) svc
              in case (if unit_kind u = MessageUnit
                       then deliverInFlight logs tid (ms_registration receiver) p svc1
                       else (Inr (), svc1)) of
                   (Inl e, svc2) \<Rightarrow> (Inl e, svc2)
                 | (Inr _, svc2) \<Rightarrow> relay logs tid sender u is svc2)))"

definition set_calls :: "nat \<Rightarrow> jstr \<Rightarrow> (open_calls \<Rightarrow> open_calls) \<Rightarrow> team_service \<Rightarrow> team_service" where
  "set_calls tid i f svc =
     (case member_of svc tid i of
        None \<Rightarrow> svc
      | Some ms \<Rightarrow> put_member tid i (ms\<lparr>ms_pendingCalls := f (ms_pendingCalls ms)\<rparr>) svc)"

definition onMemberEvent ::
  "(jstr \<Rightarrow> session_event list) \<Rightarrow> jstr \<Rightarrow> session_event \<Rightarrow> team_service \<Rightarrow> (jstr + unit) \<times> team_service" where
  "onMemberEvent logs i event svc =
     (case Option.bind (byMember svc i) (\<lambda>tid. map_option (Pair tid) (member_of svc tid i)) of
        None \<Rightarrow> (Inr (), svc)
      | Some (tid, state) \<Rightarrow>
          (let receivers = map fst (team_members (teams svc tid)); sender = ms_registration state in
           case ev_data event of
             AssistantMessage mid content \<Rightarrow>
               if messageBody content = [] then (Inr (), svc)
               else relay logs tid sender (unit_at MessageUnit mid (ev_time event, ev_seq event)) receivers svc
           | ToolCall callId name args \<Rightarrow>
               (Inr (), set_calls tid i (\<lambda>calls. calls(callId \<mapsto> (ev_time event, ev_seq event))) svc)
           | ToolResult callId content \<Rightarrow>
               (case ms_pendingCalls state callId of
                  None \<Rightarrow> (Inr (), svc)
                | Some call \<Rightarrow>
                    (case relay logs tid sender (unit_at ToolUnit callId call) receivers svc of
                       (Inl e, svc1) \<Rightarrow> (Inl e, svc1)
                     | (Inr _, svc1) \<Rightarrow>
                         (Inr (), set_calls tid i (\<lambda>calls. calls(callId := None)) svc1)))
           | _ \<Rightarrow> (Inr (), svc)))"

definition notifyStream :: "jstr \<Rightarrow> production \<Rightarrow> team_service \<Rightarrow> team_service" where
  "notifyStream i p svc =
     (case Option.bind (byMember svc i) (\<lambda>tid. map_option (Pair tid) (member_of svc tid i)) of
        None \<Rightarrow> svc
      | Some (tid, state) \<Rightarrow>
          (let e = \<lparr>env_role = reg_role (ms_registration state), env_member = i, env_production = p\<rparr>
           in svc\<lparr>streamed := streamed svc @ map (\<lambda>c. (c, e)) (team_consumers (teams svc tid))\<rparr>))"

text \<open>The subscriptions of \<open>createMember\<close>: an error of the relay skips the notification.\<close>

definition on_log_event ::
  "(jstr \<Rightarrow> session_event list) \<Rightarrow> jstr \<Rightarrow> session_event \<Rightarrow> team_service \<Rightarrow> (jstr + unit) \<times> team_service" where
  "on_log_event logs i event svc =
     (case onMemberEvent logs i event svc of
        (Inl e, svc1) \<Rightarrow> (Inl e, svc1)
      | (Inr _, svc1) \<Rightarrow> (Inr (), notifyStream i (LogEvent event) svc1))"

definition on_live_event :: "jstr \<Rightarrow> jstr \<Rightarrow> team_service \<Rightarrow> team_service" where
  "on_live_event i event svc = notifyStream i (LiveEvent event) svc"

definition subscribe :: "nat \<Rightarrow> nat \<Rightarrow> team_service \<Rightarrow> team_service" where
  "subscribe tid consumer svc =
     put_team tid ((teams svc tid)\<lparr>team_consumers :=
       (if consumer \<in> set (team_consumers (teams svc tid)) then team_consumers (teams svc tid)
        else team_consumers (teams svc tid) @ [consumer])\<rparr>) svc"

definition unsubscribe :: "nat \<Rightarrow> nat \<Rightarrow> team_service \<Rightarrow> team_service" where
  "unsubscribe tid consumer svc =
     put_team tid ((teams svc tid)\<lparr>team_consumers := removeAll consumer (team_consumers (teams svc tid))\<rparr>) svc"

section \<open>The registry\<close>

text \<open>A member id maps to the team whose members hold it, and only to that one.\<close>

definition registry_ok :: "team_service \<Rightarrow> bool" where
  "registry_ok svc \<longleftrightarrow>
     (\<forall>tid. distinct (map fst (team_members (teams svc tid)))) \<and>
     (\<forall>tid i. member_of svc tid i \<noteq> None \<longleftrightarrow> byMember svc i = Some tid) \<and>
     (\<forall>tid i ms. member_of svc tid i = Some ms \<longrightarrow> src_id (reg_source (ms_registration ms)) = i) \<and>
     (\<forall>tid. next_team svc \<le> tid \<longrightarrow> team_members (teams svc tid) = [])"

lemma registry_okD:
  assumes "registry_ok svc"
  shows "distinct (map fst (team_members (teams svc tid)))"
    and "member_of svc tid i \<noteq> None \<longleftrightarrow> byMember svc i = Some tid"
    and "member_of svc tid i = Some ms \<Longrightarrow> src_id (reg_source (ms_registration ms)) = i"
    and "next_team svc \<le> tid \<Longrightarrow> team_members (teams svc tid) = []"
  using assms unfolding registry_ok_def by blast+

lemma registered:
  assumes "registry_ok svc"
  shows "Option.bind (byMember svc i) (\<lambda>tid. map_option (Pair tid) (member_of svc tid i)) = Some (tid, ms) \<longleftrightarrow>
    member_of svc tid i = Some ms"
  using registry_okD(2) [OF assms, of tid i] by (cases "byMember svc i") auto

text \<open>What the invariant reads of a service.\<close>

lemma registry_ok_cong:
  "byMember svc' = byMember svc \<Longrightarrow> teams svc' = teams svc \<Longrightarrow> next_team svc' = next_team svc \<Longrightarrow>
   registry_ok svc' = registry_ok svc"
  by (simp add: registry_ok_def)

lemma registry_ok_more:
  assumes "registry_ok svc" and "byMember svc' = byMember svc" and "teams svc' = teams svc"
    and "next_team svc \<le> next_team svc'"
  shows "registry_ok svc'"
  using assms(1,4) unfolding registry_ok_def assms(2,3) by (meson order_trans)

lemma member_put_member [simp]:
  "member_of (put_member tid i ms svc) tid' i' =
     (if tid' = tid \<and> i' = i then Some ms else member_of svc tid' i')"
  by (simp add: put_member_def put_team_def update_conv)

lemma put_member_fields [simp]:
  "byMember (put_member tid i ms svc) = byMember svc"
  "next_team (put_member tid i ms svc) = next_team svc"
  "sections (put_member tid i ms svc) = sections svc"
  "inflight (put_member tid i ms svc) = inflight svc"
  "team_context (teams (put_member tid i ms svc) t) = team_context (teams svc t)"
  "team_consumers (teams (put_member tid i ms svc) t) = team_consumers (teams svc t)"
  by (simp_all add: put_member_def put_team_def)

lemma put_member_keys:
  "map fst (team_members (teams (put_member tid i ms svc) t)) =
     (if t = tid \<and> member_of svc tid i = None then map fst (team_members (teams svc tid)) @ [i]
      else map fst (team_members (teams svc t)))"
  by (auto simp: put_member_def put_team_def update_keys map_of_eq_None_iff)

lemma put_member_ok:
  assumes "registry_ok svc" and "member_of svc tid i \<noteq> None"
    and "src_id (reg_source (ms_registration ms)) = i"
  shows "registry_ok (put_member tid i ms svc)"
proof -
  note D = registry_okD [OF assms(1)]
  have "tid < next_team svc"
  proof (rule ccontr)
    assume "\<not> tid < next_team svc"
    with D(4) [of tid] assms(2) show False by simp
  qed
  moreover have "team_members (teams (put_member tid i ms svc) t) = []"
    if "t \<noteq> tid" "team_members (teams svc t) = []" for t
    using that by (simp add: put_member_def put_team_def)
  ultimately show ?thesis
    unfolding registry_ok_def put_member_keys
    using D assms(2,3) by auto
qed


lemma put_team_ok:
  assumes "team_members t = team_members (teams svc tid)"
  shows "registry_ok (put_team tid t svc) = registry_ok svc"
proof -
  have "team_members (teams (put_team tid t svc) x) = team_members (teams svc x)"
    and "byMember (put_team tid t svc) = byMember svc" "next_team (put_team tid t svc) = next_team svc" for x
    using assms by (simp_all add: put_team_def)
  then show ?thesis by (simp add: registry_ok_def)
qed

lemma section_fields [simp]:
  "byMember (registerSection g t svc) = byMember svc" "teams (registerSection g t svc) = teams svc"
  "next_team (registerSection g t svc) = next_team svc"
  "byMember (section_off i svc) = byMember svc" "teams (section_off i svc) = teams svc"
  "next_team (section_off i svc) = next_team svc"
  "byMember (refresh_section ms g t svc) = byMember svc" "teams (refresh_section ms g t svc) = teams svc"
  "next_team (refresh_section ms g t svc) = next_team svc"
  by (simp_all add: registerSection_def section_off_def refresh_section_def)

lemma reconcile_registration [simp]: "ms_registration (reconcile logs svc ms) = ms_registration ms"
  by (simp add: reconcile_def Let_def split: option.splits)

lemma add_member_ok:
  assumes "registry_ok svc" and "tid < next_team svc"
    and "byMember svc (src_id (reg_source m)) \<in> {None, Some tid}"
  shows "registry_ok (add_member tid stext m svc)"
    and "next_team (add_member tid stext m svc) = next_team svc"
    and "byMember (add_member tid stext m svc) = (byMember svc)(src_id (reg_source m) \<mapsto> tid)"
proof -
  let ?i = "src_id (reg_source m)"
  have "registry_ok (put_member tid ?i ms svc\<lparr>byMember := (byMember svc)(?i \<mapsto> tid)\<rparr>)"
    if "src_id (reg_source (ms_registration ms)) = ?i" for ms
    unfolding registry_ok_def
  proof (intro conjI allI impI)
    fix t i' ms'
    note D = registry_okD [OF assms(1)]
    let ?svc = "put_member tid ?i ms svc"
    show "distinct (map fst (team_members (teams (?svc\<lparr>byMember := (byMember svc)(?i \<mapsto> tid)\<rparr>) t)))"
      using D(1) by (simp add: put_member_keys map_of_eq_None_iff)
    show "member_of (?svc\<lparr>byMember := (byMember svc)(?i \<mapsto> tid)\<rparr>) t i' \<noteq> None \<longleftrightarrow>
        byMember (?svc\<lparr>byMember := (byMember svc)(?i \<mapsto> tid)\<rparr>) i' = Some t"
      using D(2) [of t i'] assms(3) by auto
    show "src_id (reg_source (ms_registration ms')) = i'"
      if "member_of (?svc\<lparr>byMember := (byMember svc)(?i \<mapsto> tid)\<rparr>) t i' = Some ms'"
      using that D(3) [of t i' ms'] \<open>src_id (reg_source (ms_registration ms)) = ?i\<close>
      by (auto split: if_splits)
    show "team_members (teams (?svc\<lparr>byMember := (byMember svc)(?i \<mapsto> tid)\<rparr>) t) = []"
      if "next_team (?svc\<lparr>byMember := (byMember svc)(?i \<mapsto> tid)\<rparr>) \<le> t"
      using that D(4) [of t] assms(2) by (auto simp: put_member_def put_team_def)
  qed
  note put = this
  have fields: "registry_ok svc'" if "registry_ok svc''" "byMember svc' = byMember svc''"
    "teams svc' = teams svc''" "next_team svc' = next_team svc''" for svc' svc'' :: team_service
    using registry_ok_cong [OF that(2-4)] that(1) by (rule iffD2)
  show "registry_ok (add_member tid stext m svc)"
  proof (cases "member_of svc tid ?i")
    case None
    show ?thesis
      by (rule fields [OF put [of "createMember m stext"]])
         (simp_all add: add_member_def None createMember_def put_member_def put_team_def Let_def)
  next
    case (Some ms)
    show ?thesis
      by (rule fields [OF put [of "ms\<lparr>ms_registration := m, ms_sectionText := stext\<rparr>"]])
         (simp_all add: add_member_def Some put_member_def put_team_def Let_def)
  qed
  show "next_team (add_member tid stext m svc) = next_team svc"
    "byMember (add_member tid stext m svc) = (byMember svc)(?i \<mapsto> tid)"
    by (auto simp: add_member_def Let_def split: option.splits)
qed

lemma add_members_ok:
  assumes "registry_ok svc" and "tid < next_team svc"
    and "\<And>m. m \<in> set ms \<Longrightarrow> byMember svc (src_id (reg_source m)) \<in> {None, Some tid}"
  shows "registry_ok (fold (add_member tid stext) ms svc)"
  using assms
proof (induction ms arbitrary: svc)
  case (Cons m ms)
  note add = add_member_ok [OF Cons.prems(1,2) Cons.prems(3) [OF list.set_intros(1)], of stext]
  have "registry_ok (fold (add_member tid stext) ms (add_member tid stext m svc))"
    by (rule Cons.IH [OF add(1)]) (use Cons.prems(2,3) in \<open>auto simp: add(2,3)\<close>)
  then show ?case by simp
qed simp

lemma dropMember_ok:
  assumes "registry_ok svc"
  shows "registry_ok (dropMember i svc)"
proof (cases "byMember svc i")
  case None
  with assms show ?thesis by (simp add: dropMember_def)
next
  case (Some tid)
  note D = registry_okD [OF assms]
  from D(2) [of tid i] Some obtain ms where ms: "member_of svc tid i = Some ms" by auto
  let ?svc = "dropMember i svc"
  have b: "byMember ?svc = (byMember svc)(i := None)" "next_team ?svc = next_team svc"
    and t: "team_members (teams ?svc t) =
      (if t = tid then AList.delete i (team_members (teams svc tid)) else team_members (teams svc t))" for t
    using Some ms by (auto simp: dropMember_def put_team_def Let_def)
  have m: "member_of ?svc t i' = (if t = tid \<and> i' = i then None else member_of svc t i')" for t i'
    unfolding t by (simp add: delete_conv)
  show ?thesis
    unfolding registry_ok_def
  proof (intro conjI allI impI)
    fix t i' ms'
    show "distinct (map fst (team_members (teams ?svc t)))"
      unfolding t using D(1) by (simp add: distinct_delete)
    show "member_of ?svc t i' \<noteq> None \<longleftrightarrow> byMember ?svc i' = Some t"
      unfolding m b using D(2) [of t i'] D(2) [of t i] Some by auto
    show "src_id (reg_source (ms_registration ms')) = i'" if "member_of ?svc t i' = Some ms'"
      using that D(3) [of t i' ms'] unfolding m by (auto split: if_splits)
    show "team_members (teams ?svc t) = []" if "next_team ?svc \<le> t"
      using that D(4) [of t] unfolding b t by (auto simp: AList.delete_eq)
  qed
qed

lemma fold_ok:
  "(\<And>x svc. registry_ok svc \<Longrightarrow> registry_ok (f x svc)) \<Longrightarrow> registry_ok svc \<Longrightarrow> registry_ok (fold f xs svc)"
  by (induction xs arbitrary: svc) auto

lemma disposeTeam_ok: "registry_ok svc \<Longrightarrow> registry_ok (disposeTeam tid svc)"
  by (simp add: disposeTeam_def put_team_ok fold_ok dropMember_ok Let_def)

lemma reconcile_member_ok: "registry_ok svc \<Longrightarrow> registry_ok (reconcile_member logs tid i svc)"
  by (auto simp: reconcile_member_def registry_okD(3) intro!: put_member_ok split: option.splits)

lemma resolve_from_ids:
  "resolve_from svc found is = Inr r \<Longrightarrow>
   (\<forall>i \<in> set is. byMember svc i \<in> {None, r}) \<and> (found \<noteq> None \<longrightarrow> r = found) \<and>
   (\<forall>tid. r = Some tid \<longrightarrow> found = Some tid \<or> (\<exists>i. byMember svc i = Some tid))"
  by (induction svc found "is" rule: resolve_from.induct) (auto split: option.splits if_splits)

lemma register_ok:
  assumes "registry_ok svc"
  shows "registry_ok (snd (register logs goal ctxt members svc))"
proof -
  let ?ids = "map (\<lambda>m. src_id (reg_source m)) members"
  have keep: "registry_ok (fold (reconcile_member logs tid) ks (fold dropMember js (fold (add_member tid t) members
      (put_team tid ((teams svc1 tid)\<lparr>team_goal := goal, team_context := ctxt\<rparr>) svc1))))"
    if "registry_ok svc1" "tid < next_team svc1"
      "\<And>i. i \<in> set ?ids \<Longrightarrow> byMember svc1 i \<in> {None, Some tid}" for svc1 tid t js ks
  proof -
    let ?svc2 = "put_team tid ((teams svc1 tid)\<lparr>team_goal := goal, team_context := ctxt\<rparr>) svc1"
    have "registry_ok ?svc2" "tid < next_team ?svc2" using that(1,2)
      by (simp add: put_team_ok) (use that(2) in \<open>simp add: put_team_def\<close>)
    moreover have "byMember ?svc2 (src_id (reg_source m)) \<in> {None, Some tid}" if "m \<in> set members" for m
      using that \<open>\<And>i. i \<in> set ?ids \<Longrightarrow> byMember svc1 i \<in> {None, Some tid}\<close> [of "src_id (reg_source m)"]
      by (auto simp: put_team_def)
    ultimately have "registry_ok (fold (add_member tid t) members ?svc2)" by (rule add_members_ok)
    from fold_ok [OF reconcile_member_ok fold_ok [OF dropMember_ok this]] show ?thesis .
  qed
  show ?thesis
  proof (cases "resolve_from svc None ?ids")
    case (Inl e)
    with assms show ?thesis by (auto simp: register_def resolveTeam_def Let_def split: option.splits)
  next
    case (Inr r)
    note ids = resolve_from_ids [OF this]
    obtain tid svc1 where res: "resolveTeam ?ids svc = Inr (tid, svc1)" and ok: "registry_ok svc1"
      "tid < next_team svc1" "\<forall>i \<in> set ?ids. byMember svc1 i \<in> {None, Some tid}"
    proof (cases r)
      case None
      let ?t = "next_team svc" and ?s = "svc\<lparr>next_team := next_team svc + 1\<rparr>"
      have "registry_ok ?s"
        by (rule registry_ok_more [OF assms]) simp_all
      then have "registry_ok (put_team ?t no_team ?s)"
        using registry_okD(4) [OF assms, of ?t] by (simp add: put_team_ok no_team_def)
      with None Inr ids that [of ?t "put_team ?t no_team ?s"] show ?thesis
        by (auto simp: resolveTeam_def put_team_def)
    next
      case (Some tid)
      with ids obtain i where "byMember svc i = Some tid" by auto
      with registry_okD(2,4) [OF assms, of tid] have "tid < next_team svc"
        by (metis leI map_of.simps(1))
      with Some Inr ids that [of tid svc] assms show ?thesis by (auto simp: resolveTeam_def)
    qed
    from assms keep [OF ok(1,2) bspec [OF ok(3)]] res show ?thesis
      by (auto simp: register_def Let_def split: option.splits)
  qed
qed

lemma drain_ok: "registry_ok svc \<Longrightarrow> registry_ok (snd (drain logs i svc))"
proof -
  assume ok: "registry_ok svc"
  show ?thesis
  proof (cases "Option.bind (byMember svc i) (\<lambda>tid. map_option (Pair tid) (member_of svc tid i))")
    case None
    with ok show ?thesis by (simp add: drain_def)
  next
    case (Some p)
    obtain tid ms where p: "p = (tid, ms)" by (cases p)
    with Some registered [OF ok] have ms: "member_of svc tid i = Some ms" by blast
    have "registry_ok (put_member tid i ((reconcile logs svc ms)\<lparr>ms_pending := [], ms_drained := d\<rparr>) svc)" for d
      using ok ms registry_okD(3) [OF ok ms] by (intro put_member_ok) auto
    with Some p ok show ?thesis by (auto simp: drain_def Let_def split: prod.splits)
  qed
qed

lemma deliverInFlight_fields:
  "deliverInFlight logs tid g u svc = (r, svc') \<Longrightarrow>
   byMember svc' = byMember svc \<and> teams svc' = teams svc \<and> next_team svc' = next_team svc"
  by (auto simp: deliverInFlight_def Let_def split: option.splits sum.splits)

lemma relay_ok: "registry_ok svc \<Longrightarrow> registry_ok (snd (relay logs tid g u is svc))"
proof (induction logs tid g u "is" svc rule: relay.induct)
  case (2 logs tid sender u i "is" svc)
  show ?case
  proof (cases "member_of svc tid i")
    case None
    with 2 show ?thesis by simp
  next
    case (Some ms)
    let ?p = "pend (src_id (reg_source sender)) (reg_role sender) u"
    let ?svc1 = "put_member tid i (ms\<lparr>ms_pending := ms_pending ms @ [?p]\<rparr>) svc"
    let ?r = "if unit_kind u = MessageUnit then deliverInFlight logs tid (ms_registration ms) ?p ?svc1
      else (Inr (), ?svc1)"
    have ok1: "registry_ok ?svc1"
      using 2(4) Some registry_okD(3) [OF 2(4) Some] by (intro put_member_ok) auto
    obtain x svc2 where r: "?r = (x, svc2)" by fastforce
    have "registry_ok svc2"
    proof (cases "unit_kind u = MessageUnit")
      case True
      with r deliverInFlight_fields [of logs tid "ms_registration ms" ?p ?svc1 x svc2]
      have "byMember svc2 = byMember ?svc1 \<and> teams svc2 = teams ?svc1 \<and>
        next_team svc2 = next_team ?svc1" by simp
      with ok1 registry_ok_cong [of svc2 ?svc1] show ?thesis by blast
    next
      case False
      with r ok1 show ?thesis by simp
    qed
    with 2 Some r show ?thesis by (auto simp: Let_def split: sum.splits)
  qed
qed simp

lemma relay_ok': "registry_ok svc \<Longrightarrow> relay logs tid g u is svc = (r, svc') \<Longrightarrow> registry_ok svc'"
  using relay_ok [of svc logs tid g u "is"] by simp

lemma set_calls_ok: "registry_ok svc \<Longrightarrow> registry_ok (set_calls tid i f svc)"
  by (auto simp: set_calls_def registry_okD(3) intro!: put_member_ok split: option.splits)

lemma onMemberEvent_ok: "registry_ok svc \<Longrightarrow> registry_ok (snd (onMemberEvent logs i e svc))"
  using relay_ok [of svc logs] set_calls_ok relay_ok' [of svc logs]
  by (auto simp: onMemberEvent_def Let_def split: option.splits event_data.splits sum.splits prod.splits)

lemma notifyStream_ok: "registry_ok (notifyStream i p svc) = registry_ok svc"
  by (rule registry_ok_cong) (auto simp: notifyStream_def Let_def split: option.splits)

lemma on_log_event_ok: "registry_ok svc \<Longrightarrow> registry_ok (snd (on_log_event logs i e svc))"
  using onMemberEvent_ok [of svc logs i e]
  by (auto simp: on_log_event_def notifyStream_ok split: prod.splits sum.splits)

end
