(* ===== verification/Team_Delivery.thy ===== *)
theory Team_Delivery
  imports Team
begin

declare js_simps(2) [simp del]

text \<open>
  What the team service promises: its registry stays consistent over every sequence of operations,
  and a registered consumer gets every production of the other members exactly once, whatever
  relays are missed and whenever it drains.
\<close>

section \<open>Frames\<close>

text \<open>What the relay and the event stream leave alone.\<close>

definition frame :: "team_service \<Rightarrow> nat \<Rightarrow> (jstr \<times> member_registration \<times> jstr set) list" where
  "frame svc tid =
     map (\<lambda>(k, ms). (k, ms_registration ms, ms_drained ms)) (team_members (teams svc tid))"

definition roster :: "team_service \<Rightarrow> nat \<Rightarrow> (jstr \<times> member_registration) list" where
  "roster svc tid = map (\<lambda>(k, ms). (k, ms_registration ms)) (team_members (teams svc tid))"

lemma roster_frame: "roster svc tid = map (\<lambda>(k, g, d). (k, g)) (frame svc tid)"
  by (simp add: roster_def frame_def o_def split_def)

lemma frame_lookup:
  "map_of (frame svc tid) i = map_option (\<lambda>ms. (ms_registration ms, ms_drained ms)) (member_of svc tid i)"
  using map_of_map [of "\<lambda>ms. (ms_registration ms, ms_drained ms)" "team_members (teams svc tid)"]
  by (simp add: frame_def)

lemma update_same_frame:
  "map_of al i = Some ms0 \<Longrightarrow> f ms = f ms0 \<Longrightarrow>
   map (\<lambda>(k, ms). (k, f ms)) (AList.update i ms al) = map (\<lambda>(k, ms). (k, f ms)) al"
  by (induction al) (auto split: if_splits)

lemma frame_put_member:
  assumes "member_of svc tid i = Some ms0" and "ms_registration ms = ms_registration ms0"
    and "ms_drained ms = ms_drained ms0"
  shows "frame (put_member tid i ms svc) = frame svc"
proof
  fix t
  show "frame (put_member tid i ms svc) t = frame svc t"
    using update_same_frame [OF assms(1), of "\<lambda>ms. (ms_registration ms, ms_drained ms)" ms] assms(2,3)
    by (simp add: frame_def put_member_def put_team_def split_def)
qed

lemma roster_put_member:
  assumes "member_of svc tid i = Some ms0" and "ms_registration ms = ms_registration ms0"
  shows "roster (put_member tid i ms svc) = roster svc"
proof
  fix t
  show "roster (put_member tid i ms svc) t = roster svc t"
    using update_same_frame [OF assms(1), of ms_registration ms] assms(2)
    by (simp add: roster_def put_member_def put_team_def split_def)
qed

lemma deliver_frame:
  "deliverInFlight logs tid g u svc = (r, svc') \<Longrightarrow> frame svc' = frame svc \<and> byMember svc' = byMember svc"
  by (drule deliverInFlight_fields) (simp add: frame_def fun_eq_iff)

lemma relay_frame:
  "relay logs tid g u is svc = (r, svc') \<Longrightarrow> frame svc' = frame svc \<and> byMember svc' = byMember svc"
proof (induction "is" arbitrary: svc)
  case (Cons i "is")
  show ?case
  proof (cases "member_of svc tid i")
    case None
    with Cons show ?thesis by simp
  next
    case (Some ms)
    let ?p = "pend (src_id (reg_source g)) (reg_role g) u"
    let ?svc1 = "put_member tid i (ms\<lparr>ms_pending := ms_pending ms @ [?p]\<rparr>) svc"
    have "frame ?svc1 = frame svc" using Some by (intro frame_put_member) auto
    with Cons Some show ?thesis
      by (auto simp: Let_def split: if_splits sum.splits prod.splits dest!: deliver_frame)
  qed
qed simp

lemma set_calls_frame: "frame (set_calls tid i f svc) = frame svc \<and> byMember (set_calls tid i f svc) = byMember svc"
  by (auto simp: set_calls_def frame_put_member split: option.splits)

lemma notify_frame: "frame (notifyStream i p svc) = frame svc \<and> byMember (notifyStream i p svc) = byMember svc"
  by (auto simp: notifyStream_def frame_def fun_eq_iff Let_def split: option.splits)

lemma on_log_event_frame:
  "on_log_event logs i e svc = (r, svc') \<Longrightarrow> frame svc' = frame svc \<and> byMember svc' = byMember svc"
  using notify_frame
  by (auto simp: on_log_event_def onMemberEvent_def Let_def set_calls_frame
      split: option.splits event_data.splits sum.splits prod.splits if_splits dest!: relay_frame)

section \<open>One drain\<close>

definition other_units ::
  "(jstr \<Rightarrow> session_event list) \<Rightarrow> (jstr \<times> member_registration) list \<Rightarrow> jstr \<Rightarrow> pending_unit list" where
  "other_units logs members r =
     concat (map (\<lambda>(k, g). if k = r then []
                  else map (pend k (reg_role g)) (deriveUnits (logs k))) members)"

definition message_anchors :: "user_message \<Rightarrow> jstr list" where
  "message_anchors m = consumed_anchor (UserMessage (um_source m))"

lemma pend_anchor [simp]: "unit_anchor (pend k role u) = unit_anchor u"
  by (simp add: pend_def)

lemma buildMessage_anchor: "buildMessage logs t u = Inr m \<Longrightarrow> message_anchors m = [unit_anchor u]"
  by (auto simp: message_anchors_def buildMessage_def buildBroadcastMessage_def split: sum.splits)

lemma drain_units_all:
  "(\<And>u. u \<in> set us \<Longrightarrow> \<exists>m. buildMessage logs t u = Inr m) \<Longrightarrow>
   \<exists>new. drain_units logs t us d ms = (Inr (ms @ new), d \<union> unit_anchor ` set us) \<and>
     concat (map message_anchors new) = map unit_anchor us"
proof (induction us arbitrary: d ms)
  case (Cons u us)
  then obtain m where m: "buildMessage logs t u = Inr m" by fastforce
  from Cons.IH [of "insert (unit_anchor u) d" "ms @ [m]"] Cons.prems obtain new where
    "drain_units logs t us (insert (unit_anchor u) d) (ms @ [m]) =
       (Inr ((ms @ [m]) @ new), insert (unit_anchor u) d \<union> unit_anchor ` set us)"
    "concat (map message_anchors new) = map unit_anchor us" by auto
  with m buildMessage_anchor [OF m] show ?case by (intro exI [of _ "m # new"]) auto
qed simp

text \<open>The reconciled list of a consumer: what the others produced, less what is consumed or drained.\<close>

definition unread :: "jstr set \<Rightarrow> pending_unit list \<Rightarrow> pending_unit list" where
  "unread gone us = filter (\<lambda>u. unit_anchor u \<notin> gone) us"

lemma reconcile_pending:
  assumes "registry_ok svc" and "member_of svc tid r = Some ms"
    and "src_consumes (reg_source (ms_registration ms))"
  shows "reconcile logs svc ms =
     ms\<lparr>ms_drained := ms_drained ms - consumedAnchors (logs r),
        ms_pending := sort_key unit_key
          (unread (consumedAnchors (logs r) \<union> ms_drained ms) (other_units logs (roster svc tid) r))\<rparr>"
proof -
  note D = registry_okD [OF assms(1)]
  have r: "src_id (reg_source (ms_registration ms)) = r" using D(3) [OF assms(2)] .
  have b: "byMember svc r = Some tid" using D(2) [of tid r] assms(2) by simp
  let ?gone = "consumedAnchors (logs r) \<union> ms_drained ms"
  have keys: "src_id (reg_source (ms_registration m)) = k" if "(k, m) \<in> set (team_members (teams svc tid))" for k m
    using that D(1,3) by (meson map_of_is_SomeI)
  have "concat (map (\<lambda>(sid, sender).
          if sid = r then []
          else map (pend (src_id (reg_source (ms_registration sender))) (reg_role (ms_registration sender)))
                 (filter (\<lambda>u. unit_anchor u \<notin> consumedAnchors (logs r) \<and>
                              unit_anchor u \<notin> ms_drained ms - consumedAnchors (logs r))
                   (deriveUnits (logs (src_id (reg_source (ms_registration sender))))))) al) =
      unread ?gone (other_units logs (map (\<lambda>(k, ms). (k, ms_registration ms)) al) r)"
    if "set al \<subseteq> set (team_members (teams svc tid))" for al
    using that
  proof (induction al)
    case Nil
    then show ?case by (simp add: unread_def other_units_def)
  next
    case (Cons x al)
    obtain k m where x: "x = (k, m)" by (cases x)
    with Cons.prems keys have "src_id (reg_source (ms_registration m)) = k" by simp
    moreover have "filter (\<lambda>u. unit_anchor u \<notin> ?gone) (map (pend k role) us) =
        map (pend k role) (filter (\<lambda>u. unit_anchor u \<notin> consumedAnchors (logs r) \<and>
          unit_anchor u \<notin> ms_drained ms - consumedAnchors (logs r)) us)" for role us
      unfolding filter_map by (intro arg_cong [of _ _ "map (pend k role)"] filter_cong) auto
    ultimately show ?case using Cons x by (simp add: unread_def other_units_def)
  qed
  from this [OF subset_refl] show ?thesis
    using b assms(3) by (simp add: reconcile_def r roster_def Let_def split_def)
qed

lemma drain_delivers:
  fixes logs :: "jstr \<Rightarrow> session_event list"
  assumes "registry_ok svc" and "member_of svc tid r = Some ms"
    and "src_consumes (reg_source (ms_registration ms))"
  defines "us \<equiv> sort_key unit_key
    (unread (consumedAnchors (logs r) \<union> ms_drained ms) (other_units logs (roster svc tid) r))"
  shows "\<exists>msgs ms'. drain logs r svc = (Inr msgs, put_member tid r ms' svc) \<and>
    concat (map message_anchors msgs) = map unit_anchor us \<and>
    ms_registration ms' = ms_registration ms \<and>
    ms_drained ms' = (ms_drained ms - consumedAnchors (logs r)) \<union> unit_anchor ` set us"
proof -
  note D = registry_okD [OF assms(1)]
  have "\<exists>m. buildMessage logs (teams svc tid) u = Inr m" if "u \<in> set us" for u
  proof -
    from that obtain k g v where u: "(k, g) \<in> set (roster svc tid)" "v \<in> set (deriveUnits (logs k))"
      "u = pend k (reg_role g) v"
      by (auto simp: us_def unread_def other_units_def split: if_splits)
    then obtain m where m: "(k, m) \<in> set (team_members (teams svc tid))" "g = ms_registration m"
      by (auto simp: roster_def)
    then have mem: "member_of svc tid k = Some m" using D(1) by (meson map_of_is_SomeI)
    from derived_renders [OF u(2)] obtain t where
      "renderBroadcast (reg_role g) v (logs k) (team_context (teams svc tid)) = Inr t" by blast
    then have "renderBroadcast (reg_role g) u (logs k) (team_context (teams svc tid)) = Inr t"
      by (simp add: u(3) renderBroadcast_def pend_def)
    with mem D(3) [OF mem] u(3) show ?thesis
      by (simp add: buildMessage_def buildBroadcastMessage_def pend_def)
  qed
  from drain_units_all [OF this, where d = "ms_drained ms - consumedAnchors (logs r)" and ms = "[]"]
  obtain new where "drain_units logs (teams svc tid) us (ms_drained ms - consumedAnchors (logs r)) [] =
      (Inr new, (ms_drained ms - consumedAnchors (logs r)) \<union> unit_anchor ` set us)"
    "concat (map message_anchors new) = map unit_anchor us" by auto
  moreover have "Option.bind (byMember svc r) (\<lambda>tid. map_option (Pair tid) (member_of svc tid r)) = Some (tid, ms)"
    using registered [OF assms(1)] assms(2) by blast
  ultimately show ?thesis
    using assms(3) reconcile_pending [OF assms(1-3), of logs]
    by (auto simp: drain_def us_def Let_def)
qed

section \<open>Sessions\<close>

text \<open>
  A session of a registered team: members log events, whose notification may be missed (an error of
  the relay counts as missed too), stream consumers come and go, and members are drained.
\<close>

record team_session =
  session_logs :: "jstr \<Rightarrow> session_event list"
  session_svc :: team_service
  delivered :: "(jstr \<times> user_message) list"

inductive session_step :: "team_session \<Rightarrow> team_session \<Rightarrow> bool" where
  notified: "on_log_event logs' i e (session_svc s) = (r, svc') \<Longrightarrow>
     logs' = (session_logs s)(i := session_logs s i @ [e]) \<Longrightarrow>
     session_step s (s\<lparr>session_logs := logs', session_svc := svc'\<rparr>)"
| missed: "session_step s (s\<lparr>session_logs := (session_logs s)(i := session_logs s i @ [e])\<rparr>)"
| live: "session_step s (s\<lparr>session_svc := on_live_event i payload (session_svc s)\<rparr>)"
| joined: "session_step s (s\<lparr>session_svc := subscribe tid consumer (session_svc s)\<rparr>)"
| left: "session_step s (s\<lparr>session_svc := unsubscribe tid consumer (session_svc s)\<rparr>)"
| drained: "drain (session_logs s) i (session_svc s) = (Inr msgs, svc') \<Longrightarrow>
     session_step s (s\<lparr>session_svc := svc', delivered := delivered s @ map (Pair i) msgs\<rparr>)"
| refused: "drain (session_logs s) i (session_svc s) = (Inl reason, svc') \<Longrightarrow>
     session_step s (s\<lparr>session_svc := svc'\<rparr>)"

inductive session_run :: "team_session \<Rightarrow> team_session \<Rightarrow> bool" for s0 where
  start: "session_run s0 s0"
| continue: "session_run s0 s \<Longrightarrow> session_step s s' \<Longrightarrow> session_run s0 s'"

definition anchors_for :: "jstr \<Rightarrow> (jstr \<times> user_message) list \<Rightarrow> jstr list" where
  "anchors_for r out = concat (map (\<lambda>(i, m). if i = r then message_anchors m else []) out)"

lemma anchors_for_append [simp]: "anchors_for r (xs @ ys) = anchors_for r xs @ anchors_for r ys"
  by (simp add: anchors_for_def)

lemma anchors_for_drain [simp]:
  "anchors_for r (map (Pair i) ms) = (if i = r then concat (map message_anchors ms) else [])"
  by (induction ms) (auto simp: anchors_for_def)

text \<open>Logs only grow, and so do the units of the others.\<close>

definition logs_le :: "(jstr \<Rightarrow> session_event list) \<Rightarrow> (jstr \<Rightarrow> session_event list) \<Rightarrow> bool" where
  "logs_le logs logs' \<longleftrightarrow> (\<forall>i. prefix (logs i) (logs' i))"

lemma step_logs: "session_step s s' \<Longrightarrow> logs_le (session_logs s) (session_logs s')"
  by (induction rule: session_step.induct) (auto simp: logs_le_def)

lemma consumed_mono: "logs_le logs logs' \<Longrightarrow> consumedAnchors (logs r) \<subseteq> consumedAnchors (logs' r)"
  by (auto simp: logs_le_def prefix_def consumed_append dest!: spec [of _ r])

lemma concat_subseq:
  "(\<And>x. x \<in> set xs \<Longrightarrow> prefix (f x) (g x)) \<Longrightarrow> subseq (concat (map f xs)) (concat (map g xs))"
proof (induction xs)
  case (Cons x xs)
  then have "subseq (f x) (g x)" "subseq (concat (map f xs)) (concat (map g xs))"
    by (auto intro: prefix_imp_subseq)
  then show ?case by (simp add: list_emb_append_mono)
qed simp

lemma other_units_subseq:
  assumes "logs_le logs logs'"
  shows "subseq (other_units logs members r) (other_units logs' members r)"
  unfolding other_units_def
proof (rule concat_subseq)
  fix x
  assume "x \<in> set members"
  obtain k g where x: "x = (k, g)" by (cases x)
  from assms have "prefix (deriveUnits (logs k)) (deriveUnits (logs' k))"
    by (simp add: logs_le_def derive_prefix)
  then show "prefix (case x of (k, g) \<Rightarrow> if k = r then [] else map (pend k (reg_role g)) (deriveUnits (logs k)))
      (case x of (k, g) \<Rightarrow> if k = r then [] else map (pend k (reg_role g)) (deriveUnits (logs' k)))"
    by (simp add: x map_mono_prefix)
qed

lemma unread_distinct:
  "distinct (map unit_anchor us) \<Longrightarrow> distinct (map unit_anchor (sort_key k (unread gone us)))"
proof -
  assume "distinct (map unit_anchor us)"
  then have "inj_on unit_anchor (set us)" "distinct us" by (simp_all add: distinct_map)
  then show ?thesis by (simp add: distinct_map unread_def inj_on_def)
qed

lemma subseq_distinct: "subseq xs ys \<Longrightarrow> distinct ys \<Longrightarrow> distinct xs"
  by (metis distinct_nthsI subseq_conv_nths)

lemma drain_shape:
  assumes "registry_ok svc" and "drain logs i svc = (x, svc')"
  shows "svc' = svc \<or> (\<exists>tid ms0 ms'. member_of svc tid i = Some ms0 \<and>
    ms_registration ms' = ms_registration ms0 \<and> svc' = put_member tid i ms' svc)"
proof (cases "Option.bind (byMember svc i) (\<lambda>tid. map_option (Pair tid) (member_of svc tid i))")
  case None
  with assms(2) show ?thesis by (simp add: drain_def)
next
  case (Some p)
  obtain tid ms where p: "p = (tid, ms)" by (cases p)
  with Some registered [OF assms(1)] have "member_of svc tid i = Some ms" by blast
  note ms = this
  show ?thesis
  proof (cases "src_consumes (reg_source (ms_registration ms))")
    case False
    with Some p assms(2) show ?thesis by (simp add: drain_def)
  next
    case True
    with Some p assms(2) obtain d where
      "svc' = put_member tid i ((reconcile logs svc ms)\<lparr>ms_pending := [], ms_drained := d\<rparr>) svc"
      by (auto simp: drain_def Let_def split: prod.splits)
    moreover have "ms_registration ((reconcile logs svc ms)\<lparr>ms_pending := [], ms_drained := d\<rparr>) = ms_registration ms"
      by simp
    ultimately show ?thesis using ms by blast
  qed
qed

section \<open>Exactly once\<close>

text \<open>The receiver \<open>r\<close> of team \<open>tid\<close>, with the team's members \<open>members\<close>.\<close>

definition delivery_inv ::
  "nat \<Rightarrow> jstr \<Rightarrow> (jstr \<times> member_registration) list \<Rightarrow> team_session \<Rightarrow> bool" where
  "delivery_inv tid r members s \<longleftrightarrow>
     registry_ok (session_svc s) \<and> roster (session_svc s) tid = members \<and>
     (\<exists>ms. member_of (session_svc s) tid r = Some ms \<and> src_consumes (reg_source (ms_registration ms)) \<and>
       set (anchors_for r (delivered s)) \<subseteq> ms_drained ms \<union> consumedAnchors (session_logs s r) \<and>
       ms_drained ms \<subseteq> set (anchors_for r (delivered s))) \<and>
     set (anchors_for r (delivered s)) \<subseteq> unit_anchor ` set (other_units (session_logs s) members r) \<and>
     (distinct (map unit_anchor (other_units (session_logs s) members r)) \<longrightarrow>
        distinct (anchors_for r (delivered s)))"

lemma delivery_inv_got:
  assumes "delivery_inv tid r members s"
  shows "set (anchors_for r (delivered s)) \<subseteq> unit_anchor ` set (other_units (session_logs s) members r)"
    and "distinct (map unit_anchor (other_units (session_logs s) members r)) \<Longrightarrow>
      distinct (anchors_for r (delivered s))"
  using assms unfolding delivery_inv_def by blast+

lemma delivery_inv_frame:
  assumes inv: "delivery_inv tid r members s" and ok: "registry_ok svc'"
    and frame: "frame svc' = frame (session_svc s)"
    and logs: "logs_le (session_logs s) logs'"
  shows "delivery_inv tid r members (s\<lparr>session_logs := logs', session_svc := svc'\<rparr>)"
proof -
  from inv obtain ms where ms: "member_of (session_svc s) tid r = Some ms"
      "src_consumes (reg_source (ms_registration ms))"
      "set (anchors_for r (delivered s)) \<subseteq> ms_drained ms \<union> consumedAnchors (session_logs s r)"
      "ms_drained ms \<subseteq> set (anchors_for r (delivered s))"
    and out: "set (anchors_for r (delivered s)) \<subseteq> unit_anchor ` set (other_units (session_logs s) members r)"
      "distinct (map unit_anchor (other_units (session_logs s) members r)) \<Longrightarrow>
       distinct (anchors_for r (delivered s))"
    and ros: "roster (session_svc s) tid = members"
    by (auto simp: delivery_inv_def)
  from frame have "map_of (frame svc' tid) r = map_of (frame (session_svc s) tid) r" by simp
  then obtain ms' where ms': "member_of svc' tid r = Some ms'" "ms_registration ms' = ms_registration ms"
    "ms_drained ms' = ms_drained ms" unfolding frame_lookup ms(1) by auto
  have sub: "subseq (map unit_anchor (other_units (session_logs s) members r))
      (map unit_anchor (other_units logs' members r))"
    by (rule subseq_map [OF other_units_subseq [OF logs]])
  then have "set (map unit_anchor (other_units (session_logs s) members r)) \<subseteq>
      set (map unit_anchor (other_units logs' members r))" by (metis set_nths_subset subseq_conv_nths)
  with ms ms' out ok ros frame consumed_mono [OF logs, of r] subseq_distinct [OF sub] show ?thesis
    by (auto simp: delivery_inv_def roster_frame)
qed

lemma delivery_inv_drain:
  assumes inv: "delivery_inv tid r members s"
    and dr: "drain (session_logs s) r (session_svc s) = (x, svc')"
  shows "\<exists>msgs. x = Inr msgs \<and>
    delivery_inv tid r members (s\<lparr>session_svc := svc', delivered := delivered s @ map (Pair r) msgs\<rparr>) \<and>
    unit_anchor ` set (other_units (session_logs s) members r) \<subseteq>
      set (anchors_for r (delivered s @ map (Pair r) msgs)) \<union> consumedAnchors (session_logs s r)"
proof -
  let ?logs = "session_logs s" and ?svc = "session_svc s"
  from inv obtain ms where ok: "registry_ok ?svc" and ros: "roster ?svc tid = members"
    and ms: "member_of ?svc tid r = Some ms" "src_consumes (reg_source (ms_registration ms))"
      "set (anchors_for r (delivered s)) \<subseteq> ms_drained ms \<union> consumedAnchors (?logs r)"
      "ms_drained ms \<subseteq> set (anchors_for r (delivered s))"
    and out: "set (anchors_for r (delivered s)) \<subseteq> unit_anchor ` set (other_units ?logs members r)"
      "distinct (map unit_anchor (other_units ?logs members r)) \<Longrightarrow> distinct (anchors_for r (delivered s))"
    by (auto simp: delivery_inv_def)
  define us where "us = sort_key unit_key
    (unread (consumedAnchors (?logs r) \<union> ms_drained ms) (other_units ?logs members r))"
  from drain_delivers [OF ok ms(1,2), of ?logs, unfolded ros, folded us_def] dr
  obtain msgs ms' where x: "x = Inr msgs" "svc' = put_member tid r ms' ?svc"
    and msgs: "concat (map message_anchors msgs) = map unit_anchor us"
    and ms': "ms_registration ms' = ms_registration ms"
      "ms_drained ms' = (ms_drained ms - consumedAnchors (?logs r)) \<union> unit_anchor ` set us" by auto
  have us: "set us = {u \<in> set (other_units ?logs members r). unit_anchor u \<notin> consumedAnchors (?logs r) \<union> ms_drained ms}"
    by (auto simp: us_def unread_def)
  have ok': "registry_ok svc'" using drain_ok [OF ok, of ?logs r] dr by simp
  have ros': "roster svc' tid = members" using roster_put_member [OF ms(1) ms'(1)] ros x(2) by simp
  have disj: "set (map unit_anchor us) \<inter> set (anchors_for r (delivered s)) = {}"
    using us ms(3) by auto
  define s' where "s' = s\<lparr>session_svc := svc', delivered := delivered s @ map (Pair r) msgs\<rparr>"
  have eqs: "session_svc s' = svc'" "session_logs s' = ?logs"
    "anchors_for r (delivered s') = anchors_for r (delivered s) @ map unit_anchor us"
    by (simp_all add: s'_def msgs)
  have "delivery_inv tid r members s'"
    unfolding delivery_inv_def eqs
  proof (intro conjI)
    show "\<exists>m. member_of svc' tid r = Some m \<and> src_consumes (reg_source (ms_registration m)) \<and>
        set (anchors_for r (delivered s) @ map unit_anchor us) \<subseteq> ms_drained m \<union> consumedAnchors (?logs r) \<and>
        ms_drained m \<subseteq> set (anchors_for r (delivered s) @ map unit_anchor us)"
      using ms ms' x(2) by auto
    show "set (anchors_for r (delivered s) @ map unit_anchor us) \<subseteq> unit_anchor ` set (other_units ?logs members r)"
      using out(1) us by auto
    show "distinct (map unit_anchor (other_units ?logs members r)) \<longrightarrow>
        distinct (anchors_for r (delivered s) @ map unit_anchor us)"
      using out(2) disj unread_distinct unfolding us_def distinct_append by blast
  qed (rule ok' ros')+
  moreover have "unit_anchor ` set (other_units ?logs members r) \<subseteq>
      set (anchors_for r (delivered s) @ map unit_anchor us) \<union> consumedAnchors (?logs r)"
    using us ms(4) by auto
  ultimately show ?thesis using x(1) unfolding s'_def
    by (intro exI [of _ msgs]) (simp only: anchors_for_append anchors_for_drain msgs if_True simp_thms)
qed

lemma delivery_inv_other_drain:
  assumes inv: "delivery_inv tid r members s" and ne: "i \<noteq> r"
    and dr: "drain (session_logs s) i (session_svc s) = (x, svc')"
  shows "delivery_inv tid r members (s\<lparr>session_svc := svc', delivered := delivered s @ map (Pair i) msgs\<rparr>)"
    and "delivery_inv tid r members (s\<lparr>session_svc := svc'\<rparr>)"
proof -
  from inv have ok: "registry_ok (session_svc s)" by (simp add: delivery_inv_def)
  from drain_ok [OF this, of "session_logs s" i] dr have ok': "registry_ok svc'" by simp
  have "member_of svc' tid r = member_of (session_svc s) tid r \<and> roster svc' = roster (session_svc s)"
    using drain_shape [OF ok dr] ne roster_put_member by fastforce
  with inv ne ok' show "delivery_inv tid r members (s\<lparr>session_svc := svc', delivered := delivered s @ map (Pair i) msgs\<rparr>)"
    "delivery_inv tid r members (s\<lparr>session_svc := svc'\<rparr>)"
    by (simp_all add: delivery_inv_def)
qed

lemma consumers_frame:
  "team_members t = team_members (teams svc tid) \<Longrightarrow> frame (put_team tid t svc) = frame svc"
  by (simp add: frame_def put_team_def fun_eq_iff)

lemma logs_le_refl [simp]: "logs_le logs logs"
  by (simp add: logs_le_def)

lemma delivery_inv_step:
  assumes "session_step s s'" and "delivery_inv tid r members s"
  shows "delivery_inv tid r members s'"
  using assms(1)
proof (cases rule: session_step.cases)
  case (notified logs' i e res svc')
  from assms(2) have ok: "registry_ok (session_svc s)" by (simp add: delivery_inv_def)
  from on_log_event_ok [OF ok, of logs' i e] notified(2) have "registry_ok svc'" by simp
  moreover from on_log_event_frame [OF notified(2)] have "frame svc' = frame (session_svc s)" by simp
  moreover have "logs_le (session_logs s) logs'" by (simp add: notified(3) logs_le_def)
  ultimately show ?thesis unfolding notified(1) using delivery_inv_frame [OF assms(2)] by blast
next
  case (missed i e)
  from assms(2) have ok: "registry_ok (session_svc s)" by (simp add: delivery_inv_def)
  have "logs_le (session_logs s) ((session_logs s)(i := session_logs s i @ [e]))" by (simp add: logs_le_def)
  from delivery_inv_frame [OF assms(2) ok refl this] show ?thesis by (simp add: missed)
next
  case (live i p)
  from assms(2) have "registry_ok (on_live_event i p (session_svc s))"
    by (simp add: delivery_inv_def on_live_event_def notifyStream_ok)
  from delivery_inv_frame [OF assms(2) this _ logs_le_refl] show ?thesis
    by (simp add: live on_live_event_def notify_frame)
next
  case (joined t consumer)
  from assms(2) have "registry_ok (subscribe t consumer (session_svc s))"
    by (simp add: delivery_inv_def subscribe_def put_team_ok)
  from delivery_inv_frame [OF assms(2) this _ logs_le_refl] show ?thesis
    by (simp add: joined subscribe_def consumers_frame)
next
  case (left t consumer)
  from assms(2) have "registry_ok (unsubscribe t consumer (session_svc s))"
    by (simp add: delivery_inv_def unsubscribe_def put_team_ok)
  from delivery_inv_frame [OF assms(2) this _ logs_le_refl] show ?thesis
    by (simp add: left unsubscribe_def consumers_frame)
next
  case (drained i msgs svc')
  show ?thesis
  proof (cases "i = r")
    case True
    with delivery_inv_drain [OF assms(2)] drained show ?thesis by auto
  next
    case False
    with delivery_inv_other_drain(1) [OF assms(2)] drained show ?thesis by blast
  qed
next
  case (refused i reason svc')
  show ?thesis
  proof (cases "i = r")
    case True
    with delivery_inv_drain [OF assms(2)] refused show ?thesis by auto
  next
    case False
    with delivery_inv_other_drain(2) [OF assms(2)] refused show ?thesis by blast
  qed
qed

lemma delivery_inv_run:
  "session_run s0 s \<Longrightarrow> delivery_inv tid r members s0 \<Longrightarrow> delivery_inv tid r members s"
  by (induction rule: session_run.induct) (auto intro: delivery_inv_step)

section \<open>Reachable services\<close>

inductive service_reach :: "team_service \<Rightarrow> bool" where
  fresh: "service_reach new_service"
| registers: "service_reach svc \<Longrightarrow> register logs goal ctxt members svc = (r, svc') \<Longrightarrow> service_reach svc'"
| drops: "service_reach svc \<Longrightarrow> service_reach (dropMember i svc)"
| disposes: "service_reach svc \<Longrightarrow> service_reach (disposeTeam tid svc)"
| drains: "service_reach svc \<Longrightarrow> drain logs i svc = (x, svc') \<Longrightarrow> service_reach svc'"
| logs: "service_reach svc \<Longrightarrow> on_log_event logs i e svc = (y, svc') \<Longrightarrow> service_reach svc'"
| lives: "service_reach svc \<Longrightarrow> service_reach (on_live_event i payload svc)"
| subscribes: "service_reach svc \<Longrightarrow> service_reach (subscribe tid consumer svc)"
| unsubscribes: "service_reach svc \<Longrightarrow> service_reach (unsubscribe tid consumer svc)"

lemma new_service_ok: "registry_ok new_service"
  by (simp add: registry_ok_def new_service_def no_team_def)

lemma reach_ok: "service_reach svc \<Longrightarrow> registry_ok svc"
proof (induction rule: service_reach.induct)
  case (registers svc logs goal ctxt members r svc')
  with register_ok [of svc logs goal ctxt members] show ?case by simp
next
  case (drains svc logs i x svc')
  with drain_ok [of svc logs i] show ?case by simp
next
  case (logs svc logs i e y svc')
  with on_log_event_ok [of svc logs i e] show ?case by simp
qed (simp_all add: new_service_ok dropMember_ok disposeTeam_ok on_live_event_def notifyStream_ok
      subscribe_def unsubscribe_def put_team_ok)

section \<open>Properties\<close>

definition sample_member :: "string \<Rightarrow> member_registration" where
  "sample_member i =
     \<lparr>reg_source = \<lparr>src_id = js i, src_consumes = True, src_section = True, src_deliver = None\<rparr>,
      reg_role = js i, reg_summary = []\<rparr>"

definition sample_team :: team_service where
  "sample_team = snd (register (\<lambda>_. []) (js ''win'') None [sample_member ''a'', sample_member ''b''] new_service)"

definition sample_speech :: session_event where
  "sample_speech = \<lparr>ev_time = 5, ev_seq = 1, ev_data = AssistantMessage (js ''m1'') [TextBlock (js ''hi'')]\<rparr>"

lemma sample_team_reach: "service_reach sample_team"
  unfolding sample_team_def by (metis service_reach.fresh service_reach.registers surjective_pairing)

text \<open>C15: In every service reachable by registrations, removals, drains, events and subscriptions, the
  registry is consistent: a member id leads to a team exactly if that team holds it, so a member is
  in at most one team, under its own id and once.\<close>
theorem team_registry_consistent:
  assumes "service_reach svc"
  shows "(member_of svc tid i \<noteq> None) = (byMember svc i = Some tid) \<and>
    distinct (map fst (team_members (teams svc tid))) \<and>
    (case member_of svc tid i of
       None \<Rightarrow> True | Some ms \<Rightarrow> src_id (reg_source (ms_registration ms)) = i)"
  using registry_okD(1-3) [OF reach_ok [OF assms], of tid] by (auto split: option.splits)

theorem team_registry_consistent_witness:
  "(member_of sample_team 0 (js ''a'') \<noteq> None) = (byMember sample_team (js ''a'') = Some 0) \<and>
    distinct (map fst (team_members (teams sample_team 0))) \<and>
    (case member_of sample_team 0 (js ''a'') of
       None \<Rightarrow> True | Some ms \<Rightarrow> src_id (reg_source (ms_registration ms)) = js ''a'')"
  by (rule team_registry_consistent [OF sample_team_reach])

text \<open>C14: A registered consumer gets every production of the other members exactly once. However the
  members log, whichever relay notifications are missed, whenever anyone drains: the next drain
  succeeds, no anchor was or is delivered twice or without a production, and every production is
  then delivered, unless the consumer's own log already carried it. The anchors of the other
  members' productions are assumed distinct.\<close>
theorem broadcast_exactly_once:
  assumes "service_reach svc" and "member_of svc tid r = Some ms"
    and "src_consumes (reg_source (ms_registration ms))" and "ms_drained ms = {}"
    and "session_run \<lparr>session_logs = logs, session_svc = svc, delivered = []\<rparr> s"
    and "distinct (map unit_anchor (other_units (session_logs s) (roster svc tid) r))"
  shows "\<exists>msgs. fst (drain (session_logs s) r (session_svc s)) = Inr msgs \<and>
    (let got = anchors_for r (delivered s @ map (Pair r) msgs);
         produced = unit_anchor ` set (other_units (session_logs s) (roster svc tid) r)
     in distinct got \<and> set got \<subseteq> produced \<and> produced \<subseteq> set got \<union> consumedAnchors (session_logs s r))"
proof -
  have "delivery_inv tid r (roster svc tid) \<lparr>session_logs = logs, session_svc = svc, delivered = []\<rparr>"
    using reach_ok [OF assms(1)] assms(2-4) by (simp add: delivery_inv_def anchors_for_def)
  from delivery_inv_run [OF assms(5) this]
  have inv: "delivery_inv tid r (roster svc tid) s" .
  obtain x svc' where dr: "drain (session_logs s) r (session_svc s) = (x, svc')" by fastforce
  from delivery_inv_drain [OF inv dr] obtain msgs where x: "x = Inr msgs"
    and inv': "delivery_inv tid r (roster svc tid) (s\<lparr>session_svc := svc', delivered := delivered s @ map (Pair r) msgs\<rparr>)"
    and all: "unit_anchor ` set (other_units (session_logs s) (roster svc tid) r) \<subseteq>
      set (anchors_for r (delivered s @ map (Pair r) msgs)) \<union> consumedAnchors (session_logs s r)" by blast
  from inv' assms(6) have "distinct (anchors_for r (delivered s @ map (Pair r) msgs))"
    "set (anchors_for r (delivered s @ map (Pair r) msgs)) \<subseteq>
      unit_anchor ` set (other_units (session_logs s) (roster svc tid) r)"
    using delivery_inv_got [OF inv'] by simp_all
  with x dr all show ?thesis unfolding Let_def by (intro exI [of _ msgs] conjI) simp_all
qed

theorem broadcast_exactly_once_witness:
  "\<exists>msgs. fst (drain ((\<lambda>_. [])(js ''a'' := [sample_speech])) (js ''b'') sample_team) = Inr msgs \<and>
    (let got = anchors_for (js ''b'') ([] @ map (Pair (js ''b'')) msgs);
         produced = unit_anchor ` set (other_units ((\<lambda>_. [])(js ''a'' := [sample_speech]))
                      (roster sample_team 0) (js ''b''))
     in distinct got \<and> set got \<subseteq> produced \<and>
        produced \<subseteq> set got \<union> consumedAnchors (((\<lambda>_. [])(js ''a'' := [sample_speech])) (js ''b'')))"
proof -
  let ?logs = "(\<lambda>_. [])(js ''a'' := [sample_speech])"
  let ?before = "\<lparr>session_logs = (\<lambda>_. []), session_svc = sample_team, delivered = []\<rparr>"
  let ?after = "\<lparr>session_logs = ?logs, session_svc = sample_team, delivered = []\<rparr>"
  have "session_step ?before ?after"
    using session_step.missed [of ?before "js ''a''" sample_speech] by simp
  then have run: "session_run ?before ?after" by (rule session_run.continue [OF session_run.start])
  have m: "map_option (\<lambda>ms. (src_consumes (reg_source (ms_registration ms)), ms_drained ms))
      (member_of sample_team 0 (js ''b'')) = Some (True, {})"
    by code_simp
  then obtain ms where ms: "member_of sample_team 0 (js ''b'') = Some ms"
    "src_consumes (reg_source (ms_registration ms))" "ms_drained ms = {}" by auto
  have d: "map unit_anchor (other_units ?logs (roster sample_team 0) (js ''b'')) = [js ''m1'']" by code_simp
  have "distinct (map unit_anchor (other_units (session_logs ?after) (roster sample_team 0) (js ''b'')))"
    unfolding team_session.simps d by simp
  from broadcast_exactly_once [OF sample_team_reach ms run this] show ?thesis
    unfolding team_session.simps .
qed

end
