(* ===== verification/Hooks.thy ===== *)
theory Hooks
  imports Game_Runtime "HOL-Library.List_Lexorder"
begin

declare js_simps(2) [simp del]

text \<open>
  The hook engine \<open>common/js/dsh-plugins/saolei/hooks/src\<close>: the resource caps (\<open>limits.ts\<close>), script
  compilation and execution (\<open>sandbox.ts\<close>), the registry (\<open>registry.ts\<close>), the planner's tool
  (\<open>tool.ts\<close>) and the board-change handler (\<open>handler.ts\<close>). The JavaScript engine that parses and
  runs a script is a parameter: \<open>parse\<close> turns a wrapped source into a script or a thrown value,
  \<open>run\<close> runs a script on a board snapshot within its time budget. A thrown value is described by
  the string properties the code reads of it.
\<close>

section \<open>Limits\<close>

definition MAX_HOOKS :: nat where "MAX_HOOKS = 8"
definition MAX_SCRIPT_CHARS :: nat where "MAX_SCRIPT_CHARS = 16384"
definition MAX_OUTPUT_CHARS :: nat where "MAX_OUTPUT_CHARS = 4096"
definition EXECUTION_TIMEOUT_MS :: nat where "EXECUTION_TIMEOUT_MS = 500"

section \<open>The sandbox\<close>

definition BANNED_PATTERNS :: "jstr list" where
  "BANNED_PATTERNS =
     [js ''require('', js ''import '', js ''process.'', js ''globalThis.'', js ''global.'',
      js ''fetch('', js ''child_process'', js ''eval('', js ''Function('']"

definition NOT_SERIALIZABLE :: jstr where
  "NOT_SERIALIZABLE = js ''output is not serializable''"

text \<open>The properties are absent for a thrown value that is not an object.\<close>

record thrown =
  th_code :: "jstr option"
  th_message :: "jstr option"
  th_name :: "jstr option"
  th_stack :: "jstr option"
  th_string :: jstr

definition errorMessage :: "thrown \<Rightarrow> jstr" where
  "errorMessage e = (case th_message e of Some m \<Rightarrow> m | None \<Rightarrow> th_string e)"

text \<open>The first two sections of \<open>stack.split("\n\n")\<close>, and the first line of a text.\<close>

definition before :: "jstr \<Rightarrow> jstr \<Rightarrow> jstr" where
  "before sep s = (case index_of s sep of None \<Rightarrow> s | Some k \<Rightarrow> take k s)"

definition after :: "jstr \<Rightarrow> jstr \<Rightarrow> jstr option" where
  "after sep s = map_option (\<lambda>k. drop (k + length sep) s) (index_of s sep)"

definition stackHead :: "jstr option \<Rightarrow> jstr option" where
  "stackHead stack =
     (case stack of
        None \<Rightarrow> None
      | Some s \<Rightarrow>
          (let position = trim (before [10, 10] s);
               errorLine = (case after [10, 10] s of
                              None \<Rightarrow> []
                            | Some rest \<Rightarrow> trim (before [10] (before [10, 10] rest)));
               text = join [10] (filter (\<lambda>p. p \<noteq> []) [position, errorLine])
           in if text = [] then None else Some text))"

definition compileDetail :: "thrown \<Rightarrow> jstr" where
  "compileDetail e =
     (case stackHead (th_stack e) of
        Some block \<Rightarrow> block
      | None \<Rightarrow> (case th_name e of
                   None \<Rightarrow> errorMessage e
                 | Some name \<Rightarrow> name @ js '': '' @ errorMessage e))"

definition compileRejection :: "thrown \<Rightarrow> jstr" where
  "compileRejection e = js ''hook script does not compile:'' @ [10] @ compileDetail e"

definition wrapSource :: "jstr \<Rightarrow> jstr" where
  "wrapSource source = js ''(function(board) {'' @ [10] @ source @ [10] @ js ''})(board)''"

definition compileHookScript :: "(jstr \<Rightarrow> thrown + 'script) \<Rightarrow> jstr \<Rightarrow> jstr + 'script" where
  "compileHookScript parse source =
     (if MAX_SCRIPT_CHARS < length source then
        Inl (js ''hook script exceeds the '' @ str_of_nat MAX_SCRIPT_CHARS @
             js ''-character limit (got '' @ str_of_nat (length source) @ js '')'')
      else case List.find (contains source) BANNED_PATTERNS of
        Some banned \<Rightarrow> Inl (js ''hook script uses a banned pattern: '' @ banned)
      | None \<Rightarrow> (case parse (wrapSource source) of
                   Inl e \<Rightarrow> Inl (compileRejection e)
                 | Inr script \<Rightarrow> Inr script))"

text \<open>The board through JSON: a counter value that is not a number becomes \<open>null\<close>.\<close>

datatype json_counter = JsonDecoded "int option" | JsonUndecoded

record board_snapshot =
  snap_width :: int
  snap_height :: int
  snap_grid :: "jstr list list"
  snap_counter :: "json_counter option"

fun json_number :: "js_number \<Rightarrow> int option" where
  "json_number NaN = None"
| "json_number (Num v) = Some v"

fun json_mine_counter :: "mine_counter \<Rightarrow> json_counter" where
  "json_mine_counter (Decoded v) = JsonDecoded (json_number v)"
| "json_mine_counter Undecoded = JsonUndecoded"

definition snapshot :: "game_state \<Rightarrow> board_snapshot" where
  "snapshot board =
     \<lparr>snap_width = gwidth board, snap_height = gheight board,
      snap_grid = map (map cell_name) (grid board),
      snap_counter = map_option json_mine_counter (mineCounter board)\<rparr>"

text \<open>A returned value other than a string or \<open>undefined\<close> is seen through \<open>JSON.stringify\<close>: its text,
  or none (it throws, or yields \<open>undefined\<close>).\<close>

datatype js_value = JString jstr | JUndefined | JOther "jstr option"

datatype hook_run_result = Output jstr | Empty | HookError jstr | Timeout | Truncated jstr

definition textResult :: "jstr \<Rightarrow> hook_run_result" where
  "textResult text =
     (if text = [] then Empty
      else if MAX_OUTPUT_CHARS < length text then Truncated (take MAX_OUTPUT_CHARS text)
      else Output text)"

fun classifyOutput :: "js_value \<Rightarrow> hook_run_result" where
  "classifyOutput (JString s) = textResult s"
| "classifyOutput JUndefined = HookError NOT_SERIALIZABLE"
| "classifyOutput (JOther None) = HookError NOT_SERIALIZABLE"
| "classifyOutput (JOther (Some t)) = textResult t"

definition isTimeout :: "thrown \<Rightarrow> bool" where
  "isTimeout e \<longleftrightarrow> th_code e = Some (js ''ERR_SCRIPT_EXECUTION_TIMEOUT'')"

definition runHookScript ::
  "('script \<Rightarrow> board_snapshot \<Rightarrow> thrown + js_value) \<Rightarrow> 'script \<Rightarrow> game_state \<Rightarrow> hook_run_result" where
  "runHookScript run script board =
     (case run script (snapshot board) of
        Inl e \<Rightarrow> if isTimeout e then Timeout else HookError (errorMessage e)
      | Inr returned \<Rightarrow> classifyOutput returned)"

section \<open>The registry\<close>

record 'script hook_entry =
  hook_name :: jstr
  hook_script :: 'script
  hook_source :: jstr
  hook_order :: nat

record 'script hook_registry =
  hook_entries :: "'script hook_entry list"
  nextOrder :: nat

record hook_summary =
  sum_name :: jstr
  sum_order :: nat
  sum_length :: nat

definition new_registry :: "'script hook_registry" where
  "new_registry = \<lparr>hook_entries = [], nextOrder = 0\<rparr>"

text \<open>\<open>Map.set\<close>: the entry keeps its place, a new one goes to the end.\<close>

fun put_entry :: "'script hook_entry \<Rightarrow> 'script hook_entry list \<Rightarrow> 'script hook_entry list" where
  "put_entry e [] = [e]"
| "put_entry e (x # xs) = (if hook_name x = hook_name e then e # xs else x # put_entry e xs)"

definition find_entry :: "jstr \<Rightarrow> 'script hook_registry \<Rightarrow> 'script hook_entry option" where
  "find_entry name reg = List.find (\<lambda>e. hook_name e = name) (hook_entries reg)"

definition registry_set ::
  "(jstr \<Rightarrow> thrown + 'script) \<Rightarrow> jstr \<Rightarrow> jstr \<Rightarrow> 'script hook_registry \<Rightarrow>
   (jstr + unit) \<times> 'script hook_registry" where
  "registry_set parse name source reg =
     (if trim name = [] then (Inl (js ''hook name must not be empty''), reg)
      else
        (let existing = find_entry name reg in
         if existing = None \<and> MAX_HOOKS \<le> length (hook_entries reg) then
           (Inl (js ''at most '' @ str_of_nat MAX_HOOKS @ js '' hooks can be registered (already '' @
                 str_of_nat (length (hook_entries reg)) @ js ''); remove one before adding another''), reg)
         else case compileHookScript parse source of
           Inl rejection \<Rightarrow> (Inl rejection, reg)
         | Inr script \<Rightarrow>
             (let ord = (case existing of Some e \<Rightarrow> hook_order e | None \<Rightarrow> nextOrder reg)
              in (Inr (), reg\<lparr>hook_entries := put_entry
                     \<lparr>hook_name = name, hook_script = script, hook_source = source, hook_order = ord\<rparr>
                     (hook_entries reg),
                   nextOrder := (if existing = None then nextOrder reg + 1 else nextOrder reg)\<rparr>))))"

definition ordered :: "'script hook_registry \<Rightarrow> 'script hook_entry list" where
  "ordered reg = sort_key hook_order (hook_entries reg)"

definition names :: "'script hook_registry \<Rightarrow> jstr" where
  "names reg =
     (let ns = map hook_name (ordered reg) in if ns = [] then js ''(none)'' else join (js '', '') ns)"

definition registry_remove :: "jstr \<Rightarrow> 'script hook_registry \<Rightarrow> (jstr + unit) \<times> 'script hook_registry" where
  "registry_remove name reg =
     (if find_entry name reg = None then
        (Inl (js ''no hook named '' @ [34] @ name @ [34] @ js '' is registered; registered hooks: '' @
              names reg), reg)
      else (Inr (), reg\<lparr>hook_entries := filter (\<lambda>e. hook_name e \<noteq> name) (hook_entries reg)\<rparr>))"

definition registry_list :: "'script hook_registry \<Rightarrow> hook_summary list" where
  "registry_list reg =
     map (\<lambda>e. \<lparr>sum_name = hook_name e, sum_order = hook_order e, sum_length = length (hook_source e)\<rparr>)
       (ordered reg)"

definition entriesInOrder :: "'script hook_registry \<Rightarrow> 'script hook_entry list" where
  "entriesInOrder reg = ordered reg"

section \<open>The tool\<close>

definition SAOLEI_HOOK_TOOL_NAME :: jstr where "SAOLEI_HOOK_TOOL_NAME = js ''saolei_hook''"

definition SAOLEI_HOOK_DESCRIPTION :: jstr where
  "SAOLEI_HOOK_DESCRIPTION =
     js ''Manage the minesweeper hook scripts. A hook script runs automatically '' @
     js ''against the recognized board after each batch of cell operations that '' @
     js ''changes the board, and every non-empty result is broadcast to the team. '' @
     js ''Three mutually exclusive actions: action=set registers or updates one '' @
     js ''script (name and script); action=remove deletes one script (name); '' @
     js ''action=list reports the registered scripts (no other fields). '' @
     [10, 10] @
     js ''A script is the BODY of a synchronous function whose input is the board '' @
     js ''as a JSON object `board`: board.width and board.height give the board '' @
     js ''size; board.grid[y][x] is one cell symbol, row-major (grid[0] is the '' @
     js ''top row), with symbols '' @ [0x22] @ js ''INITIAL'' @ [0x22] @ js '' (unrevealed cell), '' @ [0x22] @ js ''0'' @ [0x22] @ js ''..'' @ [0x22] @ js ''8'' @ [0x22] @ js '' (revealed '' @
     js ''number), '' @ [0x22] @ js ''FLAG'' @ [0x22] @ js '', '' @ [0x22] @ js ''HIT_MINE'' @ [0x22] @ js '', '' @ [0x22] @ js ''MINE'' @ [0x22] @ js '' and '' @ [0x22] @ js ''UNKNOWN'' @ [0x22] @ js '' (recognition '' @
     js ''uncertain); board.mineCounter is optional and holds either {decoded: '' @
     js ''true, value}, where value = remaining mines minus flags (NEGATIVE when '' @
     js ''over-flagged), or {decoded: false} when the counter could not be read '' @
     js ''(then it is absent). The body must `return` a string or a '' @
     js ''JSON-serializable object, which is rendered through JSON.stringify. The '' @
     js ''board is a JSON snapshot: writing to `board` never changes the game '' @
     js ''state. '' @
     [10, 10] @
     js ''An empty-string return announces nothing, so return text only when it '' @
     js ''carries a useful conclusion and keep the scripts low-noise. A body with '' @
     js ''no `return` (undefined) or a non-serializable return value is announced '' @
     js ''as `error: output is not serializable`. '' @
     [10, 10] @
     js ''Nothing is persisted: the registry is empty for every team '' @
     js ''refresh/rebuild and is discarded when the team is disposed. A script '' @
     js ''that should survive a refresh must be saved by the caller and '' @
     js ''registered again in the new team. '' @
     [10, 10] @
     js ''Scripts run synchronously in a restricted sandbox with no host APIs: '' @
     js ''require, process, fetch, timers and network are unavailable; only the '' @
     js ''ECMAScript builtins and the `board` data are visible. Limits: one run '' @
     js ''may take at most '' @
     str_of_nat EXECUTION_TIMEOUT_MS @
     js ''ms (a longer run is interrupted and announced as a timeout); output '' @
     js ''beyond '' @
     str_of_nat MAX_OUTPUT_CHARS @
     js '' characters is truncated with a marker; a script body may be at most '' @
     str_of_nat MAX_SCRIPT_CHARS @
     js '' characters; at most '' @
     str_of_nat MAX_HOOKS @
     js '' hooks may be registered. '' @
     [10, 10] @
     js ''Triggering: after a board-changing batch of cell operations, every '' @
     js ''registered hook runs in registration order on the new board and each '' @
     js ''non-empty result is broadcast to the team '' @ [0x2014] @ js '' a player in the middle of '' @
     js ''its turn sees it at the next step of the same turn. Starting or ending '' @
     js ''a game does NOT trigger the hooks. '' @
     [10, 10] @
     js ''action=set on an existing name updates that script in place and keeps '' @
     js ''its position in the execution order.''"

datatype saolei_hook_action = SetHook | RemoveHook | ListHooks

definition SAOLEI_HOOK_ACTIONS :: "(jstr \<times> saolei_hook_action) list" where
  "SAOLEI_HOOK_ACTIONS = [(js ''set'', SetHook), (js ''remove'', RemoveHook), (js ''list'', ListHooks)]"

fun hook_action_name :: "saolei_hook_action \<Rightarrow> jstr" where
  "hook_action_name SetHook = js ''set''"
| "hook_action_name RemoveHook = js ''remove''"
| "hook_action_name ListHooks = js ''list''"

text \<open>\<open>ha_other\<close> are the keys besides the three declared ones that have a value; an action that is not a
  string counts as absent.\<close>

record hook_args =
  ha_action :: "jstr option"
  ha_name :: "jstr option"
  ha_script :: "jstr option"
  ha_other :: "jstr list"

fun ACCEPTED_FIELDS :: "saolei_hook_action \<Rightarrow> jstr list" where
  "ACCEPTED_FIELDS SetHook = [js ''name'', js ''script'']"
| "ACCEPTED_FIELDS RemoveHook = [js ''name'']"
| "ACCEPTED_FIELDS ListHooks = []"

datatype normalized_call = SetCall jstr jstr | RemoveCall jstr | ListCall

definition refuse :: "jstr \<Rightarrow> jstr" where
  "refuse detail = SAOLEI_HOOK_TOOL_NAME @ [32, 0x2192, 32] @ js ''rejected: '' @ detail"

definition readAction :: "hook_args \<Rightarrow> saolei_hook_action option" where
  "readAction args = Option.bind (ha_action args) (map_of SAOLEI_HOOK_ACTIONS)"

definition unexpectedFields :: "hook_args \<Rightarrow> saolei_hook_action \<Rightarrow> jstr list" where
  "unexpectedFields args action =
     sort (filter (\<lambda>key. key \<notin> set (ACCEPTED_FIELDS action))
       ((if ha_name args = None then [] else [js ''name'']) @
        (if ha_script args = None then [] else [js ''script'']) @ ha_other args))"

definition normalizeCall :: "hook_args \<Rightarrow> jstr + normalized_call" where
  "normalizeCall args =
     (case readAction args of
        None \<Rightarrow> Inl (refuse (js ''provide exactly one action: '' @ join (js '', '') (map fst SAOLEI_HOOK_ACTIONS)))
      | Some action \<Rightarrow>
          (let unexpected = unexpectedFields args action in
           if unexpected \<noteq> [] then
             Inl (refuse (js ''the '' @ hook_action_name action @ js '' action does not accept: '' @
                          join (js '', '') unexpected))
           else case action of
             SetHook \<Rightarrow>
               (case (ha_name args, ha_script args) of
                  (Some name, Some script) \<Rightarrow> Inr (SetCall name script)
                | _ \<Rightarrow> Inl (refuse (js ''the set action requires '' @ join (js '' and '')
                          ((if ha_name args = None then [js ''name''] else []) @
                           (if ha_script args = None then [js ''script''] else [])))))
           | RemoveHook \<Rightarrow>
               (case ha_name args of
                  None \<Rightarrow> Inl (refuse (js ''the remove action requires name''))
                | Some name \<Rightarrow> Inr (RemoveCall name))
           | ListHooks \<Rightarrow> Inr ListCall))"

definition listText :: "'script hook_registry \<Rightarrow> jstr" where
  "listText reg =
     (let entries = registry_list reg in
      if entries = [] then SAOLEI_HOOK_TOOL_NAME @ [32, 0x2192, 32] @ js ''no hooks registered''
      else js ''registered hooks (execution order):'' @ [10] @
           join [10] (map (\<lambda>e. js ''- '' @ sum_name e @ js '' (order '' @ str_of_nat (sum_order e) @
                                js '', '' @ str_of_nat (sum_length e) @ js '' chars)'') entries))"

definition executeSaoleiHook ::
  "(jstr \<Rightarrow> thrown + 'script) \<Rightarrow> hook_args \<Rightarrow> 'script hook_registry \<Rightarrow> jstr \<times> 'script hook_registry" where
  "executeSaoleiHook parse args reg =
     (case normalizeCall args of
        Inl rejection \<Rightarrow> (rejection, reg)
      | Inr (SetCall name script) \<Rightarrow>
          (case registry_set parse name script reg of
             (Inl rejection, reg') \<Rightarrow> (refuse rejection, reg')
           | (Inr _, reg') \<Rightarrow> (js ''registered hook '' @ [34] @ name @ [34], reg'))
      | Inr (RemoveCall name) \<Rightarrow>
          (case registry_remove name reg of
             (Inl rejection, reg') \<Rightarrow> (refuse rejection, reg')
           | (Inr _, reg') \<Rightarrow> (js ''removed hook '' @ [34] @ name @ [34], reg'))
      | Inr ListCall \<Rightarrow> (listText reg, reg))"

section \<open>The board-change handler\<close>

fun announcementFor :: "jstr \<Rightarrow> hook_run_result \<Rightarrow> jstr option" where
  "announcementFor name (Output t) = Some (js ''[hook '' @ name @ js ''] '' @ t)"
| "announcementFor name (Truncated t) = Some (js ''[hook '' @ name @ js ''] '' @ t @ js '' ...[truncated]'')"
| "announcementFor name (HookError m) = Some (js ''[hook '' @ name @ js ''] error: '' @ m)"
| "announcementFor name Timeout =
     Some (js ''[hook '' @ name @ js ''] timeout after '' @ str_of_nat EXECUTION_TIMEOUT_MS @ js ''ms'')"
| "announcementFor name Empty = None"

text \<open>
  The collaborators over a world: the shared registry, read per event, the announcement seam, which
  may throw, and the logger's warning.
\<close>

record ('script, 'w) hook_deps =
  read_registry :: "'w \<Rightarrow> 'script hook_registry"
  announce :: "jstr \<Rightarrow> 'w \<Rightarrow> (jstr + unit) \<times> 'w"
  hook_warn :: "jstr \<Rightarrow> 'w \<Rightarrow> 'w"

fun run_hooks ::
  "('script \<Rightarrow> board_snapshot \<Rightarrow> thrown + js_value) \<Rightarrow> ('script, 'w) hook_deps \<Rightarrow> game_state \<Rightarrow>
   'script hook_entry list \<Rightarrow> 'w \<Rightarrow> (jstr + unit) \<times> 'w" where
  "run_hooks run d board [] w = (Inr (), w)"
| "run_hooks run d board (hook # hooks) w =
     (case announcementFor (hook_name hook) (runHookScript run (hook_script hook) board) of
        None \<Rightarrow> run_hooks run d board hooks w
      | Some t \<Rightarrow>
          (case announce d t w of
             (Inl e, w1) \<Rightarrow> (Inl e, w1)
           | (Inr _, w1) \<Rightarrow> run_hooks run d board hooks w1))"

text \<open>The handler never throws, which the game runtime sees as \<open>True\<close>.\<close>

definition createOnBoardChange ::
  "('script \<Rightarrow> board_snapshot \<Rightarrow> thrown + js_value) \<Rightarrow> ('script, 'w) hook_deps \<Rightarrow>
   game_log_entry \<Rightarrow> 'w \<Rightarrow> bool \<times> 'w" where
  "createOnBoardChange run d entry w =
     (case run_hooks run d (log_state entry) (entriesInOrder (read_registry d w)) w of
        (Inr _, w1) \<Rightarrow> (True, w1)
      | (Inl e, w1) \<Rightarrow> (True, hook_warn d (js ''saolei hook handler failed: '' @ e) w1))"

section \<open>The unit of a team\<close>

text \<open>\<open>buildMount().buildHooksUnit\<close>: one fresh registry, shared by the tool and the handler; no logger is
  passed, so a failure is swallowed silently. The unit's state is the registry beside the world.\<close>

type_synonym ('script, 'w) hook_world = "'script hook_registry \<times> 'w"

record ('script, 'w) hooks_unit =
  unit_tool :: "hook_args \<Rightarrow> ('script, 'w) hook_world \<Rightarrow> jstr \<times> ('script, 'w) hook_world"
  unit_onBoardChange :: "game_log_entry \<Rightarrow> ('script, 'w) hook_world \<Rightarrow> bool \<times> ('script, 'w) hook_world"

definition unit_deps ::
  "(jstr \<Rightarrow> 'w \<Rightarrow> (jstr + unit) \<times> 'w) \<Rightarrow> ('script, ('script, 'w) hook_world) hook_deps" where
  "unit_deps ann =
     \<lparr>read_registry = fst,
      announce = (\<lambda>t (reg, w). case ann t w of (r, w') \<Rightarrow> (r, reg, w')),
      hook_warn = (\<lambda>_ hw. hw)\<rparr>"

definition buildHooksUnit ::
  "(jstr \<Rightarrow> thrown + 'script) \<Rightarrow> ('script \<Rightarrow> board_snapshot \<Rightarrow> thrown + js_value) \<Rightarrow>
   (jstr \<Rightarrow> 'w \<Rightarrow> (jstr + unit) \<times> 'w) \<Rightarrow> ('script, 'w) hooks_unit" where
  "buildHooksUnit parse run ann =
     \<lparr>unit_tool = (\<lambda>args (reg, w). case executeSaoleiHook parse args reg of (t, reg') \<Rightarrow> (t, reg', w)),
      unit_onBoardChange = createOnBoardChange run (unit_deps ann)\<rparr>"

section \<open>The registry invariant\<close>

text \<open>A hook was compiled from the source it is listed with, which passed the caps.\<close>

definition hook_ok :: "(jstr \<Rightarrow> thrown + 'script) \<Rightarrow> 'script hook_entry \<Rightarrow> bool" where
  "hook_ok parse e \<longleftrightarrow>
     trim (hook_name e) \<noteq> [] \<and> compileHookScript parse (hook_source e) = Inr (hook_script e)"

definition hooks_ok :: "(jstr \<Rightarrow> thrown + 'script) \<Rightarrow> 'script hook_registry \<Rightarrow> bool" where
  "hooks_ok parse reg \<longleftrightarrow>
     distinct (map hook_name (hook_entries reg)) \<and> length (hook_entries reg) \<le> MAX_HOOKS \<and>
     sorted_wrt (<) (map hook_order (hook_entries reg)) \<and>
     (\<forall>e \<in> set (hook_entries reg). hook_order e < nextOrder reg \<and> hook_ok parse e)"

text \<open>A put under a held name and order changes neither the names nor the orders; any other appends.\<close>

lemma find_entry_None: "find_entry n reg = None \<longleftrightarrow> n \<notin> hook_name ` set (hook_entries reg)"
  by (auto simp: find_entry_def find_None_iff_all)

lemma find_entry_Some: "find_entry n reg = Some e \<Longrightarrow> e \<in> set (hook_entries reg) \<and> hook_name e = n"
  by (auto simp: find_entry_def find_Some_iff)

lemma put_new: "hook_name e \<notin> hook_name ` set es \<Longrightarrow> put_entry e es = es @ [e]"
  by (induction es) auto

lemma put_held:
  assumes "distinct (map hook_name es)" "old \<in> set es" "hook_name old = hook_name e"
  shows "put_entry e es = map (\<lambda>x. if hook_name x = hook_name e then e else x) es"
  using assms
proof (induction es)
  case (Cons x xs)
  have "map (\<lambda>x. if hook_name x = hook_name e then e else x) xs = xs" if "hook_name x = hook_name e"
    using Cons.prems(1) that by (intro map_idI) (force simp: image_iff)
  with Cons show ?case by auto
qed simp

lemma held_orders:
  assumes "distinct (map hook_name es)" "old \<in> set es" "hook_name old = hook_name e"
    and "hook_order e = hook_order old"
  shows "map hook_order (map (\<lambda>x. if hook_name x = hook_name e then e else x) es) = map hook_order es"
proof -
  have "x = old" if "x \<in> set es" "hook_name x = hook_name e" for x
    using assms that by (metis inj_onD distinct_map)
  with assms(4) show ?thesis by auto
qed

lemma strict_sorted_ordered: "hooks_ok parse reg \<Longrightarrow> ordered reg = hook_entries reg"
  unfolding ordered_def hooks_ok_def
  by (metis sort_key_id_if_sorted strict_sorted_imp_sorted)

lemma new_registry_ok: "hooks_ok parse new_registry"
  by (simp add: hooks_ok_def new_registry_def)

text \<open>The outcomes of a set: a refusal, an update in place, an append.\<close>

lemma registry_set_cases [consumes 1, case_names refused updated appended]:
  assumes "registry_set parse name source reg = (r, reg')"
  obtains t where "r = Inl t" "reg' = reg"
    "trim name = [] \<or> find_entry name reg = None \<and> MAX_HOOKS \<le> length (hook_entries reg) \<or>
     isl (compileHookScript parse source)"
  | old script where "r = Inr ()" "trim name \<noteq> []" "find_entry name reg = Some old"
      "compileHookScript parse source = Inr script"
      "reg' = reg\<lparr>hook_entries := put_entry
         \<lparr>hook_name = name, hook_script = script, hook_source = source, hook_order = hook_order old\<rparr>
         (hook_entries reg)\<rparr>"
  | script where "r = Inr ()" "trim name \<noteq> []" "find_entry name reg = None"
      "length (hook_entries reg) < MAX_HOOKS" "compileHookScript parse source = Inr script"
      "reg' = reg\<lparr>hook_entries := put_entry
         \<lparr>hook_name = name, hook_script = script, hook_source = source, hook_order = nextOrder reg\<rparr>
         (hook_entries reg), nextOrder := nextOrder reg + 1\<rparr>"
  using assms
  by (auto simp: registry_set_def Let_def not_le split: if_splits sum.splits option.splits)

text \<open>Every tool call is a set, a removal, or leaves the registry alone.\<close>

lemma set_keeps: "hooks_ok parse reg \<Longrightarrow> hooks_ok parse (snd (registry_set parse name source reg))"
proof (cases "registry_set parse name source reg")
  case (Pair r reg')
  assume ok: "hooks_ok parse reg"
  from Pair show ?thesis
  proof (cases rule: registry_set_cases)
    case (updated old script)
    from find_entry_Some [OF updated(3)] have old: "old \<in> set (hook_entries reg)" "hook_name old = name"
      by simp_all
    let ?e = "\<lparr>hook_name = name, hook_script = script, hook_source = source, hook_order = hook_order old\<rparr>"
    have d: "distinct (map hook_name (hook_entries reg))" using ok by (simp add: hooks_ok_def)
    have "map hook_name (put_entry ?e (hook_entries reg)) = map hook_name (hook_entries reg)"
      using put_held [OF d old(1), of ?e] old(2) by simp
    moreover have "map hook_order (put_entry ?e (hook_entries reg)) = map hook_order (hook_entries reg)"
      using put_held [OF d old(1), of ?e] held_orders [OF d old(1), of ?e] old(2) by simp
    moreover have "set (put_entry ?e (hook_entries reg)) \<subseteq> insert ?e (set (hook_entries reg))"
      using put_held [OF d old(1), of ?e] old(2) by auto
    moreover have "length (put_entry ?e (hook_entries reg)) = length (hook_entries reg)"
      using put_held [OF d old(1), of ?e] old(2) by simp
    ultimately show ?thesis
      using ok Pair updated old(1) by (auto simp: hooks_ok_def hook_ok_def)
  next
    case (appended script)
    with ok Pair show ?thesis
      by (auto simp: hooks_ok_def hook_ok_def find_entry_None put_new sorted_wrt_append less_Suc_eq)
  qed (use ok Pair in simp)
qed

lemma remove_keeps: "hooks_ok parse reg \<Longrightarrow> hooks_ok parse (snd (registry_remove name reg))"
proof -
  have "distinct (map f xs) \<Longrightarrow> distinct (map f (filter P xs))" for f :: "'a hook_entry \<Rightarrow> jstr" and P xs
    by (simp add: distinct_map_filter)
  moreover have "sorted_wrt (<) (map f xs) \<Longrightarrow> sorted_wrt (<) (map f (filter P xs))"
    for f :: "'a hook_entry \<Rightarrow> nat" and P xs
    by (induction xs) auto
  moreover have "length (filter P xs) \<le> n" if "length xs \<le> n" for P and xs :: "'a hook_entry list" and n
    using that length_filter_le [of P xs] by linarith
  ultimately show "hooks_ok parse reg \<Longrightarrow> hooks_ok parse (snd (registry_remove name reg))"
    by (auto simp: hooks_ok_def registry_remove_def)
qed

lemma tool_keeps: "hooks_ok parse reg \<Longrightarrow> hooks_ok parse (snd (executeSaoleiHook parse args reg))"
  using set_keeps [of parse reg] remove_keeps [of parse reg]
  by (auto simp: executeSaoleiHook_def split: sum.split normalized_call.split prod.split)
    (metis snd_conv)+

section \<open>The abstract registry\<close>

text \<open>What the planner means: a list of named sources in registration order, at most \<open>MAX_HOOKS\<close> of them.\<close>

type_synonym hook_list = "(jstr \<times> jstr) list"

definition hook_view :: "'script hook_registry \<Rightarrow> hook_list" where
  "hook_view reg = map (\<lambda>e. (hook_name e, hook_source e)) (ordered reg)"

definition spec_set :: "(jstr \<Rightarrow> jstr \<Rightarrow> bool) \<Rightarrow> jstr \<Rightarrow> jstr \<Rightarrow> hook_list \<Rightarrow> hook_list" where
  "spec_set accepted n src v =
     (if \<not> accepted n src then v
      else if n \<in> fst ` set v then map (\<lambda>(m, t). (m, if m = n then src else t)) v
      else if length v < MAX_HOOKS then v @ [(n, src)] else v)"

definition spec_call :: "(jstr \<Rightarrow> thrown + 'script) \<Rightarrow> hook_list \<Rightarrow> hook_args \<Rightarrow> hook_list" where
  "spec_call parse v args =
     (case normalizeCall args of
        Inr (SetCall n src) \<Rightarrow>
          spec_set (\<lambda>m t. trim m \<noteq> [] \<and> \<not> isl (compileHookScript parse t)) n src v
      | Inr (RemoveCall n) \<Rightarrow> filter (\<lambda>p. fst p \<noteq> n) v
      | _ \<Rightarrow> v)"

lemma view_entries: "hooks_ok parse reg \<Longrightarrow> hook_view reg = map (\<lambda>e. (hook_name e, hook_source e)) (hook_entries reg)"
  by (simp add: hook_view_def strict_sorted_ordered)

lemma set_refines:
  assumes ok: "hooks_ok parse reg"
  shows "hook_view (snd (registry_set parse n src reg)) =
    spec_set (\<lambda>m t. trim m \<noteq> [] \<and> \<not> isl (compileHookScript parse t)) n src (hook_view reg)"
proof -
  obtain r reg' where st: "registry_set parse n src reg = (r, reg')" by fastforce
  have ok': "hooks_ok parse reg'" using set_keeps [OF ok] st by (metis snd_conv)
  have names: "fst ` set (hook_view reg) = hook_name ` set (hook_entries reg)"
    by (simp add: view_entries [OF ok] image_image)
  have len: "length (hook_view reg) = length (hook_entries reg)" by (simp add: view_entries [OF ok])
  from st show ?thesis
  proof (cases rule: registry_set_cases)
    case refused
    then show ?thesis
      using st names len by (auto simp: spec_set_def find_entry_None)
  next
    case (updated old script)
    from find_entry_Some [OF updated(3)] have old: "old \<in> set (hook_entries reg)" "hook_name old = n"
      by simp_all
    have d: "distinct (map hook_name (hook_entries reg))" using ok by (simp add: hooks_ok_def)
    have held: "n \<in> fst ` set (hook_view reg)" using names old by auto
    show ?thesis
      using st updated held old put_held [OF d old(1)] view_entries [OF ok] view_entries [OF ok']
      by (auto simp: spec_set_def)
  next
    case (appended script)
    then have "n \<notin> fst ` set (hook_view reg)" by (simp add: names find_entry_None)
    with appended st len view_entries [OF ok] view_entries [OF ok'] show ?thesis
      by (auto simp: spec_set_def find_entry_None put_new)
  qed
qed

lemma remove_refines:
  assumes ok: "hooks_ok parse reg"
  shows "hook_view (snd (registry_remove n reg)) = filter (\<lambda>p. fst p \<noteq> n) (hook_view reg)"
proof -
  have "filter (\<lambda>e. hook_name e \<noteq> n) es = es" if "n \<notin> hook_name ` set es" for es :: "'a hook_entry list"
    using that by (intro filter_True) auto
  then have "snd (registry_remove n reg) =
      reg\<lparr>hook_entries := filter (\<lambda>e. hook_name e \<noteq> n) (hook_entries reg)\<rparr>"
    by (auto simp: registry_remove_def find_entry_None)
  then show ?thesis
    using view_entries [OF ok] view_entries [OF remove_keeps [OF ok, of n]]
    by (simp add: filter_map comp_def)
qed

lemma tool_refines:
  assumes "hooks_ok parse reg"
  shows "hook_view (snd (executeSaoleiHook parse args reg)) = spec_call parse (hook_view reg) args"
proof (cases "normalizeCall args")
  case (Inr c)
  show ?thesis
  proof (cases c)
    case (SetCall n src)
    with Inr have "snd (executeSaoleiHook parse args reg) = snd (registry_set parse n src reg)"
      by (simp add: executeSaoleiHook_def split: prod.splits sum.splits)
    with Inr SetCall set_refines [OF assms] show ?thesis by (simp add: spec_call_def)
  next
    case (RemoveCall n)
    with Inr have "snd (executeSaoleiHook parse args reg) = snd (registry_remove n reg)"
      by (simp add: executeSaoleiHook_def split: prod.splits sum.splits)
    with Inr RemoveCall remove_refines [OF assms] show ?thesis by (simp add: spec_call_def)
  qed (use Inr in \<open>simp_all add: executeSaoleiHook_def spec_call_def\<close>)
qed (simp add: executeSaoleiHook_def spec_call_def)

section \<open>Announcements\<close>

text \<open>Announcing one text after the other until one throws.\<close>

fun broadcast_all :: "(jstr \<Rightarrow> 'w \<Rightarrow> (jstr + unit) \<times> 'w) \<Rightarrow> jstr list \<Rightarrow> 'w \<Rightarrow> 'w" where
  "broadcast_all ann [] w = w"
| "broadcast_all ann (t # ts) w =
     (case ann t w of (Inl _, w1) \<Rightarrow> w1 | (Inr _, w1) \<Rightarrow> broadcast_all ann ts w1)"

definition hook_text ::
  "(jstr \<Rightarrow> thrown + 'script) \<Rightarrow> ('script \<Rightarrow> board_snapshot \<Rightarrow> thrown + js_value) \<Rightarrow> game_state \<Rightarrow>
   jstr \<times> jstr \<Rightarrow> jstr option" where
  "hook_text parse run board = (\<lambda>(n, src).
     (case compileHookScript parse src of
        Inl _ \<Rightarrow> None
      | Inr script \<Rightarrow> announcementFor n (runHookScript run script board)))"

lemma run_hooks_texts:
  assumes "\<forall>e \<in> set es. hook_ok parse e"
    and "\<forall>t w reg. announce d t (reg, w) = (fst (ann t w), reg, snd (ann t w))"
  shows "snd (run_hooks run d board es (reg, w)) =
    (reg, broadcast_all ann
       (List.map_filter (hook_text parse run board) (map (\<lambda>e. (hook_name e, hook_source e)) es)) w)"
  using assms(1)
proof (induction es arbitrary: w)
  case (Cons e es)
  then show ?case using assms(2)
    by (auto simp: hook_text_def hook_ok_def map_filter_simps split: option.split prod.split sum.split)
qed (simp add: map_filter_simps)

lemma createOnBoardChange_world:
  "createOnBoardChange run d entry w =
     (True, case run_hooks run d (log_state entry) (entriesInOrder (read_registry d w)) w of
              (Inl e, w1) \<Rightarrow> hook_warn d (js ''saolei hook handler failed: '' @ e) w1
            | (Inr _, w1) \<Rightarrow> w1)"
  by (simp add: createOnBoardChange_def split: prod.split sum.split)

text \<open>What a team does with its unit: planner calls and board changes, in any order.\<close>

datatype hook_event = PlannerCalls hook_args | BoardChanges game_log_entry

fun unit_event ::
  "('script, 'w) hooks_unit \<Rightarrow> ('script, 'w) hook_world \<Rightarrow> hook_event \<Rightarrow> ('script, 'w) hook_world" where
  "unit_event u s (PlannerCalls args) = snd (unit_tool u args s)"
| "unit_event u s (BoardChanges entry) = snd (unit_onBoardChange u entry s)"

fun spec_event ::
  "(jstr \<Rightarrow> thrown + 'script) \<Rightarrow> ('script \<Rightarrow> board_snapshot \<Rightarrow> thrown + js_value) \<Rightarrow>
   (jstr \<Rightarrow> 'w \<Rightarrow> (jstr + unit) \<times> 'w) \<Rightarrow> hook_list \<times> 'w \<Rightarrow> hook_event \<Rightarrow> hook_list \<times> 'w" where
  "spec_event parse run ann (v, w) (PlannerCalls args) = (spec_call parse v args, w)"
| "spec_event parse run ann (v, w) (BoardChanges entry) =
     (v, broadcast_all ann (List.map_filter (hook_text parse run (log_state entry)) v) w)"

definition abs_world :: "('script, 'w) hook_world \<Rightarrow> hook_list \<times> 'w" where
  "abs_world = (\<lambda>(reg, w). (hook_view reg, w))"

lemma unit_event_refines:
  assumes "hooks_ok parse (fst s)"
  shows "hooks_ok parse (fst (unit_event (buildHooksUnit parse run ann) s e)) \<and>
    abs_world (unit_event (buildHooksUnit parse run ann) s e) = spec_event parse run ann (abs_world s) e"
proof (cases s)
  case (Pair reg w)
  have ok: "hooks_ok parse reg" using assms Pair by simp
  show ?thesis
  proof (cases e)
    case (PlannerCalls args)
    then show ?thesis
      using tool_keeps [OF ok, of args] tool_refines [OF ok, of args] Pair
      by (simp add: buildHooksUnit_def abs_world_def case_prod_beta)
  next
    case (BoardChanges entry)
    have es: "\<forall>e \<in> set (hook_entries reg). hook_ok parse e" using ok by (simp add: hooks_ok_def)
    have "snd (createOnBoardChange run (unit_deps ann) entry (reg, w)) =
        snd (run_hooks run (unit_deps ann) (log_state entry) (hook_entries reg) (reg, w))"
      by (simp add: createOnBoardChange_world entriesInOrder_def strict_sorted_ordered [OF ok] unit_deps_def
          case_prod_beta split: sum.split)
    then show ?thesis
      using BoardChanges Pair ok run_hooks_texts [OF es, of "unit_deps ann" ann run "log_state entry" reg w]
      by (simp add: buildHooksUnit_def abs_world_def view_entries unit_deps_def case_prod_beta)
  qed
qed

lemma new_view: "hook_view new_registry = []"
  by (simp add: hook_view_def ordered_def new_registry_def)

lemma session_refines:
  "hooks_ok parse (fst s) \<Longrightarrow>
   hooks_ok parse (fst (foldl (unit_event (buildHooksUnit parse run ann)) s es)) \<and>
   abs_world (foldl (unit_event (buildHooksUnit parse run ann)) s es) =
     foldl (spec_event parse run ann) (abs_world s) es"
  by (induction es arbitrary: s) (simp_all add: unit_event_refines)

text \<open>The message of a thrown error is announced in full, whatever its length.\<close>

lemma error_text_uncapped:
  assumes "run script (snapshot board) = Inl e" and "th_message e = Some m"
    and "\<not> isTimeout e"
  shows "announcementFor n (runHookScript run script board) = Some (js ''[hook '' @ n @ js ''] error: '' @ m)"
  using assms by (simp add: runHookScript_def errorMessage_def)

section \<open>Properties\<close>

text \<open>C17: For any sequence of planner calls and board changes, the hook unit of a team behaves as a list of
  named sources: a set updates the source under a held name in place or appends it when it is
  accepted and there is room, a removal deletes it, every other call changes nothing; and a board
  change announces, in list order, the text of every script of the list that yields one, up to the
  first announcement that throws.\<close>
theorem hooks_run_in_registration_order:
  "(case foldl (unit_event (buildHooksUnit parse run ann)) (new_registry, w) events of
      (reg, w') \<Rightarrow> (hook_view reg, w')) =
   foldl (spec_event parse run ann) ([], w) events"
  using session_refines [of parse "(new_registry, w)" run ann events]
  by (simp add: new_registry_ok abs_world_def new_view)

text \<open>In every state of a hook unit the registry holds at most eight hooks, under distinct names, in
  strictly increasing registration order below the next order number, so that the execution order
  is the storage order; and every hook holds the script its own listed source compiles to, which is
  within the length cap and free of banned patterns.\<close>
lemma hook_registry_bounded:
  "case fst (foldl (unit_event (buildHooksUnit parse run ann)) (new_registry, w) events) of reg \<Rightarrow>
     length (hook_entries reg) \<le> 8 \<and> distinct (map hook_name (hook_entries reg)) \<and>
     sorted_wrt (<) (map hook_order (hook_entries reg)) \<and> entriesInOrder reg = hook_entries reg \<and>
     list_all (\<lambda>e. hook_order e < nextOrder reg \<and> parse (wrapSource (hook_source e)) = Inr (hook_script e) \<and>
       length (hook_source e) \<le> 16384 \<and> \<not> list_ex (contains (hook_source e)) BANNED_PATTERNS)
       (hook_entries reg)"
proof -
  define reg where "reg = fst (foldl (unit_event (buildHooksUnit parse run ann)) (new_registry, w) events)"
  have ok: "hooks_ok parse reg"
    using session_refines [of parse "(new_registry, w)" run ann events] by (simp add: new_registry_ok reg_def)
  have compiled: "parse (wrapSource src) = Inr script \<and> length src \<le> 16384 \<and>
      \<not> list_ex (contains src) BANNED_PATTERNS" if "compileHookScript parse src = Inr script" for src script
    using that by (auto simp: compileHookScript_def MAX_SCRIPT_CHARS_def list_ex_iff find_None_iff_all
        split: if_splits option.splits sum.splits)
  from ok compiled have "list_all (\<lambda>e. hook_order e < nextOrder reg \<and>
      parse (wrapSource (hook_source e)) = Inr (hook_script e) \<and>
      length (hook_source e) \<le> 16384 \<and> \<not> list_ex (contains (hook_source e)) BANNED_PATTERNS)
      (hook_entries reg)"
    by (auto simp: list_all_iff hooks_ok_def hook_ok_def)
  with ok show ?thesis unfolding reg_def [symmetric]
    by (simp add: hooks_ok_def MAX_HOOKS_def entriesInOrder_def strict_sorted_ordered [OF ok])
qed

end
