(* ===== verification/Flow.thy ===== *)
theory Flow
  imports JS_Prelude "HOL-Library.Option_ord"
begin

text \<open>
  The flow layer of the saolei team loop, \<open>common/js/dsh-plugins/saolei/loop/src/flow.ts\<close>, and the
  outcome vocabulary of \<open>member.ts\<close>: the activity graph, the facts its edges read, and the decision
  entry that turns a wake into the next start. The graph is a parameter of the runtime, as in the
  class, and the saolei graph is its instance. A terminal record is compared by identity in the code;
  the type \<open>'r\<close> stands for these identities, and the latest record, which the facts read live, is an
  argument of a decision, which runs without interruption.
\<close>

section \<open>Outcomes (member.ts)\<close>

datatype loop_error_code = TRANSIENT | QUOTA | CREDENTIAL | CONFIG | INPUT_TOO_LARGE | INTERNAL

record failure_detail =
  engineCode :: "jstr option"
  fail_message :: jstr

datatype outcome = Settled | Resting | Failed loop_error_code failure_detail | Aborted

section \<open>The flow runtime\<close>

record 'r facts =
  reviewed :: "'r option"
  rounds :: nat
  statsSentFor :: "'r option"

text \<open>The hooks and the edge predicate read the facts with the latest terminal record.\<close>

record ('i, 'm, 'r) activity =
  act_id :: 'i
  act_member :: 'm
  driverless :: bool
  onEnter :: "'r option \<Rightarrow> 'r facts \<Rightarrow> 'r facts"
  onSettle :: "'r option \<Rightarrow> 'r facts \<Rightarrow> 'r facts"
  act_next :: "'r option \<Rightarrow> 'r facts \<Rightarrow> 'i option"

datatype 'i flow_decision = StartActivity 'i | Rest | Frozen

record ('i, 'r) flow =
  position :: 'i
  lastOutcome :: "outcome option"
  frozenError :: "(loop_error_code \<times> failure_detail) option"
  retrying :: bool
  flow_facts :: "'r facts"

definition new_flow :: "'r facts \<Rightarrow> 'i \<Rightarrow> ('i, 'r) flow" where
  "new_flow fs initial =
     \<lparr>position = initial, lastOutcome = None, frozenError = None, retrying = False, flow_facts = fs\<rparr>"

definition activeMemberId :: "('i \<Rightarrow> ('i, 'm, 'r) activity) \<Rightarrow> ('i, 'r) flow \<Rightarrow> 'm" where
  "activeMemberId acts f = act_member (acts (position f))"

fun freezes :: "outcome \<Rightarrow> bool" where
  "freezes (Failed code detail) = True"
| "freezes Aborted = True"
| "freezes Settled = False"
| "freezes Resting = False"

definition paused :: "('i, 'r) flow \<Rightarrow> bool" where
  "paused f \<longleftrightarrow> (case lastOutcome f of Some out \<Rightarrow> freezes out | None \<Rightarrow> False)"

definition judge ::
  "('i \<Rightarrow> ('i, 'm, 'r) activity) \<Rightarrow> 'r option \<Rightarrow> ('i, 'r) flow \<Rightarrow> 'i flow_decision \<times> ('i, 'r) flow" where
  "judge acts terminal f =
     (let target = (case act_next (acts (position f)) terminal (flow_facts f) of
                      Some i \<Rightarrow> i | None \<Rightarrow> position f)
      in (StartActivity target,
          f\<lparr>position := target, lastOutcome := None,
            flow_facts := onEnter (acts target) terminal (flow_facts f)\<rparr>))"

text \<open>The effect of a reported outcome.\<close>

definition absorb ::
  "('i \<Rightarrow> ('i, 'm, 'r) activity) \<Rightarrow> 'r option \<Rightarrow> outcome \<Rightarrow> ('i, 'r) flow \<Rightarrow> ('i, 'r) flow" where
  "absorb acts terminal wake f =
     (let f1 = f\<lparr>lastOutcome := Some wake\<rparr> in
      case wake of
        Settled \<Rightarrow> f1\<lparr>frozenError := None,
                      flow_facts := onSettle (acts (position f)) terminal (flow_facts f)\<rparr>
      | Failed code detail \<Rightarrow> f1\<lparr>frozenError := Some (code, detail)\<rparr>
      | Aborted \<Rightarrow> f1\<lparr>frozenError := None\<rparr>
      | Resting \<Rightarrow> f1)"

definition decide ::
  "('i \<Rightarrow> ('i, 'm, 'r) activity) \<Rightarrow> 'r option \<Rightarrow> outcome option \<Rightarrow> ('i, 'r) flow \<Rightarrow>
   'i flow_decision \<times> ('i, 'r) flow" where
  "decide acts terminal wake f =
     (let wasRetry = retrying f;
          f0 = f\<lparr>retrying := False\<rparr>;
          f1 = (case wake of None \<Rightarrow> f0 | Some out \<Rightarrow> absorb acts terminal out f0)
      in if paused f1 then
           (if wake = None then (StartActivity (position f1), f1\<lparr>retrying := True\<rparr>) else (Frozen, f1))
         else if wake = Some Resting \<and> \<not> wasRetry then (Rest, f1)
         else judge acts terminal f1)"

definition freezeAborted :: "('i, 'r) flow \<Rightarrow> ('i, 'r) flow" where
  "freezeAborted f = f\<lparr>lastOutcome := Some Aborted, frozenError := None\<rparr>"

section \<open>The saolei graph\<close>

definition ROUND_STOP_INTERVAL :: nat where "ROUND_STOP_INTERVAL = 5"

datatype activity_id = Plan | Play | Announce | Review | RestAct

datatype member_id = Player | Planner | Announcer

definition hasUnreviewedTerminal :: "'r option \<Rightarrow> 'r facts \<Rightarrow> bool" where
  "hasUnreviewedTerminal terminal fs \<longleftrightarrow> terminal \<noteq> None \<and> terminal \<noteq> reviewed fs"

definition plain_activity ::
  "'i \<Rightarrow> 'm \<Rightarrow> ('r option \<Rightarrow> 'r facts \<Rightarrow> 'i) \<Rightarrow> ('i, 'm, 'r) activity" where
  "plain_activity i m nxt =
     \<lparr>act_id = i, act_member = m, driverless = False, onEnter = (\<lambda>_ fs. fs), onSettle = (\<lambda>_ fs. fs),
      act_next = (\<lambda>t fs. Some (nxt t fs))\<rparr>"

fun SAOLEI_ACTIVITIES :: "activity_id \<Rightarrow> (activity_id, member_id, 'r) activity" where
  "SAOLEI_ACTIVITIES Plan = plain_activity Plan Planner (\<lambda>_ _. Play)"
| "SAOLEI_ACTIVITIES Play =
     plain_activity Play Player (\<lambda>t fs. if hasUnreviewedTerminal t fs then Announce else Play)"
| "SAOLEI_ACTIVITIES Announce =
     (plain_activity Announce Announcer (\<lambda>_ _. Review))\<lparr>onSettle := (\<lambda>t fs. fs\<lparr>statsSentFor := t\<rparr>)\<rparr>"
| "SAOLEI_ACTIVITIES Review =
     (plain_activity Review Planner (\<lambda>_ fs. if rounds fs < ROUND_STOP_INTERVAL then Play else RestAct))
     \<lparr>onSettle := (\<lambda>t fs. fs\<lparr>reviewed := t, rounds := rounds fs + 1\<rparr>)\<rparr>"
| "SAOLEI_ACTIVITIES RestAct =
     (plain_activity RestAct Player (\<lambda>t fs. if hasUnreviewedTerminal t fs then Announce else Play))
     \<lparr>driverless := True, onEnter := (\<lambda>_ fs. fs\<lparr>rounds := 0\<rparr>)\<rparr>"

definition SaoleiFacts :: "'r facts" where
  "SaoleiFacts = \<lparr>reviewed = None, rounds = 0, statsSentFor = None\<rparr>"

definition createSaoleiFlow :: "(activity_id, 'r) flow" where
  "createSaoleiFlow = new_flow SaoleiFacts Plan"

section \<open>Lemmas on decisions\<close>

lemma absorb_simps [simp]:
  "position (absorb acts t w f) = position f" "retrying (absorb acts t w f) = retrying f"
  "lastOutcome (absorb acts t w f) = Some w"
  by (auto simp: absorb_def Let_def split: outcome.split)

lemma absorb_facts [simp]:
  "flow_facts (absorb acts t w f) =
     (if w = Settled then onSettle (acts (position f)) t (flow_facts f) else flow_facts f)"
  by (auto simp: absorb_def Let_def split: outcome.split)

lemma paused_absorb [simp]: "paused (absorb acts t w f) = freezes w"
  by (simp add: paused_def)

lemma paused_more [simp]: "paused (f\<lparr>retrying := b\<rparr>) = paused f"
  by (simp add: paused_def)

text \<open>The five outcomes of a decision.\<close>

lemma decide_cases [consumes 1, case_names restart frozen rest judged_settle judged_external judged_retry]:
  assumes "decide acts t wake f = (d, f')"
  obtains
    "wake = None" "paused f" "d = StartActivity (position f)" "f' = f\<lparr>retrying := True\<rparr>"
  | out where "wake = Some out" "freezes out" "d = Frozen" "f' = absorb acts t out (f\<lparr>retrying := False\<rparr>)"
  | "wake = Some Resting" "\<not> retrying f" "d = Rest" "f' = absorb acts t Resting (f\<lparr>retrying := False\<rparr>)"
  | "wake = Some Settled" "judge acts t (absorb acts t Settled (f\<lparr>retrying := False\<rparr>)) = (d, f')"
  | "wake = None" "\<not> paused f" "judge acts t (f\<lparr>retrying := False\<rparr>) = (d, f')"
  | "wake = Some Resting" "retrying f" "judge acts t (absorb acts t Resting (f\<lparr>retrying := False\<rparr>)) = (d, f')"
proof (cases wake)
  case None
  with assms that(1,5) show thesis by (auto simp: decide_def Let_def split: if_splits)
next
  case (Some out)
  with assms that(2-4,6) show thesis
    by (cases out) (auto simp: decide_def Let_def split: if_splits)
qed

lemma judge_start: "judge acts t f = (d, f') \<Longrightarrow> d = StartActivity (position f')"
  by (auto simp: judge_def Let_def)

lemma judge_state:
  "judge acts t f = (d, f') \<Longrightarrow> lastOutcome f' = None \<and> retrying f' = retrying f"
  by (auto simp: judge_def Let_def)

section \<open>Runs of the saolei flow\<close>

text \<open>A run is a list of events, each with the latest terminal record at its time; records are numbered
  in the order they are made. Its marks are the completed reviews and the entries of \<open>rest\<close>.\<close>

datatype flow_event = Decides "outcome option" | CancelsIdle

datatype 'r flow_mark = Reviewed "'r option" | Rested

type_synonym saolei_flow = "(activity_id, nat) flow"

fun flow_step :: "nat option \<Rightarrow> flow_event \<Rightarrow> saolei_flow \<Rightarrow> saolei_flow" where
  "flow_step t (Decides wake) f = snd (decide SAOLEI_ACTIVITIES t wake f)"
| "flow_step t CancelsIdle f = freezeAborted f"

definition step_marks :: "nat option \<Rightarrow> flow_event \<Rightarrow> saolei_flow \<Rightarrow> nat flow_mark list" where
  "step_marks t e f =
     (if e = Decides (Some Settled) \<and> position f = Review then [Reviewed t] else []) @
     (if position (flow_step t e f) = RestAct \<and> position f \<noteq> RestAct then [Rested] else [])"

fun flow_run :: "(nat option \<times> flow_event) list \<Rightarrow> saolei_flow \<Rightarrow> saolei_flow \<times> nat flow_mark list" where
  "flow_run [] f = (f, [])"
| "flow_run ((t, e) # es) f =
     (case flow_run es (flow_step t e f) of (f', marks) \<Rightarrow> (f', step_marks t e f @ marks))"

text \<open>One step: nothing completes, a review completes, or the fifth one does and the flow rests.\<close>

lemma flow_step_cases [case_names stays reviews rests]:
  assumes "rounds (flow_facts f) < ROUND_STOP_INTERVAL"
  obtains
    "step_marks t e f = []" "rounds (flow_facts (flow_step t e f)) = rounds (flow_facts f)"
    "reviewed (flow_facts (flow_step t e f)) = reviewed (flow_facts f)"
    "position (flow_step t e f) \<in> {Announce, Review} \<Longrightarrow>
       position f \<in> {Announce, Review} \<or> t \<noteq> None \<and> t \<noteq> reviewed (flow_facts f)"
  | "position f = Review" "step_marks t e f = [Reviewed t]" "position (flow_step t e f) = Play"
      "rounds (flow_facts (flow_step t e f)) = rounds (flow_facts f) + 1"
      "rounds (flow_facts f) + 1 < ROUND_STOP_INTERVAL"
      "reviewed (flow_facts (flow_step t e f)) = t"
  | "position f = Review" "step_marks t e f = [Reviewed t, Rested]" "position (flow_step t e f) = RestAct"
      "rounds (flow_facts (flow_step t e f)) = 0" "rounds (flow_facts f) + 1 = ROUND_STOP_INTERVAL"
      "reviewed (flow_facts (flow_step t e f)) = t"
proof (cases e)
  case CancelsIdle
  then show thesis by (intro that(1)) (auto simp: step_marks_def freezeAborted_def)
next
  case (Decides wake)
  obtain d f' where dec: "decide SAOLEI_ACTIVITIES t wake f = (d, f')" by fastforce
  then have step: "flow_step t e f = f'" by (simp add: Decides)
  then have marks: "step_marks t e f =
      (if wake = Some Settled \<and> position f = Review then [Reviewed t] else []) @
      (if position f' = RestAct \<and> position f \<noteq> RestAct then [Rested] else [])"
    by (simp add: step_marks_def Decides)
  note goal = that [unfolded step marks]
  from dec show thesis
  proof (cases rule: decide_cases)
    case judged_settle
    show thesis
    proof (cases "position f")
      case Review
      with judged_settle assms show thesis
        by (cases "rounds (flow_facts f) + 1 < ROUND_STOP_INTERVAL"; intro goal(2,3))
          (auto simp: judge_def plain_activity_def)
    qed (intro goal(1); use judged_settle in
          \<open>auto simp: judge_def plain_activity_def hasUnreviewedTerminal_def split: if_splits\<close>)+
  next
    case judged_external
    with assms show thesis
      by (intro goal(1); cases "position f")
        (auto simp: judge_def plain_activity_def hasUnreviewedTerminal_def split: if_splits)
  next
    case judged_retry
    with assms show thesis
      by (intro goal(1); cases "position f")
        (auto simp: judge_def plain_activity_def hasUnreviewedTerminal_def split: if_splits)
  qed (intro goal(1); auto)+
qed

text \<open>Blocks of five reviews, each closed by a rest, and the reviews since the last rest.\<close>

definition rest_blocks :: "'r flow_mark list \<Rightarrow> nat \<Rightarrow> bool" where
  "rest_blocks marks n \<longleftrightarrow>
     (\<exists>blocks current. list_all (\<lambda>b. length b = ROUND_STOP_INTERVAL) blocks \<and> length current = n \<and>
        marks = concat (map (\<lambda>b. map Reviewed b @ [Rested]) blocks) @ map Reviewed current)"

lemma rest_blocks_review:
  assumes "rest_blocks marks n"
  shows "rest_blocks (marks @ [Reviewed t]) (n + 1)"
proof -
  from assms obtain blocks current where "list_all (\<lambda>b. length b = ROUND_STOP_INTERVAL) blocks"
    "length current = n" "marks = concat (map (\<lambda>b. map Reviewed b @ [Rested]) blocks) @ map Reviewed current"
    unfolding rest_blocks_def by blast
  then show ?thesis unfolding rest_blocks_def
    by (intro exI [of _ blocks] exI [of _ "current @ [t]"]) simp
qed

lemma rest_blocks_rest:
  assumes "rest_blocks marks ROUND_STOP_INTERVAL"
  shows "rest_blocks (marks @ [Rested]) 0"
proof -
  from assms obtain blocks current where "list_all (\<lambda>b. length b = ROUND_STOP_INTERVAL) blocks"
    "length current = ROUND_STOP_INTERVAL"
    "marks = concat (map (\<lambda>b. map Reviewed b @ [Rested]) blocks) @ map Reviewed current"
    unfolding rest_blocks_def by blast
  then show ?thesis unfolding rest_blocks_def
    by (intro exI [of _ "blocks @ [current]"] exI [of _ "[]"]) simp
qed

lemma flow_run_blocks:
  assumes "rest_blocks pre (rounds (flow_facts f))" "rounds (flow_facts f) < ROUND_STOP_INTERVAL"
    and "flow_run es f = (f', marks)"
  shows "rest_blocks (pre @ marks) (rounds (flow_facts f')) \<and> rounds (flow_facts f') < ROUND_STOP_INTERVAL"
  using assms
proof (induction es arbitrary: f pre marks)
  case (Cons te es)
  obtain t e where te: "te = (t, e)" by fastforce
  obtain marks' where run: "flow_run es (flow_step t e f) = (f', marks')"
    and marks: "marks = step_marks t e f @ marks'"
    using Cons.prems(3) by (auto simp: te split: prod.splits)
  have "rest_blocks (pre @ step_marks t e f) (rounds (flow_facts (flow_step t e f))) \<and>
      rounds (flow_facts (flow_step t e f)) < ROUND_STOP_INTERVAL"
    using Cons.prems(2)
  proof (cases rule: flow_step_cases [of f t e])
    case rests
    with rest_blocks_rest [of "pre @ [Reviewed t]"] rest_blocks_review [OF Cons.prems(1), of t]
    show ?thesis by (simp add: ROUND_STOP_INTERVAL_def)
  qed (use Cons.prems(1,2) rest_blocks_review [OF Cons.prems(1), of t] in simp_all)
  with Cons.IH [OF _ _ run, of "pre @ step_marks t e f"] marks show ?case by simp
qed simp

fun reviewed_records :: "'r flow_mark list \<Rightarrow> 'r option list" where
  "reviewed_records [] = []"
| "reviewed_records (Reviewed t # ms) = t # reviewed_records ms"
| "reviewed_records (Rested # ms) = reviewed_records ms"

lemma reviewed_records_append [simp]:
  "reviewed_records (a @ b) = reviewed_records a @ reviewed_records b"
  by (induction a rule: reviewed_records.induct) simp_all

text \<open>The record under review is newer than every reviewed one.\<close>

lemma flow_run_fresh:
  assumes "flow_run es f = (f', marks)" and "sorted (map fst es)"
    and "rounds (flow_facts f) < ROUND_STOP_INTERVAL"
    and "\<forall>t \<in> fst ` set es. reviewed (flow_facts f) \<le> t"
    and "position f \<in> {Announce, Review} \<Longrightarrow> \<forall>t \<in> fst ` set es. reviewed (flow_facts f) < t"
  shows "sorted_wrt (<) (reviewed_records marks) \<and>
    (\<forall>x \<in> set (reviewed_records marks). reviewed (flow_facts f) < x)"
  using assms
proof (induction es arbitrary: f marks)
  case (Cons te es)
  obtain t e where te: "te = (t, e)" by fastforce
  let ?f = "flow_step t e f"
  obtain marks' where run: "flow_run es ?f = (f', marks')" and marks: "marks = step_marks t e f @ marks'"
    using Cons.prems(1) by (auto simp: te split: prod.splits)
  have srt: "sorted (map fst es)" and later: "\<forall>u \<in> fst ` set es. t \<le> u"
    using Cons.prems(2) by (auto simp: te)
  show ?case
    using Cons.prems(3)
  proof (cases rule: flow_step_cases [of f t e])
    case stays
    have "\<forall>u \<in> fst ` set es. reviewed (flow_facts ?f) < u" if "position ?f \<in> {Announce, Review}"
    proof (cases "position f \<in> {Announce, Review}")
      case True
      with Cons.prems(5) stays(3) show ?thesis by (auto simp: te)
    next
      case False
      with stays(4) [OF that] Cons.prems(4) have "reviewed (flow_facts f) < t" by (auto simp: te)
      with later stays(3) show ?thesis by (auto intro: less_le_trans)
    qed
    with Cons.IH [OF run srt] stays Cons.prems(3,4) marks show ?thesis by (auto simp: te)
  next
    case reviews
    from reviews(1) Cons.prems(5) have "reviewed (flow_facts f) < t" by (auto simp: te)
    with Cons.IH [OF run srt] reviews later marks show ?thesis by (auto intro: less_trans)
  next
    case rests
    from rests(1) Cons.prems(5) have "reviewed (flow_facts f) < t" by (auto simp: te)
    with Cons.IH [OF run srt] rests later marks show ?thesis
      by (auto simp: ROUND_STOP_INTERVAL_def intro: less_trans)
  qed
qed simp

section \<open>The natural stop and the single review\<close>

text \<open>Whatever outcomes, deliveries and cancels drive it, the saolei flow rests exactly after every fifth
  completed review: its history is a sequence of blocks of five reviews each closed by a rest,
  followed by fewer than five reviews, which are the rounds it counts.\<close>
lemma rests_after_five_reviews:
  "case flow_run events createSaoleiFlow of (f, marks) \<Rightarrow>
     (\<exists>blocks current.
        marks = concat (map (\<lambda>b. map Reviewed b @ [Rested]) blocks) @ map Reviewed current \<and>
        list_all (\<lambda>b. length b = 5) blocks \<and>
        length current = rounds (flow_facts f) \<and> rounds (flow_facts f) < 5)"
proof (cases "flow_run events createSaoleiFlow")
  case (Pair f marks)
  have "rest_blocks [] (rounds (flow_facts (createSaoleiFlow :: saolei_flow)))"
    unfolding rest_blocks_def by (intro exI [of _ "[]"]) (simp add: createSaoleiFlow_def new_flow_def SaoleiFacts_def)
  from flow_run_blocks [OF this _ Pair]
  have "rest_blocks marks (rounds (flow_facts f)) \<and> rounds (flow_facts f) < ROUND_STOP_INTERVAL"
    by (simp add: createSaoleiFlow_def new_flow_def SaoleiFacts_def ROUND_STOP_INTERVAL_def)
  then show ?thesis
    using Pair unfolding rest_blocks_def ROUND_STOP_INTERVAL_def by auto
qed

text \<open>No finished game is reviewed twice: as long as the game runtime only ever replaces its terminal record
  by a newer one, the records under the completed reviews are strictly increasing, and each is a
  record. Failures, cancels, retries and deliveries in between do not matter.\<close>
lemma no_game_reviewed_twice:
  assumes "sorted (map fst events)"
  shows "case flow_run events createSaoleiFlow of (f, marks) \<Rightarrow>
    sorted_wrt (<) (reviewed_records marks) \<and> None \<notin> set (reviewed_records marks)"
proof (cases "flow_run events createSaoleiFlow")
  case (Pair f marks)
  have "sorted_wrt (<) (reviewed_records marks) \<and>
      (\<forall>x \<in> set (reviewed_records marks). reviewed (flow_facts (createSaoleiFlow :: saolei_flow)) < x)"
    by (rule flow_run_fresh [OF Pair assms])
      (auto simp: createSaoleiFlow_def new_flow_def SaoleiFacts_def ROUND_STOP_INTERVAL_def)
  with Pair show ?thesis by (auto simp: createSaoleiFlow_def new_flow_def SaoleiFacts_def)
qed

text \<open>A failure fact that outlives its freeze: a restart that finds nothing to do leaves the frozen error of
  the earlier failure in place while the flow has moved on.\<close>

lemma frozen_error_outlives_freeze:
  "case flow_run [(None, Decides (Some (Failed QUOTA e))), (None, Decides None), (None, Decides (Some Resting))]
          createSaoleiFlow of (f, marks) \<Rightarrow>
     position f = Play \<and> \<not> paused f \<and> frozenError f = Some (QUOTA, e)"
  by (simp add: createSaoleiFlow_def new_flow_def decide_def judge_def absorb_def paused_def
      plain_activity_def Let_def)

end
