(* ===== verification/Loop_Members.thy ===== *)
theory Loop_Members
  imports Flow Team_Broadcast Game_Text
begin

declare js_simps(2) [simp del]

text \<open>
  The members the team loop drives: the agent adapter \<open>agent-member.ts\<close> and the announce-only member
  \<open>announcer.ts\<close> of \<open>common/js/dsh-plugins/saolei/loop/src\<close>. The agent runtime, the team service and
  the clock are functions over a world \<open>'w\<close>. A promise of the source is a state: a turn in flight, or
  a turn whose start threw and whose rejection has not been observed yet; the completion of an agent
  turn is the operation \<open>finish_turn\<close>, which the step relation of the orchestrator performs when the
  agent becomes idle.
\<close>

section \<open>Engine codes\<close>

definition TRANSIENT_ENGINE_CODES :: "jstr list" where
  "TRANSIENT_ENGINE_CODES =
     [js ''RATE_LIMIT'', js ''SERVER'', js ''TIMEOUT'', js ''TRANSPORT'', js ''EMPTY_RESPONSE'']"

definition QUOTA_ENGINE_CODES :: "jstr list" where
  "QUOTA_ENGINE_CODES = [js ''QUOTA'', js ''ACCOUNT_QUOTA'']"

definition CREDENTIAL_ENGINE_CODES :: "jstr list" where
  "CREDENTIAL_ENGINE_CODES = [js ''INVALID_CREDENTIAL'', js ''MISSING_CREDENTIAL'', js ''AUTH'']"

definition CONFIG_ENGINE_CODES :: "jstr list" where
  "CONFIG_ENGINE_CODES =
     [js ''NO_ADAPTER'', js ''INVALID_REQUEST'', js ''UNSUPPORTED_CONTENT'', js ''UNSUPPORTED'']"

definition INPUT_TOO_LARGE_ENGINE_CODES :: "jstr list" where
  "INPUT_TOO_LARGE_ENGINE_CODES = [js ''CONTEXT_WINDOW_EXCEEDED'', js ''IMAGE_OFFLOAD_REQUIRED'']"

definition mapEngineCode :: "jstr option \<Rightarrow> loop_error_code" where
  "mapEngineCode code =
     (case code of
        None \<Rightarrow> INTERNAL
      | Some c \<Rightarrow>
          if c \<in> set TRANSIENT_ENGINE_CODES then TRANSIENT
          else if c \<in> set QUOTA_ENGINE_CODES then QUOTA
          else if c \<in> set CREDENTIAL_ENGINE_CODES then CREDENTIAL
          else if c \<in> set CONFIG_ENGINE_CODES \<or> starts_with c (js ''HTTP_'') then CONFIG
          else if c \<in> set INPUT_TOO_LARGE_ENGINE_CODES then INPUT_TOO_LARGE
          else INTERNAL)"

section \<open>The agent member\<close>

record agent_message = user_message +
  msg_id :: jstr

record turn_failure =
  tf_code :: "jstr option"
  tf_message :: jstr

text \<open>A thrown value of the error boundary: a harness error, another error, or any other value.\<close>

datatype agent_error = HarnessError jstr jstr | PlainError jstr | OtherThrown jstr

fun turnFailureOf :: "agent_error \<Rightarrow> turn_failure" where
  "turnFailureOf (HarnessError code message) = \<lparr>tf_code = Some code, tf_message = message\<rparr>"
| "turnFailureOf (PlainError message) = \<lparr>tf_code = None, tf_message = message\<rparr>"
| "turnFailureOf (OtherThrown str) = \<lparr>tf_code = None, tf_message = str\<rparr>"

text \<open>The agent runtime and the two inputs of a member; an operation that can throw returns the message.\<close>

record 'w agent_runtime =
  agent_idle :: "'w \<Rightarrow> bool"
  agent_inject :: "agent_message \<Rightarrow> 'w \<Rightarrow> (jstr + unit) \<times> 'w"
  agent_steer :: "agent_message \<Rightarrow> 'w \<Rightarrow> (jstr + unit) \<times> 'w"
  agent_followup :: "agent_message \<Rightarrow> 'w \<Rightarrow> (jstr + unit) \<times> 'w"
  inbox_nextStep :: "'w \<Rightarrow> agent_message list"
  inbox_nextTurn :: "'w \<Rightarrow> agent_message list"
  inbox_remove :: "jstr \<Rightarrow> 'w \<Rightarrow> 'w"
  agent_warn :: "jstr \<Rightarrow> 'w \<Rightarrow> 'w"
  drainSource :: "'w \<Rightarrow> (jstr + agent_message list) \<times> 'w"

record 'w agent_deps = "'w agent_runtime" +
  flushLanded :: "'w \<Rightarrow> agent_message list \<times> 'w"

text \<open>The active turn: awaiting the agent's idle state (with the \<open>hold\<close> flag), or rejected.\<close>

datatype turn = InFlight bool | Rejected jstr

record agent_member =
  am_id :: member_id
  activeTurn :: "turn option"
  held :: "agent_message list option"
  steered :: "agent_message list"
  lastTurnFailure :: "turn_failure option"
  abortRequested :: bool

definition new_agent_member :: "member_id \<Rightarrow> agent_member" where
  "new_agent_member i =
     \<lparr>am_id = i, activeTurn = None, held = None, steered = [], lastTurnFailure = None,
      abortRequested = False\<rparr>"

definition on_agent_error :: "agent_error \<Rightarrow> agent_member \<Rightarrow> agent_member" where
  "on_agent_error e m = m\<lparr>lastTurnFailure := Some (turnFailureOf e)\<rparr>"

definition busy :: "agent_member \<Rightarrow> bool" where
  "busy m \<longleftrightarrow> activeTurn m \<noteq> None"

definition pendingInput :: "agent_member \<Rightarrow> nat" where
  "pendingInput m = length (steered m)"

definition abort :: "agent_member \<Rightarrow> agent_member" where
  "abort m = (if activeTurn m \<noteq> None then m\<lparr>abortRequested := True\<rparr> else m)"

text \<open>Injecting messages one by one, until one throws.\<close>

fun inject_all ::
  "'w agent_deps \<Rightarrow> agent_message list \<Rightarrow> 'w \<Rightarrow> (jstr + unit) \<times> 'w" where
  "inject_all d [] w = (Inr (), w)"
| "inject_all d (x # xs) w =
     (case agent_inject d x w of
        (Inl e, w1) \<Rightarrow> (Inl e, w1)
      | (Inr _, w1) \<Rightarrow> inject_all d xs w1)"

fun is_broadcast :: "message_source \<Rightarrow> bool" where
  "is_broadcast (TeamBroadcast role sender anchor context) = True"
| "is_broadcast _ = False"

definition sweepBroadcastResidue :: "'w agent_deps \<Rightarrow> 'w \<Rightarrow> 'w" where
  "sweepBroadcastResidue d w =
     foldl (\<lambda>v x. inbox_remove d (msg_id x) v) w
       (filter (\<lambda>x. is_broadcast (um_source x)) (inbox_nextStep d w @ inbox_nextTurn d w))"

text \<open>\<open>runTurn\<close> up to its await, and what happens when it resumes.\<close>

definition begin_turn ::
  "'w agent_deps \<Rightarrow> agent_message list \<Rightarrow> bool \<Rightarrow> agent_member \<Rightarrow> 'w \<Rightarrow> agent_member \<times> 'w" where
  "begin_turn d messages hold m w =
     (let m1 = m\<lparr>abortRequested := False, lastTurnFailure := None,
                 held := (if hold then Some messages else held m)\<rparr>
      in case inject_all d (butlast messages) w of
           (Inl e, w1) \<Rightarrow> (m1\<lparr>activeTurn := Some (Rejected e)\<rparr>, w1)
         | (Inr _, w1) \<Rightarrow>
             (case agent_followup d (last messages) w1 of
                (Inl e, w2) \<Rightarrow> (m1\<lparr>activeTurn := Some (Rejected e)\<rparr>, w2)
              | (Inr _, w2) \<Rightarrow> (m1\<lparr>activeTurn := Some (InFlight hold)\<rparr>, w2)))"

definition finish_turn :: "agent_member \<Rightarrow> (jstr + outcome) \<times> agent_member" where
  "finish_turn m =
     (case activeTurn m of
        None \<Rightarrow> (Inr Resting, m)
      | Some (Rejected e) \<Rightarrow> (Inl e, m\<lparr>activeTurn := None\<rparr>)
      | Some (InFlight hold) \<Rightarrow>
          (let m1 = m\<lparr>activeTurn := None, lastTurnFailure := None, abortRequested := False, steered := []\<rparr>
           in if abortRequested m then (Inr Aborted, m1)
              else case lastTurnFailure m of
                Some failure \<Rightarrow>
                  (Inr (Failed (mapEngineCode (tf_code failure))
                          \<lparr>engineCode = tf_code failure, fail_message = tf_message failure\<rparr>), m1)
              | None \<Rightarrow> (Inr Settled, if hold then m1\<lparr>held := None\<rparr> else m1)))"

definition member_name :: "member_id \<Rightarrow> jstr" where
  "member_name i = (case i of Player \<Rightarrow> js ''player'' | Planner \<Rightarrow> js ''planner'' | Announcer \<Rightarrow> js ''announcer'')"

definition startTurn ::
  "'w agent_deps \<Rightarrow> agent_message list \<Rightarrow> bool \<Rightarrow> agent_member \<Rightarrow> 'w \<Rightarrow>
   (jstr + unit) \<times> agent_member \<times> 'w" where
  "startTurn d messages hold m w =
     (if activeTurn m \<noteq> None then
        (Inl (js ''saolei-loop agent member invariant violated: a member turn is already in flight''), m, w)
      else if \<not> agent_idle d w then
        (Inl (js ''saolei-loop agent member invariant violated: '' @ member_name (am_id m) @
              js '' is not quiescent''), m, w)
      else (Inr (), begin_turn d messages hold m (sweepBroadcastResidue d w)))"

definition defaultInput ::
  "'w agent_deps \<Rightarrow> agent_member \<Rightarrow> 'w \<Rightarrow> (jstr + agent_message list) \<times> agent_member \<times> 'w" where
  "defaultInput d m w =
     (case drainSource d w of
        (Inl e, w1) \<Rightarrow> (Inl e, m, w1)
      | (Inr drained, w1) \<Rightarrow>
          (case flushLanded d w1 of
             (landed, w2) \<Rightarrow>
               if drained @ landed \<noteq> [] then (Inr (drained @ landed), m, w2)
               else (Inr (case held m of None \<Rightarrow> [] | Some xs \<Rightarrow> xs), m\<lparr>held := None\<rparr>, w2)))"

text \<open>\<open>drive\<close> either resolves at once or leaves a turn in flight, whose outcome follows.\<close>

datatype driven = Threw jstr | Resolved outcome | TurnStarted

definition agent_drive ::
  "'w agent_deps \<Rightarrow> agent_message list option \<Rightarrow> agent_member \<Rightarrow> 'w \<Rightarrow> driven \<times> agent_member \<times> 'w" where
  "agent_drive d input m w =
     (case (case input of Some xs \<Rightarrow> (Inr xs, m, w) | None \<Rightarrow> defaultInput d m w) of
        (Inl e, m1, w1) \<Rightarrow> (Threw e, m1, w1)
      | (Inr messages, m1, w1) \<Rightarrow>
          if messages = [] then (Resolved Resting, m1, w1)
          else (case startTurn d messages True m1 w1 of
                  (Inl e, m2, w2) \<Rightarrow> (Threw e, m2, w2)
                | (Inr _, m2, w2) \<Rightarrow> (TurnStarted, m2, w2)))"

definition agent_deliver ::
  "'w agent_deps \<Rightarrow> agent_message \<Rightarrow> agent_member \<Rightarrow> 'w \<Rightarrow> (jstr + unit) \<times> agent_member \<times> 'w" where
  "agent_deliver d message m w =
     (if activeTurn m \<noteq> None then
        (case flushLanded d w of
           (landed, w1) \<Rightarrow>
             (case inject_all d landed w1 of
                (Inl e, w2) \<Rightarrow> (Inl e, m, w2)
              | (Inr _, w2) \<Rightarrow>
                  (case agent_steer d message w2 of
                     (Inl e, w3) \<Rightarrow> (Inl e, m, w3)
                   | (Inr _, w3) \<Rightarrow> (Inr (), m\<lparr>steered := steered m @ [message]\<rparr>, w3))))
      else
        (case drainSource d w of
           (Inl e, w1) \<Rightarrow> (Inl e, m, w1)
         | (Inr drained, w1) \<Rightarrow>
             (case flushLanded d w1 of
                (landed, w2) \<Rightarrow> startTurn d (drained @ landed @ [message]) False m w2)))"

definition agent_deliverInFlight ::
  "'w agent_deps \<Rightarrow> agent_message \<Rightarrow> agent_member \<Rightarrow> 'w \<Rightarrow> 'w" where
  "agent_deliverInFlight d message m w =
     (if \<not> busy m then w
      else case agent_inject d message w of
        (Inr _, w1) \<Rightarrow> w1
      | (Inl reason, w1) \<Rightarrow>
          agent_warn d (js ''saolei-loop agent member '' @ [34] @ member_name (am_id m) @ [34] @
            js '': in-flight broadcast delivery failed; the pending baseline still holds it: '' @ reason) w1)"

section \<open>The announcer member\<close>

definition ANNOUNCER_MEMBER_ROLE :: jstr where "ANNOUNCER_MEMBER_ROLE = js ''announcer''"

definition ANNOUNCER_MEMBER_SUMMARY :: jstr where
  "ANNOUNCER_MEMBER_SUMMARY =
     [0x7EC8, 0x5C40, 0x64AD, 0x62A5, 0x5BF9, 0x5C40, 0x7ED3, 0x679C, 0x4E0E, 0x64CD, 0x4F5C, 0x7EDF, 0x8BA1]"

text \<open>The clock, the fresh message ids of \<open>createAssistantMessage\<close>, and the subscribed listeners, one of
  which may throw. A terminal record carries its identity.\<close>

type_synonym terminal_record = "nat \<times> game_event_record"

record 'w announcer_deps =
  clock_now :: "'w \<Rightarrow> int"
  fresh_id :: "'w \<Rightarrow> jstr \<times> 'w"
  notify_listeners :: "session_event \<Rightarrow> 'w \<Rightarrow> (jstr + unit) \<times> 'w"

record announcer_member =
  an_log :: "session_event list"
  an_statsSentFor :: "nat option"
  an_seq :: int
  an_lastTime :: int

definition new_announcer :: announcer_member where
  "new_announcer = \<lparr>an_log = [], an_statsSentFor = None, an_seq = 0, an_lastTime = 0\<rparr>"

definition announce_text ::
  "'w announcer_deps \<Rightarrow> jstr \<Rightarrow> announcer_member \<Rightarrow> 'w \<Rightarrow> (jstr + unit) \<times> announcer_member \<times> 'w" where
  "announce_text d t a w =
     (if t = [] then (Inl (js ''announcer: announcement text must not be empty''), a, w)
      else
        (let sq = an_seq a + 1; time = max (an_lastTime a + 1) (clock_now d w + 1) in
         case fresh_id d w of
           (mid, w1) \<Rightarrow>
             (let event = \<lparr>ev_time = time, ev_seq = sq, ev_data = AssistantMessage mid [TextBlock t]\<rparr>;
                  a1 = a\<lparr>an_seq := sq, an_lastTime := time, an_log := an_log a @ [event]\<rparr>
              in case notify_listeners d event w1 of (r, w2) \<Rightarrow> (r, a1, w2))))"

definition announcer_drive ::
  "'w announcer_deps \<Rightarrow> terminal_record option \<Rightarrow> announcer_member \<Rightarrow> 'w \<Rightarrow> outcome \<times> announcer_member \<times> 'w" where
  "announcer_drive d terminal a w =
     (case terminal of
        None \<Rightarrow> (Settled, a, w)
      | Some (i, event) \<Rightarrow>
          if an_statsSentFor a = Some i then (Settled, a, w)
          else (case announce_text d (gameStatsText event) a w of
                  (Inl e, a1, w1) \<Rightarrow> (Failed INTERNAL \<lparr>engineCode = None, fail_message = e\<rparr>, a1, w1)
                | (Inr _, a1, w1) \<Rightarrow> (Settled, a1\<lparr>an_statsSentFor := Some i\<rparr>, w1)))"

section \<open>The held input\<close>

lemma begin_turn_cases [consumes 1, case_names rejected in_flight]:
  assumes "begin_turn d messages hold m w = (m', w')"
  obtains e where "m' = m\<lparr>abortRequested := False, lastTurnFailure := None,
      held := (if hold then Some messages else held m), activeTurn := Some (Rejected e)\<rparr>"
  | "m' = m\<lparr>abortRequested := False, lastTurnFailure := None,
      held := (if hold then Some messages else held m), activeTurn := Some (InFlight hold)\<rparr>"
  using assms that by (auto simp: begin_turn_def Let_def split: prod.splits sum.splits)

lemma begin_turn_held [simp]:
  "held (fst (begin_turn d messages hold m w)) = (if hold then Some messages else held m)"
  by (auto simp: begin_turn_def Let_def split: prod.split sum.split)

lemma begin_turn_busy [simp]: "activeTurn (fst (begin_turn d messages hold m w)) \<noteq> None"
  by (auto simp: begin_turn_def Let_def split: prod.split sum.split)

lemma begin_turn_id [simp]: "am_id (fst (begin_turn d messages hold m w)) = am_id m"
  by (auto simp: begin_turn_def Let_def split: prod.split sum.split)

lemma startTurn_held: "startTurn d messages False m w = (r, m', w') \<Longrightarrow> held m' = held m"
  by (auto simp: startTurn_def split: if_splits elim!: begin_turn_cases)

lemma deliver_held: "agent_deliver d x m w = (r, m', w') \<Longrightarrow> held m' = held m"
  by (auto simp: agent_deliver_def split: prod.splits sum.splits if_splits dest: startTurn_held)

lemma finish_held:
  "finish_turn m = (r, m') \<Longrightarrow> \<not> (activeTurn m = Some (InFlight True) \<and> r = Inr Settled) \<Longrightarrow> held m' = held m"
  by (auto simp: finish_turn_def Let_def split: option.splits turn.splits if_splits)

text \<open>What can happen to a member between two flow drives, until a flow drive settles: deliveries, in-flight
  broadcasts, errors, aborts, turns ending, and the world moving on.\<close>

inductive between_drives ::
  "'w agent_deps \<Rightarrow> agent_member \<times> 'w \<Rightarrow> agent_member \<times> 'w \<Rightarrow> bool" for d :: "'w agent_deps" where
  start: "between_drives d s s"
| delivers: "between_drives d s (m, w) \<Longrightarrow> agent_deliver d x m w = (r, m', w') \<Longrightarrow> between_drives d s (m', w')"
| broadcasts: "between_drives d s (m, w) \<Longrightarrow> between_drives d s (m, agent_deliverInFlight d x m w)"
| errors: "between_drives d s (m, w) \<Longrightarrow> between_drives d s (on_agent_error e m, w)"
| aborts: "between_drives d s (m, w) \<Longrightarrow> between_drives d s (abort m, w)"
| ends: "between_drives d s (m, w) \<Longrightarrow> finish_turn m = (r, m') \<Longrightarrow>
    activeTurn m \<noteq> Some (InFlight True) \<or> r \<noteq> Inr Settled \<Longrightarrow> between_drives d s (m', w)"
| world: "between_drives d s (m, w) \<Longrightarrow> between_drives d s (m, w')"

lemma between_drives_held: "between_drives d s s' \<Longrightarrow> held (fst s') = held (fst s)"
proof (induction rule: between_drives.induct)
  case (delivers s m w x r m' w')
  with deliver_held [OF delivers(2)] show ?case by simp
next
  case (ends s m w r m')
  with finish_held [OF ends(2)] show ?case by auto
qed (simp_all add: on_agent_error_def abort_def)

section \<open>The announcer's log\<close>

text \<open>The announcer speaks when the flow drives it, with the latest terminal record, and when a hook
  announces; between the events the world moves.\<close>

datatype announcer_event = Drives "terminal_record option" | Announces jstr

fun announcer_step ::
  "'w announcer_deps \<Rightarrow> announcer_event \<Rightarrow> announcer_member \<times> 'w \<Rightarrow> announcer_member \<times> 'w" where
  "announcer_step d (Drives terminal) (a, w) = snd (announcer_drive d terminal a w)"
| "announcer_step d (Announces t) (a, w) = snd (announce_text d t a w)"

fun announcer_run ::
  "'w announcer_deps \<Rightarrow> (('w \<Rightarrow> 'w) \<times> announcer_event) list \<Rightarrow> announcer_member \<times> 'w \<Rightarrow> announcer_member \<times> 'w" where
  "announcer_run d [] s = s"
| "announcer_run d ((env, e) # es) (a, w) = announcer_run d es (announcer_step d e (a, env w))"

text \<open>What it should say: every non-empty text, and each terminal record's statistics when it is new.\<close>

fun spoken :: "nat option \<Rightarrow> announcer_event list \<Rightarrow> jstr list" where
  "spoken sent [] = []"
| "spoken sent (Announces t # es) = (if t = [] then spoken sent es else t # spoken sent es)"
| "spoken sent (Drives None # es) = spoken sent es"
| "spoken sent (Drives (Some (i, r)) # es) =
     (if sent = Some i then spoken sent es else gameStatsText r # spoken (Some i) es)"

definition speech :: "session_event \<Rightarrow> (jstr \<times> jstr) option" where
  "speech e = (case ev_data e of AssistantMessage mid [TextBlock t] \<Rightarrow> Some (mid, t) | _ \<Rightarrow> None)"

text \<open>A log of speeches, numbered from one and strictly later and later.\<close>

definition speech_log :: "announcer_member \<Rightarrow> jstr list \<Rightarrow> bool" where
  "speech_log a texts \<longleftrightarrow>
     map (\<lambda>e. map_option snd (speech e)) (an_log a) = map Some texts \<and> [] \<notin> set texts \<and>
     map ev_seq (an_log a) = [1..an_seq a] \<and> an_seq a = int (length (an_log a)) \<and>
     sorted_wrt (<) (map ev_time (an_log a)) \<and> (\<forall>e \<in> set (an_log a). ev_time e \<le> an_lastTime a)"

lemma stats_text_ne: "gameStatsText r \<noteq> []"
  by (simp add: gameStatsText_def Let_def)

lemma announce_speech:
  assumes "speech_log a texts" and "t \<noteq> []" and "announce_text d t a w = (r, a', w')"
  shows "speech_log a' (texts @ [t])" "an_statsSentFor a' = an_statsSentFor a"
proof -
  obtain mid w1 where fresh: "fresh_id d w = (mid, w1)" by fastforce
  define time where "time = max (an_lastTime a + 1) (clock_now d w + 1)"
  let ?e = "\<lparr>ev_time = time, ev_seq = an_seq a + 1, ev_data = AssistantMessage mid [TextBlock t]\<rparr>"
  have a': "a' = a\<lparr>an_seq := an_seq a + 1, an_lastTime := time, an_log := an_log a @ [?e]\<rparr>"
    using assms(2,3) fresh by (auto simp: announce_text_def Let_def time_def split: prod.splits)
  have later: "an_lastTime a < time" by (simp add: time_def)
  have "[1..an_seq a + 1] = [1..an_seq a + 1 - 1] @ [an_seq a + 1]"
    by (rule upto_rec2) (use assms(1) in \<open>simp add: speech_log_def\<close>)
  with assms(1,2) a' later show "speech_log a' (texts @ [t])"
    by (auto simp: speech_log_def speech_def sorted_wrt_append)
  show "an_statsSentFor a' = an_statsSentFor a" by (simp add: a')
qed

lemma announcer_run_speech:
  assumes "\<And>e w. isl (fst (notify_listeners d e w)) = False"
  shows "speech_log a texts \<Longrightarrow> announcer_run d es (a, w) = (a', w') \<Longrightarrow>
    speech_log a' (texts @ spoken (an_statsSentFor a) (map snd es))"
proof (induction es arbitrary: a w texts)
  case (Cons ee es)
  obtain env e where ee: "ee = (env, e)" by fastforce
  obtain a1 w1 where step: "announcer_step d e (a, env w) = (a1, w1)" by fastforce
  with Cons.prems ee have run: "announcer_run d es (a1, w1) = (a', w')" by simp
  have said: "speech_log a1 (texts @ (case e of Announces t \<Rightarrow> if t = [] then [] else [t]
      | Drives None \<Rightarrow> [] | Drives (Some (i, r)) \<Rightarrow>
          if an_statsSentFor a = Some i then [] else [gameStatsText r])) \<and>
    an_statsSentFor a1 = (case e of Drives (Some (i, r)) \<Rightarrow> Some i | _ \<Rightarrow> an_statsSentFor a)"
  proof (cases e)
    case (Announces t)
    show ?thesis
    proof (cases "t = []")
      case True
      with Announces step Cons.prems(1) show ?thesis by (simp add: announce_text_def)
    next
      case False
      obtain r where "announce_text d t a (env w) = (r, a1, w1)"
        using Announces step by (cases "announce_text d t a (env w)") simp
      from announce_speech [OF Cons.prems(1) False this] Announces False show ?thesis by simp
    qed
  next
    case (Drives terminal)
    show ?thesis
    proof (cases terminal)
      case None
      with Drives step Cons.prems(1) show ?thesis by (simp add: announcer_drive_def)
    next
      case (Some ir)
      obtain i r where ir: "ir = (i, r)" by fastforce
      show ?thesis
      proof (cases "an_statsSentFor a = Some i")
        case True
        with Drives Some ir step Cons.prems(1) show ?thesis by (simp add: announcer_drive_def)
      next
        case False
        obtain x a2 w2 where an: "announce_text d (gameStatsText r) a (env w) = (x, a2, w2)"
          by (metis prod.collapse)
        have "isl x = False"
          using an assms stats_text_ne [of r]
          by (auto simp: announce_text_def Let_def split: prod.splits) (metis fst_conv)
        then have a1: "a1 = a2\<lparr>an_statsSentFor := Some i\<rparr>"
          using Drives Some ir step False an by (auto simp: announcer_drive_def split: sum.splits)
        from announce_speech(1) [OF Cons.prems(1) stats_text_ne an] Drives Some ir False a1
        show ?thesis by (simp add: speech_log_def)
      qed
    qed
  qed
  from Cons.IH [OF conjunct1 [OF said] run] conjunct2 [OF said] show ?case
    by (cases e) (auto simp: ee split: option.splits prod.splits if_splits)
qed simp

text \<open>Each speech of a log derives one message unit, which renders its text.\<close>

lemma speech_data: "speech e = Some (mid, t) \<Longrightarrow> ev_data e = AssistantMessage mid [TextBlock t]"
  by (auto simp: speech_def split: event_data.splits list.splits content_block.splits)

lemma derive_speeches:
  "map (\<lambda>e. map_option snd (speech e)) evs = map Some texts \<Longrightarrow> [] \<notin> set texts \<Longrightarrow>
   derive_from calls evs =
     map (\<lambda>e. unit_at MessageUnit (fst (the (speech e))) (ev_time e, ev_seq e)) evs"
proof (induction evs arbitrary: texts)
  case (Cons e evs)
  then obtain mid t rest where sp: "speech e = Some (mid, t)" and texts: "texts = t # rest"
    by (cases texts) auto
  with Cons speech_data [OF sp] show ?case by (auto simp: messageBody_def)
qed simp

lemma find_speech:
  "distinct (map (\<lambda>e. map_option fst (speech e)) evs) \<Longrightarrow> e \<in> set evs \<Longrightarrow> speech e = Some (mid, t) \<Longrightarrow>
   list_all (\<lambda>e. speech e \<noteq> None) evs \<Longrightarrow> findAssistantMessage evs mid = Some [TextBlock t]"
proof (induction evs)
  case (Cons x evs)
  show ?case
  proof (cases "x = e")
    case True
    with Cons.prems speech_data show ?thesis by simp
  next
    case False
    obtain m u where x: "speech x = Some (m, u)" using Cons.prems(4) by auto
    from False Cons.prems(2) have "e \<in> set evs" by simp
    then have "map_option fst (speech e) \<in> (\<lambda>e. map_option fst (speech e)) ` set evs" by (rule imageI)
    with Cons.prems(1,3) x have "m \<noteq> mid" by auto
    with Cons \<open>e \<in> set evs\<close> speech_data [OF x] show ?thesis by simp
  qed
qed simp

lemma announcer_tag: "tagName ANNOUNCER_MEMBER_ROLE = js ''announcer''"
  by code_simp

lemma render_speech:
  assumes "findAssistantMessage evs mid = Some [TextBlock t]"
  shows "renderBroadcast ANNOUNCER_MEMBER_ROLE (unit_at MessageUnit mid key) evs ctxt =
    Inr (tagged (js ''announcer'' @ js ''-message'') t)"
  using assms by (simp add: renderBroadcast_def Let_def announcer_tag messageBody_def)

lemma speech_log_renders:
  assumes said: "map (\<lambda>e. map_option snd (speech e)) evs = map Some texts" and ne: "[] \<notin> set texts"
    and ids: "distinct (map (\<lambda>e. map_option fst (speech e)) evs)"
  shows "map (\<lambda>u. renderBroadcast ANNOUNCER_MEMBER_ROLE u evs ctxt) (deriveUnits evs) =
      map (\<lambda>t. Inr (tagged (js ''announcer'' @ js ''-message'') t)) texts"
    and "map unit_time (deriveUnits evs) = map ev_time evs"
proof -
  have units: "deriveUnits evs =
      map (\<lambda>e. unit_at MessageUnit (fst (the (speech e))) (ev_time e, ev_seq e)) evs"
    unfolding deriveUnits_def by (rule derive_speeches [OF said ne])
  then show "map unit_time (deriveUnits evs) = map ev_time evs" by simp
  have all: "speech e \<noteq> None" if "e \<in> set evs" for e
  proof -
    from that have "map_option snd (speech e) \<in> set (map Some texts)" unfolding said [symmetric] by simp
    then show ?thesis by auto
  qed
  have "map (\<lambda>e. renderBroadcast ANNOUNCER_MEMBER_ROLE
          (unit_at MessageUnit (fst (the (speech e))) (ev_time e, ev_seq e)) evs ctxt) evs =
      map (\<lambda>e. Inr (tagged (js ''announcer'' @ js ''-message'') (the (map_option snd (speech e))))) evs"
  proof (rule map_cong [OF refl])
    fix e assume e: "e \<in> set evs"
    with all obtain mid t where sp: "speech e = Some (mid, t)" by force
    have "list_all (\<lambda>e. speech e \<noteq> None) evs" using all by (simp add: list_all_iff)
    from render_speech [OF find_speech [OF ids e sp this]] sp
    show "renderBroadcast ANNOUNCER_MEMBER_ROLE (unit_at MessageUnit (fst (the (speech e))) (ev_time e, ev_seq e))
        evs ctxt = Inr (tagged (js ''announcer'' @ js ''-message'') (the (map_option snd (speech e))))"
      by simp
  qed
  also have "\<dots> = map (\<lambda>t. Inr (tagged (js ''announcer'' @ js ''-message'') (the t)))
      (map (\<lambda>e. map_option snd (speech e)) evs)" by simp
  also have "\<dots> = map (\<lambda>t. Inr (tagged (js ''announcer'' @ js ''-message'') t)) texts"
    unfolding said by simp
  finally show "map (\<lambda>u. renderBroadcast ANNOUNCER_MEMBER_ROLE u evs ctxt) (deriveUnits evs) =
      map (\<lambda>t. Inr (tagged (js ''announcer'' @ js ''-message'') t)) texts"
    unfolding units map_map comp_def .
qed

section \<open>Properties\<close>

text \<open>C21: The input of a flow drive is never lost to a failure: from the start of the drive with the messages on,
  whatever is delivered, broadcast, aborted or reported in between, as long as the drive has not
  settled and the next drive finds no fresh input, that drive replays exactly the same messages.\<close>
theorem failed_input_is_replayed:
  assumes "startTurn d messages True m0 w0 = (Inr (), started)"
    and "between_drives d started (m, w)" and "\<not> busy m"
    and "drainSource d w = (Inr [], w2)" and "flushLanded d w2 = ([], w3)" and "agent_idle d w3"
    and "messages \<noteq> []"
  shows "agent_drive d None m w =
    (TurnStarted, begin_turn d messages True (m\<lparr>held := None\<rparr>) (sweepBroadcastResidue d w3))"
proof -
  have "held (fst started) = Some messages"
    using assms(1) by (auto simp: startTurn_def split: if_splits)
  with between_drives_held [OF assms(2)] have "held m = Some messages" by simp
  with assms(3-7) show ?thesis
    by (simp add: agent_drive_def defaultInput_def startTurn_def busy_def)
qed

definition quiet_agent :: "unit agent_deps" where
  "quiet_agent =
     \<lparr>agent_idle = (\<lambda>_. True), agent_inject = (\<lambda>_ w. (Inr (), w)), agent_steer = (\<lambda>_ w. (Inr (), w)),
      agent_followup = (\<lambda>_ w. (Inr (), w)), inbox_nextStep = (\<lambda>_. []), inbox_nextTurn = (\<lambda>_. []),
      inbox_remove = (\<lambda>_ w. w), agent_warn = (\<lambda>_ w. w), drainSource = (\<lambda>w. (Inr [], w)),
      flushLanded = (\<lambda>w. ([], w))\<rparr>"

definition sample_message :: agent_message where
  "sample_message = \<lparr>um_text = js ''hi'', um_source = UserSource, msg_id = js ''u1''\<rparr>"

theorem failed_input_is_replayed_witness:
  "case snd (finish_turn (on_agent_error (HarnessError (js ''SERVER'') (js ''boom''))
          (fst (snd (startTurn quiet_agent [sample_message] True (new_agent_member Player) ()))))) of m \<Rightarrow>
     agent_drive quiet_agent None m () =
       (TurnStarted, begin_turn quiet_agent [sample_message] True (m\<lparr>held := None\<rparr>) ())"
proof -
  let ?started = "snd (startTurn quiet_agent [sample_message] True (new_agent_member Player) ())"
  let ?m1 = "on_agent_error (HarnessError (js ''SERVER'') (js ''boom'')) (fst ?started)"
  have start: "startTurn quiet_agent [sample_message] True (new_agent_member Player) () = (Inr (), ?started)"
    and turn: "activeTurn ?m1 = Some (InFlight True)" "lastTurnFailure ?m1 \<noteq> None" "\<not> abortRequested ?m1"
    by (simp_all add: startTurn_def begin_turn_def new_agent_member_def quiet_agent_def on_agent_error_def Let_def)
  from turn have out: "fst (finish_turn ?m1) \<noteq> Inr Settled" and idle: "\<not> busy (snd (finish_turn ?m1))"
    by (auto simp: finish_turn_def Let_def busy_def)
  have "between_drives quiet_agent ?started (?m1, ())"
    by (rule between_drives.errors, cases ?started) (simp add: between_drives.start)
  then have "between_drives quiet_agent ?started (snd (finish_turn ?m1), ())"
    by (rule between_drives.ends [of _ _ _ _ "fst (finish_turn ?m1)"]) (use out in simp_all)
  from failed_input_is_replayed [OF start this idle, of "()" "()"] show ?thesis
    by (simp add: quiet_agent_def sweepBroadcastResidue_def)
qed

text \<open>Every announcement reaches the group chat: when no listener throws and message ids are fresh, the
  announcer's log derives one broadcast unit for every non-empty hook text and every new terminal
  record, in the order they were announced, each renders its text under the announcer's tag, and the
  units are strictly later and later whatever the clock does.\<close>
lemma announcements_reach_chat:
  assumes "\<And>e w. isl (fst (notify_listeners d e w)) = False"
    and "announcer_run d events (new_announcer, w) = (a, w')"
    and "distinct (map (\<lambda>e. map_option fst (speech e)) (an_log a))"
  shows "map (\<lambda>u. renderBroadcast ANNOUNCER_MEMBER_ROLE u (an_log a) ctxt) (deriveUnits (an_log a)) =
      map (\<lambda>t. Inr (tagged (js ''announcer'' @ js ''-message'') t)) (spoken None (map snd events)) \<and>
    sorted_wrt (<) (map unit_time (deriveUnits (an_log a)))"
proof -
  have "speech_log new_announcer []" by (simp add: speech_log_def new_announcer_def)
  from announcer_run_speech [OF assms(1) this assms(2)]
  have log: "speech_log a (spoken None (map snd events))" by (simp add: new_announcer_def)
  then have said: "map (\<lambda>e. map_option snd (speech e)) (an_log a) = map Some (spoken None (map snd events))"
    and ne: "[] \<notin> set (spoken None (map snd events))" by (simp_all add: speech_log_def)
  from speech_log_renders [OF said ne assms(3)] log show ?thesis by (simp add: speech_log_def)
qed

definition echo_room :: "nat announcer_deps" where
  "echo_room =
     \<lparr>clock_now = (\<lambda>_. 0), fresh_id = (\<lambda>n. (js ''m'' @ str_of_nat n, Suc n)),
      notify_listeners = (\<lambda>_ n. (Inr (), n))\<rparr>"

end
