(* ===== verification/Orchestrator.thy ===== *)
theory Orchestrator
  imports Loop_Members
begin

declare js_simps(2) [simp del]

text \<open>
  The execution layer of the saolei team loop, \<open>TeamOrchestrator\<close> of
  \<open>common/js/dsh-plugins/saolei/loop/src/orchestrator.ts\<close>, while a team is materialized: submitting and
  cancelling, the serialized pump, error freezing, disposal and the snapshot. The pump is a state: it
  awaits a flow drive or a delivery-started turn, or it is at the head of its loop, which the function
  \<open>run_pump\<close> leaves again before anything else happens, since the code between two awaits is not
  interrupted. A promise that is already settled is consumed at once. Agents, clock, game runtime
  and logger are functions over the world \<open>'w\<close>.
\<close>

section \<open>State\<close>

datatype orchestration_phase = Planning | Playing | Reviewing

datatype failure_origin = MemberTurn | Orchestration

record orchestrator_failure =
  of_message :: jstr
  of_member :: "member_id option"
  of_phase :: orchestration_phase
  of_code :: loop_error_code
  of_origin :: failure_origin
  of_detail :: failure_detail

record failure_context =
  fc_session :: jstr
  fc_phase :: orchestration_phase
  fc_member :: "member_id option"
  fc_code :: loop_error_code
  fc_error :: jstr

record 'w orch_env =
  env_agent :: "member_id \<Rightarrow> 'w agent_runtime"
  env_cancel :: "member_id \<Rightarrow> 'w \<Rightarrow> 'w"
  env_announcer :: "'w announcer_deps"
  peekTerminal :: "'w \<Rightarrow> terminal_record option"
  log_error :: "failure_context \<Rightarrow> 'w \<Rightarrow> 'w"
  createUserMessage :: "jstr \<Rightarrow> 'w \<Rightarrow> agent_message \<times> 'w"

datatype pump = NoPump | AtHead | AwaitTurn member_id | AwaitDrive member_id

text \<open>What exists exactly while the team is materialized.\<close>

record team_loop =
  lp_flow :: saolei_flow
  lp_agents :: "member_id \<Rightarrow> agent_member"
  lp_announcer :: announcer_member

record orchestrator =
  orch_loop :: "team_loop option"
  orch_session :: "jstr option"
  landed :: "agent_message list"
  lastError :: "orchestrator_failure option"
  orch_pump :: pump
  externalPending :: bool
  pendingOutcome :: "outcome option"
  disposed :: bool

definition new_orchestrator :: orchestrator where
  "new_orchestrator =
     \<lparr>orch_loop = None, orch_session = None, landed = [], lastError = None, orch_pump = NoPump,
      externalPending = False, pendingOutcome = None, disposed = False\<rparr>"

fun phaseOfActivity :: "activity_id \<Rightarrow> orchestration_phase" where
  "phaseOfActivity Plan = Planning"
| "phaseOfActivity Review = Reviewing"
| "phaseOfActivity Play = Playing"
| "phaseOfActivity RestAct = Playing"
| "phaseOfActivity Announce = Playing"

definition orch_phase :: "orchestrator \<Rightarrow> orchestration_phase" where
  "orch_phase s = (case orch_loop s of None \<Rightarrow> Planning | Some lp \<Rightarrow> phaseOfActivity (position (lp_flow lp)))"

definition member_busy :: "team_loop \<Rightarrow> member_id \<Rightarrow> bool" where
  "member_busy lp i \<longleftrightarrow> i \<noteq> Announcer \<and> busy (lp_agents lp i)"

definition MEMBER_IDS :: "member_id list" where "MEMBER_IDS = [Player, Planner, Announcer]"

definition busyMember :: "orchestrator \<Rightarrow> member_id option" where
  "busyMember s = (case orch_loop s of None \<Rightarrow> None | Some lp \<Rightarrow> List.find (member_busy lp) MEMBER_IDS)"

definition active_member :: "team_loop \<Rightarrow> member_id" where
  "active_member lp = activeMemberId SAOLEI_ACTIVITIES (lp_flow lp)"

record orch_snapshot =
  snap_materialized :: bool
  snap_phase :: "orchestration_phase option"
  snap_active :: "member_id option"
  snap_activation :: member_id
  snap_paused :: bool
  snap_queued :: nat
  snap_failed :: bool
  snap_lastError :: "orchestrator_failure option"

definition orch_snapshot_of :: "orchestrator \<Rightarrow> orch_snapshot" where
  "orch_snapshot_of s =
     \<lparr>snap_materialized = orch_loop s \<noteq> None,
      snap_phase = map_option (\<lambda>lp. phaseOfActivity (position (lp_flow lp))) (orch_loop s),
      snap_active = busyMember s,
      snap_activation = (case orch_loop s of None \<Rightarrow> Planner | Some lp \<Rightarrow> active_member lp),
      snap_paused = (case orch_loop s of None \<Rightarrow> False | Some lp \<Rightarrow> paused (lp_flow lp)),
      snap_queued = (case (busyMember s, orch_loop s) of
                       (Some i, Some lp) \<Rightarrow> pendingInput (lp_agents lp i) | _ \<Rightarrow> 0),
      snap_failed = lastError s \<noteq> None,
      snap_lastError = lastError s\<rparr>"

section \<open>Failures\<close>

definition settleError :: "outcome \<Rightarrow> orchestrator \<Rightarrow> orchestrator" where
  "settleError out s = (case out of Failed code detail \<Rightarrow> s | _ \<Rightarrow> s\<lparr>lastError := None\<rparr>)"

definition recordFailure ::
  "'w orch_env \<Rightarrow> member_id option \<Rightarrow> loop_error_code \<Rightarrow> failure_detail \<Rightarrow> failure_origin \<Rightarrow>
   orchestrator \<times> 'w \<Rightarrow> orchestrator \<times> 'w" where
  "recordFailure env i code detail origin = (\<lambda>(s, w).
     (s\<lparr>lastError := Some
          \<lparr>of_message = fail_message detail, of_member = i, of_phase = orch_phase s, of_code = code,
           of_origin = origin, of_detail = detail\<rparr>\<rparr>,
      log_error env
        \<lparr>fc_session = (case orch_session s of None \<Rightarrow> [] | Some n \<Rightarrow> n), fc_phase = orch_phase s,
         fc_member = i, fc_code = code, fc_error = fail_message detail\<rparr> w))"

definition orchestrationFailure :: "jstr \<Rightarrow> failure_detail" where
  "orchestrationFailure e = \<lparr>engineCode = None, fail_message = e\<rparr>"

text \<open>What \<open>execute\<close> and the pump do with the settled promise of a member: a rejection is an interior
  failure, a failed outcome a failed member turn.\<close>

definition report_outcome ::
  "'w orch_env \<Rightarrow> member_id \<Rightarrow> outcome \<Rightarrow> orchestrator \<times> 'w \<Rightarrow> orchestrator \<times> 'w" where
  "report_outcome env i out = (\<lambda>(s, w).
     (let s1 = settleError out s in
      case out of
        Failed code detail \<Rightarrow> recordFailure env (Some i) code detail MemberTurn (s1, w)
      | _ \<Rightarrow> (s1, w)))"

definition drive_result ::
  "'w orch_env \<Rightarrow> member_id \<Rightarrow> jstr + outcome \<Rightarrow> orchestrator \<times> 'w \<Rightarrow> outcome \<times> orchestrator \<times> 'w" where
  "drive_result env i r sw =
     (case r of
        Inr out \<Rightarrow> (out, report_outcome env i out sw)
      | Inl e \<Rightarrow> (Failed INTERNAL (orchestrationFailure e),
                  recordFailure env (Some i) INTERNAL (orchestrationFailure e) Orchestration sw))"

section \<open>Members and the landed messages\<close>

text \<open>A member's collaborators: the agent runtime, and the flush of the orchestrator's landed messages.\<close>

definition beside :: "('w \<Rightarrow> 'a \<times> 'w) \<Rightarrow> 'l \<times> 'w \<Rightarrow> 'a \<times> ('l \<times> 'w)" where
  "beside f = (\<lambda>(l, w). case f w of (r, w') \<Rightarrow> (r, (l, w')))"

definition takeLanded :: "agent_message list \<times> 'w \<Rightarrow> agent_message list \<times> (agent_message list \<times> 'w)" where
  "takeLanded = (\<lambda>(l, w). (l, ([], w)))"

definition member_deps :: "'w orch_env \<Rightarrow> member_id \<Rightarrow> (agent_message list \<times> 'w) agent_deps" where
  "member_deps env i =
     (let a = env_agent env i in
      \<lparr>agent_idle = (\<lambda>(l, w). agent_idle a w),
       agent_inject = (\<lambda>x. beside (agent_inject a x)),
       agent_steer = (\<lambda>x. beside (agent_steer a x)),
       agent_followup = (\<lambda>x. beside (agent_followup a x)),
       inbox_nextStep = (\<lambda>(l, w). inbox_nextStep a w),
       inbox_nextTurn = (\<lambda>(l, w). inbox_nextTurn a w),
       inbox_remove = (\<lambda>j (l, w). (l, inbox_remove a j w)),
       agent_warn = (\<lambda>t (l, w). (l, agent_warn a t w)),
       drainSource = beside (drainSource a),
       flushLanded = takeLanded\<rparr>)"

definition put_agent :: "member_id \<Rightarrow> agent_member \<Rightarrow> team_loop \<Rightarrow> team_loop" where
  "put_agent i m lp = lp\<lparr>lp_agents := (lp_agents lp)(i := m)\<rparr>"

definition put_loop :: "team_loop \<Rightarrow> orchestrator \<Rightarrow> orchestrator" where
  "put_loop lp s = s\<lparr>orch_loop := Some lp\<rparr>"

definition terminal_id :: "'w orch_env \<Rightarrow> 'w \<Rightarrow> nat option" where
  "terminal_id env w = map_option fst (peekTerminal env w)"

text \<open>\<open>flow.decide\<close> in the orchestrator's state.\<close>

definition orch_decide ::
  "'w orch_env \<Rightarrow> outcome option \<Rightarrow> team_loop \<Rightarrow> orchestrator \<times> 'w \<Rightarrow> activity_id flow_decision \<times> orchestrator \<times> 'w" where
  "orch_decide env wake lp = (\<lambda>(s, w).
     (case decide SAOLEI_ACTIVITIES (terminal_id env w) wake (lp_flow lp) of
        (d, f) \<Rightarrow> (d, put_loop (lp\<lparr>lp_flow := f\<rparr>) s, w)))"

section \<open>The pump\<close>

text \<open>The settled outcome of a drive, or the member whose turn is awaited.\<close>

datatype started = Done outcome | Waits member_id

definition execute ::
  "'w orch_env \<Rightarrow> team_loop \<Rightarrow> orchestrator \<times> 'w \<Rightarrow> started \<times> orchestrator \<times> 'w" where
  "execute env lp = (\<lambda>(s, w).
     (let activity = SAOLEI_ACTIVITIES (position (lp_flow lp)) :: (activity_id, member_id, nat) activity;
          i = act_member activity
      in if driverless activity then (Done Resting, s, w)
         else if i = Announcer then
           (case announcer_drive (env_announcer env) (peekTerminal env w) (lp_announcer lp) w of
              (out, a, w1) \<Rightarrow>
                (Done out, report_outcome env i out (put_loop (lp\<lparr>lp_announcer := a\<rparr>) s, w1)))
         else
           (case agent_drive (member_deps env i) None (lp_agents lp i) (landed s, w) of
              (Resolved out, m, l, w1) \<Rightarrow>
                (Done out, report_outcome env i out (put_loop (put_agent i m lp) (s\<lparr>landed := l\<rparr>), w1))
            | (Threw e, m, l, w1) \<Rightarrow>
                (case drive_result env i (Inl e) (put_loop (put_agent i m lp) (s\<lparr>landed := l\<rparr>), w1) of
                   (out, sw) \<Rightarrow> (Done out, sw))
            | (TurnStarted, m, l, w1) \<Rightarrow>
                (case activeTurn m of
                   Some (Rejected e) \<Rightarrow>
                     (case drive_result env i (fst (finish_turn m))
                             (put_loop (put_agent i (snd (finish_turn m)) lp) (s\<lparr>landed := l\<rparr>), w1) of
                        (out, sw) \<Rightarrow> (Done out, sw))
                 | _ \<Rightarrow> (Waits i, put_loop (put_agent i m lp) (s\<lparr>landed := l\<rparr>), w1)))))"

text \<open>The tail of an iteration: decide, then start; the last lines of \<open>runPump\<close>.\<close>

definition decide_and_start ::
  "'w orch_env \<Rightarrow> outcome option \<Rightarrow> team_loop \<Rightarrow> orchestrator \<times> 'w \<Rightarrow> orchestrator \<times> 'w" where
  "decide_and_start env wake lp sw =
     (case orch_decide env wake lp sw of
        (StartActivity i, s1, w1) \<Rightarrow>
          (case orch_loop s1 of
             None \<Rightarrow> (s1\<lparr>orch_pump := NoPump\<rparr>, w1)
           | Some lp1 \<Rightarrow>
               (case execute env lp1 (s1, w1) of
                  (Waits j, s2, w2) \<Rightarrow> (s2\<lparr>orch_pump := AwaitDrive j\<rparr>, w2)
                | (Done out, s2, w2) \<Rightarrow> (s2\<lparr>pendingOutcome := Some out, orch_pump := AtHead\<rparr>, w2)))
      | (_, s1, w1) \<Rightarrow> (s1\<lparr>orch_pump := NoPump\<rparr>, w1))"

text \<open>A flow drive settles, or a delivery-started turn does.\<close>

definition drive_settled ::
  "'w orch_env \<Rightarrow> member_id \<Rightarrow> jstr + outcome \<Rightarrow> orchestrator \<times> 'w \<Rightarrow> orchestrator \<times> 'w" where
  "drive_settled env i r sw =
     (case drive_result env i r sw of
        (out, s1, w1) \<Rightarrow>
          (if disposed s1 then s1\<lparr>orch_pump := NoPump\<rparr>
           else s1\<lparr>pendingOutcome := Some out, orch_pump := AtHead\<rparr>, w1))"

definition turn_settled ::
  "'w orch_env \<Rightarrow> member_id \<Rightarrow> jstr + outcome \<Rightarrow> team_loop \<Rightarrow> orchestrator \<times> 'w \<Rightarrow> orchestrator \<times> 'w" where
  "turn_settled env i r lp sw =
     (case r of
        Inl e \<Rightarrow>
          (case orch_decide env (Some (Failed INTERNAL (orchestrationFailure e))) lp
                  (recordFailure env (Some i) INTERNAL (orchestrationFailure e) Orchestration sw) of
             (_, s1, w1) \<Rightarrow> (s1\<lparr>orch_pump := NoPump\<rparr>, w1))
      | Inr out \<Rightarrow>
          if disposed (fst sw) then ((fst sw)\<lparr>orch_pump := NoPump\<rparr>, snd sw)
          else decide_and_start env (if out = Settled then None else Some out) lp
                 (report_outcome env i out sw))"

text \<open>\<open>whenSettled\<close> of the active member: still in flight, or settled already.\<close>

definition whenSettled :: "member_id \<Rightarrow> team_loop \<Rightarrow> ((jstr + outcome) \<times> team_loop) option" where
  "whenSettled i lp =
     (if i = Announcer then Some (Inr Resting, lp)
      else case activeTurn (lp_agents lp i) of
        Some (InFlight hold) \<Rightarrow> None
      | _ \<Rightarrow> (case finish_turn (lp_agents lp i) of (r, m) \<Rightarrow> Some (r, put_agent i m lp)))"

definition pump_iteration :: "'w orch_env \<Rightarrow> orchestrator \<times> 'w \<Rightarrow> orchestrator \<times> 'w" where
  "pump_iteration env = (\<lambda>(s, w).
     (if disposed s then (s\<lparr>orch_pump := NoPump\<rparr>, w)
      else case orch_loop s of
        None \<Rightarrow> (s\<lparr>orch_pump := NoPump\<rparr>, w)
      | Some lp \<Rightarrow>
          if externalPending s then
            (let i = active_member lp; s1 = s\<lparr>externalPending := False\<rparr> in
             case whenSettled i lp of
               None \<Rightarrow> (s1\<lparr>orch_pump := AwaitTurn i\<rparr>, w)
             | Some (r, lp1) \<Rightarrow> turn_settled env i r lp1 (put_loop lp1 s1, w))
          else decide_and_start env (pendingOutcome s) lp (s\<lparr>pendingOutcome := None\<rparr>, w)))"

text \<open>The loop of \<open>runPump\<close> from its head to an await or a return.\<close>

fun run_pump :: "'w orch_env \<Rightarrow> nat \<Rightarrow> orchestrator \<times> 'w \<Rightarrow> orchestrator \<times> 'w" where
  "run_pump env 0 sw = sw"
| "run_pump env (Suc n) sw =
     (if orch_pump (fst sw) = AtHead then run_pump env n (pump_iteration env sw) else sw)"

definition PUMP_FUEL :: nat where "PUMP_FUEL = 4"

definition requestPump :: "'w orch_env \<Rightarrow> orchestrator \<times> 'w \<Rightarrow> orchestrator \<times> 'w" where
  "requestPump env = (\<lambda>(s, w).
     (if disposed s \<or> orch_pump s \<noteq> NoPump then (s, w)
      else run_pump env PUMP_FUEL (s\<lparr>orch_pump := AtHead\<rparr>, w)))"

section \<open>Submit, cancel, dispose\<close>

datatype orch_state_error = UNMATERIALIZED | ALREADY_MATERIALIZED | DISPOSED

record submit_result =
  sub_queued :: bool
  sub_position :: "nat option"
  sub_messageId :: jstr

definition member_deliver ::
  "'w orch_env \<Rightarrow> agent_message \<Rightarrow> team_loop \<Rightarrow> orchestrator \<times> 'w \<Rightarrow> (jstr + unit) \<times> orchestrator \<times> 'w" where
  "member_deliver env message lp = (\<lambda>(s, w).
     (let i = active_member lp in
      if i = Announcer then (Inr (), s, w)
      else case agent_deliver (member_deps env i) message (lp_agents lp i) (landed s, w) of
        (r, m, l, w1) \<Rightarrow> (r, put_loop (put_agent i m lp) (s\<lparr>landed := l\<rparr>), w1)))"

definition submit ::
  "'w orch_env \<Rightarrow> jstr \<Rightarrow> orchestrator \<times> 'w \<Rightarrow> (orch_state_error + submit_result) \<times> orchestrator \<times> 'w" where
  "submit env input = (\<lambda>(s, w).
     (if disposed s then (Inl DISPOSED, s, w)
      else case orch_loop s of
        None \<Rightarrow> (Inl UNMATERIALIZED, s, w)
      | Some lp \<Rightarrow>
          (case createUserMessage env input w of
             (message, w1) \<Rightarrow>
               (let i = active_member lp; queued = member_busy lp i in
                case member_deliver env message lp (s, w1) of
                  (Inl e, s2, w2) \<Rightarrow>
                    (case recordFailure env None INTERNAL (orchestrationFailure e) Orchestration (s2, w2) of
                       (s3, w3) \<Rightarrow>
                         (case orch_loop s3 of
                            None \<Rightarrow> (Inr \<lparr>sub_queued = queued, sub_position = None,
                                          sub_messageId = msg_id message\<rparr>, s3, w3)
                          | Some lp3 \<Rightarrow>
                              (Inr \<lparr>sub_queued = queued, sub_position = None, sub_messageId = msg_id message\<rparr>,
                               snd (orch_decide env (Some (Failed INTERNAL (orchestrationFailure e))) lp3
                                      (s3, w3)))))
                | (Inr _, s2, w2) \<Rightarrow>
                    if queued then
                      (Inr \<lparr>sub_queued = True,
                            sub_position = map_option (\<lambda>lp2. pendingInput (lp_agents lp2 i)) (orch_loop s2),
                            sub_messageId = msg_id message\<rparr>, s2, w2)
                    else
                      (Inr \<lparr>sub_queued = False, sub_position = None, sub_messageId = msg_id message\<rparr>,
                       requestPump env (s2\<lparr>externalPending := True\<rparr>, w2))))))"

definition unclaimed :: "'w orch_env \<Rightarrow> member_id \<Rightarrow> 'w \<Rightarrow> agent_message list" where
  "unclaimed env i w =
     (if i = Announcer then []
      else filter (\<lambda>x. um_source x = UserSource)
             (inbox_nextStep (env_agent env i) w @ inbox_nextTurn (env_agent env i) w))"

definition cancel ::
  "'w orch_env \<Rightarrow> orchestrator \<times> 'w \<Rightarrow> (orch_state_error + agent_message list) \<times> orchestrator \<times> 'w" where
  "cancel env = (\<lambda>(s, w).
     (if disposed s then (Inr [], s, w)
      else case orch_loop s of
        None \<Rightarrow> (Inl UNMATERIALIZED, s, w)
      | Some lp \<Rightarrow>
          if paused (lp_flow lp) then (Inr [], s, w)
          else
            (let i = active_member lp; dropped = unclaimed env i w; s1 = s\<lparr>landed := landed s @ dropped\<rparr> in
             if member_busy lp i then
               (Inr dropped, put_loop (put_agent i (abort (lp_agents lp i)) lp) s1, env_cancel env i w)
             else (Inr dropped, put_loop (lp\<lparr>lp_flow := freezeAborted (lp_flow lp)\<rparr>) s1, w))))"

text \<open>\<open>dispose\<close> up to its await of the pump, and after it.\<close>

definition dispose_begin :: "'w orch_env \<Rightarrow> orchestrator \<times> 'w \<Rightarrow> orchestrator \<times> 'w" where
  "dispose_begin env = (\<lambda>(s, w).
     (if disposed s then (s, w)
      else
        (let s1 = s\<lparr>disposed := True, landed := []\<rparr> in
         case orch_loop s of
           None \<Rightarrow> (s1, w)
         | Some lp \<Rightarrow>
             (case List.find (member_busy lp) [Player, Planner] of
                None \<Rightarrow> (s1, w)
              | Some i \<Rightarrow> (put_loop (put_agent i (abort (lp_agents lp i)) lp) s1, env_cancel env i w)))))"

definition dispose_end :: "orchestrator \<Rightarrow> orchestrator" where
  "dispose_end s = s\<lparr>orch_loop := None, orch_session := None, lastError := None\<rparr>"

text \<open>The announcement seam of the hooks unit: \<open>None\<close> when it is dropped with a warning.\<close>

definition announceHookResult ::
  "'w orch_env \<Rightarrow> jstr \<Rightarrow> orchestrator \<times> 'w \<Rightarrow> (jstr + unit) option \<times> orchestrator \<times> 'w" where
  "announceHookResult env t = (\<lambda>(s, w).
     (case orch_loop s of
        None \<Rightarrow> (None, s, w)
      | Some lp \<Rightarrow>
          (case announce_text (env_announcer env) t (lp_announcer lp) w of
             (r, a, w1) \<Rightarrow> (Some r, put_loop (lp\<lparr>lp_announcer := a\<rparr>) s, w1))))"

text \<open>The turn of an agent ends: its promise settles, and the pump resumes if it awaits it.\<close>

definition turn_ends :: "'w orch_env \<Rightarrow> member_id \<Rightarrow> orchestrator \<times> 'w \<Rightarrow> orchestrator \<times> 'w" where
  "turn_ends env i = (\<lambda>(s, w).
     (case orch_loop s of
        None \<Rightarrow> (s, w)
      | Some lp \<Rightarrow>
          (case finish_turn (lp_agents lp i) of
             (r, m) \<Rightarrow>
               (let lp1 = put_agent i m lp; s1 = put_loop lp1 s in
                if orch_pump s = AwaitDrive i then run_pump env PUMP_FUEL (drive_settled env i r (s1, w))
                else if orch_pump s = AwaitTurn i then
                  run_pump env PUMP_FUEL (turn_settled env i r lp1 (s1, w))
                else (s1, w)))))"

end
