(* ===== verification/Orchestrator_Runs.thy ===== *)
theory Orchestrator_Runs
  imports Orchestrator
begin

declare js_simps(2) [simp del]

text \<open>
  The team loop in motion: the pump always blocks, at most one member is driven and the pump awaits
  exactly it, and the orchestrator's flow is a run of the flow layer. A step of the orchestrator is
  one uninterrupted operation of the host, an agent or the game, with the pump iterations it causes.
\<close>

section \<open>The parts of an iteration\<close>

lemma put_loop_simps [simp]:
  "orch_loop (put_loop lp s) = Some lp" "externalPending (put_loop lp s) = externalPending s"
  "disposed (put_loop lp s) = disposed s" "orch_pump (put_loop lp s) = orch_pump s"
  "pendingOutcome (put_loop lp s) = pendingOutcome s" "landed (put_loop lp s) = landed s"
  "lastError (put_loop lp s) = lastError s"
  by (simp_all add: put_loop_def)

lemma put_agent_simps [simp]:
  "lp_flow (put_agent i m lp) = lp_flow lp" "lp_announcer (put_agent i m lp) = lp_announcer lp"
  "lp_agents (put_agent i m lp) = (lp_agents lp)(i := m)"
  by (simp_all add: put_agent_def)

text \<open>Reporting changes only the failure fact and the log.\<close>

definition same_loop :: "orchestrator \<Rightarrow> orchestrator \<Rightarrow> bool" where
  "same_loop s s' \<longleftrightarrow> orch_loop s' = orch_loop s \<and> externalPending s' = externalPending s \<and>
     disposed s' = disposed s \<and> orch_pump s' = orch_pump s \<and> pendingOutcome s' = pendingOutcome s \<and>
     landed s' = landed s"

lemma same_loop_refl [simp]: "same_loop s s"
  by (simp add: same_loop_def)

lemma settleError_same: "same_loop s (settleError out s)"
  by (auto simp: settleError_def same_loop_def split: outcome.split)

lemma recordFailure_same: "recordFailure env i c d origin (s, w) = (s', w') \<Longrightarrow> same_loop s s'"
  by (auto simp: recordFailure_def same_loop_def)

lemma report_same: "report_outcome env i out (s, w) = (s', w') \<Longrightarrow> same_loop s s'"
  using settleError_same [of s out]
  by (cases out) (auto simp: report_outcome_def Let_def recordFailure_def same_loop_def)

lemma drive_result_same:
  "drive_result env i r (s, w) = (out, s', w') \<Longrightarrow>
   same_loop s s' \<and> (case r of Inr x \<Rightarrow> out = x | Inl e \<Rightarrow> out = Failed INTERNAL (orchestrationFailure e))"
  by (cases r) (auto simp: drive_result_def dest: recordFailure_same report_same)

text \<open>A drive that resolves at once rests; one that starts a turn leaves it in flight or rejected.\<close>

lemma agent_drive_cases [consumes 1, case_names threw rests starts]:
  assumes "agent_drive d None m w = (r, m', w')"
  obtains e h where "r = Threw e" "m' = m\<lparr>held := h\<rparr>"
  | h where "r = Resolved Resting" "m' = m\<lparr>held := h\<rparr>"
  | messages h v v' where "r = TurnStarted" "activeTurn m = None" "agent_idle d v" "messages \<noteq> []"
      "begin_turn d messages True (m\<lparr>held := h\<rparr>) v' = (m', w')"
proof -
  have same: "m = m\<lparr>held := held m\<rparr>" by simp
  obtain q m1 w1 where inp: "defaultInput d m w = (q, m1, w1)" by (metis prod.collapse)
  then have "m1 = m \<or> m1 = m\<lparr>held := None\<rparr>"
    by (auto simp: defaultInput_def split: prod.splits sum.splits if_splits)
  then obtain h where m1: "m1 = m\<lparr>held := h\<rparr>" using same by blast
  show thesis
  proof (cases q)
    case (Inl e)
    with inp assms m1 that(1) show thesis by (auto simp: agent_drive_def)
  next
    case (Inr messages)
    show thesis
    proof (cases "messages = []")
      case True
      with inp Inr assms m1 that(2) show thesis by (auto simp: agent_drive_def)
    next
      case False
      obtain x m2 w2 where st: "startTurn d messages True m1 w1 = (x, m2, w2)" by (metis prod.collapse)
      show thesis
      proof (cases x)
        case (Inl e)
        with st have "m2 = m1" by (auto simp: startTurn_def split: if_splits)
        with inp Inr False st Inl assms m1 that(1) show thesis by (auto simp: agent_drive_def)
      next
        case (Inr u)
        with st have "activeTurn m1 = None" "agent_idle d w1"
          "begin_turn d messages True m1 (sweepBroadcastResidue d w1) = (m2, w2)"
          by (auto simp: startTurn_def split: if_splits)
        moreover have "r = TurnStarted" "m' = m2" "w' = w2"
          using inp \<open>q = Inr messages\<close> False st Inr assms by (auto simp: agent_drive_def)
        ultimately show thesis using False m1 that(3) by auto
      qed
    qed
  qed
qed

text \<open>The control fields an execution leaves alone.\<close>

definition same_control :: "orchestrator \<Rightarrow> orchestrator \<Rightarrow> bool" where
  "same_control s s' \<longleftrightarrow> externalPending s' = externalPending s \<and> disposed s' = disposed s \<and>
     orch_pump s' = orch_pump s \<and> pendingOutcome s' = pendingOutcome s"

lemma same_loop_control: "same_loop s s' \<Longrightarrow> same_control s s' \<and> orch_loop s' = orch_loop s"
  by (simp add: same_loop_def same_control_def)

definition same_turns :: "team_loop \<Rightarrow> team_loop \<Rightarrow> bool" where
  "same_turns lp lp' \<longleftrightarrow> lp_flow lp' = lp_flow lp \<and>
     (\<forall>i. activeTurn (lp_agents lp' i) = activeTurn (lp_agents lp i))"

lemma active_activity:
  "active_member lp = act_member (SAOLEI_ACTIVITIES (position (lp_flow lp)) :: (activity_id, member_id, nat) activity)"
  by (simp add: active_member_def activeMemberId_def)

lemma announcer_activity:
  "active_member lp = Announcer \<longleftrightarrow> position (lp_flow lp) = Announce"
  by (cases "position (lp_flow lp)") (simp_all add: active_activity plain_activity_def)

lemma execute_cases [consumes 2, case_names finished waits]:
  assumes "execute env lp (s, w) = (r, s', w')" and "orch_loop s = Some lp"
  obtains out lp' where "r = Done out" "orch_loop s' = Some lp'" "same_turns lp lp'" "same_control s s'"
    "out = Settled \<Longrightarrow> position (lp_flow lp) = Announce"
  | i lp' where "r = Waits i" "i = active_member lp" "i \<noteq> Announcer" "orch_loop s' = Some lp'"
      "lp_flow lp' = lp_flow lp" "same_control s s'" "activeTurn (lp_agents lp i) = None"
      "activeTurn (lp_agents lp' i) = Some (InFlight True)"
      "\<And>j. j \<noteq> i \<Longrightarrow> activeTurn (lp_agents lp' j) = activeTurn (lp_agents lp j)"
proof -
  let ?act = "SAOLEI_ACTIVITIES (position (lp_flow lp)) :: (activity_id, member_id, nat) activity"
  let ?i = "act_member ?act"
  consider (rest) "driverless ?act" | (announcer) "\<not> driverless ?act" "?i = Announcer"
    | (agent) "\<not> driverless ?act" "?i \<noteq> Announcer" by blast
  then show thesis
  proof cases
    case rest
    with assms that(1) [of Resting lp] show thesis
      by (simp add: execute_def Let_def same_turns_def same_control_def)
  next
    case announcer
    obtain out a w1 where dr:
      "announcer_drive (env_announcer env) (peekTerminal env w) (lp_announcer lp) w = (out, a, w1)"
      by (metis prod.collapse)
    have s': "r = Done out" "report_outcome env Announcer out (put_loop (lp\<lparr>lp_announcer := a\<rparr>) s, w1) = (s', w')"
      using assms(1) announcer dr by (auto simp: execute_def Let_def)
    from same_loop_control [OF report_same [OF s'(2)]] s'(1) announcer(2) announcer_activity [of lp]
    show thesis
      by (intro that(1) [of out "lp\<lparr>lp_announcer := a\<rparr>"])
        (auto simp: same_turns_def same_control_def active_activity)
  next
    case agent
    obtain x m l w1 where dr:
      "agent_drive (member_deps env ?i) None (lp_agents lp ?i) (landed s, w) = (x, m, l, w1)"
      by (metis prod.collapse)
    let ?s1 = "put_loop (put_agent ?i m lp) (s\<lparr>landed := l\<rparr>)"
    from dr show thesis
    proof (cases rule: agent_drive_cases)
      case (threw e h)
      obtain out s2 w2 where res: "drive_result env ?i (Inl e) (?s1, w1) = (out, s2, w2)" by (metis prod.collapse)
      with assms(1) agent dr threw have "r = Done out" "s' = s2"
        by (auto simp: execute_def Let_def)
      with drive_result_same [OF res] threw(2) show thesis
        by (intro that(1) [of out "put_agent ?i m lp"])
          (auto simp: same_turns_def same_control_def same_loop_def)
    next
      case (rests h)
      obtain s2 w2 where res: "report_outcome env ?i Resting (?s1, w1) = (s2, w2)" by fastforce
      with assms(1) agent dr rests have "r = Done Resting" "s' = s2"
        by (auto simp: execute_def Let_def)
      with report_same [OF res] rests(2) show thesis
        by (intro that(1) [of Resting "put_agent ?i m lp"])
          (auto simp: same_turns_def same_control_def same_loop_def)
    next
      case (starts messages h v v')
      from starts(5) show thesis
      proof (cases rule: begin_turn_cases)
        case (rejected e)
        obtain out s2 w2 where res: "drive_result env ?i (fst (finish_turn m))
            (put_loop (put_agent ?i (snd (finish_turn m)) lp) (s\<lparr>landed := l\<rparr>), w1) = (out, s2, w2)"
          by (metis prod.collapse)
        have fin: "finish_turn m = (Inl e, m\<lparr>activeTurn := None\<rparr>)"
          using rejected by (simp add: finish_turn_def)
        from assms(1) agent dr starts(1) rejected res have "r = Done out" "s' = s2"
          by (auto simp: execute_def Let_def)
        with drive_result_same [OF res] fin starts(2) show thesis
          by (intro that(1) [of out "put_agent ?i (snd (finish_turn m)) lp"])
            (auto simp: same_turns_def same_control_def same_loop_def)
      next
        case in_flight
        with assms(1) agent dr starts(1) have "r = Waits ?i" "s' = ?s1"
          by (auto simp: execute_def Let_def)
        with in_flight starts(2) agent(2) show thesis
          by (intro that(2) [of ?i "put_agent ?i m lp"]) (auto simp: same_control_def active_activity)
      qed
    qed
  qed
qed

lemma orch_decide_loop:
  assumes "orch_decide env wake lp (s, w) = (d, s', w')"
  obtains f where "decide SAOLEI_ACTIVITIES (terminal_id env w) wake (lp_flow lp) = (d, f)"
    "s' = put_loop (lp\<lparr>lp_flow := f\<rparr>) s" "w' = w"
  using assms by (auto simp: orch_decide_def split: prod.splits)

text \<open>One decision and start: the pump returns, awaits the drive it started, or is at its head again with
  the outcome of an execution that took no turn.\<close>

lemma decide_and_start_cases [consumes 2, case_names returns awaits again]:
  assumes "decide_and_start env wake lp (s, w) = (s', w')" and "orch_loop s = Some lp"
  obtains (returns) d f where "decide SAOLEI_ACTIVITIES (terminal_id env w) wake (lp_flow lp) = (d, f)"
      "d = Rest \<or> d = Frozen" "s' = (put_loop (lp\<lparr>lp_flow := f\<rparr>) s)\<lparr>orch_pump := NoPump\<rparr>" "w' = w"
  | (awaits) a f i lp' where
      "decide SAOLEI_ACTIVITIES (terminal_id env w) wake (lp_flow lp) = (StartActivity a, f)"
      "orch_loop s' = Some lp'" "lp_flow lp' = f" "i = active_member lp'" "i \<noteq> Announcer"
      "orch_pump s' = AwaitDrive i" "activeTurn (lp_agents lp i) = None"
      "activeTurn (lp_agents lp' i) = Some (InFlight True)"
      "\<And>j. j \<noteq> i \<Longrightarrow> activeTurn (lp_agents lp' j) = activeTurn (lp_agents lp j)"
      "externalPending s' = externalPending s" "disposed s' = disposed s"
      "pendingOutcome s' = pendingOutcome s"
  | (again) a f out lp' where
      "decide SAOLEI_ACTIVITIES (terminal_id env w) wake (lp_flow lp) = (StartActivity a, f)"
      "orch_loop s' = Some lp'" "lp_flow lp' = f" "orch_pump s' = AtHead" "pendingOutcome s' = Some out"
      "\<And>j. activeTurn (lp_agents lp' j) = activeTurn (lp_agents lp j)"
      "externalPending s' = externalPending s" "disposed s' = disposed s"
      "out = Settled \<Longrightarrow> position f = Announce"
proof -
  obtain d s1 w1 where od: "orch_decide env wake lp (s, w) = (d, s1, w1)" by (metis prod.collapse)
  from orch_decide_loop [OF od] obtain f where dec:
    "decide SAOLEI_ACTIVITIES (terminal_id env w) wake (lp_flow lp) = (d, f)"
    and s1: "s1 = put_loop (lp\<lparr>lp_flow := f\<rparr>) s" and w1: "w1 = w" by blast
  show thesis
  proof (cases d)
    case (StartActivity a)
    obtain r s2 w2 where ex: "execute env (lp\<lparr>lp_flow := f\<rparr>) (s1, w1) = (r, s2, w2)" by (metis prod.collapse)
    have "orch_loop s1 = Some (lp\<lparr>lp_flow := f\<rparr>)" by (simp add: s1)
    from ex this show thesis
    proof (cases rule: execute_cases)
      case (finished out lp')
      with assms(1) od s1 StartActivity ex have "s' = s2\<lparr>pendingOutcome := Some out, orch_pump := AtHead\<rparr>"
        by (auto simp: decide_and_start_def)
      with finished dec StartActivity s1 show thesis
        by (intro again [of a f lp' out]) (auto simp: same_turns_def same_control_def)
    next
      case (waits i lp')
      with assms(1) od s1 StartActivity ex have "s' = s2\<lparr>orch_pump := AwaitDrive i\<rparr>"
        by (auto simp: decide_and_start_def)
      with waits dec StartActivity s1 show thesis
        by (intro awaits [of a f lp' i]) (auto simp: same_control_def active_activity)
    qed
  next
    case Rest
    with assms(1) od have "s' = s1\<lparr>orch_pump := NoPump\<rparr>" "w' = w1" by (auto simp: decide_and_start_def)
    with Rest dec s1 w1 show thesis by (intro returns [of d f]) simp_all
  next
    case Frozen
    with assms(1) od have "s' = s1\<lparr>orch_pump := NoPump\<rparr>" "w' = w1" by (auto simp: decide_and_start_def)
    with Frozen dec s1 w1 show thesis by (intro returns [of d f]) simp_all
  qed
qed

section \<open>The pump blocks\<close>

text \<open>How many iterations a pump at its head can still make before it blocks.\<close>

fun wake_rank :: "outcome option \<Rightarrow> saolei_flow \<Rightarrow> nat" where
  "wake_rank None f = 4"
| "wake_rank (Some Resting) f = (if retrying f then 3 else 1)"
| "wake_rank (Some Settled) f = (if position f = Announce then 2 else 3)"
| "wake_rank (Some out) f = 1"

definition head_rank :: "orchestrator \<Rightarrow> nat" where
  "head_rank s =
     (case orch_loop s of
        None \<Rightarrow> 1
      | Some lp \<Rightarrow> if externalPending s then 4 else wake_rank (pendingOutcome s) (lp_flow lp))"

lemma wake_rank_pos: "0 < wake_rank wake f"
  by (cases "(wake, f)" rule: wake_rank.cases) auto

lemma head_rank_pos: "0 < head_rank s"
  by (simp add: head_rank_def wake_rank_pos split: option.split)

lemma head_rank_le: "head_rank s \<le> 4"
proof -
  have "wake_rank wake f \<le> 4" for wake f
    by (cases "(wake, f)" rule: wake_rank.cases) auto
  then show ?thesis by (simp add: head_rank_def split: option.split)
qed

text \<open>After a decision that starts an activity, an immediate outcome is worth less than the wake was.\<close>

lemma decide_rank:
  assumes "decide SAOLEI_ACTIVITIES t wake f = (StartActivity a, f')"
    and "out = Settled \<Longrightarrow> position f' = Announce"
  shows "wake_rank (Some out) f' < wake_rank wake f"
  using assms(1)
proof (cases rule: decide_cases)
  case restart
  with assms(2) show ?thesis by (cases out) auto
next
  case judged_settle
  from judge_state [OF judged_settle(2)] have "\<not> retrying f'" by simp
  moreover have "position f' = Review" if "position f = Announce"
    using judged_settle(2) that by (auto simp: judge_def plain_activity_def)
  ultimately show ?thesis using assms(2) judged_settle(1) by (cases out) auto
next
  case judged_external
  from judge_state [OF judged_external(3)] have "\<not> retrying f'" by simp
  with assms(2) judged_external(1) show ?thesis by (cases out) auto
next
  case judged_retry
  from judge_state [OF judged_retry(3)] have "\<not> retrying f'" by simp
  with assms(2) judged_retry(1,2) show ?thesis by (cases out) auto
qed auto

lemma decide_and_start_rank:
  assumes "decide_and_start env wake lp (s, w) = (s', w')" and "orch_loop s = Some lp"
    and "orch_pump s' = AtHead" and "\<not> externalPending s"
  shows "head_rank s' < wake_rank wake (lp_flow lp)"
  using assms(1,2)
proof (cases rule: decide_and_start_cases)
  case (again a f out lp')
  with decide_rank [OF again(1) again(9)] assms(4) show ?thesis by (simp add: head_rank_def)
qed (use assms(3) in auto)

lemma turn_settled_rank:
  assumes "turn_settled env i r lp (s, w) = (s', w')" and "orch_loop s = Some lp"
    and "orch_pump s' = AtHead" and "\<not> externalPending s"
  shows "head_rank s' < 4"
proof (cases r)
  case (Inl e)
  with assms(1,3) show ?thesis by (auto simp: turn_settled_def split: prod.splits)
next
  case (Inr out)
  with assms(1,3) have run: "decide_and_start env (if out = Settled then None else Some out) lp
      (report_outcome env i out (s, w)) = (s', w')"
    by (auto simp: turn_settled_def split: if_splits)
  obtain s1 w1 where rep: "report_outcome env i out (s, w) = (s1, w1)" by fastforce
  have "orch_loop s1 = Some lp" "\<not> externalPending s1"
    using report_same [OF rep] assms(2,4) by (simp_all add: same_loop_def)
  from decide_and_start_rank [OF run [unfolded rep] this(1) assms(3) this(2)]
  have "head_rank s' < wake_rank (if out = Settled then None else Some out) (lp_flow lp)" .
  moreover have "wake_rank wake f \<le> 4" for wake f
    by (cases "(wake, f)" rule: wake_rank.cases) auto
  ultimately show ?thesis by (rule less_le_trans)
qed

lemma whenSettled_cases:
  assumes "whenSettled i lp = x"
  obtains (waits) "x = None" "i \<noteq> Announcer" "\<exists>hold. activeTurn (lp_agents lp i) = Some (InFlight hold)"
  | (settled) r lp' where "x = Some (r, lp')" "lp_flow lp' = lp_flow lp" "lp_announcer lp' = lp_announcer lp"
      "i = Announcer \<and> lp' = lp \<or> i \<noteq> Announcer \<and> activeTurn (lp_agents lp' i) = None"
      "\<And>j. j \<noteq> i \<Longrightarrow> lp_agents lp' j = lp_agents lp j"
proof (cases "i = Announcer")
  case True
  with assms settled [of "Inr Resting" lp] show thesis by (simp add: whenSettled_def)
next
  case False
  show thesis
  proof (cases "activeTurn (lp_agents lp i)")
    case None
    with False assms settled [of "Inr Resting" "put_agent i (lp_agents lp i) lp"] show thesis
      by (simp add: whenSettled_def finish_turn_def)
  next
    case (Some t)
    show thesis
    proof (cases t)
      case (Rejected e)
      with Some False assms
        settled [of "Inl e" "put_agent i ((lp_agents lp i)\<lparr>activeTurn := None\<rparr>) lp"]
      show thesis by (simp add: whenSettled_def finish_turn_def)
    qed (use Some False assms waits in \<open>simp add: whenSettled_def\<close>)
  qed
qed

lemma iteration_rank:
  assumes "pump_iteration env (s, w) = (s', w')" and "orch_pump s' = AtHead"
  shows "head_rank s' < head_rank s"
proof -
  have live: "\<not> disposed s" using assms by (auto simp: pump_iteration_def)
  then obtain lp where lp: "orch_loop s = Some lp"
    using assms by (auto simp: pump_iteration_def split: option.splits)
  show ?thesis
  proof (cases "externalPending s")
    case True
    let ?i = "active_member lp"
    show ?thesis
    proof (cases rule: whenSettled_cases [of ?i lp "whenSettled ?i lp", OF refl])
      case 1
      with live lp True assms show ?thesis by (auto simp: pump_iteration_def Let_def)
    next
      case (2 r lp')
      with live lp True assms have "turn_settled env ?i r lp'
          (put_loop lp' (s\<lparr>externalPending := False\<rparr>), w) = (s', w')"
        by (auto simp: pump_iteration_def Let_def)
      from turn_settled_rank [OF this _ assms(2)] lp True show ?thesis by (simp add: head_rank_def)
    qed
  next
    case False
    with live lp assms have "decide_and_start env (pendingOutcome s) lp (s\<lparr>pendingOutcome := None\<rparr>, w) = (s', w')"
      by (auto simp: pump_iteration_def)
    from decide_and_start_rank [OF this _ assms(2)] lp False show ?thesis by (simp add: head_rank_def)
  qed
qed

lemma run_pump_blocks: "head_rank (fst sw) \<le> n \<Longrightarrow> orch_pump (fst (run_pump env n sw)) \<noteq> AtHead"
proof (induction n arbitrary: sw)
  case 0
  with head_rank_pos [of "fst sw"] show ?case by simp
next
  case (Suc n)
  show ?case
  proof (cases "orch_pump (fst sw) = AtHead")
    case True
    obtain s w s' w' where sw: "sw = (s, w)" and it: "pump_iteration env sw = (s', w')" by fastforce
    show ?thesis
    proof (cases "orch_pump s' = AtHead")
      case True
      from iteration_rank [OF it [unfolded sw] True] Suc.prems have "head_rank s' \<le> n" by (simp add: sw)
      with Suc.IH [of "(s', w')"] it \<open>orch_pump (fst sw) = AtHead\<close> show ?thesis by simp
    next
      case False
      then have "run_pump env n (s', w') = (s', w')" by (cases n) simp_all
      with False it \<open>orch_pump (fst sw) = AtHead\<close> show ?thesis by simp
    qed
  qed simp
qed

lemma pump_blocks: "orch_pump (fst (run_pump env PUMP_FUEL sw)) \<noteq> AtHead"
  by (rule run_pump_blocks) (simp add: PUMP_FUEL_def head_rank_le)

section \<open>One member is driven, and the pump awaits it\<close>

definition only_turn :: "team_loop \<Rightarrow> member_id \<Rightarrow> turn option \<Rightarrow> bool" where
  "only_turn lp i t \<longleftrightarrow> (\<forall>j. activeTurn (lp_agents lp j) = (if j = i then t else None))"

definition no_turn :: "team_loop \<Rightarrow> bool" where
  "no_turn lp \<longleftrightarrow> (\<forall>j. activeTurn (lp_agents lp j) = None)"

definition awaited :: "orchestrator \<Rightarrow> team_loop \<Rightarrow> bool" where
  "awaited s lp \<longleftrightarrow>
     (case orch_pump s of
        NoPump \<Rightarrow> no_turn lp
      | AwaitDrive i \<Rightarrow> i \<noteq> Announcer \<and> i = active_member lp \<and> only_turn lp i (Some (InFlight True))
      | AwaitTurn i \<Rightarrow> i \<noteq> Announcer \<and> i = active_member lp \<and> only_turn lp i (Some (InFlight False))
      | AtHead \<Rightarrow>
          if externalPending s then
            (\<exists>t. only_turn lp (active_member lp) t \<and> t \<noteq> Some (InFlight True) \<and>
               (active_member lp = Announcer \<longrightarrow> t = None))
          else no_turn lp)"

definition pump_inv :: "orchestrator \<Rightarrow> bool" where
  "pump_inv s \<longleftrightarrow>
     (case orch_loop s of None \<Rightarrow> orch_pump s = NoPump | Some lp \<Rightarrow> awaited s lp) \<and>
     (externalPending s \<longrightarrow> orch_pump s = AtHead) \<and>
     (externalPending s \<or> orch_pump s \<noteq> AtHead \<longrightarrow> pendingOutcome s = None)"

lemma no_turn_only: "no_turn lp \<longleftrightarrow> only_turn lp i None"
  by (simp add: no_turn_def only_turn_def)

lemma no_turn_cong: "(\<And>j. activeTurn (lp_agents lp' j) = activeTurn (lp_agents lp j)) \<Longrightarrow> no_turn lp' = no_turn lp"
  by (simp add: no_turn_def)

lemma decide_and_start_inv:
  assumes "decide_and_start env wake lp (s, w) = (s', w')" and "orch_loop s = Some lp"
    and "no_turn lp" and "\<not> externalPending s" and "pendingOutcome s = None"
  shows "pump_inv s'"
  using assms(1,2)
proof (cases rule: decide_and_start_cases)
  case (returns d f)
  with assms show ?thesis by (simp add: pump_inv_def awaited_def no_turn_def)
next
  case (awaits a f i lp')
  with assms show ?thesis by (auto simp: pump_inv_def awaited_def no_turn_def only_turn_def)
next
  case (again a f out lp')
  with assms no_turn_cong [of lp' lp] show ?thesis by (simp add: pump_inv_def awaited_def)
qed

lemma turn_settled_inv:
  assumes "turn_settled env i r lp (s, w) = (s', w')" and "orch_loop s = Some lp"
    and "no_turn lp" and "\<not> externalPending s" and "pendingOutcome s = None"
  shows "pump_inv s'"
proof (cases r)
  case (Inl e)
  obtain s1 w1 where rec:
    "recordFailure env (Some i) INTERNAL (orchestrationFailure e) Orchestration (s, w) = (s1, w1)" by fastforce
  obtain d s2 w2 where dec:
    "orch_decide env (Some (Failed INTERNAL (orchestrationFailure e))) lp (s1, w1) = (d, s2, w2)"
    by (metis prod.collapse)
  have s': "s' = s2\<lparr>orch_pump := NoPump\<rparr>" using assms(1) Inl rec dec by (auto simp: turn_settled_def)
  from orch_decide_loop [OF dec] obtain f where "s2 = put_loop (lp\<lparr>lp_flow := f\<rparr>) s1" by blast
  with s' recordFailure_same [OF rec] assms(3-5) show ?thesis
    by (simp add: pump_inv_def awaited_def no_turn_def same_loop_def)
next
  case (Inr out)
  show ?thesis
  proof (cases "disposed s")
    case True
    with Inr assms show ?thesis by (auto simp: turn_settled_def pump_inv_def awaited_def)
  next
    case False
    obtain s1 w1 where rep: "report_outcome env i out (s, w) = (s1, w1)" by fastforce
    have "decide_and_start env (if out = Settled then None else Some out) lp (s1, w1) = (s', w')"
      using assms(1) Inr False rep by (simp add: turn_settled_def)
    moreover have "orch_loop s1 = Some lp" "\<not> externalPending s1" "pendingOutcome s1 = None"
      using report_same [OF rep] assms(2,4,5) by (simp_all add: same_loop_def)
    ultimately show ?thesis using assms(3) by (intro decide_and_start_inv)
  qed
qed

lemma whenSettled_no_turn:
  assumes "whenSettled i lp = Some (r, lp')" and "only_turn lp i t" and "i = Announcer \<Longrightarrow> t = None"
  shows "no_turn lp'"
proof (cases rule: whenSettled_cases [OF assms(1)])
  case (2 r lp'')
  with assms(2,3) show ?thesis by (auto simp: no_turn_def only_turn_def split: if_splits) (metis+)
qed simp

lemma iteration_inv:
  assumes "pump_inv s" and "orch_pump s = AtHead" and "pump_iteration env (s, w) = (s', w')"
    and "\<not> disposed s"
  shows "pump_inv s'"
proof -
  obtain lp where lp: "orch_loop s = Some lp"
    using assms(1,2) by (auto simp: pump_inv_def split: option.splits)
  with assms(1) have aw: "awaited s lp" by (simp add: pump_inv_def)
  show ?thesis
  proof (cases "externalPending s")
    case True
    let ?i = "active_member lp"
    from aw assms(2) True obtain t where t: "only_turn lp ?i t" "t \<noteq> Some (InFlight True)"
      "?i = Announcer \<Longrightarrow> t = None" by (auto simp: awaited_def)
    have pend: "pendingOutcome s = None" using assms(1) True by (simp add: pump_inv_def)
    show ?thesis
    proof (cases "whenSettled ?i lp")
      case None
      from None have na: "?i \<noteq> Announcer" and "\<exists>hold. activeTurn (lp_agents lp ?i) = Some (InFlight hold)"
        by (auto elim: whenSettled_cases)
      moreover have "activeTurn (lp_agents lp ?i) = t" using t(1) by (simp add: only_turn_def)
      ultimately have "t = Some (InFlight False)" using t(2) by (metis (full_types))
      moreover have "s' = s\<lparr>externalPending := False, orch_pump := AwaitTurn ?i\<rparr>"
        using None True lp assms(3,4) by (auto simp: pump_iteration_def Let_def)
      ultimately show ?thesis using t(1) na lp pend by (simp add: pump_inv_def awaited_def)
    next
      case (Some rl)
      obtain r lp' where rl: "rl = (r, lp')" by fastforce
      have "turn_settled env ?i r lp' (put_loop lp' (s\<lparr>externalPending := False\<rparr>), w) = (s', w')"
        using Some rl True lp assms(3,4) by (auto simp: pump_iteration_def Let_def)
      then show ?thesis
        by (rule turn_settled_inv) (use whenSettled_no_turn [OF Some [unfolded rl] t(1,3)] pend in simp_all)
    qed
  next
    case False
    have "decide_and_start env (pendingOutcome s) lp (s\<lparr>pendingOutcome := None\<rparr>, w) = (s', w')"
      using False lp assms(3,4) by (auto simp: pump_iteration_def)
    then show ?thesis
      by (rule decide_and_start_inv) (use aw assms(2) False lp in \<open>simp_all add: awaited_def\<close>)
  qed
qed

text \<open>An iteration neither disposes nor unmaterializes.\<close>

definition keeps_team :: "orchestrator \<Rightarrow> orchestrator \<Rightarrow> bool" where
  "keeps_team s s' \<longleftrightarrow> disposed s' = disposed s \<and> (orch_loop s' = None \<longleftrightarrow> orch_loop s = None)"

lemma same_loop_keeps: "same_loop s s' \<Longrightarrow> keeps_team s s'"
  by (simp add: same_loop_def keeps_team_def)

lemma keeps_team_trans: "keeps_team s s1 \<Longrightarrow> keeps_team s1 s2 \<Longrightarrow> keeps_team s s2"
  by (simp add: keeps_team_def)

lemma decide_and_start_keeps:
  assumes "decide_and_start env wake lp (s, w) = (s', w')" and "orch_loop s = Some lp"
  shows "keeps_team s s'"
  using assms by (cases rule: decide_and_start_cases) (simp_all add: keeps_team_def assms(2))

lemma turn_settled_keeps:
  assumes "turn_settled env i r lp (s, w) = (s', w')" and "orch_loop s = Some lp"
  shows "keeps_team s s'"
proof (cases r)
  case (Inl e)
  obtain s1 w1 where rec:
    "recordFailure env (Some i) INTERNAL (orchestrationFailure e) Orchestration (s, w) = (s1, w1)" by fastforce
  with assms Inl recordFailure_same [OF rec] show ?thesis
    by (auto simp: turn_settled_def orch_decide_def keeps_team_def same_loop_def split: prod.splits)
next
  case (Inr out)
  obtain s1 w1 where rep: "report_outcome env i out (s, w) = (s1, w1)" by fastforce
  show ?thesis
  proof (cases "disposed s")
    case True
    with assms Inr show ?thesis by (auto simp: turn_settled_def keeps_team_def)
  next
    case False
    with assms(1) Inr rep have run: "decide_and_start env (if out = Settled then None else Some out) lp (s1, w1) = (s', w')"
      by (simp add: turn_settled_def)
    have "orch_loop s1 = Some lp" using report_same [OF rep] assms(2) by (simp add: same_loop_def)
    from keeps_team_trans [OF same_loop_keeps [OF report_same [OF rep]] decide_and_start_keeps [OF run this]]
    show ?thesis .
  qed
qed

lemma iteration_keeps:
  assumes "pump_iteration env (s, w) = (s', w')"
  shows "keeps_team s s'"
proof (cases "disposed s \<or> orch_loop s = None")
  case True
  with assms show ?thesis
    by (cases "disposed s") (auto simp: pump_iteration_def keeps_team_def)
next
  case False
  then obtain lp where lp: "orch_loop s = Some lp" "\<not> disposed s" by blast
  show ?thesis
  proof (cases "externalPending s")
    case True
    let ?i = "active_member lp"
    show ?thesis
    proof (cases "whenSettled ?i lp")
      case None
      with True lp assms show ?thesis by (auto simp: pump_iteration_def Let_def keeps_team_def)
    next
      case (Some rl)
      obtain r lp' where rl: "rl = (r, lp')" by fastforce
      have run: "turn_settled env ?i r lp' (put_loop lp' (s\<lparr>externalPending := False\<rparr>), w) = (s', w')"
        using Some rl True lp assms by (auto simp: pump_iteration_def Let_def)
      from turn_settled_keeps [OF run] lp show ?thesis by (simp add: keeps_team_def)
    qed
  next
    case False
    have run: "decide_and_start env (pendingOutcome s) lp (s\<lparr>pendingOutcome := None\<rparr>, w) = (s', w')"
      using False lp assms by (auto simp: pump_iteration_def)
    from decide_and_start_keeps [OF run] lp show ?thesis by (simp add: keeps_team_def)
  qed
qed

lemma run_pump_inv:
  "pump_inv s \<Longrightarrow> orch_pump s = AtHead \<longrightarrow> \<not> disposed s \<Longrightarrow> run_pump env n (s, w) = (s', w') \<Longrightarrow>
   pump_inv s' \<and> keeps_team s s'"
proof (induction n arbitrary: s w)
  case (Suc n)
  show ?case
  proof (cases "orch_pump s = AtHead")
    case True
    obtain s1 w1 where it: "pump_iteration env (s, w) = (s1, w1)" by fastforce
    with True Suc.prems(3) have run: "run_pump env n (s1, w1) = (s', w')" by simp
    have "pump_inv s1" using iteration_inv [OF Suc.prems(1) True it] True Suc.prems(2) by simp
    moreover have "\<not> disposed s1" using iteration_keeps [OF it] True Suc.prems(2) by (simp add: keeps_team_def)
    ultimately show ?thesis
      using Suc.IH [OF _ _ run] keeps_team_trans [OF iteration_keeps [OF it]] by blast
  qed (use Suc.prems in \<open>simp add: keeps_team_def\<close>)
qed (simp add: keeps_team_def)

text \<open>The invariant between operations: the pump is not at its head.\<close>

definition orch_inv :: "orchestrator \<Rightarrow> bool" where
  "orch_inv s \<longleftrightarrow> pump_inv s \<and> orch_pump s \<noteq> AtHead"

lemma run_pump_orch_inv:
  "pump_inv s \<Longrightarrow> orch_pump s = AtHead \<longrightarrow> \<not> disposed s \<Longrightarrow> orch_inv (fst (run_pump env PUMP_FUEL (s, w)))"
  using run_pump_inv [of s env PUMP_FUEL w] pump_blocks [of env "(s, w)"]
  by (cases "run_pump env PUMP_FUEL (s, w)") (simp add: orch_inv_def)

lemma requestPump_inv:
  assumes "orch_loop s = Some lp" "orch_pump s = NoPump" "\<not> disposed s" "externalPending s"
    and "pendingOutcome s = None" and "only_turn lp (active_member lp) t" "t \<noteq> Some (InFlight True)"
    and "active_member lp = Announcer \<Longrightarrow> t = None"
  shows "orch_inv (fst (requestPump env (s, w)))"
proof -
  have "pump_inv (s\<lparr>orch_pump := AtHead\<rparr>)"
    using assms by (auto simp: pump_inv_def awaited_def)
  from run_pump_orch_inv [OF this] assms(2,3) show ?thesis by (simp add: requestPump_def)
qed

text \<open>A delivery opens a turn only for a member that has none, and never another kind of turn.\<close>

lemma agent_deliver_cases [consumes 1, case_names failed steers opens]:
  assumes "agent_deliver d x m w = (r, m', w')"
  obtains e where "r = Inl e" "m' = m"
  | "activeTurn m \<noteq> None" "r = Inr ()" "m' = m\<lparr>steered := steered m @ [x]\<rparr>"
  | messages v where "activeTurn m = None" "r = Inr ()" "begin_turn d (messages @ [x]) False m v = (m', w')"
proof (cases "activeTurn m = None")
  case True
  show thesis
  proof (cases r)
    case (Inl e)
    with True assms that(1) show thesis
      by (auto simp: agent_deliver_def startTurn_def split: prod.splits sum.splits if_splits)
  next
    case (Inr u)
    with True assms obtain drained l v where "startTurn d (drained @ l @ [x]) False m v = (r, m', w')"
      by (auto simp: agent_deliver_def split: prod.splits sum.splits)
    with Inr have "begin_turn d ((drained @ l) @ [x]) False m (sweepBroadcastResidue d v) = (m', w')"
      by (auto simp: startTurn_def split: if_splits)
    from that(3) [OF True _ this] Inr show thesis by simp
  qed
next
  case False
  with assms that(1,2) show thesis
    by (auto simp: agent_deliver_def split: prod.splits sum.splits)
qed

section \<open>Steps\<close>

text \<open>A team that \<open>materialize\<close> has just built.\<close>

definition fresh_loop :: team_loop where
  "fresh_loop = \<lparr>lp_flow = createSaoleiFlow, lp_agents = new_agent_member, lp_announcer = new_announcer\<rparr>"

definition materialized :: "jstr \<Rightarrow> orchestrator" where
  "materialized session = new_orchestrator\<lparr>orch_loop := Some fresh_loop, orch_session := Some session\<rparr>"

text \<open>The operations of the host, what agents and the game do, and time passing. A turn ends when the agent
  becomes idle; a team broadcast reaches a member through its in-flight face.\<close>

inductive orch_step :: "'w orch_env \<Rightarrow> orchestrator \<times> 'w \<Rightarrow> orchestrator \<times> 'w \<Rightarrow> bool" for env :: "'w orch_env" where
  submits: "submit env t (s, w) = (r, s', w') \<Longrightarrow> orch_step env (s, w) (s', w')"
| cancels: "cancel env (s, w) = (c, s', w') \<Longrightarrow> orch_step env (s, w) (s', w')"
| disposes: "dispose_begin env (s, w) = (s', w') \<Longrightarrow> orch_step env (s, w) (s', w')"
| released: "disposed s \<Longrightarrow> orch_pump s = NoPump \<Longrightarrow> orch_step env (s, w) (dispose_end s, w)"
| errs: "orch_loop s = Some lp \<Longrightarrow>
    orch_step env (s, w) (put_loop (put_agent i (on_agent_error e (lp_agents lp i)) lp) s, w)"
| ends: "turn_ends env i (s, w) = (s', w') \<Longrightarrow> orch_step env (s, w) (s', w')"
| broadcasts: "orch_loop s = Some lp \<Longrightarrow>
    agent_deliverInFlight (member_deps env i) x (lp_agents lp i) (landed s, w) = (l, w') \<Longrightarrow>
    orch_step env (s, w) (s\<lparr>landed := l\<rparr>, w')"
| hooks: "announceHookResult env t (s, w) = (h, s', w') \<Longrightarrow> orch_step env (s, w) (s', w')"
| world: "terminal_id env w \<le> terminal_id env w' \<Longrightarrow> orch_step env (s, w) (s, w')"

inductive orch_reach :: "'w orch_env \<Rightarrow> orchestrator \<Rightarrow> 'w \<Rightarrow> bool" for env :: "'w orch_env" where
  fresh: "orch_reach env (materialized session) w"
| step: "orch_reach env s w \<Longrightarrow> orch_step env (s, w) (s', w') \<Longrightarrow> orch_reach env s' w'"

lemma materialized_inv: "orch_inv (materialized session)"
  by (simp add: orch_inv_def pump_inv_def materialized_def new_orchestrator_def awaited_def no_turn_def
      fresh_loop_def new_agent_member_def)

lemma orch_invD:
  assumes "orch_inv s" "orch_loop s = Some lp"
  shows "awaited s lp" "\<not> externalPending s" "pendingOutcome s = None" "orch_pump s \<noteq> AtHead"
  using assms by (auto simp: orch_inv_def pump_inv_def)

text \<open>An idle active member means that the pump is not scheduled.\<close>

lemma awaited_busy:
  assumes "awaited s lp" "orch_pump s \<noteq> AtHead"
  shows "member_busy lp (active_member lp) \<longleftrightarrow> orch_pump s \<noteq> NoPump"
    and "i \<noteq> active_member lp \<Longrightarrow> activeTurn (lp_agents lp i) = None"
  using assms by (cases "orch_pump s"; auto simp: awaited_def member_busy_def busy_def no_turn_def only_turn_def)+

text \<open>Changes that keep every turn, the flow's position, and the pump keep the invariant.\<close>

lemma orch_inv_cong:
  assumes "orch_inv s" and "orch_loop s = Some lp" and "orch_loop s' = Some lp'"
    and "\<And>j. activeTurn (lp_agents lp' j) = activeTurn (lp_agents lp j)"
    and "position (lp_flow lp') = position (lp_flow lp)"
    and "orch_pump s' = orch_pump s" "externalPending s' = externalPending s" "pendingOutcome s' = pendingOutcome s"
  shows "orch_inv s'"
proof -
  have "active_member lp' = active_member lp" using assms(5) by (simp add: active_activity)
  moreover have "no_turn lp' = no_turn lp" "only_turn lp' i t = only_turn lp i t" for i t
    using assms(4) by (simp_all add: no_turn_def only_turn_def)
  ultimately have "awaited s' lp' = awaited s lp"
    using assms(6,7) by (cases "orch_pump s") (simp_all add: awaited_def)
  with assms show ?thesis by (simp add: orch_inv_def pump_inv_def)
qed

lemma decide_failed_position:
  "decide acts t (Some (Failed c d)) f = (x, f') \<Longrightarrow> position f' = position f \<and> lastOutcome f' = Some (Failed c d)"
  by (erule decide_cases) auto

lemma submit_inv:
  assumes inv: "orch_inv s" and sub: "submit env t (s, w) = (r, s', w')"
  shows "orch_inv s'"
proof (cases "disposed s \<or> orch_loop s = None")
  case True
  with assms show ?thesis by (auto simp: submit_def split: if_splits)
next
  case False
  then obtain lp where lp: "orch_loop s = Some lp" "\<not> disposed s" by blast
  note facts = orch_invD [OF inv lp(1)]
  obtain x w1 where msg: "createUserMessage env t w = (x, w1)" by fastforce
  obtain q s2 w2 where del: "member_deliver env x lp (s, w1) = (q, s2, w2)" by (metis prod.collapse)
  let ?i = "active_member lp"
  show ?thesis
  proof (cases "?i = Announcer")
    case True
    with del have q: "q = Inr ()" "s2 = s" "w2 = w1" by (auto simp: member_deliver_def)
    have np: "orch_pump s = NoPump"
      using awaited_busy(1) [OF facts(1,4)] True by (simp add: member_busy_def)
    have idle: "only_turn lp ?i None" using facts(1) np by (simp add: awaited_def no_turn_only [of lp ?i])
    have "s' = fst (requestPump env (s\<lparr>externalPending := True\<rparr>, w1))"
      using sub lp msg del q True by (auto simp: submit_def member_busy_def Let_def)
    with requestPump_inv [of "s\<lparr>externalPending := True\<rparr>" lp None env w1] lp np facts idle
    show ?thesis by simp
  next
    case False
    obtain m l w3 where ad: "agent_deliver (member_deps env ?i) x (lp_agents lp ?i) (landed s, w1) = (q, m, l, w3)"
      and s2: "s2 = put_loop (put_agent ?i m lp) (s\<lparr>landed := l\<rparr>)"
      using del False by (auto simp: member_deliver_def Let_def split: prod.splits)
    from ad show ?thesis
    proof (cases rule: agent_deliver_cases)
      case (failed e)
      obtain s3 w4 where rec:
        "recordFailure env None INTERNAL (orchestrationFailure e) Orchestration (s2, w2) = (s3, w4)" by fastforce
      then have s3: "orch_loop s3 = Some (put_agent ?i m lp)" "same_loop s2 s3"
        using recordFailure_same [OF rec] s2 by (simp_all add: same_loop_def)
      obtain d s4 w5 where dec: "orch_decide env (Some (Failed INTERNAL (orchestrationFailure e)))
          (put_agent ?i m lp) (s3, w4) = (d, s4, w5)" by (metis prod.collapse)
      from orch_decide_loop [OF dec] obtain f where f:
        "decide SAOLEI_ACTIVITIES (terminal_id env w4) (Some (Failed INTERNAL (orchestrationFailure e))) (lp_flow lp) = (d, f)"
        "s4 = put_loop ((put_agent ?i m lp)\<lparr>lp_flow := f\<rparr>) s3" by auto
      have "s' = s4" using sub lp msg del failed rec s3(1) dec by (auto simp: submit_def Let_def)
      with f decide_failed_position [OF f(1)] s3(2) s2 failed(2) lp inv show ?thesis
        by (intro orch_inv_cong [of s lp s' "(put_agent ?i m lp)\<lparr>lp_flow := f\<rparr>"]) (auto simp: same_loop_def)
    next
      case steers
      then have "member_busy lp ?i" using False by (simp add: member_busy_def busy_def)
      with sub lp msg del steers have "s' = s2" by (auto simp: submit_def Let_def)
      with s2 steers lp inv show ?thesis
        by (intro orch_inv_cong [of s lp s' "put_agent ?i m lp"]) auto
    next
      case (opens messages v)
      then have nb: "\<not> member_busy lp ?i" by (simp add: member_busy_def busy_def)
      with awaited_busy(1) [OF facts(1,4)] have np: "orch_pump s = NoPump" by simp
      then have idle: "no_turn lp" using facts(1) by (simp add: awaited_def)
      have "s' = fst (requestPump env (s2\<lparr>externalPending := True\<rparr>, w2))"
        using sub lp msg del opens(2) nb by (auto simp: submit_def Let_def)
      moreover have "activeTurn m = Some (InFlight False) \<or> (\<exists>e. activeTurn m = Some (Rejected e))"
        using opens(3) by (auto elim!: begin_turn_cases)
      then have "activeTurn m \<noteq> Some (InFlight True)" by auto
      moreover have "active_member (put_agent ?i m lp) = ?i" by (simp add: active_member_def)
      ultimately show ?thesis
        using requestPump_inv [of "s2\<lparr>externalPending := True\<rparr>" "put_agent ?i m lp" "activeTurn m" env w2]
          s2 np lp facts idle False by (simp add: only_turn_def no_turn_def)
    qed
  qed
qed

lemma abort_turn [simp]: "activeTurn (abort m) = activeTurn m"
  by (simp add: abort_def)

lemma error_turn [simp]: "activeTurn (on_agent_error e m) = activeTurn m"
  by (simp add: on_agent_error_def)

lemma cancel_inv:
  assumes inv: "orch_inv s" and can: "cancel env (s, w) = (c, s', w')"
  shows "orch_inv s'"
proof (cases "disposed s \<or> orch_loop s = None")
  case True
  with assms show ?thesis by (auto simp: cancel_def split: if_splits)
next
  case False
  then obtain lp where lp: "orch_loop s = Some lp" "\<not> disposed s" by blast
  let ?i = "active_member lp"
  from can lp consider "s' = s"
    | "s' = put_loop (put_agent ?i (abort (lp_agents lp ?i)) lp) (s\<lparr>landed := landed s @ unclaimed env ?i w\<rparr>)"
    | "s' = put_loop (lp\<lparr>lp_flow := freezeAborted (lp_flow lp)\<rparr>) (s\<lparr>landed := landed s @ unclaimed env ?i w\<rparr>)"
    by (auto simp: cancel_def Let_def split: if_splits)
  then show ?thesis
  proof cases
    case 2
    with inv lp show ?thesis
      by (intro orch_inv_cong [of s lp s' "put_agent ?i (abort (lp_agents lp ?i)) lp"]) auto
  next
    case 3
    with inv lp show ?thesis
      by (intro orch_inv_cong [of s lp s' "lp\<lparr>lp_flow := freezeAborted (lp_flow lp)\<rparr>"])
        (auto simp: freezeAborted_def)
  qed (use inv in simp)
qed

lemma dispose_begin_inv:
  assumes inv: "orch_inv s" and dis: "dispose_begin env (s, w) = (s', w')"
  shows "orch_inv s'"
proof (cases "orch_loop s")
  case None
  with assms show ?thesis by (auto simp: dispose_begin_def orch_inv_def pump_inv_def split: if_splits)
next
  case (Some lp)
  from dis Some consider "s' = s" | "s' = s\<lparr>disposed := True, landed := []\<rparr>"
    | i where "s' = put_loop (put_agent i (abort (lp_agents lp i)) lp) (s\<lparr>disposed := True, landed := []\<rparr>)"
    by (auto simp: dispose_begin_def Let_def split: if_splits option.splits)
  then show ?thesis
  proof cases
    case 2
    with inv Some show ?thesis by (intro orch_inv_cong [of s lp s' lp]) auto
  next
    case (3 i)
    with inv Some show ?thesis
      by (intro orch_inv_cong [of s lp s' "put_agent i (abort (lp_agents lp i)) lp"]) auto
  qed (use inv in simp)
qed

lemma drive_settled_inv:
  assumes "drive_settled env i r (s, w) = (s', w')" and "orch_loop s = Some lp" and "no_turn lp"
    and "\<not> externalPending s" and "pendingOutcome s = None"
  shows "pump_inv s' \<and> (orch_pump s' = AtHead \<longrightarrow> \<not> disposed s')"
proof -
  obtain out s1 w1 where res: "drive_result env i r (s, w) = (out, s1, w1)" by (metis prod.collapse)
  with assms(1) have "s' = (if disposed s1 then s1\<lparr>orch_pump := NoPump\<rparr>
      else s1\<lparr>pendingOutcome := Some out, orch_pump := AtHead\<rparr>)"
    by (auto simp: drive_settled_def)
  with drive_result_same [OF res] assms(2-5) show ?thesis
    by (auto simp: same_loop_def pump_inv_def awaited_def)
qed

lemma finish_idle: "activeTurn m = None \<Longrightarrow> finish_turn m = (Inr Resting, m)"
  by (simp add: finish_turn_def)

lemma finish_turn_done: "finish_turn m = (r, m') \<Longrightarrow> activeTurn m' = None"
  by (auto simp: finish_turn_def Let_def split: option.splits turn.splits if_splits)

lemma turn_settled_live:
  assumes "turn_settled env i r lp (s, w) = (s', w')" and "orch_loop s = Some lp" and "orch_pump s' = AtHead"
  shows "\<not> disposed s'"
proof -
  have "\<not> disposed s"
    using assms(1,3) by (auto simp: turn_settled_def split: prod.splits sum.splits if_splits)
  with turn_settled_keeps [OF assms(1,2)] show ?thesis by (simp add: keeps_team_def)
qed

lemma turn_ends_inv:
  assumes inv: "orch_inv s" and te: "turn_ends env i (s, w) = (s', w')"
  shows "orch_inv s'"
proof (cases "orch_loop s")
  case None
  with assms show ?thesis by (simp add: turn_ends_def)
next
  case (Some lp)
  note facts = orch_invD [OF inv Some]
  obtain r m where fin: "finish_turn (lp_agents lp i) = (r, m)" by fastforce
  let ?lp = "put_agent i m lp" and ?s = "put_loop (put_agent i m lp) s"
  have ended: "no_turn ?lp" if "only_turn lp i t" for t
    using that finish_turn_done [OF fin] by (auto simp: no_turn_def only_turn_def)
  consider (drive) "orch_pump s = AwaitDrive i" | (external) "orch_pump s = AwaitTurn i"
    | (other) "orch_pump s \<noteq> AwaitDrive i" "orch_pump s \<noteq> AwaitTurn i" by blast
  then show ?thesis
  proof cases
    case drive
    obtain s1 w1 where ds: "drive_settled env i r (?s, w) = (s1, w1)" by fastforce
    have "no_turn ?lp" using ended facts(1) drive by (auto simp: awaited_def)
    with drive_settled_inv [OF ds, of ?lp] facts have "pump_inv s1 \<and> (orch_pump s1 = AtHead \<longrightarrow> \<not> disposed s1)"
      by simp
    with run_pump_orch_inv [of s1 env w1] te Some fin drive ds show ?thesis
      by (simp add: turn_ends_def)
  next
    case external
    obtain s1 w1 where ts: "turn_settled env i r ?lp (?s, w) = (s1, w1)" by fastforce
    have "no_turn ?lp" using ended facts(1) external by (auto simp: awaited_def)
    with turn_settled_inv [OF ts] facts have "pump_inv s1" by simp
    moreover have "orch_pump s1 = AtHead \<longrightarrow> \<not> disposed s1" using turn_settled_live [OF ts] by simp
    ultimately show ?thesis
      using run_pump_orch_inv [of s1 env w1] te Some fin external ts by (simp add: turn_ends_def)
  next
    case other
    have "i \<noteq> active_member lp \<or> orch_pump s = NoPump"
      using other facts(1,4) by (cases "orch_pump s") (auto simp: awaited_def)
    with facts(1) awaited_busy(2) [OF facts(1,4), of i] have "activeTurn (lp_agents lp i) = None"
      by (auto simp: awaited_def no_turn_def)
    from finish_idle [OF this] fin have "m = lp_agents lp i" by simp
    with te Some fin other have "s' = ?s" by (simp add: turn_ends_def Let_def)
    with inv Some \<open>m = lp_agents lp i\<close> show ?thesis
      by (intro orch_inv_cong [of s lp s' ?lp]) auto
  qed
qed

lemma orch_step_inv:
  assumes "orch_step env (s, w) (s', w')" and "orch_inv s"
  shows "orch_inv s'"
  using assms(1)
proof (cases rule: orch_step.cases)
  case (submits t r)
  from submit_inv [OF assms(2) this] show ?thesis .
next
  case (cancels c)
  from cancel_inv [OF assms(2) this] show ?thesis .
next
  case disposes
  from dispose_begin_inv [OF assms(2) this] show ?thesis .
next
  case released
  with assms(2) show ?thesis
    by (simp add: dispose_end_def orch_inv_def pump_inv_def split: option.splits)
next
  case (errs lp i e)
  with assms(2) show ?thesis
    by (intro orch_inv_cong [of s lp s' "put_agent i (on_agent_error e (lp_agents lp i)) lp"]) auto
next
  case (ends i)
  from turn_ends_inv [OF assms(2) this] show ?thesis .
next
  case (broadcasts lp i x l)
  with assms(2) show ?thesis by (intro orch_inv_cong [of s lp s' lp]) auto
next
  case (hooks t h)
  show ?thesis
  proof (cases "orch_loop s")
    case None
    with hooks assms(2) show ?thesis by (simp add: announceHookResult_def)
  next
    case (Some lp)
    with hooks obtain a where "s' = put_loop (lp\<lparr>lp_announcer := a\<rparr>) s"
      by (auto simp: announceHookResult_def split: prod.splits)
    with Some assms(2) show ?thesis
      by (intro orch_inv_cong [of s lp s' "lp\<lparr>lp_announcer := a\<rparr>"]) auto
  qed
qed (use assms(2) in simp)

lemma orch_reach_inv: "orch_reach env s w \<Longrightarrow> orch_inv s"
  by (induction rule: orch_reach.induct) (auto intro: materialized_inv orch_step_inv)

section \<open>A concrete team\<close>

text \<open>Agents that always have one broadcast to drain, accept everything and are idle between turns.\<close>

definition sample_runtime :: "unit agent_runtime" where
  "sample_runtime =
     \<lparr>agent_idle = (\<lambda>_. True), agent_inject = (\<lambda>_ w. (Inr (), w)), agent_steer = (\<lambda>_ w. (Inr (), w)),
      agent_followup = (\<lambda>_ w. (Inr (), w)), inbox_nextStep = (\<lambda>_. []), inbox_nextTurn = (\<lambda>_. []),
      inbox_remove = (\<lambda>_ w. w), agent_warn = (\<lambda>_ w. w), drainSource = (\<lambda>w. (Inr [sample_message], w))\<rparr>"

definition sample_env :: "unit orch_env" where
  "sample_env =
     \<lparr>env_agent = (\<lambda>_. sample_runtime), env_cancel = (\<lambda>_ w. w),
      env_announcer = \<lparr>clock_now = (\<lambda>_. 0), fresh_id = (\<lambda>w. (js ''m'', w)), notify_listeners = (\<lambda>_ w. (Inr (), w))\<rparr>,
      peekTerminal = (\<lambda>_. None), log_error = (\<lambda>_ w. w),
      createUserMessage = (\<lambda>t w. (\<lparr>um_text = t, um_source = UserSource, msg_id = js ''u''\<rparr>, w))\<rparr>"

text \<open>The user starts the team; the planner's turn settles, and the player is driven and fails; the user writes
  again.\<close>

definition team_asked :: orchestrator where
  "team_asked = fst (snd (submit sample_env (js ''go'') (materialized (js ''t''), ())))"

definition team_playing :: orchestrator where
  "team_playing = fst (turn_ends sample_env Planner (team_asked, ()))"

definition player_fails :: "orchestrator \<Rightarrow> orchestrator" where
  "player_fails s = (case orch_loop s of
     None \<Rightarrow> s
   | Some lp \<Rightarrow> put_loop (put_agent Player (on_agent_error (HarnessError (js ''SERVER'') (js ''x''))
                                  (lp_agents lp Player)) lp) s)"

definition team_failing :: orchestrator where
  "team_failing = player_fails team_playing"

definition team_frozen :: orchestrator where
  "team_frozen = fst (turn_ends sample_env Player (team_failing, ()))"

definition team_recovering :: orchestrator where
  "team_recovering = fst (snd (submit sample_env (js ''go'') (team_frozen, ())))"

lemma reach_submit:
  assumes "orch_reach env s ()" shows "orch_reach env (fst (snd (submit env t (s, ())))) ()"
proof -
  obtain r s' where "submit env t (s, ()) = (r, s', ())" by (metis old.unit.exhaust prod.collapse)
  with orch_reach.step [OF assms orch_step.submits] show ?thesis by auto
qed

lemma reach_ends:
  assumes "orch_reach env s ()" shows "orch_reach env (fst (turn_ends env i (s, ()))) ()"
proof -
  obtain s' where "turn_ends env i (s, ()) = (s', ())" by (metis old.unit.exhaust prod.collapse)
  with orch_reach.step [OF assms orch_step.ends] show ?thesis by auto
qed

lemma reach_fails:
  assumes "orch_reach env s w" shows "orch_reach env (player_fails s) w"
  using orch_reach.step [OF assms orch_step.errs] assms by (auto simp: player_fails_def split: option.split)

lemma sample_reach:
  "orch_reach sample_env team_asked ()" "orch_reach sample_env team_playing ()"
  "orch_reach sample_env team_failing ()" "orch_reach sample_env team_recovering ()"
proof -
  show a: "orch_reach sample_env team_asked ()"
    unfolding team_asked_def by (rule reach_submit [OF orch_reach.fresh])
  show p: "orch_reach sample_env team_playing ()" unfolding team_playing_def by (rule reach_ends [OF a])
  show f: "orch_reach sample_env team_failing ()" unfolding team_failing_def by (rule reach_fails [OF p])
  show "orch_reach sample_env team_recovering ()"
    unfolding team_recovering_def by (rule reach_submit, unfold team_frozen_def, rule reach_ends [OF f])
qed

lemma sample_states:
  "orch_pump team_asked = AwaitTurn Planner" "orch_pump team_failing = AwaitDrive Player"
  "orch_pump team_recovering = AwaitTurn Player"
  by code_simp+

section \<open>Properties\<close>

text \<open>C19: At most one member is driven at a time, and the pump waits for exactly it: in every reachable state of
  a materialized team, no member has a turn in flight while no pump is scheduled, and otherwise the
  active member of the flow, an agent, has one, the pump awaits it, and no other member has one. So
  a drive or a delivery never meets a turn of its member it does not know of.\<close>
theorem one_member_is_driven:
  assumes "orch_reach env s w" and "orch_loop s = Some lp"
  shows "(orch_pump s = NoPump \<and> busyMember s = None \<and> (\<lambda>i. activeTurn (lp_agents lp i)) = (\<lambda>_. None)) \<or>
    (\<exists>i hold. orch_pump s = (if hold then AwaitDrive i else AwaitTurn i) \<and> i = active_member lp \<and>
       busyMember s = Some i \<and> i \<noteq> Announcer \<and>
       (\<lambda>j. activeTurn (lp_agents lp j)) = (\<lambda>_. None)(i := Some (InFlight hold)))"
proof -
  have aw: "awaited s lp" and head: "orch_pump s \<noteq> AtHead"
    using orch_invD [OF orch_reach_inv [OF assms(1)] assms(2)] by simp_all
  have busy: "busyMember s = Some i" if "i \<noteq> Announcer" "only_turn lp i (Some t)" for i t
    using that assms(2) by (cases i) (auto simp: busyMember_def MEMBER_IDS_def member_busy_def busy_def only_turn_def)
  have turns: "(\<lambda>j. activeTurn (lp_agents lp j)) = (\<lambda>_. None)(i := t)" if "only_turn lp i t" for i t
    using that by (auto simp: only_turn_def)
  show ?thesis
  proof (cases "orch_pump s")
    case NoPump
    with aw assms(2) show ?thesis
      by (auto simp: awaited_def no_turn_def busyMember_def MEMBER_IDS_def member_busy_def busy_def)
  next
    case (AwaitDrive i)
    with aw have i: "i \<noteq> Announcer" "i = active_member lp" "only_turn lp i (Some (InFlight True))"
      by (auto simp: awaited_def)
    with AwaitDrive busy [OF i(1,3)] turns [OF i(3)] show ?thesis
      by (intro disjI2 exI [of _ i] exI [of _ True]) simp
  next
    case (AwaitTurn i)
    with aw have i: "i \<noteq> Announcer" "i = active_member lp" "only_turn lp i (Some (InFlight False))"
      by (auto simp: awaited_def)
    with AwaitTurn busy [OF i(1,3)] turns [OF i(3)] show ?thesis
      by (intro disjI2 exI [of _ i] exI [of _ False]) simp
  qed (use head in simp)
qed

theorem one_member_is_driven_witness:
  "case orch_loop team_asked of None \<Rightarrow> False | Some lp \<Rightarrow>
     (orch_pump team_asked = NoPump \<and> busyMember team_asked = None \<and>
        (\<lambda>i. activeTurn (lp_agents lp i)) = (\<lambda>_. None)) \<or>
     (\<exists>i hold. orch_pump team_asked = (if hold then AwaitDrive i else AwaitTurn i) \<and> i = active_member lp \<and>
        busyMember team_asked = Some i \<and> i \<noteq> Announcer \<and>
        (\<lambda>j. activeTurn (lp_agents lp j)) = (\<lambda>_. None)(i := Some (InFlight hold)))"
proof (cases "orch_loop team_asked")
  case None
  moreover have "orch_loop team_asked \<noteq> None" by code_simp
  ultimately show ?thesis by simp
next
  case (Some lp)
  from one_member_is_driven [OF sample_reach(1) Some] show ?thesis unfolding Some option.case .
qed

text \<open>C22: The pump never spins: from any state, it awaits a turn or returns within four iterations, and more fuel
  changes nothing.\<close>
theorem pump_never_spins:
  "orch_pump (fst (run_pump env 4 sw)) \<noteq> AtHead \<and> run_pump env (4 + n) sw = run_pump env 4 sw"
proof -
  have stop: "run_pump env n sw = sw" if "orch_pump (fst sw) \<noteq> AtHead" for n sw
    using that by (cases n) simp_all
  have "run_pump env (k + n) sw = run_pump env n (run_pump env k sw)" for k sw
    by (induction k arbitrary: sw) (simp_all add: stop)
  with pump_blocks [of env sw] stop show ?thesis by (simp add: PUMP_FUEL_def)
qed

text \<open>C20: A failed member turn freezes the team where it is: when the driven member's turn fails, the pump stops,
  the flow stays at the same activity with the same facts and remembers the failure, the host sees it
  with the member, the phase and the code, and nothing else of the team changes.\<close>
theorem failed_turn_freezes:
  assumes "orch_reach env s w" and "orch_loop s = Some lp" and "orch_pump s = AwaitDrive i" and "\<not> disposed s"
    and "finish_turn (lp_agents lp i) = (Inr (Failed code detail), m)"
  shows "case turn_ends env i (s, w) of (s', w') \<Rightarrow>
    \<exists>f. orch_loop s' = Some (lp\<lparr>lp_flow := f, lp_agents := (lp_agents lp)(i := m)\<rparr>) \<and>
      position f = position (lp_flow lp) \<and> flow_facts f = flow_facts (lp_flow lp) \<and>
      paused f \<and> frozenError f = Some (code, detail) \<and> orch_pump s' = NoPump \<and> landed s' = landed s \<and>
      lastError s' = Some \<lparr>of_message = fail_message detail, of_member = Some i,
        of_phase = phaseOfActivity (position (lp_flow lp)), of_code = code, of_origin = MemberTurn,
        of_detail = detail\<rparr>"
proof -
  have ext: "\<not> externalPending s" using orch_invD [OF orch_reach_inv [OF assms(1)] assms(2)] by simp
  have freeze: "decide SAOLEI_ACTIVITIES t (Some (Failed code detail)) (lp_flow lp) =
      (Frozen, absorb SAOLEI_ACTIVITIES t (Failed code detail) ((lp_flow lp)\<lparr>retrying := False\<rparr>))"
    for t :: "nat option" by (simp add: decide_def Let_def)
  show ?thesis
    using assms(2-5) ext
    by (simp add: turn_ends_def drive_settled_def drive_result_def report_outcome_def settleError_def
        recordFailure_def orch_phase_def PUMP_FUEL_def numeral_eq_Suc pump_iteration_def decide_and_start_def
        orch_decide_def freeze put_agent_def put_loop_def absorb_def Let_def paused_def)
      (rule exI [of _ "(lp_flow lp)\<lparr>retrying := False, lastOutcome := Some (Failed code detail),
         frozenError := Some (code, detail)\<rparr>"], simp)
qed

theorem failed_turn_freezes_witness:
  "case orch_loop team_failing of None \<Rightarrow> False | Some lp \<Rightarrow>
     case turn_ends sample_env Player (team_failing, ()) of (s', w') \<Rightarrow>
       \<exists>f. orch_loop s' = Some (lp\<lparr>lp_flow := f, lp_agents := (lp_agents lp)
              (Player := snd (finish_turn (lp_agents lp Player)))\<rparr>) \<and>
         position f = position (lp_flow lp) \<and> flow_facts f = flow_facts (lp_flow lp) \<and>
         paused f \<and> frozenError f = Some (TRANSIENT, \<lparr>engineCode = Some (js ''SERVER''), fail_message = js ''x''\<rparr>) \<and>
         orch_pump s' = NoPump \<and> landed s' = landed team_failing \<and>
         lastError s' = Some \<lparr>of_message = fail_message \<lparr>engineCode = Some (js ''SERVER''), fail_message = js ''x''\<rparr>,
           of_member = Some Player,
           of_phase = phaseOfActivity (position (lp_flow lp)), of_code = TRANSIENT, of_origin = MemberTurn,
           of_detail = \<lparr>engineCode = Some (js ''SERVER''), fail_message = js ''x''\<rparr>\<rparr>"
proof (cases "orch_loop team_failing")
  case None
  moreover have "orch_loop team_failing \<noteq> None" by code_simp
  ultimately show ?thesis by simp
next
  case (Some lp)
  have "map_option (\<lambda>lp. fst (finish_turn (lp_agents lp Player))) (orch_loop team_failing) =
      Some (Inr (Failed TRANSIENT \<lparr>engineCode = Some (js ''SERVER''), fail_message = js ''x''\<rparr>))"
    by code_simp
  with Some have fin: "finish_turn (lp_agents lp Player) =
      (Inr (Failed TRANSIENT \<lparr>engineCode = Some (js ''SERVER''), fail_message = js ''x''\<rparr>),
       snd (finish_turn (lp_agents lp Player)))"
    by (metis (no_types, lifting) option.inject option.map(2) prod.collapse)
  have "\<not> disposed team_failing" by code_simp
  from failed_turn_freezes [OF sample_reach(3) Some sample_states(2) this fin]
  show ?thesis unfolding Some option.case .
qed

text \<open>A user message resumes a frozen team at the activity it froze in: when the turn the message started
  settles while the flow is frozen, the pump drives the same member again for the same activity, with
  the input its drive assembles, and the failure is no longer shown.\<close>
lemma recovery_restarts_activity:
  assumes "orch_reach env s w" and "orch_loop s = Some lp" and "orch_pump s = AwaitTurn i" and "\<not> disposed s"
    and "paused (lp_flow lp)" and "position (lp_flow lp) \<noteq> RestAct"
    and "finish_turn (lp_agents lp i) = (Inr Settled, m)"
    and "agent_drive (member_deps env i) None m (landed s, w) = (TurnStarted, m', l, w1)"
    and "activeTurn m' = Some (InFlight True)"
  shows "case turn_ends env i (s, w) of (s', w') \<Rightarrow>
    orch_pump s' = AwaitDrive i \<and> w' = w1 \<and> landed s' = l \<and> lastError s' = None \<and>
    orch_loop s' = Some (lp\<lparr>lp_flow := (lp_flow lp)\<lparr>retrying := True\<rparr>, lp_agents := (lp_agents lp)(i := m')\<rparr>)"
proof -
  have aw: "awaited s lp" using orch_invD [OF orch_reach_inv [OF assms(1)] assms(2)] by simp
  with assms(3) have i: "i \<noteq> Announcer" "active_member lp = i" by (auto simp: awaited_def)
  have act: "act_member (SAOLEI_ACTIVITIES (position (lp_flow lp)) :: (activity_id, member_id, nat) activity) = i"
    using i(2) by (simp add: active_activity)
  have driven: "\<not> driverless (SAOLEI_ACTIVITIES (position (lp_flow lp)) :: (activity_id, member_id, nat) activity)"
    using assms(6) by (cases "position (lp_flow lp)") (simp_all add: plain_activity_def)
  have restart: "decide SAOLEI_ACTIVITIES t None (lp_flow lp) =
      (StartActivity (position (lp_flow lp)), (lp_flow lp)\<lparr>retrying := True\<rparr>)"
    for t :: "nat option" using assms(5) by (simp add: decide_def Let_def)
  show ?thesis
    using assms(2-4,7-9) i act driven
    by (simp add: turn_ends_def turn_settled_def report_outcome_def settleError_def PUMP_FUEL_def
        numeral_eq_Suc decide_and_start_def orch_decide_def restart execute_def put_agent_def put_loop_def Let_def)
qed

end
