(* ===== verification/Orchestrator_Flow.thy ===== *)
theory Orchestrator_Flow
  imports Orchestrator_Runs
begin

declare js_simps(2) [simp del]

text \<open>
  The orchestrator follows the flow layer: whatever the host, the agents and the game do, the flow of a
  reachable orchestrator is a run of the saolei flow, so its natural stop and its single review of
  each game are the team's. Terminal records are numbered in the order they are made, and the game
  runtime only replaces its record by a newer one.
\<close>

section \<open>Worlds that only move forward\<close>

definition steady :: "('w \<Rightarrow> nat option) \<Rightarrow> 'w agent_deps \<Rightarrow> bool" where
  "steady mu d \<longleftrightarrow>
     (\<forall>x w. mu w \<le> mu (snd (agent_inject d x w))) \<and> (\<forall>x w. mu w \<le> mu (snd (agent_steer d x w))) \<and>
     (\<forall>x w. mu w \<le> mu (snd (agent_followup d x w))) \<and> (\<forall>x w. mu w \<le> mu (inbox_remove d x w)) \<and>
     (\<forall>x w. mu w \<le> mu (agent_warn d x w)) \<and> (\<forall>w. mu w \<le> mu (snd (drainSource d w))) \<and>
     (\<forall>w. mu w \<le> mu (snd (flushLanded d w)))"

lemma steadyD:
  assumes "steady mu d"
  shows "agent_inject d x w = (r, w') \<Longrightarrow> mu w \<le> mu w'" "agent_steer d x w = (r, w') \<Longrightarrow> mu w \<le> mu w'"
    "agent_followup d x w = (r, w') \<Longrightarrow> mu w \<le> mu w'" "mu w \<le> mu (inbox_remove d i w)"
    "mu w \<le> mu (agent_warn d t w)" "drainSource d w = (q, w') \<Longrightarrow> mu w \<le> mu w'"
    "flushLanded d w = (l, w') \<Longrightarrow> mu w \<le> mu w'"
  using assms unfolding steady_def by (metis snd_conv)+

lemma inject_all_steady: "steady mu d \<Longrightarrow> inject_all d xs w = (r, w') \<Longrightarrow> mu w \<le> mu w'"
proof (induction xs arbitrary: w)
  case (Cons x xs)
  obtain q w1 where inj: "agent_inject d x w = (q, w1)" by fastforce
  from steadyD(1) [OF Cons.prems(1) inj] have le: "mu w \<le> mu w1" .
  show ?case
  proof (cases q)
    case (Inr u)
    with inj Cons.prems have "inject_all d xs w1 = (r, w')" by simp
    from order_trans [OF le Cons.IH [OF Cons.prems(1) this]] show ?thesis .
  qed (use inj Cons.prems le in simp)
qed simp

lemma sweep_steady:
  assumes "steady mu d"
  shows "mu w \<le> mu (sweepBroadcastResidue d w)"
proof -
  have "mu w \<le> mu (foldl (\<lambda>v x. inbox_remove d (msg_id x) v) w xs)" for xs :: "agent_message list" and w
  proof (induction xs arbitrary: w)
    case (Cons x xs)
    from order_trans [OF steadyD(4) [OF assms] Cons] show ?case by simp
  qed simp
  then show ?thesis unfolding sweepBroadcastResidue_def .
qed

lemma begin_turn_steady:
  assumes "steady mu d" and "begin_turn d xs hold m w = (m', w')"
  shows "mu w \<le> mu w'"
proof -
  obtain q w1 where inj: "inject_all d (butlast xs) w = (q, w1)" by fastforce
  note le = inject_all_steady [OF assms(1) inj]
  show ?thesis
  proof (cases q)
    case (Inr u)
    obtain p w2 where fo: "agent_followup d (last xs) w1 = (p, w2)" by fastforce
    with assms(2) inj Inr have "w' = w2" by (auto simp: begin_turn_def Let_def split: sum.splits)
    with order_trans [OF le steadyD(3) [OF assms(1) fo]] show ?thesis by simp
  qed (use assms(2) inj le in \<open>auto simp: begin_turn_def Let_def\<close>)
qed

lemma startTurn_steady:
  assumes "steady mu d" and "startTurn d xs hold m w = (r, m', w')"
  shows "mu w \<le> mu w'"
  using assms(2) order_trans [OF sweep_steady [OF assms(1), of w] begin_turn_steady [OF assms(1)]]
  by (auto simp: startTurn_def split: if_splits)

lemma input_steady:
  assumes "steady mu d" and "drainSource d w = (q, w1)" and "flushLanded d w1 = (l, w2)"
  shows "mu w \<le> mu w2"
  by (rule order_trans [OF steadyD(6) [OF assms(1,2)] steadyD(7) [OF assms(1,3)]])

lemma defaultInput_steady:
  assumes "steady mu d" and "defaultInput d m w = (q, m', w')"
  shows "mu w \<le> mu w'"
proof -
  obtain x w1 where dr: "drainSource d w = (x, w1)" by fastforce
  obtain l w2 where fl: "flushLanded d w1 = (l, w2)" by fastforce
  from assms(2) dr fl have "w' = w1 \<or> w' = w2"
    by (auto simp: defaultInput_def split: sum.splits if_splits)
  with steadyD(6) [OF assms(1) dr] input_steady [OF assms(1) dr fl] show ?thesis by auto
qed

lemma agent_drive_steady:
  assumes "steady mu d" and "agent_drive d None m w = (r, m', w')"
  shows "mu w \<le> mu w'"
proof -
  obtain q m1 w1 where inp: "defaultInput d m w = (q, m1, w1)" by (metis prod.collapse)
  note le = defaultInput_steady [OF assms(1) inp]
  show ?thesis
  proof (cases "\<exists>xs. q = Inr xs \<and> xs \<noteq> []")
    case True
    then obtain xs where q: "q = Inr xs" "xs \<noteq> []" by blast
    obtain x m2 w2 where st: "startTurn d xs True m1 w1 = (x, m2, w2)" by (metis prod.collapse)
    with inp q assms(2) have "w' = w2" by (auto simp: agent_drive_def split: sum.splits)
    with order_trans [OF le startTurn_steady [OF assms(1) st]] show ?thesis by simp
  qed (use assms(2) inp le in \<open>auto simp: agent_drive_def split: sum.splits\<close>)
qed

lemma agent_deliver_steady:
  assumes "steady mu d" and "agent_deliver d x m w = (r, m', w')"
  shows "mu w \<le> mu w'"
proof (cases "activeTurn m = None")
  case True
  obtain q w1 where dr: "drainSource d w = (q, w1)" by fastforce
  obtain l w2 where fl: "flushLanded d w1 = (l, w2)" by fastforce
  show ?thesis
  proof (cases q)
    case (Inl e)
    with True assms(2) dr have "w' = w1" by (auto simp: agent_deliver_def)
    with steadyD(6) [OF assms(1) dr] show ?thesis by simp
  next
    case (Inr xs)
    with True assms(2) dr fl have "startTurn d (xs @ l @ [x]) False m w2 = (r, m', w')"
      by (auto simp: agent_deliver_def)
    from order_trans [OF input_steady [OF assms(1) dr fl] startTurn_steady [OF assms(1) this]]
    show ?thesis .
  qed
next
  case False
  obtain l w1 where fl: "flushLanded d w = (l, w1)" by fastforce
  obtain q w2 where inj: "inject_all d l w1 = (q, w2)" by fastforce
  note le = order_trans [OF steadyD(7) [OF assms(1) fl] inject_all_steady [OF assms(1) inj]]
  show ?thesis
  proof (cases q)
    case (Inl e)
    with False assms(2) fl inj le show ?thesis by (auto simp: agent_deliver_def)
  next
    case (Inr u)
    obtain p w3 where stq: "agent_steer d x w2 = (p, w3)" by fastforce
    with False assms(2) fl inj Inr have "w' = w3" by (auto simp: agent_deliver_def split: sum.splits)
    with order_trans [OF le steadyD(2) [OF assms(1) stq]] show ?thesis by simp
  qed
qed

lemma deliverInFlight_steady: "steady mu d \<Longrightarrow> mu w \<le> mu (agent_deliverInFlight d x m w)"
proof -
  assume s: "steady mu d"
  obtain q w1 where inj: "agent_inject d x w = (q, w1)" by fastforce
  from steadyD(1) [OF s inj] order_trans [OF steadyD(1) [OF s inj] steadyD(5) [OF s]] inj
  show ?thesis by (auto simp: agent_deliverInFlight_def split: sum.splits)
qed

text \<open>An environment none of whose operations turns the game runtime's record back.\<close>

definition advances :: "'w orch_env \<Rightarrow> bool" where
  "advances env \<longleftrightarrow>
     (\<forall>i. steady (\<lambda>(l, w). terminal_id env w) (member_deps env i)) \<and>
     (\<forall>i w. terminal_id env w \<le> terminal_id env (env_cancel env i w)) \<and>
     (\<forall>w. terminal_id env w \<le> terminal_id env (snd (fresh_id (env_announcer env) w))) \<and>
     (\<forall>e w. terminal_id env w \<le> terminal_id env (snd (notify_listeners (env_announcer env) e w))) \<and>
     (\<forall>c w. terminal_id env w \<le> terminal_id env (log_error env c w)) \<and>
     (\<forall>t w. terminal_id env w \<le> terminal_id env (snd (createUserMessage env t w)))"

lemma announce_advances:
  assumes "advances env" and "announce_text (env_announcer env) t a w = (r, a', w')"
  shows "terminal_id env w \<le> terminal_id env w'"
proof (cases "t = []")
  case False
  obtain mid w1 where fresh: "fresh_id (env_announcer env) w = (mid, w1)" by fastforce
  have "terminal_id env w \<le> terminal_id env w1" using assms(1) fresh unfolding advances_def by (metis snd_conv)
  moreover obtain e where "notify_listeners (env_announcer env) e w1 = (r, w')"
    using assms(2) fresh False by (auto simp: announce_text_def Let_def split: prod.splits)
  then have "terminal_id env w1 \<le> terminal_id env w'" using assms(1) unfolding advances_def by (metis snd_conv)
  ultimately show ?thesis by (rule order_trans)
qed (use assms(2) in \<open>simp add: announce_text_def\<close>)

lemma announcer_drive_advances:
  assumes "advances env" and "announcer_drive (env_announcer env) terminal a w = (out, a', w')"
  shows "terminal_id env w \<le> terminal_id env w'"
proof (cases terminal)
  case (Some ir)
  obtain i ev where ir: "ir = (i, ev)" by fastforce
  show ?thesis
  proof (cases "an_statsSentFor a = Some i")
    case False
    obtain r a1 w1 where an: "announce_text (env_announcer env) (gameStatsText ev) a w = (r, a1, w1)"
      by (metis prod.collapse)
    with assms(2) Some ir False have "w' = w1" by (auto simp: announcer_drive_def split: sum.splits)
    with announce_advances [OF assms(1) an] show ?thesis by simp
  qed (use assms(2) Some ir in \<open>simp add: announcer_drive_def\<close>)
qed (use assms(2) in \<open>simp add: announcer_drive_def\<close>)

lemma record_advances:
  "advances env \<Longrightarrow> recordFailure env i c d origin (s, w) = (s', w') \<Longrightarrow> terminal_id env w \<le> terminal_id env w'"
  by (auto simp: recordFailure_def advances_def)

lemma report_advances:
  "advances env \<Longrightarrow> report_outcome env i out (s, w) = (s', w') \<Longrightarrow> terminal_id env w \<le> terminal_id env w'"
  by (auto simp: report_outcome_def Let_def split: outcome.splits dest: record_advances)

lemma result_advances:
  "advances env \<Longrightarrow> drive_result env i r (s, w) = (out, s', w') \<Longrightarrow> terminal_id env w \<le> terminal_id env w'"
  by (auto simp: drive_result_def split: sum.splits dest: record_advances report_advances)

section \<open>The flow's runs\<close>

definition flow_evolves :: "nat option \<Rightarrow> saolei_flow \<Rightarrow> nat option \<Rightarrow> saolei_flow \<Rightarrow> bool" where
  "flow_evolves t f t' f' \<longleftrightarrow>
     t \<le> t' \<and> (\<exists>es. fst (flow_run es f) = f' \<and> sorted (map fst es) \<and> (\<forall>u \<in> fst ` set es. t \<le> u \<and> u \<le> t'))"

lemma flow_run_append:
  "fst (flow_run (xs @ ys) f) = fst (flow_run ys (fst (flow_run xs f)))"
proof (induction xs arbitrary: f)
  case (Cons x xs)
  then show ?case by (cases x) (simp add: case_prod_beta)
qed simp

lemma flow_evolves_same: "t \<le> t' \<Longrightarrow> flow_evolves t f t' f"
  unfolding flow_evolves_def by (intro conjI exI [of _ "[]"]) simp_all

lemma flow_evolves_trans:
  assumes "flow_evolves t f t1 f1" and "flow_evolves t1 f1 t2 f2"
  shows "flow_evolves t f t2 f2"
proof -
  from assms(1) obtain xs where xs: "fst (flow_run xs f) = f1" "sorted (map fst xs)"
    "\<forall>u \<in> fst ` set xs. t \<le> u \<and> u \<le> t1" "t \<le> t1" unfolding flow_evolves_def by blast
  from assms(2) obtain ys where ys: "fst (flow_run ys f1) = f2" "sorted (map fst ys)"
    "\<forall>u \<in> fst ` set ys. t1 \<le> u \<and> u \<le> t2" "t1 \<le> t2" unfolding flow_evolves_def by blast
  have "sorted (map fst (xs @ ys))"
    using xs(2,3) ys(2,3) by (auto simp: sorted_append intro: order_trans)
  moreover have "\<forall>u \<in> fst ` set (xs @ ys). t \<le> u \<and> u \<le> t2"
    using xs(3,4) ys(3,4) by (auto simp: image_Un intro: order_trans)
  moreover have "fst (flow_run (xs @ ys) f) = f2" by (simp add: flow_run_append xs(1) ys(1))
  ultimately show ?thesis unfolding flow_evolves_def
    by (intro conjI exI [of _ "xs @ ys"] order_trans [OF xs(4) ys(4)])
qed

lemma flow_evolves_decide: "decide SAOLEI_ACTIVITIES t wake f = (d, f') \<Longrightarrow> t \<le> t' \<Longrightarrow> flow_evolves t f t' f'"
  unfolding flow_evolves_def by (intro conjI exI [of _ "[(t, Decides wake)]"]) simp_all

lemma flow_evolves_freeze: "flow_evolves t f t (freezeAborted f)"
  unfolding flow_evolves_def by (intro conjI exI [of _ "[(t, CancelsIdle)]"]) simp_all

text \<open>The flow of one orchestrator state flow_evolves into the flow of a later one.\<close>

definition moves :: "'w orch_env \<Rightarrow> orchestrator \<times> 'w \<Rightarrow> orchestrator \<times> 'w \<Rightarrow> bool" where
  "moves env = (\<lambda>(s, w) (s', w').
     terminal_id env w \<le> terminal_id env w' \<and>
     (case orch_loop s' of
        None \<Rightarrow> True
      | Some lp' \<Rightarrow> (case orch_loop s of
          None \<Rightarrow> False
        | Some lp \<Rightarrow> flow_evolves (terminal_id env w) (lp_flow lp) (terminal_id env w') (lp_flow lp'))))"

lemma moves_trans: "moves env a b \<Longrightarrow> moves env b c \<Longrightarrow> moves env a c"
  by (cases a; cases b; cases c)
    (auto simp: moves_def intro: order_trans flow_evolves_trans split: option.splits)

lemma moves_same:
  assumes "terminal_id env w \<le> terminal_id env w'"
    and "map_option lp_flow (orch_loop s') = map_option lp_flow (orch_loop s)"
  shows "moves env (s, w) (s', w')"
  using assms flow_evolves_same [OF assms(1)] by (auto simp: moves_def split: option.splits)

lemma moves_refl: "moves env sw sw"
  by (cases sw) (simp add: moves_same)

lemma member_steady: "advances env \<Longrightarrow> steady (\<lambda>(l, w). terminal_id env w) (member_deps env i)"
  by (simp add: advances_def)

lemma execute_advances:
  assumes adv: "advances env" and ex: "execute env lp (s, w) = (r, s', w')"
  shows "terminal_id env w \<le> terminal_id env w'"
proof -
  let ?act = "SAOLEI_ACTIVITIES (position (lp_flow lp)) :: (activity_id, member_id, nat) activity"
  let ?i = "act_member ?act"
  consider (rest) "driverless ?act" | (announcer) "\<not> driverless ?act" "?i = Announcer"
    | (agent) "\<not> driverless ?act" "?i \<noteq> Announcer" by blast
  then show ?thesis
  proof cases
    case rest
    with ex show ?thesis by (simp add: execute_def Let_def)
  next
    case announcer
    obtain out a w1 where dr:
      "announcer_drive (env_announcer env) (peekTerminal env w) (lp_announcer lp) w = (out, a, w1)"
      by (metis prod.collapse)
    have "report_outcome env Announcer out (put_loop (lp\<lparr>lp_announcer := a\<rparr>) s, w1) = (s', w')"
      using ex announcer dr by (auto simp: execute_def Let_def)
    from order_trans [OF announcer_drive_advances [OF adv dr] report_advances [OF adv this]] show ?thesis .
  next
    case agent
    obtain x m l w1 where dr:
      "agent_drive (member_deps env ?i) None (lp_agents lp ?i) (landed s, w) = (x, m, l, w1)"
      by (metis prod.collapse)
    from agent_drive_steady [OF member_steady [OF adv] dr] have le: "terminal_id env w \<le> terminal_id env w1"
      by simp
    have rest: "terminal_id env w1 \<le> terminal_id env w'" if "drive_result env ?i q (v, w1) = (out, s', w')" for q v out
      by (rule result_advances [OF adv that])
    have rest2: "terminal_id env w1 \<le> terminal_id env w'" if "report_outcome env ?i out (v, w1) = (s', w')" for v out
      by (rule report_advances [OF adv that])
    from ex agent dr le show ?thesis
      by (auto simp: execute_def Let_def split: driven.splits option.splits turn.splits prod.splits
          dest: rest rest2 intro: order_trans)
  qed
qed

lemma decide_and_start_moves:
  assumes adv: "advances env" and ds: "decide_and_start env wake lp (s, w) = (s', w')"
    and lp: "orch_loop s = Some lp"
  shows "moves env (s, w) (s', w')"
proof -
  have le: "terminal_id env w \<le> terminal_id env w'"
  proof -
    obtain d s1 w1 where od: "orch_decide env wake lp (s, w) = (d, s1, w1)" by (metis prod.collapse)
    have w1: "w1 = w" by (rule orch_decide_loop [OF od])
    have "terminal_id env w1 \<le> terminal_id env w2" if "execute env lp1 (s1, w1) = (r, s2, w2)" for lp1 r s2 w2
      by (rule execute_advances [OF adv that])
    with ds od w1 show ?thesis
      by (auto simp: decide_and_start_def split: flow_decision.splits option.splits prod.splits started.splits)
  qed
  from ds lp show ?thesis
  proof (cases rule: decide_and_start_cases)
    case (returns d f)
    with flow_evolves_decide [OF returns(1) le] lp le show ?thesis by (simp add: moves_def)
  next
    case (awaits a f i lp')
    with flow_evolves_decide [OF awaits(1) le] lp le show ?thesis by (simp add: moves_def)
  next
    case (again a f out lp')
    with flow_evolves_decide [OF again(1) le] lp le show ?thesis by (simp add: moves_def)
  qed
qed

lemma put_loop_moves: "lp_flow lp' = lp_flow lp \<Longrightarrow> orch_loop s = Some lp \<Longrightarrow> moves env (s, w) (put_loop lp' s, w)"
  by (rule moves_same) simp_all

lemma same_loop_moves:
  "same_loop s s' \<Longrightarrow> terminal_id env w \<le> terminal_id env w' \<Longrightarrow> moves env (s, w) (s', w')"
  by (rule moves_same) (simp_all add: same_loop_def)

lemma turn_settled_moves:
  assumes adv: "advances env" and ts: "turn_settled env i r lp (s, w) = (s', w')"
    and lp: "orch_loop s = Some lp"
  shows "moves env (s, w) (s', w')"
proof (cases r)
  case (Inl e)
  obtain s1 w1 where rec:
    "recordFailure env (Some i) INTERNAL (orchestrationFailure e) Orchestration (s, w) = (s1, w1)" by fastforce
  obtain d s2 w2 where dec:
    "orch_decide env (Some (Failed INTERNAL (orchestrationFailure e))) lp (s1, w1) = (d, s2, w2)"
    by (metis prod.collapse)
  have s': "s' = s2\<lparr>orch_pump := NoPump\<rparr>" "w' = w2" using ts Inl rec dec by (auto simp: turn_settled_def)
  from orch_decide_loop [OF dec] obtain f where f:
    "decide SAOLEI_ACTIVITIES (terminal_id env w1) (Some (Failed INTERNAL (orchestrationFailure e))) (lp_flow lp) = (d, f)"
    "s2 = put_loop (lp\<lparr>lp_flow := f\<rparr>) s1" "w2 = w1" .
  have le: "terminal_id env w \<le> terminal_id env w1" by (rule record_advances [OF adv rec])
  from flow_evolves_trans [OF flow_evolves_same [OF le] flow_evolves_decide [OF f(1) order_refl]] s' f lp le
  show ?thesis by (simp add: moves_def)
next
  case (Inr out)
  show ?thesis
  proof (cases "disposed s")
    case True
    with Inr ts show ?thesis by (auto simp: turn_settled_def intro: moves_same)
  next
    case False
    obtain s1 w1 where rep: "report_outcome env i out (s, w) = (s1, w1)" by fastforce
    have run: "decide_and_start env (if out = Settled then None else Some out) lp (s1, w1) = (s', w')"
      using ts Inr False rep by (simp add: turn_settled_def)
    have "orch_loop s1 = Some lp" using report_same [OF rep] lp by (simp add: same_loop_def)
    from moves_trans [OF same_loop_moves [OF report_same [OF rep] report_advances [OF adv rep]]
        decide_and_start_moves [OF adv run this]]
    show ?thesis .
  qed
qed

lemma iteration_moves:
  assumes adv: "advances env" and it: "pump_iteration env (s, w) = (s', w')"
  shows "moves env (s, w) (s', w')"
proof (cases "disposed s \<or> orch_loop s = None")
  case True
  with it show ?thesis
    by (cases "disposed s") (auto simp: pump_iteration_def intro: moves_same)
next
  case False
  then obtain lp where lp: "orch_loop s = Some lp" "\<not> disposed s" by blast
  show ?thesis
  proof (cases "externalPending s")
    case True
    let ?i = "active_member lp" and ?s = "s\<lparr>externalPending := False\<rparr>"
    show ?thesis
    proof (cases rule: whenSettled_cases [of ?i lp "whenSettled ?i lp", OF refl])
      case 1
      with True lp it have "s' = ?s\<lparr>orch_pump := AwaitTurn ?i\<rparr>" "w' = w"
        by (auto simp: pump_iteration_def Let_def)
      then show ?thesis by (auto intro: moves_same)
    next
      case (2 r lp')
      have run: "turn_settled env ?i r lp' (put_loop lp' ?s, w) = (s', w')"
        using 2 True lp it by (auto simp: pump_iteration_def Let_def)
      have "moves env (s, w) (put_loop lp' ?s, w)"
        by (rule moves_same) (simp_all add: 2 lp)
      from moves_trans [OF this turn_settled_moves [OF adv run]] show ?thesis by simp
    qed
  next
    case False
    have run: "decide_and_start env (pendingOutcome s) lp (s\<lparr>pendingOutcome := None\<rparr>, w) = (s', w')"
      using False lp it by (auto simp: pump_iteration_def)
    have "moves env (s, w) (s\<lparr>pendingOutcome := None\<rparr>, w)" by (rule moves_same) simp_all
    from moves_trans [OF this decide_and_start_moves [OF adv run]] lp show ?thesis by simp
  qed
qed

lemma run_pump_moves: "advances env \<Longrightarrow> moves env sw (run_pump env n sw)"
proof (induction n arbitrary: sw)
  case (Suc n)
  obtain s w s' w' where sw: "sw = (s, w)" and it: "pump_iteration env (s, w) = (s', w')" by fastforce
  show ?case
  proof (cases "orch_pump s = AtHead")
    case True
    with sw it moves_trans [OF iteration_moves [OF Suc.prems it] Suc.IH [OF Suc.prems]]
    show ?thesis by simp
  qed (simp add: sw moves_refl)
qed (simp add: moves_refl)

lemma requestPump_moves: "advances env \<Longrightarrow> moves env (s, w) (requestPump env (s, w))"
proof -
  assume adv: "advances env"
  have "moves env (s, w) (s\<lparr>orch_pump := AtHead\<rparr>, w)" by (rule moves_same) simp_all
  from moves_trans [OF this run_pump_moves [OF adv]] show ?thesis
    by (simp add: requestPump_def moves_refl)
qed

lemma deliver_moves:
  assumes adv: "advances env" and lp: "orch_loop s = Some lp"
    and del: "member_deliver env x lp (s, w) = (q, s', w')"
  shows "moves env (s, w) (s', w')"
proof (cases "active_member lp = Announcer")
  case True
  with del show ?thesis by (auto simp: member_deliver_def intro: moves_refl)
next
  case False
  let ?i = "active_member lp"
  obtain m l w3 where ad: "agent_deliver (member_deps env ?i) x (lp_agents lp ?i) (landed s, w) = (q, m, l, w3)"
    and s': "s' = put_loop (put_agent ?i m lp) (s\<lparr>landed := l\<rparr>)" "w' = w3"
    using del False by (auto simp: member_deliver_def Let_def split: prod.splits)
  from agent_deliver_steady [OF member_steady [OF adv] ad] s' lp show ?thesis
    by (intro moves_same) simp_all
qed

lemma submit_moves:
  assumes adv: "advances env" and sub: "submit env t (s, w) = (r, s', w')"
  shows "moves env (s, w) (s', w')"
proof (cases "disposed s \<or> orch_loop s = None")
  case True
  with sub show ?thesis by (auto simp: submit_def intro: moves_refl split: if_splits)
next
  case False
  then obtain lp where lp: "orch_loop s = Some lp" "\<not> disposed s" by blast
  obtain x w1 where msg: "createUserMessage env t w = (x, w1)" by fastforce
  obtain q s2 w2 where del: "member_deliver env x lp (s, w1) = (q, s2, w2)" by (metis prod.collapse)
  have "terminal_id env w \<le> terminal_id env w1" using adv msg unfolding advances_def by (metis snd_conv)
  then have "moves env (s, w) (s, w1)" by (rule moves_same) simp
  from moves_trans [OF this deliver_moves [OF adv lp(1) del]] have m2: "moves env (s, w) (s2, w2)" .
  show ?thesis
  proof (cases q)
    case (Inl e)
    obtain s3 w3 where rec:
      "recordFailure env None INTERNAL (orchestrationFailure e) Orchestration (s2, w2) = (s3, w3)" by fastforce
    note m3 = moves_trans [OF m2 same_loop_moves [OF recordFailure_same [OF rec] record_advances [OF adv rec]]]
    show ?thesis
    proof (cases "orch_loop s3")
      case None
      with sub lp msg del Inl rec m3 show ?thesis by (auto simp: submit_def Let_def)
    next
      case (Some lp3)
      obtain d s4 w4 where dec:
        "orch_decide env (Some (Failed INTERNAL (orchestrationFailure e))) lp3 (s3, w3) = (d, s4, w4)"
        by (metis prod.collapse)
      from orch_decide_loop [OF dec] obtain f where f:
        "decide SAOLEI_ACTIVITIES (terminal_id env w3) (Some (Failed INTERNAL (orchestrationFailure e))) (lp_flow lp3) = (d, f)"
        "s4 = put_loop (lp3\<lparr>lp_flow := f\<rparr>) s3" "w4 = w3" .
      have "moves env (s3, w3) (s4, w4)" using Some f flow_evolves_decide [OF f(1) order_refl] by (simp add: moves_def)
      with sub lp msg del Inl rec Some dec moves_trans [OF m3] show ?thesis
        by (auto simp: submit_def Let_def)
    qed
  next
    case (Inr u)
    have "moves env (s2, w2) (s2\<lparr>externalPending := True\<rparr>, w2)" by (rule moves_same) simp_all
    from moves_trans [OF m2 moves_trans [OF this requestPump_moves [OF adv]]]
    have "moves env (s, w) (requestPump env (s2\<lparr>externalPending := True\<rparr>, w2))" .
    with sub lp msg del Inr m2 show ?thesis by (auto simp: submit_def Let_def split: if_splits)
  qed
qed

lemma cancel_moves:
  assumes can: "cancel env (s, w) = (c, s', w')" and adv: "advances env"
  shows "moves env (s, w) (s', w')"
proof (cases "disposed s \<or> orch_loop s = None")
  case True
  with can show ?thesis by (auto simp: cancel_def intro: moves_refl split: if_splits)
next
  case False
  then obtain lp where lp: "orch_loop s = Some lp" "\<not> disposed s" by blast
  let ?i = "active_member lp"
  let ?s = "s\<lparr>landed := landed s @ unclaimed env ?i w\<rparr>"
  have le: "terminal_id env w \<le> terminal_id env (env_cancel env ?i w)" using adv by (simp add: advances_def)
  show ?thesis
  proof (cases "paused (lp_flow lp)")
    case True
    with can lp have "s' = s" "w' = w" by (simp_all add: cancel_def)
    then show ?thesis by (simp add: moves_refl)
  next
    case False
    show ?thesis
    proof (cases "member_busy lp ?i")
      case True
      with False can lp have "put_loop (put_agent ?i (abort (lp_agents lp ?i)) lp) ?s = s'" "env_cancel env ?i w = w'"
        by (simp_all add: cancel_def Let_def)
      then show ?thesis using lp le by (auto intro!: moves_same)
    next
      case busy: False
      with False can lp have "put_loop (lp\<lparr>lp_flow := freezeAborted (lp_flow lp)\<rparr>) ?s = s'" "w = w'"
        by (auto simp: cancel_def Let_def)
      then show ?thesis using lp flow_evolves_freeze [of "terminal_id env w" "lp_flow lp"] by (auto simp: moves_def)
    qed
  qed
qed

lemma dispose_moves:
  assumes dis: "dispose_begin env (s, w) = (s', w')" and adv: "advances env"
  shows "moves env (s, w) (s', w')"
proof (rule moves_same)
  have le: "terminal_id env w \<le> terminal_id env (env_cancel env i w)" for i using adv by (simp add: advances_def)
  with dis show "terminal_id env w \<le> terminal_id env w'"
    by (auto simp: dispose_begin_def Let_def split: if_splits option.splits)
  from dis show "map_option lp_flow (orch_loop s') = map_option lp_flow (orch_loop s)"
    by (auto simp: dispose_begin_def Let_def split: if_splits option.splits)
qed

lemma drive_settled_moves:
  assumes "advances env" and "drive_settled env i r (s, w) = (s', w')"
  shows "moves env (s, w) (s', w')"
proof -
  obtain out s1 w1 where res: "drive_result env i r (s, w) = (out, s1, w1)" by (metis prod.collapse)
  with assms(2) have "orch_loop s' = orch_loop s1" "w' = w1" by (auto simp: drive_settled_def)
  with drive_result_same [OF res] result_advances [OF assms(1) res] show ?thesis
    by (intro moves_same) (simp_all add: same_loop_def)
qed

lemma turn_ends_moves:
  assumes te: "turn_ends env i (s, w) = (s', w')" and adv: "advances env"
  shows "moves env (s, w) (s', w')"
proof (cases "orch_loop s")
  case None
  with te show ?thesis by (simp add: turn_ends_def moves_refl)
next
  case (Some lp)
  obtain r m where fin: "finish_turn (lp_agents lp i) = (r, m)" by fastforce
  let ?lp = "put_agent i m lp" and ?s = "put_loop (put_agent i m lp) s"
  have m1: "moves env (s, w) (?s, w)" by (rule moves_same) (simp_all add: Some)
  consider (drive) "orch_pump s = AwaitDrive i" | (external) "orch_pump s = AwaitTurn i"
    | (other) "orch_pump s \<noteq> AwaitDrive i" "orch_pump s \<noteq> AwaitTurn i" by blast
  then show ?thesis
  proof cases
    case drive
    obtain s1 w1 where ds: "drive_settled env i r (?s, w) = (s1, w1)" by fastforce
    from moves_trans [OF m1 moves_trans [OF drive_settled_moves [OF adv ds] run_pump_moves [OF adv]]]
    have "moves env (s, w) (run_pump env PUMP_FUEL (s1, w1))" .
    with te Some fin drive ds show ?thesis by (simp add: turn_ends_def)
  next
    case external
    obtain s1 w1 where ts: "turn_settled env i r ?lp (?s, w) = (s1, w1)" by fastforce
    from moves_trans [OF m1 moves_trans [OF turn_settled_moves [OF adv ts] run_pump_moves [OF adv]]]
    have "moves env (s, w) (run_pump env PUMP_FUEL (s1, w1))" by simp
    with te Some fin external ts show ?thesis by (simp add: turn_ends_def)
  next
    case other
    with te Some fin m1 show ?thesis by (simp add: turn_ends_def Let_def)
  qed
qed

lemma orch_step_moves:
  assumes adv: "advances env" and st: "orch_step env (s, w) (s', w')"
  shows "moves env (s, w) (s', w')"
  using st
proof (cases rule: orch_step.cases)
  case (submits t r)
  from submit_moves [OF adv this] show ?thesis .
next
  case (cancels c)
  from cancel_moves [OF this adv] show ?thesis .
next
  case disposes
  from dispose_moves [OF this adv] show ?thesis .
next
  case released
  then show ?thesis by (simp add: moves_def dispose_end_def)
next
  case (errs lp i e)
  then show ?thesis by (auto intro!: moves_same)
next
  case (ends i)
  from turn_ends_moves [OF this adv] show ?thesis .
next
  case (broadcasts lp i x l)
  from deliverInFlight_steady [OF member_steady [OF adv], of "(landed s, w)" i x "lp_agents lp i"] broadcasts
  show ?thesis by (auto intro!: moves_same)
next
  case (hooks t h)
  show ?thesis
  proof (cases "orch_loop s")
    case None
    with hooks show ?thesis by (simp add: announceHookResult_def moves_refl)
  next
    case (Some lp)
    obtain r a w1 where an: "announce_text (env_announcer env) t (lp_announcer lp) w = (r, a, w1)"
      by (metis prod.collapse)
    with hooks Some announce_advances [OF adv an] show ?thesis
      by (auto simp: announceHookResult_def intro!: moves_same)
  qed
next
  case world
  then show ?thesis by (auto intro: moves_same)
qed

lemma orch_reach_evolves:
  assumes "orch_reach env s w" and adv: "advances env"
  shows "orch_loop s = Some lp \<Longrightarrow> \<exists>t0. flow_evolves t0 createSaoleiFlow (terminal_id env w) (lp_flow lp)"
  using assms(1)
proof (induction arbitrary: lp rule: orch_reach.induct)
  case (fresh session w)
  then have "lp_flow lp = createSaoleiFlow" by (auto simp: materialized_def fresh_loop_def)
  then show ?case using flow_evolves_same [OF order_refl] by auto
next
  case (step s w s' w')
  from orch_step_moves [OF adv step(2)] step.prems obtain lp0 where "orch_loop s = Some lp0"
    "flow_evolves (terminal_id env w) (lp_flow lp0) (terminal_id env w') (lp_flow lp)"
    by (auto simp: moves_def split: option.splits)
  with step.IH flow_evolves_trans show ?case by blast
qed

section \<open>Property\<close>


lemma sample_advances: "advances sample_env"
  by (simp add: advances_def steady_def sample_env_def member_deps_def beside_def takeLanded_def terminal_id_def
      sample_runtime_def case_prod_beta)


end
