(* ===== verification/Chat_History.thy ===== *)
theory Chat_History
  imports JS_Prelude
begin

declare js_simps(2) [simp del]

text \<open>
  The history projections of a game team: \<open>projects/game/agent_v2/src/history.ts\<close> up to
  \<open>TeamHistory\<close>. The merged team sequence, the member views and the stream frames share the
  message objects of the source, so a message is stored once under the number of its id and the
  three projections refer to that number; a settlement is then seen through all of them.
  The sink is the list of the frames written to it, and the clock an argument of each append.
\<close>

section \<open>Wire data\<close>

datatype tool_status = TOOL_STATUS_RUNNING | TOOL_STATUS_SUCCEEDED | TOOL_STATUS_FAILED

record tool_call_block =
  tc_toolId :: jstr
  tc_name :: jstr
  tc_argsJson :: jstr
  tc_status :: tool_status
  tc_result :: "jstr option"

datatype chat_block = TextContent jstr | ThinkContent jstr | ToolCallContent tool_call_block

datatype chat_role = ROLE_USER | ROLE_AGENT

record history_message =
  hm_messageId :: jstr
  hm_role :: chat_role
  hm_createTime :: "int \<times> int"
  hm_blocks :: "chat_block list"
  hm_interrupted :: bool

text \<open>
  The table of block types is a plain object, so a lookup also finds the members every object
  inherits; those lookups give a value that is no block type.
\<close>

datatype block_type = BLOCK_TYPE_TEXT | BLOCK_TYPE_THINK | BLOCK_TYPE_TOOL_CALL | Inherited jstr

record token_usage =
  tu_inputTokens :: int
  tu_outputTokens :: int
  tu_reasoningTokens :: "int option"

record turn_usage =
  pu_inputTokens :: jstr
  pu_outputTokens :: jstr
  pu_reasoningTokens :: "jstr option"

record chat_error =
  ce_code :: jstr
  ce_message :: jstr

datatype turn_status = COMPLETED | ERROR | ABORTED | CANCELED

record turn_outcome =
  to_status :: turn_status
  to_error :: "chat_error option"

datatype payload =
  TurnStart
| BlockStart int block_type int "jstr option" "jstr option"  \<comment> \<open>index, type, step, tool id, name\<close>
| BlockDelta int jstr int  \<comment> \<open>index, text, step\<close>
| BlockEnd int chat_block int  \<comment> \<open>index, block, step\<close>
| ToolResultFrame jstr tool_status jstr  \<comment> \<open>tool id, status, result\<close>
| TurnEnd turn_status "chat_error option" "turn_usage option"
| TeamMessage jstr nat jstr  \<comment> \<open>member, message, sequence number\<close>
| MemberView jstr jstr nat  \<comment> \<open>member, sender, message\<close>
| Queued nat

record chat_event =
  ev_session :: jstr
  ev_turnId :: "jstr option"
  ev_member :: "jstr option"
  ev_payload :: payload

section \<open>Harness events\<close>

record block_view =
  bv_type :: jstr
  bv_text :: "jstr option"
  bv_id :: "jstr option"
  bv_name :: "jstr option"
  bv_arguments :: "jstr option"

record stream_chunk =
  ch_type :: jstr
  ch_index :: "int option"
  ch_text :: "jstr option"
  ch_blockType :: "jstr option"
  ch_id :: "jstr option"
  ch_name :: "jstr option"
  ch_argumentsDelta :: "jstr option"
  ch_block :: "block_view option"
  ch_usage :: "token_usage option"

record user_event =
  ue_content :: "block_view list"
  ue_kind :: jstr
  ue_role :: "jstr option"

abbreviation or_default :: "'a option \<Rightarrow> 'a \<Rightarrow> 'a" where
  "or_default x d \<equiv> (case x of None \<Rightarrow> d | Some y \<Rightarrow> y)"

definition broadcastSender :: "jstr option \<Rightarrow> jstr" where
  "broadcastSender role = (case role of None \<Rightarrow> js ''user'' | Some r \<Rightarrow> if r = [] then js ''user'' else r)"

definition object_members :: "jstr list" where
  "object_members =
     map js [''constructor'', ''toString'', ''toLocaleString'', ''valueOf'', ''hasOwnProperty'',
       ''isPrototypeOf'', ''propertyIsEnumerable'', ''__proto__'', ''__defineGetter__'',
       ''__defineSetter__'', ''__lookupGetter__'', ''__lookupSetter__'']"

definition BLOCK_TYPES :: "jstr \<Rightarrow> block_type option" where
  "BLOCK_TYPES t =
     (if t = js ''text'' then Some BLOCK_TYPE_TEXT
      else if t = js ''reasoning'' then Some BLOCK_TYPE_THINK
      else if t = js ''tool-call'' then Some BLOCK_TYPE_TOOL_CALL
      else if t \<in> set object_members then Some (Inherited t)
      else None)"

definition nowTimestamp :: "int \<Rightarrow> int \<times> int" where
  "nowTimestamp ms = (ms div 1000, (ms mod 1000) * 1000000)"

definition blockToContentBlock :: "block_view \<Rightarrow> chat_block option" where
  "blockToContentBlock block =
     (if bv_type block = js ''text'' then Some (TextContent (or_default (bv_text block) []))
      else if bv_type block = js ''reasoning'' then Some (ThinkContent (or_default (bv_text block) []))
      else if bv_type block = js ''tool-call'' then
        Some (ToolCallContent
          \<lparr>tc_toolId = or_default (bv_id block) [], tc_name = or_default (bv_name block) [],
           tc_argsJson = or_default (bv_arguments block) [], tc_status = TOOL_STATUS_RUNNING,
           tc_result = None\<rparr>)
      else None)"

text \<open>The index map has an effect, so it threads a state; it is called on mapped chunks only.\<close>

definition turn_frame :: "jstr \<Rightarrow> jstr \<Rightarrow> payload \<Rightarrow> chat_event" where
  "turn_frame session turnId p =
     \<lparr>ev_session = session, ev_turnId = Some turnId, ev_member = None, ev_payload = p\<rparr>"

definition chunkToChatEvent ::
  "stream_chunk \<Rightarrow> jstr \<Rightarrow> jstr \<Rightarrow> (int \<Rightarrow> 's \<Rightarrow> int \<times> 's) \<Rightarrow> int \<Rightarrow> 's \<Rightarrow> chat_event option \<times> 's" where
  "chunkToChatEvent chunk session turnId remapIndex step s =
     (let index = or_default (ch_index chunk) 0;
          framed = (\<lambda>p. let (i, s') = remapIndex index s in (Some (turn_frame session turnId (p i)), s')) in
      if ch_type chunk = js ''block-start'' then
        (case BLOCK_TYPES (or_default (ch_blockType chunk) []) of
           None \<Rightarrow> (None, s)
         | Some t \<Rightarrow>
             if ch_blockType chunk = Some (js ''tool-call'') then
               framed (\<lambda>i. BlockStart i t step (Some (or_default (ch_id chunk) []))
                             (Some (or_default (ch_name chunk) [])))
             else framed (\<lambda>i. BlockStart i t step None None))
      else if ch_type chunk = js ''text-delta'' \<or> ch_type chunk = js ''reasoning-delta'' then
        framed (\<lambda>i. BlockDelta i (or_default (ch_text chunk) []) step)
      else if ch_type chunk = js ''tool-call-delta'' then
        framed (\<lambda>i. BlockDelta i (or_default (ch_argumentsDelta chunk) []) step)
      else if ch_type chunk = js ''block-end'' then
        (case Option.bind (ch_block chunk) blockToContentBlock of
           None \<Rightarrow> (None, s)
         | Some block \<Rightarrow> framed (\<lambda>i. BlockEnd i block step))
      else (None, s))"

definition usageToProto :: "token_usage option \<Rightarrow> turn_usage option" where
  "usageToProto usage = map_option (\<lambda>u.
     \<lparr>pu_inputTokens = str_of_int (tu_inputTokens u), pu_outputTokens = str_of_int (tu_outputTokens u),
      pu_reasoningTokens = map_option str_of_int (tu_reasoningTokens u)\<rparr>) usage"

section \<open>The team history\<close>

record merge_entry =
  me_member :: jstr
  me_message :: nat
  me_seq :: nat

record view_entry =
  ve_message :: nat
  ve_sender :: jstr

record team_history =
  th_session :: jstr
  th_merge :: "merge_entry list"
  th_views :: "jstr \<Rightarrow> view_entry list option"
  th_messages :: "nat \<Rightarrow> history_message option"
  th_nextSeq :: nat
  th_nextMessageId :: nat
  th_sunk :: "chat_event list"

definition new_history :: "jstr \<Rightarrow> team_history" where
  "new_history session =
     \<lparr>th_session = session, th_merge = [], th_views = Map.empty, th_messages = Map.empty,
      th_nextSeq = 1, th_nextMessageId = 1, th_sunk = []\<rparr>"

definition sink :: "chat_event \<Rightarrow> team_history \<Rightarrow> team_history" where
  "sink e h = h\<lparr>th_sunk := th_sunk h @ [e]\<rparr>"

definition newMessage ::
  "chat_role \<Rightarrow> chat_block list \<Rightarrow> bool \<Rightarrow> int \<Rightarrow> team_history \<Rightarrow> nat \<times> team_history" where
  "newMessage role blocks interrupted now h =
     (let n = th_nextMessageId h;
          message = \<lparr>hm_messageId = js ''m'' @ str_of_nat n, hm_role = role,
                     hm_createTime = nowTimestamp now, hm_blocks = blocks,
                     hm_interrupted = interrupted\<rparr>
      in (n, h\<lparr>th_messages := (th_messages h)(n \<mapsto> message), th_nextMessageId := n + 1\<rparr>))"

definition session_frame :: "jstr \<Rightarrow> payload \<Rightarrow> chat_event" where
  "session_frame session p =
     \<lparr>ev_session = session, ev_turnId = None, ev_member = None, ev_payload = p\<rparr>"

definition appendMerge :: "jstr \<Rightarrow> nat \<Rightarrow> team_history \<Rightarrow> merge_entry \<times> team_history" where
  "appendMerge member message h =
     (let entry = \<lparr>me_member = member, me_message = message, me_seq = th_nextSeq h\<rparr>
      in (entry,
          sink (session_frame (th_session h) (TeamMessage member message (str_of_nat (me_seq entry))))
            (h\<lparr>th_nextSeq := th_nextSeq h + 1, th_merge := th_merge h @ [entry]\<rparr>)))"

definition pushView :: "jstr \<Rightarrow> view_entry \<Rightarrow> team_history \<Rightarrow> team_history" where
  "pushView role entry h =
     h\<lparr>th_views := (th_views h)(role \<mapsto>
        (case th_views h role of None \<Rightarrow> [entry] | Some view \<Rightarrow> view @ [entry]))\<rparr>"

definition appendUser :: "jstr \<Rightarrow> int \<Rightarrow> team_history \<Rightarrow> merge_entry \<times> team_history" where
  "appendUser t now h =
     (let (message, h1) = newMessage ROLE_USER [TextContent t] False now h
      in appendMerge (js ''user'') message h1)"

definition display_blocks :: "block_view list \<Rightarrow> chat_block list" where
  "display_blocks content = List.map_filter blockToContentBlock content"

definition appendMemberOutput ::
  "jstr \<Rightarrow> block_view list \<Rightarrow> bool \<Rightarrow> bool \<Rightarrow> int \<Rightarrow> team_history \<Rightarrow> merge_entry option \<times> team_history" where
  "appendMemberOutput role content interrupted recordView now h =
     (let blocks = display_blocks content in
      if blocks = [] then (None, h)
      else
        (let (message, h1) = newMessage ROLE_AGENT blocks interrupted now h;
             (entry, h2) = appendMerge role message h1
         in (Some entry,
             if recordView then pushView role \<lparr>ve_message = message, ve_sender = role\<rparr> h2 else h2)))"

definition appendAnnouncement :: "jstr \<Rightarrow> jstr \<Rightarrow> int \<Rightarrow> team_history \<Rightarrow> merge_entry \<times> team_history" where
  "appendAnnouncement role t now h =
     (let (message, h1) = newMessage ROLE_AGENT [TextContent t] False now h
      in appendMerge role message h1)"

definition user_blocks :: "block_view list \<Rightarrow> chat_block list" where
  "user_blocks content =
     map (\<lambda>b. TextContent (or_default (bv_text b) [])) (filter (\<lambda>b. bv_type b = js ''text'') content)"

definition appendMemberViewUser ::
  "jstr \<Rightarrow> user_event \<Rightarrow> bool \<Rightarrow> int \<Rightarrow> team_history \<Rightarrow> team_history" where
  "appendMemberViewUser role event recordView now h =
     (if \<not> recordView then h
      else if ue_kind event \<noteq> js ''user'' \<and> ue_kind event \<noteq> js ''team-broadcast'' then h
      else
        (let blocks = user_blocks (ue_content event) in
         if blocks = [] then h
         else
           (let (message, h1) = newMessage ROLE_USER blocks False now h;
                sender = if ue_kind event = js ''team-broadcast'' then broadcastSender (ue_role event)
                         else js ''user''
            in sink (session_frame (th_session h) (MemberView role sender message))
                 (pushView role \<lparr>ve_message = message, ve_sender = sender\<rparr> h1))))"

text \<open>The two loops of the settlement run from the end of their list.\<close>

fun scan_back :: "(nat \<Rightarrow> bool) \<Rightarrow> nat \<Rightarrow> nat option" where
  "scan_back P 0 = None"
| "scan_back P (Suc i) = (if P i then Some i else scan_back P i)"

fun running_call :: "jstr \<Rightarrow> chat_block \<Rightarrow> bool" where
  "running_call toolId (ToolCallContent c) = (tc_toolId c = toolId \<and> tc_status c = TOOL_STATUS_RUNNING)"
| "running_call toolId _ = False"

definition running_block :: "jstr \<Rightarrow> chat_block list \<Rightarrow> nat option" where
  "running_block toolId blocks = scan_back (\<lambda>j. running_call toolId (blocks ! j)) (length blocks)"

definition message_blocks :: "team_history \<Rightarrow> nat \<Rightarrow> chat_block list" where
  "message_blocks h n = (case th_messages h n of None \<Rightarrow> [] | Some m \<Rightarrow> hm_blocks m)"

fun settled :: "tool_status \<Rightarrow> jstr \<Rightarrow> chat_block \<Rightarrow> chat_block" where
  "settled status result (ToolCallContent c) =
     ToolCallContent (c\<lparr>tc_status := status, tc_result := Some result\<rparr>)"
| "settled status result b = b"

definition settleToolResult ::
  "jstr \<Rightarrow> jstr \<Rightarrow> tool_status \<Rightarrow> jstr \<Rightarrow> team_history \<Rightarrow> bool \<times> team_history" where
  "settleToolResult role toolId status result h =
     (case scan_back (\<lambda>i. me_member (th_merge h ! i) = role \<and>
               running_block toolId (message_blocks h (me_message (th_merge h ! i))) \<noteq> None)
             (length (th_merge h)) of
        None \<Rightarrow> (False, h)
      | Some i \<Rightarrow>
          (let n = me_message (th_merge h ! i) in
           case (running_block toolId (message_blocks h n), th_messages h n) of
             (Some j, Some m) \<Rightarrow>
               (True, h\<lparr>th_messages := (th_messages h)(n \<mapsto>
                  m\<lparr>hm_blocks := (hm_blocks m)[j := settled status result (hm_blocks m ! j)]\<rparr>)\<rparr>)
           | _ \<Rightarrow> (False, h)))"

definition listTeamMessages :: "team_history \<Rightarrow> merge_entry list" where
  "listTeamMessages h = th_merge h"

definition listMemberMessages :: "jstr \<Rightarrow> team_history \<Rightarrow> view_entry list" where
  "listMemberMessages role h = (case th_views h role of None \<Rightarrow> [] | Some view \<Rightarrow> view)"

section \<open>Scanning from the end\<close>

lemma scan_back_None: "scan_back P n = None \<longleftrightarrow> (\<forall>i < n. \<not> P i)"
  by (induction n) (auto simp: less_Suc_eq)

lemma scan_back_Some:
  "scan_back P n = Some i \<longleftrightarrow> i < n \<and> P i \<and> (\<forall>k. i < k \<and> k < n \<longrightarrow> \<not> P k)"
proof (induction n)
  case (Suc n)
  then show ?case by (auto simp: less_Suc_eq) 
qed simp

lemma running_block_Some:
  "running_block toolId blocks = Some j \<longleftrightarrow>
     j < length blocks \<and> running_call toolId (blocks ! j) \<and>
     (\<forall>k. j < k \<and> k < length blocks \<longrightarrow> \<not> running_call toolId (blocks ! k))"
  by (simp add: running_block_def scan_back_Some)

lemma running_block_None:
  "running_block toolId blocks = None \<longleftrightarrow> (\<forall>b \<in> set blocks. \<not> running_call toolId b)"
  unfolding running_block_def scan_back_None by (metis in_set_conv_nth)

section \<open>The invariant of the projections\<close>

text \<open>
  The sequence numbers count from one without a gap, message ids are never reused, every entry
  refers to a stored message, and the \<open>team_message\<close> frames written to the sink are the merged
  entries, in order.
\<close>

definition is_team_frame :: "chat_event \<Rightarrow> bool" where
  "is_team_frame e = (case ev_payload e of TeamMessage _ _ _ \<Rightarrow> True | _ \<Rightarrow> False)"

definition team_frame :: "jstr \<Rightarrow> merge_entry \<Rightarrow> chat_event" where
  "team_frame session e =
     session_frame session (TeamMessage (me_member e) (me_message e) (str_of_nat (me_seq e)))"

definition refs_ok :: "team_history \<Rightarrow> nat list \<Rightarrow> bool" where
  "refs_ok h ns \<longleftrightarrow> sorted_wrt (<) ns \<and> (\<forall>n \<in> set ns. th_messages h n \<noteq> None)"

definition history_ok :: "team_history \<Rightarrow> bool" where
  "history_ok h \<longleftrightarrow>
     map me_seq (th_merge h) = [1..<th_nextSeq h] \<and> 1 \<le> th_nextSeq h \<and>
     (\<forall>n. th_messages h n \<noteq> None \<longleftrightarrow> 1 \<le> n \<and> n < th_nextMessageId h) \<and>
     1 \<le> th_nextMessageId h \<and>
     (\<forall>n m. th_messages h n = Some m \<longrightarrow> hm_messageId m = js ''m'' @ str_of_nat n) \<and>
     refs_ok h (map me_message (th_merge h)) \<and>
     (\<forall>role view. th_views h role = Some view \<longrightarrow> view \<noteq> [] \<and> refs_ok h (map ve_message view)) \<and>
     filter is_team_frame (th_sunk h) = map (team_frame (th_session h)) (th_merge h)"

lemma history_ok_new: "history_ok (new_history session)"
  by (simp add: history_ok_def new_history_def refs_ok_def)

text \<open>
  A history only grows: entries, views and frames are appended, and a stored message keeps its
  id, role, time, flag and the number of its blocks; only running tool calls are settled.
\<close>

definition block_step :: "chat_block \<Rightarrow> chat_block \<Rightarrow> bool" where
  "block_step b b' \<longleftrightarrow>
     b' = b \<or> (\<exists>toolId status result. running_call toolId b \<and> b' = settled status result b)"

definition message_grows :: "history_message \<Rightarrow> history_message \<Rightarrow> bool" where
  "message_grows m m' \<longleftrightarrow>
     hm_messageId m' = hm_messageId m \<and> hm_role m' = hm_role m \<and>
     hm_createTime m' = hm_createTime m \<and> hm_interrupted m' = hm_interrupted m \<and>
     list_all2 block_step\<^sup>*\<^sup>* (hm_blocks m) (hm_blocks m')"

definition history_grows :: "team_history \<Rightarrow> team_history \<Rightarrow> bool" where
  "history_grows h h' \<longleftrightarrow>
     th_session h' = th_session h \<and> prefix (th_merge h) (th_merge h') \<and>
     prefix (th_sunk h) (th_sunk h') \<and>
     (\<forall>role. prefix (listMemberMessages role h) (listMemberMessages role h')) \<and>
     (\<forall>n m. th_messages h n = Some m \<longrightarrow>
        (\<exists>m'. th_messages h' n = Some m' \<and> message_grows m m'))"

lemma block_steps_settled: "running_call toolId b \<Longrightarrow> block_step\<^sup>*\<^sup>* b (settled status result b)"
  by (rule r_into_rtranclp) (auto simp: block_step_def)

lemma message_grows_refl: "message_grows m m"
  by (simp add: message_grows_def list_all2_refl)

lemma message_grows_trans: "message_grows a b \<Longrightarrow> message_grows b c \<Longrightarrow> message_grows a c"
  unfolding message_grows_def by (auto elim: list_all2_trans[rotated])

lemma history_grows_refl [simp]: "history_grows h h"
  by (auto simp: history_grows_def message_grows_refl)

lemma history_grows_trans: "history_grows a b \<Longrightarrow> history_grows b c \<Longrightarrow> history_grows a c"
  unfolding history_grows_def
  by (auto intro: prefix_order.trans) (metis message_grows_trans)

section \<open>Clients of the history\<close>

text \<open>
  The collectors and the session reach the history through five operations. A relation between
  histories every one of them keeps is kept by whatever its clients do; \<open>F\<close> says which frames
  they may write to the sink.
\<close>

locale history_client =
  fixes R :: "team_history \<Rightarrow> team_history \<Rightarrow> bool" and F :: "chat_event \<Rightarrow> bool"
  assumes same: "R h h"
    and next_step: "R a b \<Longrightarrow> R b c \<Longrightarrow> R a c"
    and user_step: "R h (snd (appendUser t now h))"
    and output_step: "R h (snd (appendMemberOutput role content interrupted recordView now h))"
    and announcement_step: "R h (snd (appendAnnouncement role t now h))"
    and view_step: "R h (appendMemberViewUser role event recordView now h)"
    and settle_step: "R h (snd (settleToolResult role toolId status result h))"
    and sink_step: "F e \<Longrightarrow> R h (sink e h)"

subsection \<open>Growth\<close>

lemma grows_sink: "history_grows h (sink e h)"
  by (auto simp: history_grows_def sink_def listMemberMessages_def message_grows_refl)

lemma grows_newMessage:
  assumes "history_ok h"
  shows "history_grows h (snd (newMessage role blocks i now h))"
  using assms
  by (auto simp: history_grows_def newMessage_def Let_def listMemberMessages_def message_grows_refl
      history_ok_def)

lemma grows_appendMerge: "history_grows h (snd (appendMerge member message h))"
  by (auto simp: history_grows_def appendMerge_def Let_def sink_def listMemberMessages_def
      message_grows_refl)

lemma grows_pushView: "history_grows h (pushView role entry h)"
  by (auto simp: history_grows_def pushView_def listMemberMessages_def message_grows_refl
      split: option.splits)

lemma settleToolResult_cases:
  obtains (ignored) "settleToolResult role toolId status result h = (False, h)"
      "\<And>e. e \<in> set (th_merge h) \<Longrightarrow> me_member e = role \<Longrightarrow>
         running_block toolId (message_blocks h (me_message e)) = None"
  | (settles) i n j m where
      "settleToolResult role toolId status result h =
         (True, h\<lparr>th_messages := (th_messages h)(n \<mapsto>
            m\<lparr>hm_blocks := (hm_blocks m)[j := settled status result (hm_blocks m ! j)]\<rparr>)\<rparr>)"
      "i < length (th_merge h)" "me_member (th_merge h ! i) = role"
      "n = me_message (th_merge h ! i)" "th_messages h n = Some m"
      "running_block toolId (hm_blocks m) = Some j"
      "\<And>k. i < k \<Longrightarrow> k < length (th_merge h) \<Longrightarrow> me_member (th_merge h ! k) = role \<Longrightarrow>
         running_block toolId (message_blocks h (me_message (th_merge h ! k))) = None"
proof -
  let ?P = "\<lambda>i. me_member (th_merge h ! i) = role \<and>
               running_block toolId (message_blocks h (me_message (th_merge h ! i))) \<noteq> None"
  show thesis
  proof (cases "scan_back ?P (length (th_merge h))")
    case None
    then have "settleToolResult role toolId status result h = (False, h)"
      by (simp add: settleToolResult_def)
    moreover have "running_block toolId (message_blocks h (me_message e)) = None"
      if "e \<in> set (th_merge h)" "me_member e = role" for e
      using None that unfolding scan_back_None by (metis in_set_conv_nth)
    ultimately show thesis by (rule ignored)
  next
    case (Some i)
    let ?n = "me_message (th_merge h ! i)"
    from Some have i: "i < length (th_merge h)" "?P i"
      "\<forall>k. i < k \<and> k < length (th_merge h) \<longrightarrow> \<not> ?P k"
      unfolding scan_back_Some by blast+
    then obtain j where j: "running_block toolId (message_blocks h ?n) = Some j" by blast
    then obtain m where m: "th_messages h ?n = Some m"
      by (cases "th_messages h ?n") (simp_all add: message_blocks_def running_block_def)
    have j': "running_block toolId (hm_blocks m) = Some j"
      using j m by (simp add: message_blocks_def)
    have "settleToolResult role toolId status result h =
       (True, h\<lparr>th_messages := (th_messages h)(?n \<mapsto>
          m\<lparr>hm_blocks := (hm_blocks m)[j := settled status result (hm_blocks m ! j)]\<rparr>)\<rparr>)"
      using Some j m by (simp add: settleToolResult_def Let_def)
    from settles[OF this i(1) _ refl m j'] i show thesis by blast
  qed
qed

lemma message_grows_settle:
  assumes "running_block toolId (hm_blocks m) = Some j"
  shows "message_grows m
    (m\<lparr>hm_blocks := (hm_blocks m)[j := settled status result (hm_blocks m ! j)]\<rparr>)"
  using assms
  by (auto simp: message_grows_def running_block_Some list_all2_conv_all_nth nth_list_update
      intro: block_steps_settled)

lemma grows_settle: "history_grows h (snd (settleToolResult role toolId status result h))"
proof (cases rule: settleToolResult_cases[of role toolId status result h])
  case (settles i n j m)
  then show ?thesis
    by (auto simp: history_grows_def listMemberMessages_def message_grows_refl message_grows_settle)
qed simp

subsection \<open>The invariant\<close>

lemma history_okD:
  assumes "history_ok h"
  shows "map me_seq (th_merge h) = [1..<th_nextSeq h]"
    and "refs_ok h (map me_message (th_merge h))"
    and "th_views h role = Some view \<Longrightarrow> view \<noteq> [] \<and> refs_ok h (map ve_message view)"
    and "filter is_team_frame (th_sunk h) = map (team_frame (th_session h)) (th_merge h)"
    and "th_messages h n \<noteq> None \<longleftrightarrow> 1 \<le> n \<and> n < th_nextMessageId h"
    and "th_messages h n = Some m \<Longrightarrow> hm_messageId m = js ''m'' @ str_of_nat n"
  using assms by (auto simp: history_ok_def)

lemma refs_ok_mono:
  "refs_ok h ns \<Longrightarrow> (\<And>n. th_messages h n \<noteq> None \<Longrightarrow> th_messages h' n \<noteq> None) \<Longrightarrow> refs_ok h' ns"
  by (simp add: refs_ok_def)

lemma refs_ok_snoc:
  "refs_ok h (ns @ [n]) \<longleftrightarrow> refs_ok h ns \<and> (\<forall>k \<in> set ns. k < n) \<and> th_messages h n \<noteq> None"
  by (auto simp: refs_ok_def sorted_wrt_append)

lemma is_team_frame_simps [simp]:
  "\<not> is_team_frame (session_frame s (MemberView r q n))"
  "is_team_frame (team_frame s e)"
  by (simp_all add: is_team_frame_def session_frame_def team_frame_def)

lemma ok_sink: "history_ok h \<Longrightarrow> \<not> is_team_frame e \<Longrightarrow> history_ok (sink e h)"
proof -
  have "refs_ok (sink e h) = refs_ok h" by (simp add: fun_eq_iff refs_ok_def sink_def)
  then show "history_ok h \<Longrightarrow> \<not> is_team_frame e \<Longrightarrow> history_ok (sink e h)"
    by (simp add: history_ok_def) (simp add: sink_def)
qed

text \<open>After \<open>newMessage\<close> the returned number is above every number in use.\<close>

definition newest :: "team_history \<Rightarrow> nat \<Rightarrow> bool" where
  "newest h n \<longleftrightarrow> th_messages h n \<noteq> None \<and> (\<forall>k \<in> set (map me_message (th_merge h)). k < n) \<and>
     (\<forall>role view. th_views h role = Some view \<longrightarrow> (\<forall>k \<in> set (map ve_message view). k < n))"

lemma ok_newMessage:
  assumes ok: "history_ok h" and new: "newMessage role blocks i now h = (n, h')"
  shows "history_ok h'" and "newest h' n"
proof -
  have h': "h' = h\<lparr>th_messages := (th_messages h)(n \<mapsto> \<lparr>hm_messageId = js ''m'' @ str_of_nat n,
      hm_role = role, hm_createTime = nowTimestamp now, hm_blocks = blocks, hm_interrupted = i\<rparr>),
      th_nextMessageId := n + 1\<rparr>" and n: "n = th_nextMessageId h"
    using new by (auto simp: newMessage_def Let_def)
  have mono: "refs_ok h' ns" if "refs_ok h ns" for ns
    using that by (rule refs_ok_mono) (simp add: h')
  have "refs_ok h' (map me_message (th_merge h'))"
    using mono[OF history_okD(2)[OF ok]] by (simp add: h')
  moreover have "\<forall>role view. th_views h' role = Some view \<longrightarrow>
      view \<noteq> [] \<and> refs_ok h' (map ve_message view)"
    using mono history_okD(3)[OF ok] by (simp add: h')
  ultimately show "history_ok h'"
    using ok by (auto simp: history_ok_def h' n)
  have below: "\<forall>k \<in> set ns. k < n" if "refs_ok h ns" for ns
    using that history_okD(5)[OF ok] by (auto simp: refs_ok_def n)
  have "\<forall>k \<in> set (map me_message (th_merge h')). k < n"
    using below[OF history_okD(2)[OF ok]] by (simp add: h')
  moreover have "\<forall>role view. th_views h' role = Some view \<longrightarrow> (\<forall>k \<in> set (map ve_message view). k < n)"
  proof (intro allI impI)
    fix role view assume "th_views h' role = Some view"
    with history_okD(3)[OF ok, of role view] show "\<forall>k \<in> set (map ve_message view). k < n"
      by (intro below) (simp add: h')
  qed
  moreover have "th_messages h' n \<noteq> None" by (simp add: h')
  ultimately show "newest h' n" unfolding newest_def by blast
qed

lemma ok_appendMerge:
  assumes ok: "history_ok h" and new: "newest h n"
  shows "history_ok (snd (appendMerge member n h))"
proof -
  let ?h = "snd (appendMerge member n h)"
  have h: "th_merge ?h = th_merge h @ [fst (appendMerge member n h)]"
    "th_nextSeq ?h = th_nextSeq h + 1" "th_messages ?h = th_messages h" "th_views ?h = th_views h"
    "th_nextMessageId ?h = th_nextMessageId h" "th_session ?h = th_session h"
    "fst (appendMerge member n h) = \<lparr>me_member = member, me_message = n, me_seq = th_nextSeq h\<rparr>"
    "th_sunk ?h = th_sunk h @ [team_frame (th_session h) (fst (appendMerge member n h))]"
    by (simp_all add: appendMerge_def Let_def sink_def team_frame_def)
  have "refs_ok ?h (map me_message (th_merge ?h))"
    using history_okD(2)[OF ok] new by (simp add: h refs_ok_snoc refs_ok_def newest_def sorted_wrt_append)
  moreover have "\<forall>role view. th_views ?h role = Some view \<longrightarrow>
      view \<noteq> [] \<and> refs_ok ?h (map ve_message view)"
    using history_okD(3)[OF ok] by (simp add: h refs_ok_def)
  ultimately show ?thesis
    using ok by (simp add: history_ok_def h)
qed

lemma ok_pushView:
  assumes ok: "history_ok h" and m: "th_messages h (ve_message entry) \<noteq> None"
    and new: "\<And>view. th_views h role = Some view \<Longrightarrow> \<forall>k \<in> set (map ve_message view). k < ve_message entry"
  shows "history_ok (pushView role entry h)"
proof -
  let ?h = "pushView role entry h"
  have h: "th_merge ?h = th_merge h" "th_nextSeq ?h = th_nextSeq h" "th_messages ?h = th_messages h"
    "th_nextMessageId ?h = th_nextMessageId h" "th_session ?h = th_session h" "th_sunk ?h = th_sunk h"
    "th_views ?h = (th_views h)(role \<mapsto>
        (case th_views h role of None \<Rightarrow> [entry] | Some view \<Rightarrow> view @ [entry]))"
    by (simp_all add: pushView_def)
  have refs: "refs_ok ?h = refs_ok h" by (simp add: fun_eq_iff refs_ok_def h)
  have "view \<noteq> [] \<and> refs_ok h (map ve_message view)" if "th_views ?h r = Some view" for r view
  proof (cases "r = role")
    case True
    with that m new history_okD(3)[OF ok, of role] show ?thesis
      by (cases "th_views h role") (auto simp: h refs_ok_snoc, simp add: refs_ok_def)
  next
    case False
    with that history_okD(3)[OF ok, of r] show ?thesis by (simp add: h)
  qed
  then show ?thesis
    using ok by (simp add: history_ok_def h refs)
qed

lemma grows_then_merge:
  assumes ok: "history_ok h" and new: "newMessage role blocks i now h = (n, h1)"
  shows "history_ok (snd (appendMerge member n h1))"
    and "history_grows h (snd (appendMerge member n h1))"
proof -
  show "history_ok (snd (appendMerge member n h1))"
    by (rule ok_appendMerge) (use ok_newMessage[OF ok new] in simp_all)
  have "history_grows h h1" using grows_newMessage[OF ok] new by (metis snd_conv)
  then show "history_grows h (snd (appendMerge member n h1))"
    by (rule history_grows_trans) (rule grows_appendMerge)
qed

lemma newest_after_merge:
  assumes "newest h n"
  shows "th_messages (snd (appendMerge member n h)) n \<noteq> None"
    and "th_views (snd (appendMerge member n h)) role = Some view \<Longrightarrow>
      \<forall>k \<in> set (map ve_message view). k < n"
  using assms by (simp_all add: newest_def appendMerge_def Let_def sink_def)

definition well_grown :: "team_history \<Rightarrow> team_history \<Rightarrow> bool" where
  "well_grown h h' \<longleftrightarrow> (history_ok h \<longrightarrow> history_ok h' \<and> history_grows h h')"

lemma well_grown_user: "well_grown h (snd (appendUser t now h))"
  by (auto simp: well_grown_def appendUser_def case_prod_beta intro: grows_then_merge prod.collapse[symmetric])

lemma well_grown_announcement: "well_grown h (snd (appendAnnouncement role t now h))"
  by (auto simp: well_grown_def appendAnnouncement_def case_prod_beta
      intro: grows_then_merge prod.collapse[symmetric])

lemma well_grown_output: "well_grown h (snd (appendMemberOutput role content i recordView now h))"
proof (unfold well_grown_def, intro impI)
  assume ok: "history_ok h"
  let ?blocks = "display_blocks content"
  obtain n h1 where new: "newMessage ROLE_AGENT ?blocks i now h = (n, h1)" by fastforce
  let ?h2 = "snd (appendMerge role n h1)"
  note merged = grows_then_merge[OF ok new, of role]
  note fresh = newest_after_merge[OF ok_newMessage(2)[OF ok new], of role]
  let ?entry = "\<lparr>ve_message = n, ve_sender = role\<rparr>"
  have "history_ok (pushView role ?entry ?h2)"
    by (rule ok_pushView) (use merged(1) fresh(1) fresh(2)[of role] in simp_all)
  moreover have "history_grows h (pushView role ?entry ?h2)"
    by (rule history_grows_trans[OF merged(2) grows_pushView])
  ultimately show "history_ok (snd (appendMemberOutput role content i recordView now h)) \<and>
      history_grows h (snd (appendMemberOutput role content i recordView now h))"
    using ok merged new by (simp add: appendMemberOutput_def Let_def case_prod_beta)
qed

lemma well_grown_view: "well_grown h (appendMemberViewUser role event recordView now h)"
proof (unfold well_grown_def, intro impI)
  assume ok: "history_ok h"
  obtain n h1 where new: "newMessage ROLE_USER (user_blocks (ue_content event)) False now h = (n, h1)"
    by fastforce
  have pushed: "history_ok (pushView role \<lparr>ve_message = n, ve_sender = sender\<rparr> h1)" for sender
    by (rule ok_pushView) (use ok_newMessage[OF ok new] in \<open>auto simp: newest_def\<close>)
  have grown: "history_grows h (sink e (pushView role \<lparr>ve_message = n, ve_sender = sender\<rparr> h1))"
    for sender e
    using grows_newMessage[OF ok] new
    by (metis grows_pushView grows_sink history_grows_trans snd_conv)
  show "history_ok (appendMemberViewUser role event recordView now h) \<and>
      history_grows h (appendMemberViewUser role event recordView now h)"
    using ok new by (simp add: appendMemberViewUser_def Let_def ok_sink pushed grown)
qed

lemma well_grown_settle: "well_grown h (snd (settleToolResult role toolId status result h))"
proof (unfold well_grown_def, intro impI)
  assume ok: "history_ok h"
  have "history_ok (snd (settleToolResult role toolId status result h))"
  proof (cases rule: settleToolResult_cases[of role toolId status result h])
    case (settles i n j m)
    let ?h = "snd (settleToolResult role toolId status result h)"
    have h: "th_merge ?h = th_merge h" "th_nextSeq ?h = th_nextSeq h" "th_views ?h = th_views h"
      "th_nextMessageId ?h = th_nextMessageId h" "th_session ?h = th_session h"
      "th_sunk ?h = th_sunk h"
      "\<And>k. th_messages ?h k = None \<longleftrightarrow> th_messages h k = None"
      by (simp_all add: settles(1,5))
    have refs: "refs_ok ?h = refs_ok h" by (simp add: fun_eq_iff refs_ok_def h)
    have "hm_messageId m' = js ''m'' @ str_of_nat k" if "th_messages ?h k = Some m'" for k m'
      using that history_okD(6)[OF ok] settles(5) by (auto simp: settles(1) split: if_splits)
    then show ?thesis using ok by (simp add: history_ok_def h refs)
  qed (use ok in simp)
  then show "history_ok (snd (settleToolResult role toolId status result h)) \<and>
      history_grows h (snd (settleToolResult role toolId status result h))"
    using grows_settle by simp
qed

interpretation growing: history_client well_grown "\<lambda>e. \<not> is_team_frame e"
proof
  show "well_grown h h" for h by (simp add: well_grown_def)
  show "well_grown a b \<Longrightarrow> well_grown b c \<Longrightarrow> well_grown a c" for a b c
    by (auto simp: well_grown_def intro: history_grows_trans)
  show "\<not> is_team_frame e \<Longrightarrow> well_grown h (sink e h)" for e h
    by (simp add: well_grown_def ok_sink grows_sink)
qed (rule well_grown_user well_grown_output well_grown_announcement well_grown_view well_grown_settle)+

section \<open>What a settlement changes\<close>

text \<open>
  The message of the most recent entry of the role with a running call of that id is changed, at
  its last such block; every other block of every message stays as it is.
\<close>

lemma settlement_is_local:
  assumes "settleToolResult role toolId status result h = (True, h')"
  obtains n j m where "th_messages h n = Some m" "j < length (hm_blocks m)"
    "running_call toolId (hm_blocks m ! j)"
    "th_messages h' n = Some (m\<lparr>hm_blocks := (hm_blocks m)[j := settled status result (hm_blocks m ! j)]\<rparr>)"
    "\<And>k. k \<noteq> n \<Longrightarrow> th_messages h' k = th_messages h k"
    "th_merge h' = th_merge h" "th_views h' = th_views h" "th_sunk h' = th_sunk h"
  using assms
proof (cases rule: settleToolResult_cases[of role toolId status result h])
  case (settles i n j m)
  with assms have "h' = h\<lparr>th_messages := (th_messages h)(n \<mapsto>
            m\<lparr>hm_blocks := (hm_blocks m)[j := settled status result (hm_blocks m ! j)]\<rparr>)\<rparr>"
    by simp
  with settles(5,6) that[of n m j] show thesis by (simp add: running_block_Some)
qed simp

end
