(* ===== verification/Member_Collector.thy ===== *)
theory Member_Collector
  imports Chat_History
begin

declare js_simps(2) [simp del]

text \<open>
  The member collector of \<open>projects/game/agent_v2/src/history.ts\<close>: one materialized member's
  events become the frames of its turns and the entries of the history. The state is the pair of
  the collector and the shared history; the time and the fresh turn id an event may use come with
  the event. The views a delta extends are the collector's own copies.
\<close>

section \<open>Events of a member\<close>

record tick =
  tk_now :: int
  tk_uuid :: jstr

record llm_failure =
  lf_code :: "jstr option"
  lf_message :: "jstr option"

datatype log_event =
  UserLogged user_event
| AssistantLogged "block_view list" "token_usage option" bool  \<comment> \<open>content, usage, interrupted\<close>
| ToolCalled
| ToolResultLogged "jstr option" bool "block_view list"  \<comment> \<open>call id, failed, content\<close>
| TurnEnded "(jstr option \<times> llm_failure option) option"  \<comment> \<open>kind and error of the reason\<close>
| OtherLogged

record stream_frame =
  sf_type :: jstr
  sf_attemptId :: "jstr option"
  sf_step :: "int option"
  sf_chunk :: "stream_chunk option"

text \<open>What is thrown: \<open>null\<close> or \<open>undefined\<close>, an object, or another value with its \<open>String\<close>.\<close>

datatype thrown_value = NothingThrown | ObjectThrown llm_failure | ValueThrown jstr

datatype live_event = AssistantStream "stream_frame option" | StatusEvent jstr | ErrorEvent thrown_value

datatype member_event = LogChannel log_event | LiveChannel live_event

record member_envelope =
  en_role :: jstr
  en_memberId :: jstr
  en_event :: member_event

section \<open>State\<close>

record active_turn =
  at_turnId :: jstr
  at_usage :: "token_usage option"
  at_failure :: "chat_error option"
  at_step :: "int option"
  at_localIndexes :: "int \<Rightarrow> int option"
  at_nextIndex :: int
  at_pending :: "(int \<times> block_view) list"

record collector =
  mc_memberId :: jstr
  mc_role :: jstr
  mc_session :: jstr
  mc_recordView :: bool
  mc_active :: "active_turn option"
  mc_pendingOutcome :: "turn_outcome option"
  mc_attempts :: "jstr \<Rightarrow> int option"

definition new_collector :: "jstr \<Rightarrow> jstr \<Rightarrow> jstr \<Rightarrow> bool \<Rightarrow> collector" where
  "new_collector memberId role session recordView =
     \<lparr>mc_memberId = memberId, mc_role = role, mc_session = session, mc_recordView = recordView,
      mc_active = None, mc_pendingOutcome = None, mc_attempts = Map.empty\<rparr>"

definition markOutcome :: "turn_outcome \<Rightarrow> collector \<Rightarrow> collector" where
  "markOutcome outcome c = c\<lparr>mc_pendingOutcome := Some outcome\<rparr>"

definition collector_dispose :: "collector \<Rightarrow> collector" where
  "collector_dispose c = c\<lparr>mc_active := None, mc_pendingOutcome := None, mc_attempts := Map.empty\<rparr>"

definition upd_active :: "(active_turn \<Rightarrow> active_turn) \<Rightarrow> collector \<Rightarrow> collector" where
  "upd_active f c = c\<lparr>mc_active := map_option f (mc_active c)\<rparr>"

definition member_frame :: "collector \<Rightarrow> jstr \<Rightarrow> payload \<Rightarrow> chat_event" where
  "member_frame c turnId p =
     \<lparr>ev_session = mc_session c, ev_turnId = Some turnId, ev_member = Some (mc_role c), ev_payload = p\<rparr>"

section \<open>Turns\<close>

definition new_turn :: "jstr \<Rightarrow> active_turn" where
  "new_turn turnId =
     \<lparr>at_turnId = turnId, at_usage = None, at_failure = None, at_step = None,
      at_localIndexes = Map.empty, at_nextIndex = 0, at_pending = []\<rparr>"

definition ensureActive :: "tick \<Rightarrow> collector \<times> team_history \<Rightarrow> collector \<times> team_history" where
  "ensureActive t s =
     (case s of (c, h) \<Rightarrow>
       (case mc_active c of
          Some _ \<Rightarrow> (c, h)
        | None \<Rightarrow>
            (c\<lparr>mc_active := Some (new_turn (tk_uuid t))\<rparr>, sink (member_frame c (tk_uuid t) TurnStart) h)))"

definition collector_fails :: "llm_failure option \<Rightarrow> collector \<Rightarrow> collector" where
  "collector_fails failure c =
     (case (mc_active c, failure) of
        (Some a, Some f) \<Rightarrow>
          (case at_failure a of
             Some _ \<Rightarrow> c
           | None \<Rightarrow>
               c\<lparr>mc_active := Some (a\<lparr>at_failure :=
                  Some \<lparr>ce_code = or_default (lf_code f) (js ''UNKNOWN''),
                        ce_message = or_default (lf_message f) []\<rparr>\<rparr>)\<rparr>)
      | _ \<Rightarrow> c)"

fun toFailure :: "thrown_value \<Rightarrow> llm_failure option" where
  "toFailure NothingThrown = None"
| "toFailure (ObjectThrown f) = Some f"
| "toFailure (ValueThrown t) = Some \<lparr>lf_code = Some (js ''UNKNOWN''), lf_message = Some t\<rparr>"

definition turn_result :: "collector \<Rightarrow> active_turn \<Rightarrow> turn_outcome" where
  "turn_result c a =
     (case mc_pendingOutcome c of
        Some outcome \<Rightarrow> outcome
      | None \<Rightarrow>
          (case at_failure a of
             None \<Rightarrow> \<lparr>to_status = COMPLETED, to_error = None\<rparr>
           | Some f \<Rightarrow> \<lparr>to_status = ERROR, to_error = Some f\<rparr>))"

definition onStatus :: "tick \<Rightarrow> jstr \<Rightarrow> collector \<times> team_history \<Rightarrow> collector \<times> team_history" where
  "onStatus t status s =
     (case s of (c, h) \<Rightarrow>
       if status = js ''running'' then ensureActive t (c, h)
       else if status \<noteq> js ''idle'' then (c, h)
       else case mc_active c of
         None \<Rightarrow> (c, h)
       | Some a \<Rightarrow>
           (let outcome = turn_result c a;
                pendingBlocks = map snd (at_pending a);
                c1 = c\<lparr>mc_active := None, mc_pendingOutcome := None\<rparr>;
                h1 = (if at_failure a \<noteq> None \<and> to_status outcome = ERROR \<and> pendingBlocks \<noteq> []
                      then snd (appendMemberOutput (mc_role c) pendingBlocks True (mc_recordView c) (tk_now t) h)
                      else h);
                usage = (if to_status outcome = COMPLETED then usageToProto (at_usage a) else None)
            in (c1, sink (member_frame c (at_turnId a)
                     (TurnEnd (to_status outcome) (to_error outcome) usage)) h1)))"

section \<open>The stream of a turn\<close>

definition enterStep :: "tick \<Rightarrow> int \<Rightarrow> collector \<times> team_history \<Rightarrow> collector \<times> team_history" where
  "enterStep t step s =
     (let (c, h) = ensureActive t s in
      (upd_active (\<lambda>a. if at_step a = Some step then a
         else a\<lparr>at_step := Some step, at_localIndexes := Map.empty, at_pending := []\<rparr>) c, h))"

definition remapIndex :: "int \<Rightarrow> active_turn \<Rightarrow> int \<times> active_turn" where
  "remapIndex localIndex a =
     (case at_localIndexes a localIndex of
        Some assigned \<Rightarrow> (assigned, a)
      | None \<Rightarrow>
          (at_nextIndex a,
           a\<lparr>at_nextIndex := at_nextIndex a + 1,
             at_localIndexes := (at_localIndexes a)(localIndex \<mapsto> at_nextIndex a)\<rparr>))"

text \<open>Appending to a view without a text gives the text \<open>undefined\<close> first.\<close>

definition append_text :: "jstr \<Rightarrow> block_view \<Rightarrow> block_view" where
  "append_text t v = v\<lparr>bv_text := Some (or_default (bv_text v) (js ''undefined'') @ t)\<rparr>"

definition text_view :: "jstr \<Rightarrow> block_view" where
  "text_view type =
     \<lparr>bv_type = type, bv_text = Some [], bv_id = None, bv_name = None, bv_arguments = None\<rparr>"

fun findPending :: "int \<Rightarrow> (int \<times> block_view) list \<Rightarrow> block_view option" where
  "findPending index [] = None"
| "findPending index ((i, v) # vs) = (if i = index then Some v else findPending index vs)"

fun extend_first :: "int \<Rightarrow> jstr \<Rightarrow> (int \<times> block_view) list \<Rightarrow> (int \<times> block_view) list" where
  "extend_first index t [] = []"
| "extend_first index t ((i, v) # vs) =
     (if i = index then (i, append_text t v) # vs else (i, v) # extend_first index t vs)"

definition pend_delta :: "int \<Rightarrow> jstr \<Rightarrow> jstr \<Rightarrow> (int \<times> block_view) list \<Rightarrow> (int \<times> block_view) list" where
  "pend_delta index type t pending =
     (case findPending index pending of
        Some _ \<Rightarrow> extend_first index t pending
      | None \<Rightarrow> pending @ [(index, append_text t (text_view type))])"

definition pend_block :: "int \<Rightarrow> block_view \<Rightarrow> (int \<times> block_view) list \<Rightarrow> (int \<times> block_view) list" where
  "pend_block index block pending =
     (case findPending index pending of
        Some _ \<Rightarrow> filter (\<lambda>entry. fst entry \<noteq> index) pending
      | None \<Rightarrow> pending) @ [(index, block)]"

definition pend_chunk :: "stream_chunk \<Rightarrow> (int \<times> block_view) list \<Rightarrow> (int \<times> block_view) list" where
  "pend_chunk chunk pending =
     (let index = or_default (ch_index chunk) 0 in
      if ch_type chunk = js ''reasoning-delta'' then
        pend_delta index (js ''reasoning'') (or_default (ch_text chunk) []) pending
      else if ch_type chunk = js ''text-delta'' then
        pend_delta index (js ''text'') (or_default (ch_text chunk) []) pending
      else if ch_type chunk = js ''block-end'' then
        (case ch_block chunk of None \<Rightarrow> pending | Some block \<Rightarrow> pend_block index block pending)
      else pending)"

definition onChunk ::
  "tick \<Rightarrow> stream_chunk \<Rightarrow> int \<Rightarrow> collector \<times> team_history \<Rightarrow> collector \<times> team_history" where
  "onChunk t chunk step s =
     (let (c, h) = ensureActive t s in
      case mc_active c of
        None \<Rightarrow> (c, h)
      | Some a \<Rightarrow>
          if ch_type chunk = js ''usage'' then
            (c\<lparr>mc_active := Some (a\<lparr>at_usage := ch_usage chunk\<rparr>)\<rparr>, h)
          else
            (let a1 = a\<lparr>at_pending := pend_chunk chunk (at_pending a)\<rparr>;
                 (event, a2) = chunkToChatEvent chunk (mc_session c) (at_turnId a) remapIndex step a1;
                 c1 = c\<lparr>mc_active := Some a2\<rparr>
             in case event of
                  None \<Rightarrow> (c1, h)
                | Some e \<Rightarrow> (c1, sink (e\<lparr>ev_member := Some (mc_role c)\<rparr>) h)))"

definition onAssistantStream ::
  "tick \<Rightarrow> stream_frame option \<Rightarrow> collector \<times> team_history \<Rightarrow> collector \<times> team_history" where
  "onAssistantStream t frame s =
     (case s of (c, h) \<Rightarrow>
       (case frame of
          None \<Rightarrow> (c, h)
        | Some f \<Rightarrow>
            (case sf_attemptId f of
               None \<Rightarrow> (c, h)
             | Some attempt \<Rightarrow>
                 if sf_type f = js ''start'' then
                   (case sf_step f of
                      None \<Rightarrow> (c, h)
                    | Some step \<Rightarrow>
                        enterStep t step (c\<lparr>mc_attempts := (mc_attempts c)(attempt \<mapsto> step)\<rparr>, h))
                 else if sf_type f = js ''chunk'' then
                   (case (mc_attempts c attempt, sf_chunk f) of
                      (Some step, Some chunk) \<Rightarrow> onChunk t chunk step (c, h)
                    | _ \<Rightarrow> (c, h))
                 else (c\<lparr>mc_attempts := (mc_attempts c)(attempt := None)\<rparr>, h))))"

section \<open>Session events\<close>

definition result_text :: "block_view list \<Rightarrow> jstr" where
  "result_text content =
     concat (map (\<lambda>b. if bv_type b = js ''text'' then or_default (bv_text b) [] else []) content)"

definition onToolResult ::
  "tick \<Rightarrow> jstr option \<Rightarrow> bool \<Rightarrow> block_view list \<Rightarrow> collector \<times> team_history \<Rightarrow> collector \<times> team_history" where
  "onToolResult t callId isError content s =
     (case s of (c, h) \<Rightarrow>
       (let toolId = or_default callId [];
            status = (if isError then TOOL_STATUS_FAILED else TOOL_STATUS_SUCCEEDED);
            result = result_text content;
            h1 = snd (settleToolResult (mc_role c) toolId status result h);
            (c2, h2) = ensureActive t (c, h1)
        in case mc_active c2 of
             None \<Rightarrow> (c2, h2)
           | Some a \<Rightarrow>
               (c2, sink (member_frame c2 (at_turnId a) (ToolResultFrame toolId status result)) h2)))"

fun onSessionEvent :: "tick \<Rightarrow> log_event \<Rightarrow> collector \<times> team_history \<Rightarrow> collector \<times> team_history" where
  "onSessionEvent t (UserLogged event) (c, h) =
     (c, appendMemberViewUser (mc_role c) event (mc_recordView c) (tk_now t) h)"
| "onSessionEvent t (AssistantLogged content usage interrupted) (c, h) =
     (let (c1, h1) = ensureActive t (c, h);
          c2 = upd_active (\<lambda>a. a\<lparr>at_usage := (case usage of None \<Rightarrow> at_usage a | Some u \<Rightarrow> Some u),
                                 at_pending := []\<rparr>) c1
      in (c2, snd (appendMemberOutput (mc_role c) content interrupted (mc_recordView c) (tk_now t) h1)))"
| "onSessionEvent t ToolCalled (c, h) = (c, h)"
| "onSessionEvent t (ToolResultLogged callId isError content) (c, h) =
     onToolResult t callId isError content (c, h)"
| "onSessionEvent t (TurnEnded reason) (c, h) =
     (case reason of
        Some (Some kind, error) \<Rightarrow> if kind = js ''error'' then (collector_fails error c, h) else (c, h)
      | _ \<Rightarrow> (c, h))"
| "onSessionEvent t OtherLogged (c, h) = (c, h)"

fun onLiveEvent :: "tick \<Rightarrow> live_event \<Rightarrow> collector \<times> team_history \<Rightarrow> collector \<times> team_history" where
  "onLiveEvent t (AssistantStream frame) s = onAssistantStream t frame s"
| "onLiveEvent t (StatusEvent status) s = onStatus t status s"
| "onLiveEvent t (ErrorEvent error) (c, h) = (collector_fails (toFailure error) c, h)"

definition applyEvent ::
  "tick \<Rightarrow> member_envelope \<Rightarrow> collector \<times> team_history \<Rightarrow> collector \<times> team_history" where
  "applyEvent t envelope s =
     (if en_memberId envelope \<noteq> mc_memberId (fst s) then s
      else case en_event envelope of
        LogChannel event \<Rightarrow> onSessionEvent t event s
      | LiveChannel event \<Rightarrow> onLiveEvent t event s)"

section \<open>What a collector keeps of the history\<close>

text \<open>A collector only writes turn frames of its own role, besides what the history appends.\<close>

lemma is_team_member_frame [simp]:
  "is_team_frame (member_frame c turnId p) \<longleftrightarrow> is_team_frame (session_frame s p)"
  by (simp add: is_team_frame_def member_frame_def session_frame_def)

fun block_index :: "payload \<Rightarrow> int option" where
  "block_index (BlockStart i t q x y) = Some i"
| "block_index (BlockDelta i u q) = Some i"
| "block_index (BlockEnd i b q) = Some i"
| "block_index _ = None"

definition assigned_index :: "collector \<Rightarrow> int \<Rightarrow> int" where
  "assigned_index c l = (case mc_active c of None \<Rightarrow> 0 | Some a \<Rightarrow> fst (remapIndex l a))"

definition frame_of :: "collector \<Rightarrow> chat_event \<Rightarrow> bool" where
  "frame_of c e \<longleftrightarrow>
     ev_member e = Some (mc_role c) \<and> ev_turnId e \<noteq> None \<and> \<not> is_team_frame e \<and>
     (\<forall>i. block_index (ev_payload e) = Some i \<longrightarrow> (\<exists>l. i = assigned_index c l))"

lemma frame_of_member_frame [simp]:
  "mc_role c' = mc_role c \<Longrightarrow> block_index p = None \<Longrightarrow> \<not> is_team_frame (session_frame [] p) \<Longrightarrow>
     frame_of c (member_frame c' turnId p)"
  by (simp add: frame_of_def is_team_frame_def member_frame_def session_frame_def)

lemma frame_of_cong: "mc_role c' = mc_role c \<Longrightarrow> mc_active c' = mc_active c \<Longrightarrow> frame_of c' = frame_of c"
  by (simp add: fun_eq_iff frame_of_def assigned_index_def)

lemma is_team_session_frame [simp]:
  "\<not> is_team_frame (session_frame s TurnStart)"
  "\<not> is_team_frame (session_frame s (BlockStart i t q x y))"
  "\<not> is_team_frame (session_frame s (BlockDelta i u q))"
  "\<not> is_team_frame (session_frame s (BlockEnd i b q))"
  "\<not> is_team_frame (session_frame s (ToolResultFrame u st u'))"
  "\<not> is_team_frame (session_frame s (TurnEnd o' e us))"
  by (simp_all add: is_team_frame_def session_frame_def)

lemma collector_same_simps [simp]:
  "mc_role (upd_active f c) = mc_role c" "mc_role (collector_fails e c) = mc_role c"
  "mc_memberId (upd_active f c) = mc_memberId c" "mc_memberId (collector_fails e c) = mc_memberId c"
  "mc_recordView (upd_active f c) = mc_recordView c"
  "mc_session (upd_active f c) = mc_session c"
  by (auto simp: upd_active_def collector_fails_def split: option.splits)

lemma chunk_frame_cases:
  assumes "chunkToChatEvent chunk session turnId remap step s = (Some e, s')"
  obtains i p where "remap (or_default (ch_index chunk) 0) s = (i, s')" "e = turn_frame session turnId p"
    "(\<exists>t x y. p = BlockStart i t step x y) \<or> (\<exists>u. p = BlockDelta i u step) \<or> (\<exists>b. p = BlockEnd i b step)"
  using assms unfolding chunkToChatEvent_def Let_def
  by (auto split: if_splits option.splits prod.splits)

lemma chunk_silent:
  "chunkToChatEvent chunk session turnId remap step s = (None, s') \<Longrightarrow> s' = s"
  unfolding chunkToChatEvent_def Let_def by (auto split: if_splits option.splits prod.splits)

text \<open>The member a chunk's frame names, and where its index comes from.\<close>

lemma chunk_frame_of:
  assumes "chunkToChatEvent chunk session turnId remapIndex step (a\<lparr>at_pending := vs\<rparr>) = (Some e, s')"
    and "mc_active c = Some a \<or> mc_active c = None \<and> a = new_turn t"
  shows "frame_of c (e\<lparr>ev_member := Some (mc_role c)\<rparr>)"
  using assms(1)
proof (rule chunk_frame_cases)
  fix i p
  assume i: "remapIndex (or_default (ch_index chunk) 0) (a\<lparr>at_pending := vs\<rparr>) = (i, s')"
    and e: "e = turn_frame session turnId p"
    and p: "(\<exists>t x y. p = BlockStart i t step x y) \<or> (\<exists>u. p = BlockDelta i u step) \<or> (\<exists>b. p = BlockEnd i b step)"
  have "\<exists>l. i = assigned_index c l"
    using assms(2)
  proof
    assume "mc_active c = Some a"
    with i have "i = assigned_index c (or_default (ch_index chunk) 0)"
      by (auto simp: assigned_index_def remapIndex_def split: option.splits)
    then show ?thesis by blast
  next
    assume "mc_active c = None \<and> a = new_turn t"
    with i show ?thesis by (auto simp: assigned_index_def remapIndex_def new_turn_def)
  qed
  with p show ?thesis
    by (auto simp: frame_of_def e turn_frame_def is_team_frame_def)
qed

lemma ensureActive_cases:
  obtains (latched) a where "mc_active c = Some a" "ensureActive t (c, h) = (c, h)"
  | (starts) "mc_active c = None"
      "ensureActive t (c, h) = (c\<lparr>mc_active := Some (new_turn (tk_uuid t))\<rparr>,
         sink (member_frame c (tk_uuid t) TurnStart) h)"
  by (cases "mc_active c") (auto simp: ensureActive_def)

context history_client
begin

lemma ensureActive_keeps:
  assumes F: "\<And>e. frame_of c e \<Longrightarrow> F e"
  shows "R h (snd (ensureActive t (c, h)))"
  by (cases rule: ensureActive_cases[of c t h]) (simp_all add: same sink_step F)

lemma onStatus_keeps:
  assumes F: "\<And>e. frame_of c e \<Longrightarrow> F e"
  shows "R h (snd (onStatus t status (c, h)))"
proof (cases "status = js ''idle''")
  case False
  then show ?thesis
    using ensureActive_keeps[OF F] by (simp add: onStatus_def same)
next
  case True
  have sinks: "R h' (sink (member_frame c turnId (TurnEnd x y z)) h')" for h' turnId x y z
    by (rule sink_step) (simp add: F)
  have "js ''idle'' \<noteq> js ''running''" by (simp add: js_simps)
  then show ?thesis
    using True by (auto simp: onStatus_def Let_def same intro: sinks next_step[OF output_step sinks]
        split: option.splits)
qed

lemma onChunk_keeps:
  assumes F: "\<And>e. frame_of c e \<Longrightarrow> F e"
  shows "R h (snd (onChunk t chunk step (c, h)))"
proof -
  obtain c1 h1 where a: "ensureActive t (c, h) = (c1, h1)" by fastforce
  have role: "mc_role c1 = mc_role c"
    and active: "mc_active c = mc_active c1 \<or> mc_active c = None \<and> mc_active c1 = Some (new_turn (tk_uuid t))"
    by (rule ensureActive_cases[of c t h]; use a in auto)+
  have "R h h1" using ensureActive_keeps[of c h t, OF F] a by simp
  moreover have "R h1 (snd (onChunk t chunk step (c, h)))"
    using active unfolding onChunk_def a Let_def
    by (auto simp: same role intro!: sink_step F chunk_frame_of split: option.splits prod.splits)
  ultimately show ?thesis by (rule next_step)
qed

lemma onAssistantStream_keeps:
  assumes F: "\<And>e. frame_of c e \<Longrightarrow> F e"
  shows "R h (snd (onAssistantStream t frame (c, h)))"
proof -
  have "R h (snd (enterStep t step (c\<lparr>mc_attempts := m\<rparr>, h)))" for step m
  proof -
    have "frame_of (c\<lparr>mc_attempts := m\<rparr>) = frame_of c" by (rule frame_of_cong) simp_all
    then have "R h (snd (ensureActive t (c\<lparr>mc_attempts := m\<rparr>, h)))"
      by (intro ensureActive_keeps) (simp add: F)
    then show ?thesis by (simp add: enterStep_def case_prod_beta)
  qed
  then show ?thesis
    using onChunk_keeps[OF F] by (auto simp: onAssistantStream_def same split: option.splits)
qed

lemma onToolResult_keeps:
  assumes F: "\<And>e. frame_of c e \<Longrightarrow> F e"
  shows "R h (snd (onToolResult t callId isError content (c, h)))"
proof -
  let ?h1 = "snd (settleToolResult (mc_role c) (or_default callId [])
    (if isError then TOOL_STATUS_FAILED else TOOL_STATUS_SUCCEEDED) (result_text content) h)"
  obtain c2 h2 where a: "ensureActive t (c, ?h1) = (c2, h2)" by fastforce
  have role: "mc_role c2 = mc_role c"
    by (rule ensureActive_cases[of c t ?h1]) (use a in auto)
  have "R h h2"
    using next_step[OF settle_step ensureActive_keeps[of c ?h1 t, OF F]] a by simp
  moreover have "R h2 (snd (onToolResult t callId isError content (c, h)))"
    using a by (auto simp: onToolResult_def Let_def same role intro!: sink_step F split: option.splits)
  ultimately show ?thesis by (rule next_step)
qed

theorem applyEvent_keeps:
  assumes F: "\<And>e. frame_of c e \<Longrightarrow> F e"
  shows "R h (snd (applyEvent t envelope (c, h)))"
proof -
  have log: "R h (snd (onSessionEvent t event (c, h)))" for event
  proof (cases event)
    case (AssistantLogged content usage interrupted)
    then show ?thesis
      using next_step[OF ensureActive_keeps[of c h t, OF F] output_step] by (simp add: case_prod_beta)
  qed (auto simp: same view_step intro: onToolResult_keeps[OF F] split: option.splits)
  have live: "R h (snd (onLiveEvent t event (c, h)))" for event
    by (cases event) (auto simp: same intro: onAssistantStream_keeps[OF F] onStatus_keeps[OF F])
  show ?thesis
    using log live by (auto simp: applyEvent_def same split: member_event.splits)
qed

end

end
