(* ===== verification/Collector_Turns.thy ===== *)
theory Collector_Turns
  imports Member_Collector
begin

declare js_simps(2) [simp del]

text \<open>
  What a stream client sees of a member: the frames labelled with its role form turns, and the
  block indexes of a turn separate its model steps.
\<close>

section \<open>The frames a step emits\<close>

definition session_level :: "chat_event \<Rightarrow> bool" where
  "session_level e \<longleftrightarrow> ev_member e = None \<and> block_index (ev_payload e) = None"

definition emits :: "(chat_event \<Rightarrow> bool) \<Rightarrow> team_history \<Rightarrow> team_history \<Rightarrow> bool" where
  "emits P h h' \<longleftrightarrow>
     (\<exists>fs. th_sunk h' = th_sunk h @ fs \<and> (\<forall>e \<in> set fs. session_level e \<or> P e))"

lemma emits_same: "th_sunk h' = th_sunk h \<Longrightarrow> emits P h h'"
  by (simp add: emits_def)

lemma emits_one: "th_sunk h' = th_sunk h @ [e] \<Longrightarrow> session_level e \<or> P e \<Longrightarrow> emits P h h'"
  by (simp add: emits_def)

lemma emits_trans: "emits P a b \<Longrightarrow> emits P b c \<Longrightarrow> emits P a c"
  unfolding emits_def by (metis Un_iff append_assoc set_append)

lemma session_level_frame [simp]: "session_level (session_frame s p) \<longleftrightarrow> block_index p = None"
  by (simp add: session_level_def session_frame_def)

lemma sunk_newMessage [simp]: "th_sunk (snd (newMessage role blocks i now h)) = th_sunk h"
  by (simp add: newMessage_def Let_def)

lemma sunk_appendMerge [simp]:
  "th_sunk (snd (appendMerge member n h)) =
     th_sunk h @ [session_frame (th_session h) (TeamMessage member n (str_of_nat (th_nextSeq h)))]"
  by (simp add: appendMerge_def Let_def sink_def)

lemma sunk_pushView [simp]: "th_sunk (pushView role entry h) = th_sunk h"
  by (simp add: pushView_def)

lemma sunk_sink [simp]: "th_sunk (sink e h) = th_sunk h @ [e]"
  by (simp add: sink_def)

lemma sunk_settle [simp]: "th_sunk (snd (settleToolResult role toolId status result h)) = th_sunk h"
  by (cases rule: settleToolResult_cases[of role toolId status result h]) simp_all

interpretation emitting: history_client "emits P" P for P
proof
  show "emits P h h" for h by (simp add: emits_same)
  show "emits P a b \<Longrightarrow> emits P b c \<Longrightarrow> emits P a c" for a b c by (rule emits_trans)
  show "emits P h (snd (appendUser t now h))" for t now h
    by (rule emits_one, simp add: appendUser_def case_prod_beta) simp
  show "emits P h (snd (appendAnnouncement role t now h))" for role t now h
    by (rule emits_one, simp add: appendAnnouncement_def case_prod_beta) simp
  show "emits P h (snd (appendMemberOutput role content i v now h))" for role content i v now h
  proof (cases "display_blocks content = []")
    case True
    then show ?thesis by (simp add: appendMemberOutput_def emits_same)
  next
    case False
    then show ?thesis
      by (intro emits_one, simp add: appendMemberOutput_def case_prod_beta Let_def) simp
  qed
  show "emits P h (appendMemberViewUser role event v now h)" for role event v now h
    by (simp add: appendMemberViewUser_def case_prod_beta Let_def emits_same)
      (intro impI conjI; (rule emits_one, simp, simp)?)
  show "emits P h (snd (settleToolResult role toolId status result h))" for role toolId status result h
    by (simp add: emits_same)
  show "P e \<Longrightarrow> emits P h (sink e h)" for e h
    by (rule emits_one[of _ h e]) simp_all
qed

lemma applyEvent_emits: "emits (frame_of c) h (snd (applyEvent t envelope (c, h)))"
  by (rule emitting.applyEvent_keeps)

section \<open>Turns on the wire\<close>

text \<open>
  The open turn of a role with a bound above the block indexes it has used; \<open>None\<close> is a frame
  that does not belong there: a block outside a turn or of another turn, a second start.
\<close>

type_synonym open_turn = "(jstr \<times> int) option"

fun wire_payload :: "jstr \<Rightarrow> payload \<Rightarrow> open_turn \<Rightarrow> open_turn option" where
  "wire_payload turnId TurnStart None = Some (Some (turnId, 0))"
| "wire_payload turnId TurnStart (Some _) = None"
| "wire_payload turnId p None = None"
| "wire_payload turnId p (Some (open_id, b)) =
     (if turnId \<noteq> open_id then None
      else case p of
        TurnEnd _ _ _ \<Rightarrow> Some None
      | ToolResultFrame _ _ _ \<Rightarrow> Some (Some (open_id, b))
      | _ \<Rightarrow> (case block_index p of
                None \<Rightarrow> None
              | Some i \<Rightarrow> if i < 0 then None else Some (Some (open_id, max b (i + 1)))))"

definition wire_frame :: "jstr \<Rightarrow> chat_event \<Rightarrow> open_turn \<Rightarrow> open_turn option" where
  "wire_frame role e s =
     (if ev_member e \<noteq> Some role then Some s
      else case ev_turnId e of None \<Rightarrow> None | Some turnId \<Rightarrow> wire_payload turnId (ev_payload e) s)"

definition wire :: "jstr \<Rightarrow> chat_event list \<Rightarrow> open_turn option" where
  "wire role fs = foldl (\<lambda>s e. Option.bind s (wire_frame role e)) (Some None) fs"

lemma wire_Nil [simp]: "wire role [] = Some None"
  by (simp add: wire_def)

lemma wire_snoc [simp]: "wire role (fs @ [e]) = Option.bind (wire role fs) (wire_frame role e)"
  by (simp add: wire_def)

lemma wire_other:
  assumes "\<forall>e \<in> set es. ev_member e \<noteq> Some role"
  shows "wire role (fs @ es) = wire role fs"
  using assms
proof (induction es rule: rev_induct)
  case (snoc e es)
  then have "wire role (fs @ es @ [e]) = Option.bind (wire role fs) (wire_frame role e)"
    by (simp flip: append_assoc)
  then show ?case using snoc.prems by (cases "wire role fs") (simp_all add: wire_frame_def)
qed simp

lemma wire_emits:
  assumes "emits P h h'" and "\<And>e. P e \<Longrightarrow> ev_member e \<noteq> Some role"
  shows "wire role (th_sunk h') = wire role (th_sunk h)"
proof -
  from assms(1) obtain fs where fs: "th_sunk h' = th_sunk h @ fs"
    "\<forall>e \<in> set fs. session_level e \<or> P e" by (auto simp: emits_def)
  then have "\<forall>e \<in> set fs. ev_member e \<noteq> Some role"
    using assms(2) by (metis option.distinct(1) session_level_def)
  then show ?thesis by (simp add: fs(1) wire_other)
qed

section \<open>A collector in step with the wire\<close>

definition indexes_ok :: "active_turn \<Rightarrow> bool" where
  "indexes_ok a \<longleftrightarrow>
     0 \<le> at_nextIndex a \<and>
     (\<forall>l l' g. at_localIndexes a l = Some g \<and> at_localIndexes a l' = Some g \<longrightarrow> l = l') \<and>
     (\<forall>l g. at_localIndexes a l = Some g \<longrightarrow> 0 \<le> g \<and> g < at_nextIndex a)"

definition turn_shown :: "active_turn option \<Rightarrow> open_turn option \<Rightarrow> bool" where
  "turn_shown active w \<longleftrightarrow>
     (case active of
        None \<Rightarrow> w = Some None
      | Some a \<Rightarrow> indexes_ok a \<and> (\<exists>b. w = Some (Some (at_turnId a, b)) \<and> 0 \<le> b \<and> b \<le> at_nextIndex a))"

definition in_turn :: "collector \<Rightarrow> team_history \<Rightarrow> bool" where
  "in_turn c h \<longleftrightarrow> turn_shown (mc_active c) (wire (mc_role c) (th_sunk h))"

lemma in_turn_cong:
  "in_turn c h \<Longrightarrow> mc_role c' = mc_role c \<Longrightarrow> mc_active c' = mc_active c \<Longrightarrow> in_turn c' h"
  by (simp add: in_turn_def)

lemma in_turn_emits:
  assumes "in_turn c h" "emits P h h'" and "\<And>e. P e \<Longrightarrow> ev_member e \<noteq> Some (mc_role c)"
  shows "in_turn c h'"
  using assms by (simp add: in_turn_def wire_emits[OF assms(2), of "mc_role c"])

lemma indexes_ok_new: "indexes_ok (new_turn turnId)"
  by (simp add: indexes_ok_def new_turn_def)

lemma in_turn_upd:
  assumes "in_turn c h"
    and "\<And>a. indexes_ok a \<Longrightarrow> indexes_ok (f a) \<and> at_turnId (f a) = at_turnId a \<and> at_nextIndex (f a) = at_nextIndex a"
  shows "in_turn (upd_active f c) h"
  using assms by (cases "mc_active c") (auto simp: in_turn_def turn_shown_def upd_active_def)

lemma in_turn_fails: "in_turn c h \<Longrightarrow> in_turn (collector_fails f c) h"
  by (auto simp: in_turn_def turn_shown_def collector_fails_def indexes_ok_def split: option.splits)

lemma in_turn_new: "wire role (th_sunk h) = Some None \<Longrightarrow> in_turn (new_collector m role s v) h"
  by (simp add: in_turn_def turn_shown_def new_collector_def)

section \<open>Every event keeps the turns\<close>

lemma in_turn_ensure:
  assumes "in_turn c h" and "ensureActive t (c, h) = (c1, h1)"
  shows "in_turn c1 h1" and "mc_active c1 \<noteq> None" and "mc_role c1 = mc_role c"
    and "mc_session c1 = mc_session c"
proof -
  show "in_turn c1 h1"
  proof (cases rule: ensureActive_cases[of c t h])
    case starts
    have "wire (mc_role c) (th_sunk h1) = Some (Some (tk_uuid t, 0))"
      using assms starts by (auto simp: in_turn_def turn_shown_def wire_frame_def member_frame_def)
    then show ?thesis
      using assms(2) starts indexes_ok_new
      by (auto simp: in_turn_def turn_shown_def new_turn_def indexes_ok_def)
  qed (use assms in auto)
  show "mc_active c1 \<noteq> None" "mc_role c1 = mc_role c" "mc_session c1 = mc_session c"
    by (rule ensureActive_cases[of c t h]; use assms(2) in auto)+
qed

text \<open>A frame of the open turn that carries no block index leaves the turn as it is.\<close>

lemma in_turn_result:
  assumes "in_turn c h" and "mc_active c = Some a"
  shows "in_turn c (sink (member_frame c (at_turnId a) (ToolResultFrame x st u)) h)"
  using assms by (auto simp: in_turn_def turn_shown_def wire_frame_def member_frame_def)

lemma in_turn_end:
  assumes "in_turn c h" and "mc_active c = Some a" and "mc_active c' = None" "mc_role c' = mc_role c"
  shows "in_turn c' (sink (member_frame c (at_turnId a) (TurnEnd st e us)) h)"
  using assms by (auto simp: in_turn_def turn_shown_def wire_frame_def member_frame_def)

lemma indexes_ok_remap:
  assumes ok: "indexes_ok a" and r: "remapIndex l a = (i, a')"
  shows "indexes_ok a'" "0 \<le> i" "i < at_nextIndex a'" "at_nextIndex a \<le> at_nextIndex a'"
    "at_turnId a' = at_turnId a"
proof -
  show "indexes_ok a'"
  proof (cases "at_localIndexes a l")
    case None
    have "0 \<le> g \<and> g < at_nextIndex a" if "at_localIndexes a k = Some g" for k g
      using ok that by (simp add: indexes_ok_def)
    then have "at_localIndexes a k \<noteq> Some (at_nextIndex a)"
      "at_localIndexes a k = Some g \<Longrightarrow> 0 \<le> g \<and> g < at_nextIndex a + 1" for k g
      by fastforce+
    with ok None r show ?thesis
      by (auto simp: indexes_ok_def remapIndex_def split: if_splits)
  qed (use ok r in \<open>simp add: remapIndex_def\<close>)
  show "0 \<le> i" "i < at_nextIndex a'" "at_nextIndex a \<le> at_nextIndex a'" "at_turnId a' = at_turnId a"
    using ok r by (auto simp: indexes_ok_def remapIndex_def split: option.splits)
qed

lemma in_turn_chunk:
  assumes "in_turn c h" shows "case onChunk t chunk step (c, h) of (c', h') \<Rightarrow> in_turn c' h'"
proof -
  obtain c1 h1 where e: "ensureActive t (c, h) = (c1, h1)" by fastforce
  note c1 = in_turn_ensure[OF assms e]
  then obtain a where a: "mc_active c1 = Some a" by auto
  obtain b where ok: "indexes_ok a" and w: "wire (mc_role c1) (th_sunk h1) = Some (Some (at_turnId a, b))"
    and b: "0 \<le> b" "b \<le> at_nextIndex a"
    using c1(1) a by (auto simp: in_turn_def turn_shown_def)
  let ?a1 = "a\<lparr>at_pending := pend_chunk chunk (at_pending a)\<rparr>"
  have ok1: "indexes_ok ?a1" using ok by (simp add: indexes_ok_def)
  obtain ev a2 where ev: "chunkToChatEvent chunk (mc_session c1) (at_turnId a) remapIndex step ?a1 = (ev, a2)"
    by fastforce
  show ?thesis
  proof (cases ev)
    case None
    from chunk_silent[OF ev[unfolded this]] have "a2 = ?a1" .
    then show ?thesis
      using a b ok w c1(1) ev None ok1
      by (auto simp: onChunk_def e in_turn_def turn_shown_def indexes_ok_def)
  next
    case (Some f)
    from ev[unfolded Some] obtain i p where r: "remapIndex (or_default (ch_index chunk) 0) ?a1 = (i, a2)"
      and f: "f = turn_frame (mc_session c1) (at_turnId a) p"
      and p: "(\<exists>t x y. p = BlockStart i t step x y) \<or> (\<exists>u. p = BlockDelta i u step) \<or> (\<exists>b. p = BlockEnd i b step)"
      by (rule chunk_frame_cases)
    have "wire (mc_role c1) (th_sunk h1 @ [f\<lparr>ev_member := Some (mc_role c1)\<rparr>]) =
        Some (Some (at_turnId a, max b (i + 1)))"
      using p indexes_ok_remap[OF ok1 r] by (auto simp: w f wire_frame_def turn_frame_def)
    then show ?thesis
      using a b c1(1) ev Some indexes_ok_remap[OF ok1 r] ok
      by (auto simp: onChunk_def e in_turn_def turn_shown_def indexes_ok_def)
  qed
qed

lemma in_turn_history:
  "in_turn c h \<Longrightarrow> emits (\<lambda>_. False) h h' \<Longrightarrow> in_turn c h'"
  by (rule in_turn_emits[where P = "\<lambda>_. False"]) simp_all

lemma in_turn_status:
  assumes "in_turn c h" shows "case onStatus t status (c, h) of (c', h') \<Rightarrow> in_turn c' h'"
proof (cases "status = js ''running''")
  case True
  then show ?thesis using in_turn_ensure(1)[OF assms] by (auto simp: onStatus_def)
next
  case False
  show ?thesis
  proof (cases "mc_active c")
    case None
    then show ?thesis using False assms by (simp add: onStatus_def)
  next
    case (Some a)
    have "in_turn (c\<lparr>mc_active := None, mc_pendingOutcome := None\<rparr>)
        (sink (member_frame c (at_turnId a) (TurnEnd st e us)) h')"
      if "emits (\<lambda>_. False) h h'" for st e us h'
      by (rule in_turn_end[OF in_turn_history[OF assms that] Some]) simp_all
    then show ?thesis
      using False Some assms by (simp add: onStatus_def Let_def emitting.output_step emitting.same)
  qed
qed

lemma in_turn_stream:
  assumes "in_turn c h" shows "case onAssistantStream t frame (c, h) of (c', h') \<Rightarrow> in_turn c' h'"
proof -
  have attempts: "in_turn (c\<lparr>mc_attempts := m\<rparr>) h" for m
    using assms by (rule in_turn_cong) simp_all
  have "case enterStep t step (c\<lparr>mc_attempts := m\<rparr>, h) of (c', h') \<Rightarrow> in_turn c' h'" for step m
  proof -
    obtain c1 h1 where e: "ensureActive t (c\<lparr>mc_attempts := m\<rparr>, h) = (c1, h1)" by fastforce
    have "in_turn (upd_active (\<lambda>a. if at_step a = Some step then a
         else a\<lparr>at_step := Some step, at_localIndexes := Map.empty, at_pending := []\<rparr>) c1) h1"
      by (rule in_turn_upd[OF in_turn_ensure(1)[OF attempts e]]) (simp add: indexes_ok_def)
    then show ?thesis by (simp add: enterStep_def e)
  qed
  then show ?thesis
    using assms attempts in_turn_chunk[OF assms]
    by (auto simp: onAssistantStream_def split: option.splits)
qed

lemma in_turn_log:
  assumes "in_turn c h" shows "case onSessionEvent t event (c, h) of (c', h') \<Rightarrow> in_turn c' h'"
proof (cases event)
  case (UserLogged e)
  then show ?thesis using in_turn_history[OF assms emitting.view_step] by simp
next
  case (AssistantLogged content usage interrupted)
  obtain c1 h1 where e: "ensureActive t (c, h) = (c1, h1)" by fastforce
  have "in_turn (upd_active (\<lambda>a. a\<lparr>at_usage := (case usage of None \<Rightarrow> at_usage a | Some u \<Rightarrow> Some u),
      at_pending := []\<rparr>) c1) h1"
    by (rule in_turn_upd[OF in_turn_ensure(1)[OF assms e]]) (simp add: indexes_ok_def)
  from in_turn_history[OF this emitting.output_step] show ?thesis
    using AssistantLogged e by simp
next
  case (ToolResultLogged callId isError content)
  define h1 where "h1 = snd (settleToolResult (mc_role c) (or_default callId [])
     (if isError then TOOL_STATUS_FAILED else TOOL_STATUS_SUCCEEDED) (result_text content) h)"
  obtain c2 h2 where e: "ensureActive t (c, h1) = (c2, h2)" by fastforce
  have "in_turn c h1"
    unfolding h1_def by (rule in_turn_history[OF assms emitting.settle_step])
  from in_turn_ensure(1,2)[OF this e] obtain a where "in_turn c2 h2" "mc_active c2 = Some a" by auto
  with in_turn_result[OF this] show ?thesis
    using e ToolResultLogged by (simp add: onToolResult_def Let_def h1_def)
qed (use assms in \<open>auto simp: in_turn_fails split: option.splits\<close>)

lemma in_turn_applyEvent:
  assumes "in_turn c h" and "applyEvent t envelope (c, h) = (c', h')"
  shows "in_turn c' h'"
proof -
  have "case onLiveEvent t event (c, h) of (c', h') \<Rightarrow> in_turn c' h'" for event
    using in_turn_stream[OF assms(1)] in_turn_status[OF assms(1)] in_turn_fails[OF assms(1)]
    by (cases event) simp_all
  then show ?thesis
    using assms in_turn_log[OF assms(1)]
    by (auto simp: applyEvent_def split: if_splits member_event.splits) (metis case_prod_conv)+
qed

text \<open>A collector stays the collector of its member.\<close>

definition identity :: "collector \<Rightarrow> jstr \<times> jstr \<times> jstr \<times> bool" where
  "identity c = (mc_memberId c, mc_role c, mc_session c, mc_recordView c)"

lemma identity_simps [simp]:
  "identity (c\<lparr>mc_active := a\<rparr>) = identity c"
  "identity (c\<lparr>mc_pendingOutcome := p\<rparr>) = identity c"
  "identity (c\<lparr>mc_attempts := m\<rparr>) = identity c"
  by (simp_all add: identity_def)

lemma identity_ops [simp]:
  "identity (upd_active f c) = identity c"
  "identity (collector_fails e c) = identity c"
  "identity (markOutcome out c) = identity c"
  "identity (collector_dispose c) = identity c"
  "identity (fst (ensureActive t (c, h))) = identity c"
  by (auto simp: upd_active_def collector_fails_def markOutcome_def collector_dispose_def
      ensureActive_def split: option.splits)

lemma identity_chunk: "identity (fst (onChunk t chunk step (c, h))) = identity c"
proof -
  have "identity (fst (ensureActive t (c, h))) = identity c" by simp
  then show ?thesis
    by (auto simp: onChunk_def Let_def split: prod.splits option.splits simp del: identity_ops(5))
qed

lemma identity_live: "identity (fst (onLiveEvent t event (c, h))) = identity c"
  by (cases event)
    (auto simp: onAssistantStream_def onStatus_def enterStep_def case_prod_beta Let_def identity_chunk
      split: option.splits)

lemma identity_log: "identity (fst (onSessionEvent t event (c, h))) = identity c"
proof (cases event)
  case (AssistantLogged content usage interrupted)
  then show ?thesis by (simp add: case_prod_beta Let_def)
next
  case (ToolResultLogged callId isError content)
  have "identity (fst (ensureActive t (c, h1))) = identity c" for h1 by simp
  with ToolResultLogged show ?thesis
    by (auto simp: onToolResult_def Let_def simp del: identity_ops(5) split: prod.splits option.splits)
      (metis fst_conv)+
qed (auto split: option.splits)

lemma identity_applyEvent: "identity (fst (applyEvent t envelope (c, h))) = identity c"
  by (simp add: applyEvent_def identity_live identity_log split: member_event.splits)

lemma applyEvent_identity:
  assumes "applyEvent t envelope (c, h) = (c', h')"
  shows "mc_role c' = mc_role c" "mc_memberId c' = mc_memberId c"
    "mc_session c' = mc_session c" "mc_recordView c' = mc_recordView c"
  using identity_applyEvent[of t envelope c h] assms by (simp_all add: identity_def)

section \<open>Steps never share block indexes\<close>

text \<open>Whatever the turn hands out from here on is at least \<open>n\<close>.\<close>

definition above :: "int \<Rightarrow> collector \<Rightarrow> bool" where
  "above n c \<longleftrightarrow>
     (case mc_active c of
        None \<Rightarrow> False
      | Some a \<Rightarrow> n \<le> at_nextIndex a \<and> (\<forall>l g. at_localIndexes a l = Some g \<longrightarrow> n \<le> g))"

definition quiet :: "member_envelope \<Rightarrow> bool" where
  "quiet envelope \<longleftrightarrow> en_event envelope \<noteq> LiveChannel (StatusEvent (js ''idle''))"

lemma above_assigned: "above n c \<Longrightarrow> n \<le> assigned_index c l"
  by (auto simp: above_def assigned_index_def remapIndex_def split: option.splits)

lemma above_ensure [simp]: "above n c \<Longrightarrow> ensureActive t (c, h) = (c, h)"
  by (auto simp: above_def ensureActive_def split: option.splits)

lemma above_cong: "above n c \<Longrightarrow> mc_active c' = mc_active c \<Longrightarrow> above n c'"
  by (simp add: above_def)

lemma above_upd:
  "above n c \<Longrightarrow> (\<And>a. at_nextIndex (f a) = at_nextIndex a \<and>
     (at_localIndexes (f a) = at_localIndexes a \<or> at_localIndexes (f a) = Map.empty)) \<Longrightarrow>
   above n (upd_active f c)"
  by (auto simp: above_def upd_active_def split: option.splits) (metis option.distinct(1))

lemma above_fails: "above n c \<Longrightarrow> above n (collector_fails e c)"
  by (auto simp: above_def collector_fails_def split: option.splits)

lemma above_remap:
  "remapIndex l a = (i, a') \<Longrightarrow> n \<le> at_nextIndex a \<Longrightarrow>
     (\<And>l g. at_localIndexes a l = Some g \<Longrightarrow> n \<le> g) \<Longrightarrow>
   n \<le> at_nextIndex a' \<and> (\<forall>l g. at_localIndexes a' l = Some g \<longrightarrow> n \<le> g)"
  by (auto simp: remapIndex_def split: option.splits if_splits)

lemma above_chunk:
  assumes "above n c" shows "above n (fst (onChunk t chunk step (c, h)))"
proof -
  obtain a where a: "mc_active c = Some a" "n \<le> at_nextIndex a"
    "\<And>l g. at_localIndexes a l = Some g \<Longrightarrow> n \<le> g"
    using assms by (auto simp: above_def split: option.splits)
  let ?a1 = "a\<lparr>at_pending := pend_chunk chunk (at_pending a)\<rparr>"
  obtain ev a2 where ev: "chunkToChatEvent chunk (mc_session c) (at_turnId a) remapIndex step ?a1 = (ev, a2)"
    by fastforce
  have "n \<le> at_nextIndex a2 \<and> (\<forall>l g. at_localIndexes a2 l = Some g \<longrightarrow> n \<le> g)"
  proof (cases ev)
    case None
    from chunk_silent[OF ev[unfolded this]] a show ?thesis by simp
  next
    case (Some f)
    from ev[unfolded Some] obtain i where "remapIndex (or_default (ch_index chunk) 0) ?a1 = (i, a2)"
      by (rule chunk_frame_cases)
    from above_remap[OF this, of n] a show ?thesis by simp
  qed
  then show ?thesis
    using a ev above_ensure[OF assms, of t h]
    by (cases ev) (auto simp: onChunk_def above_def Let_def)
qed

lemma above_applyEvent:
  assumes "above n c" and "quiet envelope"
  shows "above n (fst (applyEvent t envelope (c, h)))"
proof -
  have attempts: "above n (c\<lparr>mc_attempts := m\<rparr>)" for m
    using assms(1) by (rule above_cong) simp
  have stream: "above n (fst (onAssistantStream t frame (c, h)))" for frame
    using assms(1) attempts above_chunk[OF assms(1)]
    by (auto simp: onAssistantStream_def enterStep_def above_ensure[OF attempts]
        intro!: above_upd[OF attempts] split: option.splits)
  have "above n (fst (onLiveEvent t event (c, h)))" if "event \<noteq> StatusEvent (js ''idle'')" for event
    using assms(1) that stream
    by (cases event) (auto simp: onStatus_def above_fails)
  moreover have "above n (fst (onSessionEvent t event (c, h)))" for event
    using assms(1)
    by (cases event) (auto simp: onToolResult_def Let_def above_fails intro!: above_upd split: option.splits)
  ultimately show ?thesis
    using assms by (auto simp: applyEvent_def quiet_def split: member_event.splits)
qed

definition run_events :: "(tick \<times> member_envelope) list \<Rightarrow> collector \<times> team_history \<Rightarrow> collector \<times> team_history" where
  "run_events es s = foldl (\<lambda>s (t, envelope). applyEvent t envelope s) s es"

lemma run_events_simps [simp]:
  "run_events [] s = s" "run_events ((t, e) # es) s = run_events es (applyEvent t e s)"
  by (simp_all add: run_events_def)

lemma run_above:
  assumes "above n c" and "\<forall>(t, e) \<in> set es. quiet e"
    and "run_events es (c, h) = (c', h')"
  shows "above n c' \<and> emits (\<lambda>e. \<forall>i. block_index (ev_payload e) = Some i \<longrightarrow> n \<le> i) h h'"
  using assms
proof (induction es arbitrary: c h)
  case Nil
  then show ?case by (simp add: emits_same)
next
  case (Cons te es)
  obtain t e where te: "te = (t, e)" by fastforce
  obtain c1 h1 where s: "applyEvent t e (c, h) = (c1, h1)" by fastforce
  have a: "above n c1"
    using above_applyEvent[of n c e t h] Cons.prems(1,2) s te by simp
  have "emits (frame_of c) h h1" using applyEvent_emits[of c h t e] s by simp
  then have "emits (\<lambda>e. \<forall>i. block_index (ev_payload e) = Some i \<longrightarrow> n \<le> i) h h1"
    using above_assigned[OF Cons.prems(1)] by (fastforce simp: emits_def frame_of_def)
  moreover have "above n c' \<and> emits (\<lambda>e. \<forall>i. block_index (ev_payload e) = Some i \<longrightarrow> n \<le> i) h1 h'"
    by (rule Cons.IH[OF a]) (use Cons.prems te s in auto)
  ultimately show ?case using emits_trans by blast
qed

definition start_frame :: "jstr \<Rightarrow> int \<Rightarrow> member_event" where
  "start_frame attempt step = LiveChannel (AssistantStream (Some
     \<lparr>sf_type = js ''start'', sf_attemptId = Some attempt, sf_step = Some step, sf_chunk = None\<rparr>))"

lemma run_in_turn:
  assumes "in_turn c h" and "run_events es (c, h) = (c', h')"
  shows "in_turn c' h'" and "identity c' = identity c"
proof -
  have "in_turn c' h' \<and> identity c' = identity c"
    using assms
  proof (induction es arbitrary: c h)
    case (Cons te es)
    obtain t e where te: "te = (t, e)" by fastforce
    obtain c1 h1 where s: "applyEvent t e (c, h) = (c1, h1)" by fastforce
    have "identity c1 = identity c" using identity_applyEvent[of t e c h] s by simp
    then show ?case
      using Cons.IH[OF in_turn_applyEvent[OF Cons.prems(1) s]] Cons.prems(2) te s by simp
  qed simp
  then show "in_turn c' h'" "identity c' = identity c" by simp_all
qed

lemma start_step:
  assumes "mc_active c = Some a" "at_step a \<noteq> Some step"
    and "en_event e = start_frame attempt step" "en_memberId e = mc_memberId c"
  shows "applyEvent t e (c, h) =
    (c\<lparr>mc_attempts := (mc_attempts c)(attempt \<mapsto> step),
       mc_active := Some (a\<lparr>at_step := Some step, at_localIndexes := Map.empty, at_pending := []\<rparr>)\<rparr>, h)"
  using assms
  by (simp add: applyEvent_def start_frame_def onAssistantStream_def enterStep_def ensureActive_def
      upd_active_def)

text \<open>C35: Provider block indexes restart with every model request, so a turn maps them onto one
  sequence: after the step of a running turn changes, no block frame of that turn uses an index
  that a frame of the turn used before, whatever the member does until the turn ends.\<close>

theorem steps_never_share_indexes:
  assumes "wire role (th_sunk h0) = Some None"
    and "run_events before (new_collector m role session v, h0) = (c, h)"
    and "mc_active c = Some a" and "at_step a \<noteq> Some step"
    and "en_event e = start_frame attempt step" and "en_memberId e = m"
    and "\<forall>(t, e) \<in> set after. quiet e"
    and "run_events ((t, e) # after) (c, h) = (c', h')"
  shows "\<exists>b. wire role (th_sunk h) = Some (Some (at_turnId a, b)) \<and>
    (\<forall>f \<in> set (drop (length (th_sunk h)) (th_sunk h')). \<forall>i. block_index (ev_payload f) = Some i \<longrightarrow> b \<le> i)"
proof -
  have "in_turn (new_collector m role session v) h0" by (rule in_turn_new[OF assms(1)])
  note run = run_in_turn[OF this assms(2)]
  have c: "mc_role c = role" "mc_memberId c = m" using run(2) by (simp_all add: identity_def new_collector_def)
  obtain b where w: "wire role (th_sunk h) = Some (Some (at_turnId a, b))" and b: "b \<le> at_nextIndex a"
    using run(1) assms(3) c by (auto simp: in_turn_def turn_shown_def)
  obtain c1 where s: "applyEvent t e (c, h) = (c1, h)" and "above b c1"
    using start_step[of c a step e attempt t h] assms(3-6) b c by (simp add: above_def)
  with run_above[of b c1 after h c' h'] assms(7,8)
  have "emits (\<lambda>e. \<forall>i. block_index (ev_payload e) = Some i \<longrightarrow> b \<le> i) h h'" by simp
  then have "\<forall>f \<in> set (drop (length (th_sunk h)) (th_sunk h')). \<forall>i. block_index (ev_payload f) = Some i \<longrightarrow> b \<le> i"
    by (fastforce simp: emits_def session_level_def)
  with w show ?thesis by blast
qed

text \<open>A turn whose first step streamed one block at the provider index 0, followed by the start of its second
  step, which streams its own block at the provider index 0.\<close>

definition sample_collector :: "collector" where
  "sample_collector = new_collector (js ''m1'') (js ''player'') (js ''team'') True"

definition sample_frame :: "member_event \<Rightarrow> member_envelope" where
  "sample_frame event = \<lparr>en_role = js ''player'', en_memberId = js ''m1'', en_event = event\<rparr>"

definition sample_delta :: "jstr \<Rightarrow> jstr \<Rightarrow> member_envelope" where
  "sample_delta attempt t = sample_frame (LiveChannel (AssistantStream (Some
     \<lparr>sf_type = js ''chunk'', sf_attemptId = Some attempt, sf_step = None,
      sf_chunk = Some \<lparr>ch_type = js ''text-delta'', ch_index = Some 0, ch_text = Some t, ch_blockType = None,
        ch_id = None, ch_name = None, ch_argumentsDelta = None, ch_block = None, ch_usage = None\<rparr>\<rparr>)))"

definition sample_tick :: tick where
  "sample_tick = \<lparr>tk_now = 1, tk_uuid = js ''turn''\<rparr>"

definition sample_before :: "(tick \<times> member_envelope) list" where
  "sample_before = [(sample_tick, sample_frame (start_frame (js ''a1'') 0)), (sample_tick, sample_delta (js ''a1'') (js ''x''))]"

definition sample_after :: "(tick \<times> member_envelope) list" where
  "sample_after = [(sample_tick, sample_delta (js ''a2'') (js ''y''))]"

theorem steps_never_share_indexes_witness:
  "\<exists>c h a c' h' b. run_events sample_before (sample_collector, new_history (js ''team'')) = (c, h) \<and> mc_active c = Some a \<and>
    run_events ((sample_tick, sample_frame (start_frame (js ''a2'') 1)) # sample_after) (c, h) = (c', h') \<and>
    wire (js ''player'') (th_sunk h) = Some (Some (at_turnId a, b))"
proof -
  obtain c h where r: "run_events sample_before (sample_collector, new_history (js ''team'')) = (c, h)" by fastforce
  have "map_option at_step (mc_active (fst (run_events sample_before (sample_collector, new_history (js ''team''))))) = Some (Some 0)"
    by code_simp
  then obtain a where a: "mc_active c = Some a" "at_step a = Some 0" by (auto simp: r)
  obtain c' h' where r': "run_events ((sample_tick, sample_frame (start_frame (js ''a2'') 1)) # sample_after) (c, h) = (c', h')"
    by fastforce
  have n: "wire (js ''player'') (th_sunk (new_history (js ''team''))) = Some None" by (simp add: new_history_def)
  have e: "en_event (sample_frame (start_frame (js ''a2'') 1)) = start_frame (js ''a2'') 1"
    "en_memberId (sample_frame (start_frame (js ''a2'') 1)) = js ''m1''" by (simp_all add: sample_frame_def)
  have "at_step a \<noteq> Some 1" by (simp add: a(2))
  moreover have "\<forall>(t, e) \<in> set sample_after. quiet e"
    by (simp add: sample_after_def sample_delta_def sample_frame_def quiet_def)
  ultimately show ?thesis
    using steps_never_share_indexes[OF n r[unfolded sample_collector_def] a(1) _ e _ r'] r a(1) r' by blast
qed

section \<open>The streamed prefix of a failed turn\<close>

definition delta_event :: "jstr \<Rightarrow> jstr \<Rightarrow> int \<Rightarrow> jstr \<Rightarrow> member_event" where
  "delta_event attempt kind i t = LiveChannel (AssistantStream (Some
     \<lparr>sf_type = js ''chunk'', sf_attemptId = Some attempt, sf_step = None,
      sf_chunk = Some \<lparr>ch_type = kind, ch_index = Some i, ch_text = Some t, ch_blockType = None,
        ch_id = None, ch_name = None, ch_argumentsDelta = None, ch_block = None, ch_usage = None\<rparr>\<rparr>))"

lemma extend_first_new:
  "findPending i vs = None \<Longrightarrow> extend_first i t (vs @ [(i, v)]) = vs @ [(i, append_text t v)]"
  by (induction vs) (auto split: if_splits)

lemma findPending_snoc:
  "findPending i vs = None \<Longrightarrow> findPending i (vs @ [(i, v)]) = Some v"
  by (induction vs) (auto split: if_splits)

definition grown_view :: "jstr \<Rightarrow> jstr \<Rightarrow> block_view" where
  "grown_view type t =
     \<lparr>bv_type = type, bv_text = Some t, bv_id = None, bv_name = None, bv_arguments = None\<rparr>"

lemma pend_deltas:
  assumes "findPending i vs = None" and "ts \<noteq> []"
  shows "fold (pend_delta i type) ts vs = vs @ [(i, grown_view type (concat ts))]"
proof -
  have more: "fold (pend_delta i type) ts (vs @ [(i, grown_view type t)]) =
      vs @ [(i, grown_view type (t @ concat ts))]" for ts t
    using assms(1)
  proof (induction ts arbitrary: t)
    case (Cons u ts)
    have "pend_delta i type u (vs @ [(i, grown_view type t)]) = vs @ [(i, grown_view type (t @ u))]"
      using assms(1)
      by (simp add: pend_delta_def findPending_snoc extend_first_new append_text_def grown_view_def)
    then show ?case using Cons by simp
  qed simp
  obtain u us where ts: "ts = u # us" using assms(2) by (cases ts) auto
  have "pend_delta i type u vs = vs @ [(i, grown_view type u)]"
    using assms(1) by (simp add: pend_delta_def append_text_def text_view_def grown_view_def)
  with more[of us u] show ?thesis by (simp add: ts)
qed

text \<open>The kinds of delta the collector accumulates, with the type of the view each grows.\<close>

definition delta_kinds :: "(jstr \<times> jstr) set" where
  "delta_kinds = {(js ''text-delta'', js ''text''), (js ''reasoning-delta'', js ''reasoning'')}"

lemma pend_chunk_delta:
  assumes "(kind, type) \<in> delta_kinds" and "ch_type chunk = kind" "ch_index chunk = Some i" "ch_text chunk = Some t"
  shows "pend_chunk chunk vs = pend_delta i type t vs"
proof -
  have "js ''text-delta'' \<noteq> js ''reasoning-delta''" by (simp add: js_simps)
  then show ?thesis
    using assms by (auto simp: delta_kinds_def pend_chunk_def)
qed

lemma delta_kind_not_usage: "(kind, type) \<in> delta_kinds \<Longrightarrow> kind \<noteq> js ''usage''"
  by (auto simp: delta_kinds_def js_simps)

definition at_member :: "collector \<Rightarrow> member_event \<Rightarrow> member_envelope" where
  "at_member c event = \<lparr>en_role = mc_role c, en_memberId = mc_memberId c, en_event = event\<rparr>"

lemma delta_step:
  assumes "mc_active c = Some a" "mc_attempts c attempt = Some step" "(kind, type) \<in> delta_kinds"
  obtains a' fs where
    "applyEvent k (at_member c (delta_event attempt kind i t)) (c, h) =
       (c\<lparr>mc_active := Some a'\<rparr>, h\<lparr>th_sunk := th_sunk h @ fs\<rparr>)"
    "at_pending a' = pend_delta i type t (at_pending a)"
    "at_failure a' = at_failure a" "at_turnId a' = at_turnId a"
proof -
  let ?chunk = "\<lparr>ch_type = kind, ch_index = Some i, ch_text = Some t, ch_blockType = None,
        ch_id = None, ch_name = None, ch_argumentsDelta = None, ch_block = None, ch_usage = None\<rparr>"
  let ?a1 = "a\<lparr>at_pending := pend_chunk ?chunk (at_pending a)\<rparr>"
  obtain ev a2 where ev: "chunkToChatEvent ?chunk (mc_session c) (at_turnId a) remapIndex step ?a1 = (ev, a2)"
    by fastforce
  have a2: "at_pending a2 = at_pending ?a1 \<and> at_failure a2 = at_failure a \<and> at_turnId a2 = at_turnId a"
  proof (cases ev)
    case None
    from chunk_silent[OF ev[unfolded this]] show ?thesis by simp
  next
    case (Some f)
    from ev[unfolded Some] obtain i' where "remapIndex (or_default (ch_index ?chunk) 0) ?a1 = (i', a2)"
      by (rule chunk_frame_cases)
    then show ?thesis by (auto simp: remapIndex_def split: option.splits)
  qed
  have "js ''chunk'' \<noteq> js ''start''" by (simp add: js_simps)
  then have step: "applyEvent k (at_member c (delta_event attempt kind i t)) (c, h) =
      (c\<lparr>mc_active := Some a2\<rparr>, case ev of None \<Rightarrow> h | Some e \<Rightarrow> sink (e\<lparr>ev_member := Some (mc_role c)\<rparr>) h)"
    using assms ev delta_kind_not_usage[OF assms(3)]
    by (simp add: applyEvent_def at_member_def delta_event_def onAssistantStream_def onChunk_def
        ensureActive_def Let_def split: option.splits)
  show thesis
  proof (rule that)
    show "applyEvent k (at_member c (delta_event attempt kind i t)) (c, h) =
      (c\<lparr>mc_active := Some a2\<rparr>, h\<lparr>th_sunk := th_sunk h @
         (case ev of None \<Rightarrow> [] | Some e \<Rightarrow> [e\<lparr>ev_member := Some (mc_role c)\<rparr>])\<rparr>)"
      unfolding step by (simp add: sink_def split: option.splits)
  qed (use a2 pend_chunk_delta[OF assms(3), of ?chunk] in simp_all)
qed

lemma run_deltas:
  assumes "mc_active c = Some a" "mc_attempts c attempt = Some step" "(kind, type) \<in> delta_kinds"
  shows "\<exists>a' fs. run_events (map (\<lambda>(k, t). (k, at_member c (delta_event attempt kind i t))) kts) (c, h) =
       (c\<lparr>mc_active := Some a'\<rparr>, h\<lparr>th_sunk := th_sunk h @ fs\<rparr>) \<and>
     at_pending a' = fold (pend_delta i type) (map snd kts) (at_pending a) \<and>
     at_failure a' = at_failure a \<and> at_turnId a' = at_turnId a"
  using assms
proof (induction kts arbitrary: c a h)
  case Nil
  then show ?case by (intro exI[of _ a] exI[of _ "[]"]) simp
next
  case (Cons kt kts)
  obtain k t where kt: "kt = (k, t)" by fastforce
  obtain a1 fs1 where s: "applyEvent k (at_member c (delta_event attempt kind i t)) (c, h) =
       (c\<lparr>mc_active := Some a1\<rparr>, h\<lparr>th_sunk := th_sunk h @ fs1\<rparr>)"
    and a1: "at_pending a1 = pend_delta i type t (at_pending a)"
      "at_failure a1 = at_failure a" "at_turnId a1 = at_turnId a"
    by (rule delta_step[OF Cons.prems])
  let ?c = "c\<lparr>mc_active := Some a1\<rparr>" and ?h = "h\<lparr>th_sunk := th_sunk h @ fs1\<rparr>"
  have same: "at_member ?c = at_member c" by (simp add: fun_eq_iff at_member_def)
  have "mc_active ?c = Some a1" "mc_attempts ?c attempt = Some step" using Cons.prems by simp_all
  from Cons.IH[OF this Cons.prems(3), of ?h] obtain a' fs where
    "run_events (map (\<lambda>(k, t). (k, at_member c (delta_event attempt kind i t))) kts) (?c, ?h) =
       (?c\<lparr>mc_active := Some a'\<rparr>, ?h\<lparr>th_sunk := th_sunk ?h @ fs\<rparr>)"
    "at_pending a' = fold (pend_delta i type) (map snd kts) (at_pending a1)"
    "at_failure a' = at_failure a1" "at_turnId a' = at_turnId a1"
    unfolding same by blast
  then show ?case
    using s a1 kt by (intro exI[of _ a'] exI[of _ "fs1 @ fs"]) simp
qed

lemma run_events_append: "run_events (xs @ ys) s = run_events ys (run_events xs s)"
  by (simp add: run_events_def)

lemma display_grown:
  "(kind, type) \<in> delta_kinds \<Longrightarrow> display_blocks (grown_view type t # vs) =
     (if type = js ''text'' then TextContent t else ThinkContent t) # display_blocks vs"
  by (auto simp: delta_kinds_def display_blocks_def map_filter_simps blockToContentBlock_def grown_view_def)

text \<open>The end of a turn with a recorded failure and pending views.\<close>

lemma idle_after_failure:
  assumes "mc_active c = Some a" "mc_pendingOutcome c = None" "at_failure a = None"
    and "at_pending a = vs" "display_blocks (map snd vs) = bs" "bs \<noteq> []"
    and err: "err = \<lparr>ce_code = or_default (lf_code f) (js ''UNKNOWN''), ce_message = or_default (lf_message f) []\<rparr>"
    and run: "run_events [(k1, at_member c (LiveChannel (ErrorEvent (ObjectThrown f)))),
      (k2, at_member c (LiveChannel (StatusEvent (js ''idle''))))] (c, h) = (c', h')"
  shows "mc_active c' = None"
    and "\<exists>e m. th_merge h' = th_merge h @ [e] \<and> me_member e = mc_role c \<and>
      th_messages h' (me_message e) = Some m \<and> hm_interrupted m \<and> hm_blocks m = bs"
    and "last (th_sunk h') = member_frame c (at_turnId a) (TurnEnd ERROR (Some err) None)"
proof -
  have "js ''idle'' \<noteq> js ''running''" by (simp add: js_simps)
  moreover have "vs \<noteq> []" using assms(5,6) by (auto simp: display_blocks_def map_filter_simps)
  ultimately have "c' = c\<lparr>mc_active := None, mc_pendingOutcome := None\<rparr> \<and>
      h' = sink (member_frame c (at_turnId a) (TurnEnd ERROR (Some err) None))
        (snd (appendMemberOutput (mc_role c) (map snd vs) True (mc_recordView c) (tk_now k2) h))"
    using run assms(1-4)
    by (auto simp: applyEvent_def at_member_def collector_fails_def onStatus_def Let_def turn_result_def
        member_frame_def err)
  then show "mc_active c' = None"
    and "\<exists>e m. th_merge h' = th_merge h @ [e] \<and> me_member e = mc_role c \<and>
      th_messages h' (me_message e) = Some m \<and> hm_interrupted m \<and> hm_blocks m = bs"
    and "last (th_sunk h') = member_frame c (at_turnId a) (TurnEnd ERROR (Some err) None)"
    using assms(5,6)
    by (simp_all add: appendMemberOutput_def Let_def newMessage_def appendMerge_def sink_def pushView_def)
qed

lemma delta_kind_facts:
  "(js ''reasoning-delta'', js ''reasoning'') \<in> delta_kinds"
  "(js ''text-delta'', js ''text'') \<in> delta_kinds" "js ''reasoning'' \<noteq> js ''text''"
  by (simp_all add: delta_kinds_def) (simp add: js_simps)

text \<open>The state after the reasoning and the text of one attempt have been streamed.\<close>

lemma streamed_state:
  assumes idle: "mc_active c = None"
    and deltas: "rs \<noteq> []" "ts \<noteq> []" "i \<noteq> j"
  obtains c2 h2 a2 where
    "run_events ((k, at_member c (start_frame attempt step)) #
        map (\<lambda>(k, t). (k, at_member c (delta_event attempt (js ''reasoning-delta'') i t))) rs @
        map (\<lambda>(k, t). (k, at_member c (delta_event attempt (js ''text-delta'') j t))) ts) (c, h) = (c2, h2)"
    "at_pending a2 = [(i, grown_view (js ''reasoning'') (concat (map snd rs))),
        (j, grown_view (js ''text'') (concat (map snd ts)))]"
    "at_failure a2 = None" "at_turnId a2 = tk_uuid k" "mc_active c2 = Some a2"
    "identity c2 = identity c" "mc_pendingOutcome c2 = mc_pendingOutcome c" "th_merge h2 = th_merge h"
proof -
  note kinds = delta_kind_facts
  let ?a0 = "(new_turn (tk_uuid k))\<lparr>at_step := Some step\<rparr>"
  define c0 where "c0 = c\<lparr>mc_attempts := (mc_attempts c)(attempt \<mapsto> step), mc_active := Some ?a0\<rparr>"
  define h0 where "h0 = sink (member_frame c (tk_uuid k) TurnStart) h"
  have start: "applyEvent k (at_member c (start_frame attempt step)) (c, h) = (c0, h0)"
    using idle(1) by (simp add: applyEvent_def at_member_def start_frame_def onAssistantStream_def
        enterStep_def ensureActive_def upd_active_def new_turn_def member_frame_def c0_def h0_def)
  have at0: "at_member c0 = at_member c" by (simp add: fun_eq_iff at_member_def c0_def)
  have c0: "mc_active c0 = Some ?a0" "mc_attempts c0 attempt = Some step" by (simp_all add: c0_def)
  obtain a1 fs1 where r1: "run_events (map (\<lambda>(k, t). (k, at_member c (delta_event attempt (js ''reasoning-delta'') i t))) rs) (c0, h0) =
      (c0\<lparr>mc_active := Some a1\<rparr>, h0\<lparr>th_sunk := th_sunk h0 @ fs1\<rparr>)"
    and a1: "at_pending a1 = [(i, grown_view (js ''reasoning'') (concat (map snd rs)))]"
      "at_failure a1 = None" "at_turnId a1 = tk_uuid k"
    using run_deltas[OF c0 kinds(1), of i rs h0] pend_deltas[of i "[]" "map snd rs"] deltas(1)
    unfolding at0 by (auto simp: new_turn_def)
  define c1 where "c1 = c0\<lparr>mc_active := Some a1\<rparr>"
  have c1: "mc_active c1 = Some a1" "mc_attempts c1 attempt = Some step" "at_member c1 = at_member c"
    by (simp_all add: fun_eq_iff at_member_def c1_def c0_def)
  define h1 where "h1 = h0\<lparr>th_sunk := th_sunk h0 @ fs1\<rparr>"
  obtain a2 fs2 where r2: "run_events (map (\<lambda>(k, t). (k, at_member c (delta_event attempt (js ''text-delta'') j t))) ts) (c1, h1) =
      (c1\<lparr>mc_active := Some a2\<rparr>, h1\<lparr>th_sunk := th_sunk h1 @ fs2\<rparr>)"
    and a2: "at_pending a2 = [(i, grown_view (js ''reasoning'') (concat (map snd rs))),
        (j, grown_view (js ''text'') (concat (map snd ts)))]"
      "at_failure a2 = None" "at_turnId a2 = tk_uuid k"
    using run_deltas[OF c1(1,2) kinds(2), of j ts h1] a1 deltas(2,3)
      pend_deltas[of j "[(i, grown_view (js ''reasoning'') (concat (map snd rs)))]" "map snd ts"]
    unfolding c1(3) by auto
  show thesis
  proof (rule that)
    show "run_events ((k, at_member c (start_frame attempt step)) #
        map (\<lambda>(k, t). (k, at_member c (delta_event attempt (js ''reasoning-delta'') i t))) rs @
        map (\<lambda>(k, t). (k, at_member c (delta_event attempt (js ''text-delta'') j t))) ts) (c, h) =
      (c1\<lparr>mc_active := Some a2\<rparr>, h1\<lparr>th_sunk := th_sunk h1 @ fs2\<rparr>)"
      using r1 r2 by (simp add: run_events_append start c1_def h1_def)
  qed (simp_all add: a2 c1_def c0_def h1_def h0_def sink_def)
qed

text \<open>A provider failure drops the streamed prefix at the loop, so the collector keeps it: the
  turn ends with an \<open>ERROR\<close> frame carrying the failure, and the history gets exactly one new entry,
  an interrupted message whose blocks are the concatenated reasoning and text deltas.\<close>

lemma failed_turn_keeps_prefix:
  assumes idle: "mc_active c = None" "mc_pendingOutcome c = None"
    and deltas: "rs \<noteq> []" "ts \<noteq> []" "i \<noteq> j"
    and run: "run_events ((k, at_member c (start_frame attempt step)) #
        map (\<lambda>(k, t). (k, at_member c (delta_event attempt (js ''reasoning-delta'') i t))) rs @
        map (\<lambda>(k, t). (k, at_member c (delta_event attempt (js ''text-delta'') j t))) ts @
        [(k1, at_member c (LiveChannel (ErrorEvent (ObjectThrown f)))),
         (k2, at_member c (LiveChannel (StatusEvent (js ''idle''))))]) (c, h) = (c', h')"
  shows "mc_active c' = None \<and>
    (\<exists>e m. th_merge h' = th_merge h @ [e] \<and> me_member e = mc_role c \<and>
      th_messages h' (me_message e) = Some m \<and> hm_interrupted m \<and>
      hm_blocks m = [ThinkContent (concat (map snd rs)), TextContent (concat (map snd ts))]) \<and>
    last (th_sunk h') = member_frame c (tk_uuid k) (TurnEnd ERROR (Some
      \<lparr>ce_code = or_default (lf_code f) (js ''UNKNOWN''), ce_message = or_default (lf_message f) []\<rparr>) None)"
proof -
  obtain c2 h2 a2 where s: "run_events ((k, at_member c (start_frame attempt step)) #
        map (\<lambda>(k, t). (k, at_member c (delta_event attempt (js ''reasoning-delta'') i t))) rs @
        map (\<lambda>(k, t). (k, at_member c (delta_event attempt (js ''text-delta'') j t))) ts) (c, h) = (c2, h2)"
    and a2: "at_pending a2 = [(i, grown_view (js ''reasoning'') (concat (map snd rs))),
        (j, grown_view (js ''text'') (concat (map snd ts)))]"
      "at_failure a2 = None" "at_turnId a2 = tk_uuid k" "mc_active c2 = Some a2"
    and c2: "identity c2 = identity c" "mc_pendingOutcome c2 = mc_pendingOutcome c" "th_merge h2 = th_merge h"
    by (rule streamed_state[OF idle(1) deltas])
  have same: "at_member c2 = at_member c" "mc_role c2 = mc_role c" "member_frame c2 = member_frame c"
    using c2(1) by (simp_all add: fun_eq_iff at_member_def member_frame_def identity_def)
  have rest: "run_events [(k1, at_member c2 (LiveChannel (ErrorEvent (ObjectThrown f)))),
      (k2, at_member c2 (LiveChannel (StatusEvent (js ''idle''))))] (c2, h2) = (c', h')"
    using run s by (simp add: same run_events_append)
  have blocks: "display_blocks (map snd (at_pending a2)) =
      [ThinkContent (concat (map snd rs)), TextContent (concat (map snd ts))]"
    by (simp add: a2 display_grown[OF delta_kind_facts(1)] display_grown[OF delta_kind_facts(2)]
        delta_kind_facts(3) display_blocks_def[of "[]"] map_filter_simps)
  have "mc_pendingOutcome c2 = None" using c2(2) idle(2) by simp
  from idle_after_failure[OF a2(4) this a2(2) refl blocks _ refl rest] show ?thesis
    by (simp add: same c2(3) a2(3))
qed

definition sample_failure :: llm_failure where
  "sample_failure = \<lparr>lf_code = Some (js ''RATE_LIMIT''), lf_message = Some (js ''busy'')\<rparr>"

end
