(* ===== verification/Scene_Seam.thy ===== *)
theory Scene_Seam
  imports Orchestrator Orchestrator_Runs
begin

declare js_simps(2) [simp del]

text \<open>
  The scene-neutral orchestration seam of \<open>projects/game/agent_v2/src/orchestration.ts\<close>, the scene table
  \<open>scenes.ts\<close>, and the saolei adapter \<open>scene-saolei.ts\<close> over the team orchestrator. An orchestration
  is a record of functions over its own state; what it does between two calls is a step relation of
  that state.
\<close>

section \<open>The seam\<close>

datatype member_kind = AgentKind | AnnounceOnlyKind

record scene_failure =
  sf_message :: jstr
  sf_member :: "jstr option"
  sf_code :: loop_error_code
  sf_origin :: failure_origin
  sf_detail :: failure_detail

record scene_snapshot =
  sn_materialized :: bool
  sn_active :: "jstr option"
  sn_activation :: jstr
  sn_paused :: bool
  sn_queued :: nat
  sn_failed :: bool
  sn_lastError :: "scene_failure option"

datatype scene_throw = StateThrown orch_state_error jstr | PlainThrown jstr

text \<open>\<open>so_member\<close> gives the id of the live agent behind the handle.\<close>

record 'o scene_orchestration =
  so_members :: "'o \<Rightarrow> (jstr \<times> member_kind) list"
  so_member :: "'o \<Rightarrow> jstr \<Rightarrow> jstr option"
  so_snapshot :: "'o \<Rightarrow> scene_snapshot"
  so_submit :: "jstr \<Rightarrow> 'o \<Rightarrow> scene_throw option \<times> 'o"
  so_cancel :: "'o \<Rightarrow> scene_throw option \<times> 'o"
  so_dispose :: "'o \<Rightarrow> 'o"

fun LOOP_ERROR_TEXT :: "loop_error_code \<Rightarrow> jstr" where
  "LOOP_ERROR_TEXT TRANSIENT =
     [0x670D, 0x52A1, 0x6682, 0x4E0D, 0x53EF, 0x7528, 0xFF0C, 0x7A0D, 0x540E, 0x91CD, 0x8BD5]"
| "LOOP_ERROR_TEXT QUOTA = [0x914D, 0x989D, 0x8017, 0x5C3D]"
| "LOOP_ERROR_TEXT CREDENTIAL = [0x68C0, 0x67E5] @ js '' API '' @ [0x51ED, 0x8BC1]"
| "LOOP_ERROR_TEXT CONFIG = [0x6A21, 0x578B, 0x914D, 0x7F6E, 0x9519, 0x8BEF]"
| "LOOP_ERROR_TEXT INPUT_TOO_LARGE = [0x4E0A, 0x4E0B, 0x6587, 0x8D85, 0x9650]"
| "LOOP_ERROR_TEXT INTERNAL = [0x5185, 0x90E8, 0x9519, 0x8BEF]"

definition loopErrorText :: "loop_error_code \<Rightarrow> jstr" where
  "loopErrorText code = LOOP_ERROR_TEXT code"

section \<open>The scene table\<close>

record scene_spec =
  sp_roster :: "jstr list"
  sp_presetRoles :: "jstr list"
  sp_rolePoolTemplate :: "(jstr \<times> jstr) list"
  sp_orchestratable :: bool
  sp_teamGoal :: jstr
  sp_faceMembers :: "jstr list"

type_synonym scene_registry = "(jstr \<times> scene_spec) list"

definition saoleiScene :: scene_spec where
  "saoleiScene =
     \<lparr>sp_roster = [js ''player'', js ''planner''], sp_presetRoles = [js ''player'', js ''planner''],
      sp_rolePoolTemplate = [(js ''player'', js ''player''), (js ''planner'', js ''planner'')],
      sp_orchestratable = True,
      sp_teamGoal = [0x534F, 0x4F5C, 0x5B8C, 0x6210, 0x591A, 0x5C40, 0x626B, 0x96F7, 0x6E38, 0x620F, 0xFF1A] @
        js ''player '' @ [0x6267, 0x884C, 0x64CD, 0x4F5C, 0x3001] @ js ''planner '' @
        [0x590D, 0x76D8, 0x4E0E, 0x5236, 0x5B9A, 0x7B56, 0x7565, 0xFF0C, 0x5171, 0x540C, 0x63D0, 0x9AD8,
         0x80DC, 0x7387, 0x3002],
      sp_faceMembers = [js ''player'', js ''planner'', js ''announcer'']\<rparr>"

definition sts2Scene :: scene_spec where
  "sts2Scene =
     \<lparr>sp_roster = [js ''main''], sp_presetRoles = [js ''main''],
      sp_rolePoolTemplate = [(js ''main'', js ''main'')], sp_orchestratable = True, sp_teamGoal = [],
      sp_faceMembers = [js ''main'']\<rparr>"

definition SCENES :: scene_registry where
  "SCENES = [(js ''saolei'', saoleiScene), (js ''sts2'', sts2Scene)]"

definition wiredScene :: "scene_registry \<Rightarrow> jstr \<Rightarrow> scene_spec option" where
  "wiredScene scenes template =
     (case map_of scenes template of
        None \<Rightarrow> None
      | Some scene \<Rightarrow> if sp_orchestratable scene then Some scene else None)"

definition sceneNotWiredMessage :: "jstr \<Rightarrow> jstr" where
  "sceneNotWiredMessage template =
     js ''scene '' @ [0x22] @ template @ [0x22] @ js '' is not wired for team orchestration yet''"

section \<open>The saolei adapter\<close>

fun member_role :: "member_id \<Rightarrow> jstr" where
  "member_role Player = js ''player''"
| "member_role Planner = js ''planner''"
| "member_role Announcer = js ''announcer''"

definition SAOLEI_MEMBERS :: "(jstr \<times> member_kind) list" where
  "SAOLEI_MEMBERS =
     [(js ''player'', AgentKind), (js ''planner'', AgentKind), (js ''announcer'', AnnounceOnlyKind)]"

definition isAgentRole :: "jstr \<Rightarrow> bool" where
  "isAgentRole role \<longleftrightarrow> role = js ''player'' \<or> role = js ''planner''"

definition saolei_members :: "orchestrator \<Rightarrow> (jstr \<times> member_kind) list" where
  "saolei_members s = (if snap_materialized (orch_snapshot_of s) then SAOLEI_MEMBERS else [])"

text \<open>A materialized team holds a handle of both agents; their ids are those of the members' agents.\<close>

definition saolei_member :: "(member_id \<Rightarrow> jstr) \<Rightarrow> orchestrator \<Rightarrow> jstr \<Rightarrow> jstr option" where
  "saolei_member agent_ids s role =
     (if isAgentRole role \<and> orch_loop s \<noteq> None
      then Some (agent_ids (if role = js ''player'' then Player else Planner)) else None)"

definition saolei_snapshot :: "orchestrator \<Rightarrow> scene_snapshot" where
  "saolei_snapshot s =
     (let snapshot = orch_snapshot_of s in
      \<lparr>sn_materialized = snap_materialized snapshot, sn_active = map_option member_role (snap_active snapshot),
       sn_activation = member_role (snap_activation snapshot), sn_paused = snap_paused snapshot,
       sn_queued = snap_queued snapshot, sn_failed = snap_failed snapshot,
       sn_lastError = map_option (\<lambda>e.
         \<lparr>sf_message = of_message e, sf_member = map_option member_role (of_member e), sf_code = of_code e,
          sf_origin = of_origin e, sf_detail = of_detail e\<rparr>) (snap_lastError snapshot)\<rparr>)"

text \<open>The texts of the state errors the orchestrator throws from \<open>submit\<close> and \<open>cancel\<close>.\<close>

fun submit_error_text :: "orch_state_error \<Rightarrow> jstr" where
  "submit_error_text DISPOSED = js ''orchestrator is disposed''"
| "submit_error_text UNMATERIALIZED = js ''team is not materialized; materialize before sending''"
| "submit_error_text ALREADY_MATERIALIZED = js ''team is already materialized''"

definition saolei_submit ::
  "'w orch_env \<Rightarrow> jstr \<Rightarrow> orchestrator \<times> 'w \<Rightarrow> scene_throw option \<times> orchestrator \<times> 'w" where
  "saolei_submit env input s =
     (case submit env input s of
        (Inl code, s') \<Rightarrow> (Some (StateThrown code (submit_error_text code)), s')
      | (Inr _, s') \<Rightarrow> (None, s'))"

definition saolei_cancel ::
  "'w orch_env \<Rightarrow> orchestrator \<times> 'w \<Rightarrow> scene_throw option \<times> orchestrator \<times> 'w" where
  "saolei_cancel env s =
     (case cancel env s of
        (Inl code, s') \<Rightarrow>
          (Some (StateThrown code (js ''team is not materialized; there is nothing to cancel'')), s')
      | (Inr _, s') \<Rightarrow> (None, s'))"

definition saolei_orchestration ::
  "'w orch_env \<Rightarrow> (member_id \<Rightarrow> jstr) \<Rightarrow> (orchestrator \<times> 'w) scene_orchestration" where
  "saolei_orchestration env agent_ids =
     \<lparr>so_members = saolei_members \<circ> fst, so_member = saolei_member agent_ids \<circ> fst,
      so_snapshot = saolei_snapshot \<circ> fst, so_submit = saolei_submit env,
      so_cancel = saolei_cancel env, so_dispose = dispose_begin env\<rparr>"

end
