(* ===== verification/Team_Session.thy ===== *)
theory Team_Session
  imports Collector_Turns Scene_Seam "HOL-Library.AList"
begin

declare js_simps(2) [simp del]

text \<open>
  The team registry \<open>projects/game/agent_v2/src/session.ts\<close>: the live team entries, sending and
  cancelling, the broadcast of frames to the attached streams, the dispatch of member events, the
  quiescence watcher, the two halves of a teardown and the materialization. The orchestration behind
  an entry is a \<open>scene_orchestration\<close> over a state of type \<open>'o\<close>; preset store, model catalogs and
  peers are arguments. What the code does between two awaits is one operation.
\<close>

section \<open>State\<close>

datatype closing = ClosedCleanly | ClosedWith jstr jstr  \<comment> \<open>code and message of \<open>fail\<close>\<close>

record stream_state =
  ss_written :: "chat_event list"
  ss_closed :: "closing option"

text \<open>The peer of a stream during an operation: whether a write throws, and whether it has \<open>fail\<close>.\<close>

record peers =
  pe_broken :: "nat \<Rightarrow> bool"
  pe_can_fail :: "nat \<Rightarrow> bool"

record agent_runtime_member =
  ar_role :: jstr
  ar_preset :: jstr
  ar_model :: jstr
  ar_collector :: collector

datatype member_runtime = AgentRuntime agent_runtime_member | AnnounceOnlyRuntime jstr

record 'o team_entry =
  te_sessionName :: jstr
  te_template :: jstr
  te_orchestrator :: 'o
  te_history :: team_history
  te_members :: "member_runtime list"
  te_dynamic :: "(jstr \<times> collector) list"
  te_streams :: "nat list"
  te_createTime :: int
  te_updateTime :: int
  te_watch :: bool
  te_disposed :: bool
  te_generation :: nat

record 'o team_sessions =
  ts_teams :: "jstr \<Rightarrow> 'o team_entry option"
  ts_streams :: "nat \<Rightarrow> stream_state"
  ts_closing :: "'o team_entry list"
  ts_nextGeneration :: nat

datatype session_error =
  InvalidArgument jstr
| NotFound jstr
| FailedPrecondition jstr
| Rethrown jstr

fun runtime_role :: "member_runtime \<Rightarrow> jstr" where
  "runtime_role (AgentRuntime m) = ar_role m"
| "runtime_role (AnnounceOnlyRuntime role) = role"

section \<open>Resource names and selectors\<close>

text \<open>The segments between slashes; the two patterns match exactly four of them, two fixed and two not
  empty.\<close>

fun slash_segments :: "jstr \<Rightarrow> jstr list" where
  "slash_segments [] = [[]]"
| "slash_segments (c # cs) =
     (if c = 47 then [] # slash_segments cs
      else case slash_segments cs of [] \<Rightarrow> [[c]] | s # ss \<Rightarrow> (c # s) # ss)"

definition parse_resource :: "jstr \<Rightarrow> jstr \<Rightarrow> (jstr \<times> jstr) option" where
  "parse_resource kind name =
     (case slash_segments name of
        [a, b, c, d] \<Rightarrow>
          if a = js ''templates'' \<and> c = kind \<and> b \<noteq> [] \<and> d \<noteq> [] then Some (b, d) else None
      | _ \<Rightarrow> None)"

definition parseSessionResource :: "jstr \<Rightarrow> (jstr \<times> jstr) option" where
  "parseSessionResource name = parse_resource (js ''sessions'') name"

definition parsePresetResource :: "jstr \<Rightarrow> (jstr \<times> jstr) option" where
  "parsePresetResource name = parse_resource (js ''presets'') name"

definition presetResourceName :: "jstr \<Rightarrow> jstr \<Rightarrow> jstr" where
  "presetResourceName template preset = js ''templates/'' @ template @ js ''/presets/'' @ preset"

definition COMPOSITE_MODEL_HINT :: jstr where
  "COMPOSITE_MODEL_HINT =
     js ''model selectors use the composite form '' @ [0x22] @ js ''provider/model-id'' @ [0x22] @
     js '' (see ListModels)''"

definition PROVIDER :: jstr where "PROVIDER = js ''glm-responses''"

text \<open>\<open>env\<close> is the value of \<open>GLM_MODEL\<close>.\<close>

definition DEFAULT_MODEL :: "jstr option \<Rightarrow> jstr" where
  "DEFAULT_MODEL env =
     PROVIDER @ [47] @ (case env of Some m \<Rightarrow> if m = [] then js ''glm-5.3'' else m | None \<Rightarrow> js ''glm-5.3'')"

definition parseModelIdentifier :: "jstr \<Rightarrow> session_error + (jstr \<times> jstr)" where
  "parseModelIdentifier selector =
     (case index_of selector [47] of
        None \<Rightarrow> Inl (InvalidArgument (js ''model '' @ [0x22] @ selector @ [0x22] @
                  js '' is not a valid selector; '' @ COMPOSITE_MODEL_HINT))
      | Some slash \<Rightarrow>
          if slash = 0 \<or> slash = length selector - 1 then
            Inl (InvalidArgument (js ''model '' @ [0x22] @ selector @ [0x22] @
                  js '' is not a valid selector; '' @ COMPOSITE_MODEL_HINT))
          else Inr (take slash selector, drop (slash + 1) selector))"

section \<open>Streams\<close>

definition write_stream :: "nat \<Rightarrow> chat_event \<Rightarrow> (nat \<Rightarrow> stream_state) \<Rightarrow> nat \<Rightarrow> stream_state" where
  "write_stream i e st = st(i := (st i)\<lparr>ss_written := ss_written (st i) @ [e]\<rparr>)"

definition close_stream :: "nat \<Rightarrow> closing \<Rightarrow> (nat \<Rightarrow> stream_state) \<Rightarrow> nat \<Rightarrow> stream_state" where
  "close_stream i c st = st(i := (st i)\<lparr>ss_closed := Some c\<rparr>)"

text \<open>One frame to every attached stream; a stream whose write throws is dropped.\<close>

fun broadcast_to ::
  "peers \<Rightarrow> chat_event \<Rightarrow> nat list \<Rightarrow> nat list \<times> (nat \<Rightarrow> stream_state) \<Rightarrow> nat list \<times> (nat \<Rightarrow> stream_state)" where
  "broadcast_to pe e [] s = s"
| "broadcast_to pe e (i # is) (live, st) =
     broadcast_to pe e is
       (if pe_broken pe i then (removeAll i live, st) else (live, write_stream i e st))"

definition broadcast ::
  "peers \<Rightarrow> chat_event \<Rightarrow> nat list \<times> (nat \<Rightarrow> stream_state) \<Rightarrow> nat list \<times> (nat \<Rightarrow> stream_state)" where
  "broadcast pe e s = broadcast_to pe e (fst s) s"

text \<open>The frames an operation sinks into the history reach the streams one by one.\<close>

definition sinks ::
  "peers \<Rightarrow> team_history \<Rightarrow> 'o team_entry \<times> (nat \<Rightarrow> stream_state) \<Rightarrow> 'o team_entry \<times> (nat \<Rightarrow> stream_state)" where
  "sinks pe h' s =
     (case s of (entry, st) \<Rightarrow>
       (let new = drop (length (th_sunk (te_history entry))) (th_sunk h');
            (live, st') = fold (broadcast pe) new (te_streams entry, st)
        in (entry\<lparr>te_history := h', te_streams := live\<rparr>, st')))"

definition attach :: "nat \<Rightarrow> 'o team_entry \<Rightarrow> 'o team_entry" where
  "attach i entry =
     entry\<lparr>te_streams := (if i \<in> set (te_streams entry) then te_streams entry else te_streams entry @ [i])\<rparr>"

definition detach :: "nat \<Rightarrow> 'o team_entry \<Rightarrow> 'o team_entry" where
  "detach i entry = entry\<lparr>te_streams := removeAll i (te_streams entry)\<rparr>"

definition endStreams :: "'o team_entry \<times> (nat \<Rightarrow> stream_state) \<Rightarrow> 'o team_entry \<times> (nat \<Rightarrow> stream_state)" where
  "endStreams s =
     (case s of (entry, st) \<Rightarrow>
       (entry\<lparr>te_streams := []\<rparr>, fold (\<lambda>i. close_stream i ClosedCleanly) (te_streams entry) st))"

definition failStreams ::
  "peers \<Rightarrow> scene_failure \<Rightarrow> 'o team_entry \<times> (nat \<Rightarrow> stream_state) \<Rightarrow> 'o team_entry \<times> (nat \<Rightarrow> stream_state)" where
  "failStreams pe failure s =
     (case s of (entry, st) \<Rightarrow>
       (entry\<lparr>te_streams := []\<rparr>,
        fold (\<lambda>i. close_stream i
          (if pe_can_fail pe i
           then ClosedWith (js ''INTERNAL'')
             (sf_message failure @ [0x20, 0x2014, 0x20] @ loopErrorText (sf_code failure))
           else ClosedCleanly)) (te_streams entry) st))"

section \<open>Member events\<close>

definition projectAnnouncement ::
  "tick \<Rightarrow> jstr \<Rightarrow> member_envelope \<Rightarrow> team_history \<Rightarrow> team_history" where
  "projectAnnouncement t role envelope h =
     (case en_event envelope of
        LogChannel (AssistantLogged content _ _) \<Rightarrow>
          (let txt = join [10, 10] (map (\<lambda>b. if bv_type b = js ''text'' then or_default (bv_text b) [] else []) content)
           in if txt \<noteq> [] then snd (appendAnnouncement role txt (tk_now t) h) else h)
      | _ \<Rightarrow> h)"

definition dynamic_key :: "member_envelope \<Rightarrow> jstr" where
  "dynamic_key envelope = en_role envelope @ [0] @ en_memberId envelope"

definition dynamicCollector :: "member_envelope \<Rightarrow> jstr \<Rightarrow> (jstr \<times> collector) list \<Rightarrow> collector" where
  "dynamicCollector envelope session collectors =
     (case map_of collectors (dynamic_key envelope) of
        Some c \<Rightarrow> c
      | None \<Rightarrow> new_collector (en_memberId envelope) (en_role envelope) session False)"

fun with_collector :: "jstr \<Rightarrow> collector \<Rightarrow> member_runtime list \<Rightarrow> member_runtime list" where
  "with_collector role c [] = []"
| "with_collector role c (AgentRuntime m # ms) =
     (if ar_role m = role then AgentRuntime (m\<lparr>ar_collector := c\<rparr>) # ms
      else AgentRuntime m # with_collector role c ms)"
| "with_collector role c (AnnounceOnlyRuntime r # ms) =
     (if r = role then AnnounceOnlyRuntime r # ms else AnnounceOnlyRuntime r # with_collector role c ms)"

definition find_runtime :: "jstr \<Rightarrow> member_runtime list \<Rightarrow> member_runtime option" where
  "find_runtime role ms = List.find (\<lambda>m. runtime_role m = role) ms"

text \<open>The state of the projections after one envelope of the team stream.\<close>

definition dispatch_envelope ::
  "tick \<Rightarrow> member_envelope \<Rightarrow> 'o team_entry \<Rightarrow> 'o team_entry \<times> team_history" where
  "dispatch_envelope t envelope entry =
     (case find_runtime (en_role envelope) (te_members entry) of
        None \<Rightarrow>
          (case applyEvent t envelope (dynamicCollector envelope (te_sessionName entry) (te_dynamic entry),
               te_history entry) of
             (c, h) \<Rightarrow> (entry\<lparr>te_dynamic := AList.update (dynamic_key envelope) c (te_dynamic entry)\<rparr>, h))
      | Some (AnnounceOnlyRuntime role) \<Rightarrow> (entry, projectAnnouncement t role envelope (te_history entry))
      | Some (AgentRuntime m) \<Rightarrow>
          (case applyEvent t envelope (ar_collector m, te_history entry) of
             (c, h) \<Rightarrow> (entry\<lparr>te_members := with_collector (ar_role m) c (te_members entry)\<rparr>, h)))"

definition member_event_in ::
  "peers \<Rightarrow> tick \<Rightarrow> member_envelope \<Rightarrow> 'o team_entry \<times> (nat \<Rightarrow> stream_state) \<Rightarrow>
   'o team_entry \<times> (nat \<Rightarrow> stream_state)" where
  "member_event_in pe t envelope s =
     (case s of (entry, st) \<Rightarrow>
       (case dispatch_envelope t envelope entry of (entry1, h) \<Rightarrow> sinks pe h (entry1, st)))"

section \<open>Send and cancel\<close>

definition liveEntry :: "'o team_sessions \<Rightarrow> jstr \<Rightarrow> 'o team_entry option" where
  "liveEntry ts session =
     (case ts_teams ts session of
        None \<Rightarrow> None
      | Some entry \<Rightarrow> if te_disposed entry then None else Some entry)"

definition not_materialized :: "jstr \<Rightarrow> jstr" where
  "not_materialized session =
     js ''team not materialized for session '' @ session @ js ''; send UpdateTeam first''"

definition requireEntry ::
  "'o team_sessions \<Rightarrow> jstr \<Rightarrow> (jstr \<Rightarrow> session_error) \<Rightarrow> session_error + 'o team_entry" where
  "requireEntry ts session code =
     (case liveEntry ts session of
        None \<Rightarrow> Inl (code (not_materialized session))
      | Some entry \<Rightarrow> Inr entry)"

definition put_team_entry ::
  "jstr \<Rightarrow> 'o team_entry \<times> (nat \<Rightarrow> stream_state) \<Rightarrow> 'o team_sessions \<Rightarrow> 'o team_sessions" where
  "put_team_entry session s ts = ts\<lparr>ts_teams := (ts_teams ts)(session \<mapsto> fst s), ts_streams := snd s\<rparr>"

fun mapOrchestratorError :: "scene_throw \<Rightarrow> session_error" where
  "mapOrchestratorError (StateThrown code message) = FailedPrecondition message"
| "mapOrchestratorError (PlainThrown message) = Rethrown message"

text \<open>Arming the watcher; the promise it waits on is the step \<open>watch_fires\<close>.\<close>

definition watchQuiescence :: "'o team_entry \<Rightarrow> 'o team_entry" where
  "watchQuiescence entry =
     (if te_watch entry \<or> te_disposed entry then entry else entry\<lparr>te_watch := True\<rparr>)"

definition queued_frame :: "jstr \<Rightarrow> nat \<Rightarrow> chat_event" where
  "queued_frame session pos =
     \<lparr>ev_session = session, ev_turnId = Some [], ev_member = None, ev_payload = Queued pos\<rparr>"

definition accepts ::
  "'o scene_orchestration \<Rightarrow> peers \<Rightarrow> int \<Rightarrow> jstr \<Rightarrow> nat \<Rightarrow> 'o team_entry \<times> (nat \<Rightarrow> stream_state) \<Rightarrow>
   (session_error + unit) \<times> 'o team_entry \<times> (nat \<Rightarrow> stream_state)" where
  "accepts orch pe now t i s =
     (case s of (entry, st) \<Rightarrow>
       (let entry1 = attach i entry;
            (entry2, st2) = sinks pe (snd (appendUser t now (te_history entry1))) (entry1, st);
            (thrown, o') = so_submit orch t (te_orchestrator entry2);
            entry3 = entry2\<lparr>te_orchestrator := o'\<rparr>
        in case thrown of
             Some e \<Rightarrow> (Inl (mapOrchestratorError e), detach i entry3, st2)
           | None \<Rightarrow> (Inr (), watchQuiescence entry3, st2)))"

definition send ::
  "'o scene_orchestration \<Rightarrow> peers \<Rightarrow> int \<Rightarrow> jstr \<Rightarrow> jstr \<Rightarrow> nat \<Rightarrow> 'o team_sessions \<Rightarrow>
   (session_error + unit) \<times> 'o team_sessions" where
  "send orch pe now session t i ts =
     (case requireEntry ts session FailedPrecondition of
        Inl e \<Rightarrow> (Inl e, ts)
      | Inr entry \<Rightarrow>
          (let before = so_snapshot orch (te_orchestrator entry); willQueue = sn_active before \<noteq> None in
           if willQueue \<and> pe_broken pe i then (Inl (Rethrown (js ''write failed'')), ts)
           else
             (let st = (if willQueue
                        then write_stream i (queued_frame session (sn_queued before + 1)) (ts_streams ts)
                        else ts_streams ts);
                  (r, s) = accepts orch pe now t i (entry, st)
              in (r, put_team_entry session s ts))))"

text \<open>The detach a \<open>Send\<close> returns belongs to the entry it attached to, live or under teardown.\<close>

definition detach_at :: "nat \<Rightarrow> nat \<Rightarrow> 'o team_entry \<Rightarrow> 'o team_entry" where
  "detach_at gen i entry = (if te_generation entry = gen then detach i entry else entry)"

definition detach_stream :: "nat \<Rightarrow> nat \<Rightarrow> 'o team_sessions \<Rightarrow> 'o team_sessions" where
  "detach_stream gen i ts =
     ts\<lparr>ts_teams := (\<lambda>session. map_option (detach_at gen i) (ts_teams ts session)),
        ts_closing := map (detach_at gen i) (ts_closing ts)\<rparr>"

definition find_agent :: "jstr \<Rightarrow> member_runtime list \<Rightarrow> agent_runtime_member option" where
  "find_agent role ms =
     (case find_runtime role ms of Some (AgentRuntime m) \<Rightarrow> Some m | _ \<Rightarrow> None)"

definition agentMemberInFlight ::
  "'o scene_orchestration \<Rightarrow> 'o team_entry \<Rightarrow> agent_runtime_member option" where
  "agentMemberInFlight orch entry =
     (case sn_active (so_snapshot orch (te_orchestrator entry)) of
        None \<Rightarrow> None
      | Some active \<Rightarrow> find_agent active (te_members entry))"

definition mark_in_flight ::
  "'o scene_orchestration \<Rightarrow> turn_status \<Rightarrow> 'o team_entry \<Rightarrow> 'o team_entry" where
  "mark_in_flight orch status entry =
     (case agentMemberInFlight orch entry of
        None \<Rightarrow> entry
      | Some m \<Rightarrow>
          entry\<lparr>te_members := with_collector (ar_role m)
            (markOutcome \<lparr>to_status = status, to_error = None\<rparr> (ar_collector m)) (te_members entry)\<rparr>)"

text \<open>An error of the orchestration's cancel passes through, with the outcome already marked.\<close>

definition cancel_entry ::
  "'o scene_orchestration \<Rightarrow> 'o team_entry \<Rightarrow> (session_error + unit) \<times> 'o team_entry" where
  "cancel_entry orch entry =
     (let entry1 = mark_in_flight orch CANCELED entry;
          (thrown, o') = so_cancel orch (te_orchestrator entry1);
          entry2 = entry1\<lparr>te_orchestrator := o'\<rparr>
      in case thrown of
           Some (StateThrown _ message) \<Rightarrow> (Inl (Rethrown message), entry2)
         | Some (PlainThrown message) \<Rightarrow> (Inl (Rethrown message), entry2)
         | None \<Rightarrow> (Inr (), watchQuiescence entry2))"

definition session_cancel ::
  "'o scene_orchestration \<Rightarrow> jstr \<Rightarrow> 'o team_sessions \<Rightarrow> (session_error + unit) \<times> 'o team_sessions" where
  "session_cancel orch session ts =
     (case requireEntry ts session FailedPrecondition of
        Inl e \<Rightarrow> (Inl e, ts)
      | Inr entry \<Rightarrow>
          (case cancel_entry orch entry of
             (r, entry') \<Rightarrow> (r, put_team_entry session (entry', ts_streams ts) ts)))"

section \<open>The quiescence watcher\<close>

text \<open>
  The watcher resumes when the orchestration reports its quiescent point: it goes on waiting unless
  the team rests or is frozen, and then settles the streams by the origin of the last failure.
\<close>

definition static_point :: "scene_snapshot \<Rightarrow> bool" where
  "static_point snapshot \<longleftrightarrow> sn_paused snapshot \<or> (sn_active snapshot = None \<and> sn_queued snapshot = 0)"

definition watch_fires ::
  "'o scene_orchestration \<Rightarrow> peers \<Rightarrow> 'o team_entry \<times> (nat \<Rightarrow> stream_state) \<Rightarrow>
   'o team_entry \<times> (nat \<Rightarrow> stream_state)" where
  "watch_fires orch pe s =
     (case s of (entry, st) \<Rightarrow>
       (let snapshot = so_snapshot orch (te_orchestrator entry) in
        if \<not> te_watch entry \<or> \<not> static_point snapshot then (entry, st)
        else
          (let entry1 = entry\<lparr>te_watch := False\<rparr> in
           if te_disposed entry then (entry1, st)
           else case sn_lastError snapshot of
             Some failure \<Rightarrow>
               if sf_origin failure = Orchestration then failStreams pe failure (entry1, st)
               else endStreams (entry1, st)
           | None \<Rightarrow> endStreams (entry1, st))))"

section \<open>Views\<close>

record team_member_view =
  mv_name :: jstr
  mv_role :: jstr
  mv_preset :: jstr
  mv_model :: jstr
  mv_systemPrompt :: jstr

record team_view =
  tv_name :: jstr
  tv_activeMember :: jstr
  tv_members :: "team_member_view list"
  tv_createTime :: int
  tv_updateTime :: int

definition memberStateView :: "'o team_entry \<Rightarrow> member_runtime \<Rightarrow> team_member_view" where
  "memberStateView entry member =
     \<lparr>mv_name = te_sessionName entry @ js ''/team/members/'' @ runtime_role member,
      mv_role = runtime_role member,
      mv_preset = (case member of AgentRuntime m \<Rightarrow> ar_preset m | _ \<Rightarrow> []),
      mv_model = (case member of AgentRuntime m \<Rightarrow> ar_model m | _ \<Rightarrow> []),
      mv_systemPrompt = []\<rparr>"

definition toTeamView :: "'o scene_orchestration \<Rightarrow> 'o team_entry \<Rightarrow> team_view" where
  "toTeamView orch entry =
     (let snapshot = so_snapshot orch (te_orchestrator entry) in
      \<lparr>tv_name = te_sessionName entry @ js ''/team'',
       tv_activeMember = (case sn_active snapshot of Some r \<Rightarrow> r | None \<Rightarrow> sn_activation snapshot),
       tv_members = map (memberStateView entry) (te_members entry),
       tv_createTime = te_createTime entry, tv_updateTime = te_updateTime entry\<rparr>)"

definition getTeam ::
  "'o scene_orchestration \<Rightarrow> jstr \<Rightarrow> 'o team_sessions \<Rightarrow> session_error + team_view" where
  "getTeam orch session ts =
     (case requireEntry ts session NotFound of
        Inl e \<Rightarrow> Inl e
      | Inr entry \<Rightarrow> Inr (toTeamView orch entry))"

definition session_listTeamMessages ::
  "jstr \<Rightarrow> 'o team_sessions \<Rightarrow> session_error + merge_entry list" where
  "session_listTeamMessages session ts =
     (case requireEntry ts session NotFound of
        Inl e \<Rightarrow> Inl e
      | Inr entry \<Rightarrow> Inr (listTeamMessages (te_history entry)))"

definition sceneRoster :: "scene_registry \<Rightarrow> jstr \<Rightarrow> jstr list" where
  "sceneRoster scenes template =
     (case map_of scenes template of None \<Rightarrow> [] | Some scene \<Rightarrow> sp_roster scene)"

definition memberRoster :: "scene_registry \<Rightarrow> jstr \<Rightarrow> jstr" where
  "memberRoster scenes template =
     join [47] (case map_of scenes template of None \<Rightarrow> [] | Some scene \<Rightarrow> sp_faceMembers scene)"

definition isMemberRole :: "scene_registry \<Rightarrow> jstr \<Rightarrow> bool" where
  "isMemberRole scenes value \<longleftrightarrow> (\<exists>scene \<in> set scenes. value \<in> set (sp_faceMembers (snd scene)))"

definition session_listMemberMessages ::
  "scene_registry \<Rightarrow> jstr \<Rightarrow> jstr \<Rightarrow> 'o team_sessions \<Rightarrow> session_error + view_entry list" where
  "session_listMemberMessages scenes session member ts =
     (case requireEntry ts session NotFound of
        Inl e \<Rightarrow> Inl e
      | Inr entry \<Rightarrow>
          (case find_agent member (te_members entry) of
             None \<Rightarrow> Inl (NotFound (js ''team member '' @ [0x22] @ member @ [0x22] @
                       js '' has no message view; the member-view roster is '' @
                       join [47] (sceneRoster scenes (te_template entry))))
           | Some m \<Rightarrow> Inr (listMemberMessages (ar_role m) (te_history entry))))"

definition bad_session_text :: "jstr \<Rightarrow> jstr" where
  "bad_session_text session =
     js ''session must be a game session resource name ('' @ [0x22] @
     js ''templates/{template}/sessions/{session}'' @ [0x22] @ js ''), got '' @ [0x22] @ session @ [0x22]"

definition member_not_materialized :: "jstr \<Rightarrow> session_error" where
  "member_not_materialized member =
     NotFound (js ''team member '' @ [0x22] @ member @ [0x22] @ js '' is not materialized'')"

text \<open>
  One attempt of \<open>GetTeamMember\<close> sees the registry before the assembly of the prompt is awaited and
  the one after it; the assembly resolves or rejects. \<open>None\<close> means the generation is no longer live.
\<close>

record 'o read_attempt =
  ra_before :: "'o team_sessions"
  ra_prompt :: "jstr + jstr"
  ra_after :: "'o team_sessions"

definition same_generation :: "'o team_sessions \<Rightarrow> jstr \<Rightarrow> 'o team_entry \<Rightarrow> bool" where
  "same_generation ts session entry =
     (case liveEntry ts session of
        None \<Rightarrow> False
      | Some live \<Rightarrow> te_generation live = te_generation entry)"

definition read_attempt_result ::
  "'o scene_orchestration \<Rightarrow> jstr \<Rightarrow> jstr \<Rightarrow> 'o read_attempt \<Rightarrow> (session_error + team_member_view) option" where
  "read_attempt_result orch session member attempt =
     (case requireEntry (ra_before attempt) session NotFound of
        Inl e \<Rightarrow> Some (Inl e)
      | Inr generation \<Rightarrow>
          (case find_agent member (te_members generation) of
             None \<Rightarrow> Some (Inl (member_not_materialized member))
           | Some m \<Rightarrow>
               if so_member orch (te_orchestrator generation) (ar_role m) = None
               then Some (Inl (member_not_materialized member))
               else if \<not> same_generation (ra_after attempt) session generation then None
               else case ra_prompt attempt of
                 Inr prompt \<Rightarrow>
                   Some (Inr ((memberStateView generation (AgentRuntime m))\<lparr>mv_systemPrompt := prompt\<rparr>))
               | Inl e \<Rightarrow> Some (Inl (Rethrown e))))"

definition MEMBER_READ_ATTEMPTS :: nat where "MEMBER_READ_ATTEMPTS = 3"

fun read_loop ::
  "'o scene_orchestration \<Rightarrow> jstr \<Rightarrow> jstr \<Rightarrow> 'o read_attempt list \<Rightarrow> session_error + team_member_view" where
  "read_loop orch session member [] =
     Inl (NotFound (js ''team for session '' @ session @ js '' is being refreshed; retry the read''))"
| "read_loop orch session member (attempt # attempts) =
     (case read_attempt_result orch session member attempt of
        Some r \<Rightarrow> r
      | None \<Rightarrow> read_loop orch session member attempts)"

definition getTeamMember ::
  "'o scene_orchestration \<Rightarrow> scene_registry \<Rightarrow> jstr \<Rightarrow> jstr \<Rightarrow> 'o team_sessions \<Rightarrow> (nat \<Rightarrow> 'o read_attempt) \<Rightarrow>
   session_error + team_member_view" where
  "getTeamMember orch scenes session member ts attempts =
     (case parseSessionResource session of
        None \<Rightarrow> Inl (InvalidArgument (bad_session_text session))
      | Some (template, _) \<Rightarrow>
          if \<not> isMemberRole scenes member then
            Inl (NotFound (js ''team member '' @ [0x22] @ member @ [0x22] @
              js '' does not exist; the roster is '' @ memberRoster scenes template))
          else case requireEntry ts session NotFound of
            Inl e \<Rightarrow> Inl e
          | Inr entry \<Rightarrow>
              (case find_runtime member (te_members entry) of
                 None \<Rightarrow> Inl (member_not_materialized member)
               | Some (AnnounceOnlyRuntime role) \<Rightarrow> Inr (memberStateView entry (AnnounceOnlyRuntime role))
               | Some (AgentRuntime m) \<Rightarrow>
                   read_loop orch session member (map attempts [0..<MEMBER_READ_ATTEMPTS])))"

section \<open>Teardown\<close>

text \<open>\<open>teardownEntry\<close> up to the await of the orchestration's \<open>dispose\<close>, and after it.\<close>

definition teardown_begin :: "'o scene_orchestration \<Rightarrow> 'o team_entry \<Rightarrow> 'o team_entry" where
  "teardown_begin orch entry =
     (let entry1 = mark_in_flight orch ABORTED (entry\<lparr>te_disposed := True\<rparr>)
      in entry1\<lparr>te_orchestrator := so_dispose orch (te_orchestrator entry1)\<rparr>)"

fun dispose_runtime :: "member_runtime \<Rightarrow> member_runtime" where
  "dispose_runtime (AgentRuntime m) = AgentRuntime (m\<lparr>ar_collector := collector_dispose (ar_collector m)\<rparr>)"
| "dispose_runtime (AnnounceOnlyRuntime role) = AnnounceOnlyRuntime role"

definition teardown_end ::
  "'o team_entry \<times> (nat \<Rightarrow> stream_state) \<Rightarrow> 'o team_entry \<times> (nat \<Rightarrow> stream_state)" where
  "teardown_end s =
     (case s of (entry, st) \<Rightarrow>
       endStreams (entry\<lparr>te_members := map dispose_runtime (te_members entry), te_dynamic := []\<rparr>, st))"

end
