(* ===== verification/Team_Materialize.thy ===== *)
theory Team_Materialize
  imports Team_Session
begin

declare js_simps(2) [simp del]

text \<open>
  The materialization half of \<open>projects/game/agent_v2/src/session.ts\<close>: the validation layers, the swap of
  a live entry for a fresh one, and the step relation of the registry. The preset store, the model
  catalogs and the outcome of building the orchestration are arguments; the materializations of one
  session are serialized by the promise chain of \<open>materialize\<close>, so their halves do not interleave.
\<close>

section \<open>Validation\<close>

record member_options =
  mo_role :: jstr
  mo_preset :: jstr
  mo_model :: "jstr option"

record scene_member_config =
  sm_role :: jstr
  sm_preset :: jstr
  sm_provider :: "jstr option"
  sm_model :: "jstr option"

text \<open>What a preset lookup gives: the role of the view, a store miss, or another failure.\<close>

datatype preset_lookup = PresetView "jstr option" | PresetMissing | PresetFailure jstr

record materialize_deps =
  md_scenes :: scene_registry
  md_preset :: "jstr \<Rightarrow> preset_lookup"
  md_models :: "jstr \<Rightarrow> jstr + jstr list"
  md_glmModel :: "jstr option"

abbreviation quoted_resource :: "jstr \<Rightarrow> jstr" where
  "quoted_resource s \<equiv> [0x22] @ s @ [0x22]"

fun member_structure :: "jstr \<Rightarrow> member_options list \<Rightarrow> session_error option" where
  "member_structure template [] = None"
| "member_structure template (member # members) =
     (if mo_role member = [] then
        Some (InvalidArgument (js ''every team member must carry a non-empty role''))
      else case parsePresetResource (mo_preset member) of
        None \<Rightarrow> Some (InvalidArgument (js ''member '' @ quoted_resource (mo_role member) @
          js '' preset must be a preset resource name ('' @ quoted_resource (js ''templates/{template}/presets/{preset}'') @
          js ''), got '' @ quoted_resource (mo_preset member)))
      | Some (parsed, _) \<Rightarrow>
          if parsed \<noteq> template then
            Some (InvalidArgument (js ''member '' @ quoted_resource (mo_role member) @ js '' preset template '' @ parsed @
              js '' does not match session template '' @ template))
          else member_structure template members)"

definition validateMemberStructure :: "member_options list \<Rightarrow> jstr \<Rightarrow> session_error option" where
  "validateMemberStructure members template =
     (if members = [] then Some (InvalidArgument (js ''team.members must not be empty''))
      else member_structure template members)"

definition validateSceneRoster ::
  "member_options list \<Rightarrow> jstr \<Rightarrow> scene_spec \<Rightarrow> session_error option" where
  "validateSceneRoster members template scene =
     (let roster = sp_roster scene; roles = map mo_role members in
      if length members \<noteq> length roster then
        Some (InvalidArgument (template @ js '' team materialization requires exactly '' @
          str_of_nat (length roster) @ js '' members ('' @ join (js '' and '') roster @ js ''), got '' @
          str_of_nat (length members)))
      else if \<not> (\<forall>role \<in> set roster. role \<in> set roles) then
        Some (InvalidArgument (template @ js '' team member roles must be exactly {'' @
          join (js '', '') (map quoted_resource roster) @ js ''}, got ['' @ join (js '', '') roles @ js '']''))
      else None)"

definition memberFor ::
  "member_options list \<Rightarrow> jstr \<Rightarrow> jstr \<Rightarrow> session_error + member_options" where
  "memberFor members role template =
     (case List.find (\<lambda>m. mo_role m = role) members of
        None \<Rightarrow> Inl (InvalidArgument (template @ js '' team member '' @ quoted_resource role @ js '' is missing''))
      | Some m \<Rightarrow> Inr m)"

definition presetId :: "jstr \<Rightarrow> session_error + jstr" where
  "presetId presetName =
     (case parsePresetResource presetName of
        None \<Rightarrow> Inl (InvalidArgument (js ''preset must be a preset resource name ('' @
          quoted_resource (js ''templates/{template}/presets/{preset}'') @ js ''), got '' @ quoted_resource presetName))
      | Some (_, preset) \<Rightarrow> Inr preset)"

definition validateMemberPreset ::
  "materialize_deps \<Rightarrow> jstr \<Rightarrow> jstr \<Rightarrow> session_error option" where
  "validateMemberPreset deps presetName role =
     (case presetId presetName of
        Inl e \<Rightarrow> Some e
      | Inr pid \<Rightarrow>
          (case md_preset deps pid of
             PresetMissing \<Rightarrow> Some (InvalidArgument (js ''unknown preset '' @ quoted_resource pid @
               js ''; create a preset in the '' @ role @ js '' pool first''))
           | PresetFailure message \<Rightarrow> Some (Rethrown message)
           | PresetView view_role \<Rightarrow>
               if view_role \<noteq> Some role then
                 Some (InvalidArgument (js ''scene check failed: preset '' @ quoted_resource pid @ js '' carries role '' @
                   quoted_resource (or_default view_role []) @ js '' but member '' @ quoted_resource role @
                   js '' requires the matching role''))
               else None))"

definition validateModel ::
  "materialize_deps \<Rightarrow> jstr \<Rightarrow> session_error + (jstr \<times> jstr)" where
  "validateModel deps selector =
     (case parseModelIdentifier selector of
        Inl e \<Rightarrow> Inl e
      | Inr (provider, model) \<Rightarrow>
          (case md_models deps provider of
             Inl message \<Rightarrow> Inl (Rethrown message)
           | Inr models \<Rightarrow>
               if model \<notin> set models then
                 Inl (InvalidArgument (js ''unknown model '' @ quoted_resource selector @ js '' for provider '' @
                   quoted_resource provider @ js ''; '' @ COMPOSITE_MODEL_HINT))
               else Inr (provider, model)))"

definition effective_model :: "materialize_deps \<Rightarrow> member_options \<Rightarrow> jstr" where
  "effective_model deps m =
     (case mo_model m of
        None \<Rightarrow> DEFAULT_MODEL (md_glmModel deps)
      | Some s \<Rightarrow> if s = [] then DEFAULT_MODEL (md_glmModel deps) else s)"

fun collect :: "('a \<Rightarrow> 'e + 'b) \<Rightarrow> 'a list \<Rightarrow> 'e + 'b list" where
  "collect f [] = Inr []"
| "collect f (x # xs) =
     (case f x of
        Inl e \<Rightarrow> Inl e
      | Inr y \<Rightarrow> (case collect f xs of Inl e \<Rightarrow> Inl e | Inr ys \<Rightarrow> Inr (y # ys)))"

definition configure ::
  "materialize_deps \<Rightarrow> jstr \<times> member_options \<Rightarrow> session_error + scene_member_config" where
  "configure deps configured =
     (case configured of (role, request) \<Rightarrow>
       (case validateModel deps (effective_model deps request) of
          Inl e \<Rightarrow> Inl e
        | Inr (provider, model) \<Rightarrow>
            (case presetId (mo_preset request) of
               Inl e \<Rightarrow> Inl e
             | Inr pid \<Rightarrow>
                 Inr \<lparr>sm_role = role, sm_preset = pid, sm_provider = Some provider, sm_model = Some model\<rparr>)))"

text \<open>All checks of \<open>doMaterialize\<close>, in order, before anything is torn down.\<close>

definition validate_presets ::
  "materialize_deps \<Rightarrow> (jstr \<times> member_options) list \<Rightarrow> session_error + unit list" where
  "validate_presets deps configured =
     collect (\<lambda>(role, request). case validateMemberPreset deps (mo_preset request) role of
        Some e \<Rightarrow> Inl e | None \<Rightarrow> Inr ()) configured"

definition materialize_input ::
  "materialize_deps \<Rightarrow> jstr \<Rightarrow> member_options list \<Rightarrow> session_error + (jstr \<times> scene_member_config list)" where
  "materialize_input deps session members =
     (case parseSessionResource session of
        None \<Rightarrow> Inl (InvalidArgument (bad_session_text session))
      | Some (template, _) \<Rightarrow>
          (case wiredScene (md_scenes deps) template of
             None \<Rightarrow> Inl (InvalidArgument (sceneNotWiredMessage template))
           | Some scene \<Rightarrow>
               (case validateMemberStructure members template of
                  Some e \<Rightarrow> Inl e
                | None \<Rightarrow>
                    (case validateSceneRoster members template scene of
                       Some e \<Rightarrow> Inl e
                     | None \<Rightarrow>
                         (case collect (\<lambda>role. map_sum id (Pair role) (memberFor members role template))
                               (sp_roster scene) of
                            Inl e \<Rightarrow> Inl e
                          | Inr configured \<Rightarrow>
                              (case validate_presets deps configured of
                                 Inl e \<Rightarrow> Inl e
                               | Inr _ \<Rightarrow> map_sum id (Pair template) (collect (configure deps) configured)))))))"

section \<open>The swap\<close>

definition compositeModel :: "jstr option \<Rightarrow> scene_member_config \<Rightarrow> jstr" where
  "compositeModel glmModel member =
     (case (sm_provider member, sm_model member) of
        (Some provider, Some model) \<Rightarrow> provider @ [47] @ model
      | _ \<Rightarrow> DEFAULT_MODEL glmModel)"

text \<open>The members of an entry from the projection of a materialized orchestration.\<close>

fun build_members ::
  "'o scene_orchestration \<Rightarrow> materialize_deps \<Rightarrow> jstr \<Rightarrow> jstr \<Rightarrow> scene_member_config list \<Rightarrow> 'o \<Rightarrow>
   (jstr \<times> member_kind) list \<Rightarrow> member_runtime list option" where
  "build_members orch deps session template config o' [] = Some []"
| "build_members orch deps session template config o' ((role, AnnounceOnlyKind) # projection) =
     map_option ((#) (AnnounceOnlyRuntime role)) (build_members orch deps session template config o' projection)"
| "build_members orch deps session template config o' ((role, AgentKind) # projection) =
     (case (so_member orch o' role, map_of (rev (map (\<lambda>c. (sm_role c, c)) config)) role) of
        (Some agent, Some c) \<Rightarrow>
          map_option ((#) (AgentRuntime
              \<lparr>ar_role = role, ar_preset = presetResourceName template (sm_preset c),
               ar_model = compositeModel (md_glmModel deps) c,
               ar_collector = new_collector agent role session True\<rparr>))
            (build_members orch deps session template config o' projection)
      | _ \<Rightarrow> None)"

definition new_entry ::
  "jstr \<Rightarrow> jstr \<Rightarrow> 'o \<Rightarrow> member_runtime list \<Rightarrow> int \<Rightarrow> int \<Rightarrow> nat \<Rightarrow> 'o team_entry" where
  "new_entry session template o' members createTime now gen =
     \<lparr>te_sessionName = session, te_template = template, te_orchestrator = o',
      te_history = new_history session, te_members = members, te_dynamic = [], te_streams = [],
      te_createTime = createTime, te_updateTime = now, te_watch = False, te_disposed = False,
      te_generation = gen\<rparr>"

text \<open>The live entry leaves the registry and starts its teardown; a refused request changes nothing.\<close>

definition materialize_begin ::
  "'o scene_orchestration \<Rightarrow> materialize_deps \<Rightarrow> jstr \<Rightarrow> member_options list \<Rightarrow> 'o team_sessions \<Rightarrow>
   (session_error + (jstr \<times> scene_member_config list)) \<times> 'o team_sessions" where
  "materialize_begin orch deps session members ts =
     (case materialize_input deps session members of
        Inl e \<Rightarrow> (Inl e, ts)
      | Inr input \<Rightarrow>
          (Inr input,
           case ts_teams ts session of
             None \<Rightarrow> ts
           | Some entry \<Rightarrow>
               ts\<lparr>ts_teams := (ts_teams ts)(session := None),
                  ts_closing := teardown_begin orch entry # ts_closing ts\<rparr>))"

text \<open>The teardown of an entry ends once its orchestration is disposed.\<close>

definition finish_teardown :: "nat \<Rightarrow> 'o team_sessions \<Rightarrow> 'o team_sessions" where
  "finish_teardown gen ts =
     (case List.find (\<lambda>entry. te_generation entry = gen) (ts_closing ts) of
        None \<Rightarrow> ts
      | Some entry \<Rightarrow>
          ts\<lparr>ts_closing := filter (\<lambda>entry. te_generation entry \<noteq> gen) (ts_closing ts),
             ts_streams := snd (teardown_end (entry, ts_streams ts))\<rparr>)"

text \<open>
  The outcome of building the orchestration: what it threw after rolling its members back, or its
  state. \<open>createTime\<close> is the one of the entry that was replaced, if there was one.
\<close>

definition materialize_finish ::
  "'o scene_orchestration \<Rightarrow> materialize_deps \<Rightarrow> jstr \<Rightarrow> jstr \<times> scene_member_config list \<Rightarrow>
   scene_throw + 'o \<Rightarrow> int option \<Rightarrow> int \<Rightarrow> 'o team_sessions \<Rightarrow>
   (session_error + team_view) \<times> 'o team_sessions" where
  "materialize_finish orch deps session input made createTime now ts =
     (case made of
        Inl (StateThrown _ message) \<Rightarrow> (Inl (Rethrown message), ts)
      | Inl (PlainThrown message) \<Rightarrow> (Inl (Rethrown message), ts)
      | Inr o' \<Rightarrow>
          (case build_members orch deps session (fst input) (snd input) o' (so_members orch o') of
             None \<Rightarrow> (Inl (Rethrown (js ''team materialization invariant violated: members are missing'')), ts)
           | Some members \<Rightarrow>
               (let entry = new_entry session (fst input) o' members (or_default createTime now) now
                      (ts_nextGeneration ts)
                in (Inr (toTeamView orch entry),
                    ts\<lparr>ts_teams := (ts_teams ts)(session \<mapsto> entry), ts_nextGeneration := ts_nextGeneration ts + 1\<rparr>))))"

text \<open>\<open>shutdown\<close> empties the registry and tears every entry down.\<close>

definition shutdown_entry :: "'o scene_orchestration \<Rightarrow> jstr \<Rightarrow> 'o team_sessions \<Rightarrow> 'o team_sessions" where
  "shutdown_entry orch session ts =
     (case ts_teams ts session of
        None \<Rightarrow> ts
      | Some entry \<Rightarrow>
          ts\<lparr>ts_teams := (ts_teams ts)(session := None),
             ts_closing := teardown_begin orch entry # ts_closing ts\<rparr>)"

section \<open>Runs of the registry\<close>

definition new_sessions :: "'o team_sessions" where
  "new_sessions =
     \<lparr>ts_teams = Map.empty, ts_streams = (\<lambda>_. \<lparr>ss_written = [], ss_closed = None\<rparr>), ts_closing = [],
      ts_nextGeneration = 0\<rparr>"

text \<open>A step of one entry, whether it is live or under teardown.\<close>

definition unused_stream :: "'o team_sessions \<Rightarrow> nat \<Rightarrow> bool" where
  "unused_stream ts i \<longleftrightarrow>
     ts_streams ts i = \<lparr>ss_written = [], ss_closed = None\<rparr> \<and>
     (\<forall>session entry. ts_teams ts session = Some entry \<longrightarrow> i \<notin> set (te_streams entry)) \<and>
     (\<forall>entry \<in> set (ts_closing ts). i \<notin> set (te_streams entry))"

inductive entry_step ::
  "'o scene_orchestration \<Rightarrow> ('o \<Rightarrow> 'o \<Rightarrow> bool) \<Rightarrow> 'o team_entry \<times> (nat \<Rightarrow> stream_state) \<Rightarrow>
   'o team_entry \<times> (nat \<Rightarrow> stream_state) \<Rightarrow> bool"
  for orch evolve where
  member: "member_event_in pe t envelope (entry, st) = s' \<Longrightarrow> entry_step orch evolve (entry, st) s'"
| watch: "watch_fires orch pe (entry, st) = s' \<Longrightarrow> entry_step orch evolve (entry, st) s'"
| detaches: "entry_step orch evolve (entry, st) (detach i entry, st)"
| evolves: "evolve (te_orchestrator entry) o' \<Longrightarrow>
    entry_step orch evolve (entry, st) (entry\<lparr>te_orchestrator := o'\<rparr>, st)"

text \<open>\<open>built\<close> holds of the states a successful materialization returns.\<close>

inductive sessions_step ::
  "'o scene_orchestration \<Rightarrow> ('o \<Rightarrow> 'o \<Rightarrow> bool) \<Rightarrow> ('o \<Rightarrow> bool) \<Rightarrow> materialize_deps \<Rightarrow> 'o team_sessions \<Rightarrow> 'o team_sessions \<Rightarrow> bool"
  for orch evolve built deps where
  sends: "unused_stream ts i \<Longrightarrow> send orch pe now session t i ts = (r, ts') \<Longrightarrow>
    sessions_step orch evolve built deps ts ts'"
| cancels: "session_cancel orch session ts = (r, ts') \<Longrightarrow> sessions_step orch evolve built deps ts ts'"
| live: "ts_teams ts session = Some entry \<Longrightarrow> entry_step orch evolve (entry, ts_streams ts) (entry', st') \<Longrightarrow>
    sessions_step orch evolve built deps ts (ts\<lparr>ts_teams := (ts_teams ts)(session \<mapsto> entry'), ts_streams := st'\<rparr>)"
| closing: "ts_closing ts = before @ entry # after \<Longrightarrow>
    entry_step orch evolve (entry, ts_streams ts) (entry', st') \<Longrightarrow>
    sessions_step orch evolve built deps ts (ts\<lparr>ts_closing := before @ entry' # after, ts_streams := st'\<rparr>)"
| begins: "materialize_begin orch deps session members ts = (r, ts') \<Longrightarrow> sessions_step orch evolve built deps ts ts'"
| closed: "sessions_step orch evolve built deps ts (finish_teardown gen ts)"
| made: "materialize_input deps session members = Inr input \<Longrightarrow> ts_teams ts session = None \<Longrightarrow>
    (\<And>o'. outcome = Inr o' \<Longrightarrow> built o') \<Longrightarrow>
    materialize_finish orch deps session input outcome createTime now ts = (r, ts') \<Longrightarrow>
    sessions_step orch evolve built deps ts ts'"
| stops: "sessions_step orch evolve built deps ts (shutdown_entry orch session ts)"

inductive session_reach ::
  "'o scene_orchestration \<Rightarrow> ('o \<Rightarrow> 'o \<Rightarrow> bool) \<Rightarrow> ('o \<Rightarrow> bool) \<Rightarrow> materialize_deps \<Rightarrow> 'o team_sessions \<Rightarrow> bool"
  for orch evolve built deps where
  start: "session_reach orch evolve built deps new_sessions"
| step: "session_reach orch evolve built deps ts \<Longrightarrow> sessions_step orch evolve built deps ts ts' \<Longrightarrow>
    session_reach orch evolve built deps ts'"

end
