(* ===== verification/Session_Invariant.thy ===== *)
theory Session_Invariant
  imports Team_Materialize
begin

declare js_simps(2) [simp del]

text \<open>
  What every registry keeps: the projections of each entry, the turns its members show, and the
  streams, each of which belongs to one entry and follows that entry's frames.
\<close>

section \<open>Broadcasting\<close>

lemma broadcast_to_spec:
  assumes "distinct is" and "set is \<subseteq> set live"
  shows "fst (broadcast_to pe e is (live, st)) = filter (\<lambda>i. i \<notin> set is \<or> \<not> pe_broken pe i) live"
    and "snd (broadcast_to pe e is (live, st)) i =
      (if i \<in> set is \<and> \<not> pe_broken pe i then (st i)\<lparr>ss_written := ss_written (st i) @ [e]\<rparr> else st i)"
proof -
  have "fst (broadcast_to pe e is (live, st)) = filter (\<lambda>i. i \<notin> set is \<or> \<not> pe_broken pe i) live \<and>
    snd (broadcast_to pe e is (live, st)) i =
      (if i \<in> set is \<and> \<not> pe_broken pe i then (st i)\<lparr>ss_written := ss_written (st i) @ [e]\<rparr> else st i)"
    using assms
  proof (induction "is" arbitrary: live st)
    case (Cons j js)
    show ?case
    proof (cases "pe_broken pe j")
      case True
      have "set js \<subseteq> set (removeAll j live)" using Cons.prems by auto
      then show ?thesis
        using Cons.IH[of "removeAll j live" st] Cons.prems(1) True
        by (auto simp: filter_filter conj_commute removeAll_filter_not_eq intro!: filter_cong)
    next
      case False
      have sub: "distinct js" "set js \<subseteq> set live" "j \<notin> set js" using Cons.prems by auto
      have written: "write_stream j e st k =
          (if k = j then (st k)\<lparr>ss_written := ss_written (st k) @ [e]\<rparr> else st k)" for k
        by (simp add: write_stream_def)
      have keep: "filter (\<lambda>i. i \<noteq> j \<and> i \<notin> set js \<or> \<not> pe_broken pe i) live =
          filter (\<lambda>i. i \<in> set js \<longrightarrow> \<not> pe_broken pe i) live"
        using False by (auto intro!: filter_cong)
      show ?thesis
        using Cons.IH[OF sub(1,2), of "write_stream j e st"] False sub(3)
        by (simp add: written[of i] written[of j] keep)
    qed
  qed simp
  then show "fst (broadcast_to pe e is (live, st)) = filter (\<lambda>i. i \<notin> set is \<or> \<not> pe_broken pe i) live"
    and "snd (broadcast_to pe e is (live, st)) i =
      (if i \<in> set is \<and> \<not> pe_broken pe i then (st i)\<lparr>ss_written := ss_written (st i) @ [e]\<rparr> else st i)"
    by simp_all
qed

lemma broadcast_spec:
  assumes "distinct live"
  shows "fst (broadcast pe e (live, st)) = filter (\<lambda>i. \<not> pe_broken pe i) live"
    and "snd (broadcast pe e (live, st)) i =
      (if i \<in> set live \<and> \<not> pe_broken pe i then (st i)\<lparr>ss_written := ss_written (st i) @ [e]\<rparr> else st i)"
  using broadcast_to_spec[OF assms subset_refl, of pe e st]
  by (auto simp: broadcast_def intro!: filter_cong)

lemma fold_broadcast:
  assumes "distinct live"
  shows "fst (fold (broadcast pe) es (live, st)) = (if es = [] then live else filter (\<lambda>i. \<not> pe_broken pe i) live)"
    and "snd (fold (broadcast pe) es (live, st)) i =
      (if i \<in> set live \<and> \<not> pe_broken pe i then (st i)\<lparr>ss_written := ss_written (st i) @ es\<rparr> else st i)"
proof -
  have "fst (fold (broadcast pe) es (live, st)) = (if es = [] then live else filter (\<lambda>i. \<not> pe_broken pe i) live) \<and>
    snd (fold (broadcast pe) es (live, st)) i =
      (if i \<in> set live \<and> \<not> pe_broken pe i then (st i)\<lparr>ss_written := ss_written (st i) @ es\<rparr> else st i)"
    using assms
  proof (induction es arbitrary: live st)
    case (Cons e es)
    obtain live1 st1 where b: "broadcast pe e (live, st) = (live1, st1)" by fastforce
    have l1: "live1 = filter (\<lambda>i. \<not> pe_broken pe i) live"
      and s1: "st1 i = (if i \<in> set live \<and> \<not> pe_broken pe i then (st i)\<lparr>ss_written := ss_written (st i) @ [e]\<rparr> else st i)"
      using broadcast_spec[OF Cons.prems, of pe e st] b by simp_all
    show ?case
      using Cons.IH[of live1 st1] Cons.prems by (auto simp: b l1 s1 filter_filter)
  qed simp
  then show "fst (fold (broadcast pe) es (live, st)) = (if es = [] then live else filter (\<lambda>i. \<not> pe_broken pe i) live)"
    and "snd (fold (broadcast pe) es (live, st)) i =
      (if i \<in> set live \<and> \<not> pe_broken pe i then (st i)\<lparr>ss_written := ss_written (st i) @ es\<rparr> else st i)"
    by simp_all
qed

section \<open>The entry\<close>

text \<open>A stream has at most one queued frame of its own, then the frames sunk since it was attached.\<close>

definition follows :: "chat_event list \<Rightarrow> chat_event list \<Rightarrow> bool" where
  "follows written sunk \<longleftrightarrow>
     (\<exists>own k. written = own @ drop k sunk \<and> k \<le> length sunk \<and>
        (own = [] \<or> (\<exists>session n. own = [queued_frame session n])))"

definition streams_ok :: "'o team_entry \<times> (nat \<Rightarrow> stream_state) \<Rightarrow> bool" where
  "streams_ok s \<longleftrightarrow>
     (case s of (entry, st) \<Rightarrow>
       distinct (te_streams entry) \<and>
       (\<forall>i \<in> set (te_streams entry).
          ss_closed (st i) = None \<and> follows (ss_written (st i)) (th_sunk (te_history entry))))"

definition watched :: "'o team_entry \<Rightarrow> bool" where
  "watched entry \<longleftrightarrow> te_streams entry = [] \<or> te_watch entry \<or> te_disposed entry"

definition collectors_ok :: "'o team_entry \<Rightarrow> bool" where
  "collectors_ok entry \<longleftrightarrow>
     distinct (map runtime_role (te_members entry)) \<and>
     (\<forall>m. AgentRuntime m \<in> set (te_members entry) \<longrightarrow> mc_role (ar_collector m) = ar_role m \<and>
        in_turn (ar_collector m) (te_history entry)) \<and>
     (\<forall>c \<in> set (map snd (te_dynamic entry)). mc_role c \<notin> runtime_role ` set (te_members entry))"

definition entry_ok :: "'o team_entry \<times> (nat \<Rightarrow> stream_state) \<Rightarrow> bool" where
  "entry_ok s \<longleftrightarrow>
     (case s of (entry, st) \<Rightarrow>
       history_ok (te_history entry) \<and> th_session (te_history entry) = te_sessionName entry \<and>
       collectors_ok entry \<and> streams_ok (entry, st) \<and> watched entry)"

lemma follows_sunk: "follows written sunk \<Longrightarrow> follows (written @ es) (sunk @ es)"
  unfolding follows_def
proof (elim exE conjE)
  fix own k
  assume "written = own @ drop k sunk" "k \<le> length sunk"
    "own = [] \<or> (\<exists>session n. own = [queued_frame session n])"
  then show "\<exists>own k. written @ es = own @ drop k (sunk @ es) \<and> k \<le> length (sunk @ es) \<and>
      (own = [] \<or> (\<exists>session n. own = [queued_frame session n]))"
    by (intro exI[of _ own] exI[of _ k]) simp
qed

lemma streams_ok_cong:
  assumes "\<And>i. i \<in> set (te_streams entry) \<Longrightarrow> st' i = st i" and "streams_ok (entry, st)"
  shows "streams_ok (entry, st')"
  using assms by (simp add: streams_ok_def)

lemma entry_ok_cong:
  assumes "\<And>i. i \<in> set (te_streams entry) \<Longrightarrow> st' i = st i" and "entry_ok (entry, st)"
  shows "entry_ok (entry, st')"
  using assms streams_ok_cong by (auto simp: entry_ok_def)

text \<open>Sinking the frames of a grown history keeps the streams; only attached streams are written.\<close>

lemma sinks_spec:
  assumes ok: "streams_ok (entry, st)" and sunk: "th_sunk h' = th_sunk (te_history entry) @ new"
    and s: "sinks pe h' (entry, st) = (entry', st')"
  shows "streams_ok (entry', st')"
    and "set (te_streams entry') \<subseteq> set (te_streams entry)"
    and "\<And>i. i \<notin> set (te_streams entry) \<Longrightarrow> st' i = st i"
    and "entry' = entry\<lparr>te_history := h', te_streams := te_streams entry'\<rparr>"
proof -
  have d: "distinct (te_streams entry)" using ok by (simp add: streams_ok_def)
  let ?b = "fold (broadcast pe) new (te_streams entry, st)"
  have e: "entry' = entry\<lparr>te_history := h', te_streams := fst ?b\<rparr>" and st: "st' = snd ?b"
    using s by (simp_all add: sinks_def sunk Let_def case_prod_beta)
  show "set (te_streams entry') \<subseteq> set (te_streams entry)"
    by (auto simp: e fold_broadcast(1)[OF d])
  show "st' i = st i" if "i \<notin> set (te_streams entry)" for i
    using that by (simp add: st fold_broadcast(2)[OF d])
  show "entry' = entry\<lparr>te_history := h', te_streams := te_streams entry'\<rparr>" by (simp add: e)
  show "streams_ok (entry', st')"
  proof (cases "new = []")
    case True
    then show ?thesis using ok sunk by (simp add: streams_ok_def e st)
  next
    case False
    have "follows (ss_written (st0 i) @ new) (th_sunk h')"
      if "follows (ss_written (st0 i)) (th_sunk (te_history entry))" for st0 :: "nat \<Rightarrow> stream_state" and i
      unfolding sunk using that by (rule follows_sunk)
    then show ?thesis
      using ok d False by (simp add: streams_ok_def e st fold_broadcast[OF d])
  qed
qed

section \<open>Member events\<close>

lemma with_collector_roles [simp]:
  "map runtime_role (with_collector role c ms) = map runtime_role ms"
  "runtime_role ` set (with_collector role c ms) = runtime_role ` set ms"
proof -
  show r: "map runtime_role (with_collector role c ms) = map runtime_role ms"
    by (induction role c ms rule: with_collector.induct) simp_all
  show "runtime_role ` set (with_collector role c ms) = runtime_role ` set ms"
    using arg_cong[OF r, of set] by simp
qed

lemma with_collector_member:
  assumes "AgentRuntime m \<in> set (with_collector role c ms)" and "distinct (map runtime_role ms)"
  shows "(ar_role m = role \<and> ar_collector m = c) \<or> (ar_role m \<noteq> role \<and> AgentRuntime m \<in> set ms)"
  using assms
  by (induction role c ms rule: with_collector.induct) (force split: if_splits)+

lemma find_runtime_Some:
  "find_runtime role ms = Some r \<Longrightarrow> r \<in> set ms \<and> runtime_role r = role"
  by (auto simp: find_runtime_def find_Some_iff)

lemma find_runtime_None: "find_runtime role ms = None \<Longrightarrow> role \<notin> runtime_role ` set ms"
  by (auto simp: find_runtime_def find_None_iff)

lemma collectors_okD:
  assumes "collectors_ok entry"
  shows "distinct (map runtime_role (te_members entry))"
    and "AgentRuntime m \<in> set (te_members entry) \<Longrightarrow>
      mc_role (ar_collector m) = ar_role m \<and> in_turn (ar_collector m) (te_history entry)"
    and "(k, c) \<in> set (te_dynamic entry) \<Longrightarrow> mc_role c \<notin> runtime_role ` set (te_members entry)"
  using assms by (force simp: collectors_ok_def)+

text \<open>A change of the history by somebody else leaves every turn as it is.\<close>

lemma collectors_ok_history:
  assumes ok: "collectors_ok entry" and e: "emits P (te_history entry) h'"
    and other: "\<And>e m. P e \<Longrightarrow> AgentRuntime m \<in> set (te_members entry) \<Longrightarrow> ev_member e \<noteq> Some (ar_role m)"
  shows "collectors_ok (entry\<lparr>te_history := h'\<rparr>)"
proof -
  have "in_turn (ar_collector m) h'" if m: "AgentRuntime m \<in> set (te_members entry)" for m
    by (rule in_turn_emits[OF _ e]) (use collectors_okD(2)[OF ok m] other[OF _ m] in auto)
  then show ?thesis using ok by (simp add: collectors_ok_def)
qed

lemma collectors_ok_agent:
  assumes ok: "collectors_ok entry" and m: "AgentRuntime m \<in> set (te_members entry)"
    and c: "mc_role c = ar_role m" "in_turn c h'"
    and e: "emits P (te_history entry) h'" and own: "\<And>e. P e \<Longrightarrow> ev_member e = Some (ar_role m)"
  shows "collectors_ok (entry\<lparr>te_members := with_collector (ar_role m) c (te_members entry), te_history := h'\<rparr>)"
proof -
  have "mc_role (ar_collector m') = ar_role m' \<and> in_turn (ar_collector m') h'"
    if m': "AgentRuntime m' \<in> set (with_collector (ar_role m) c (te_members entry))" for m'
    using with_collector_member[OF m' collectors_okD(1)[OF ok]]
  proof
    assume a: "ar_role m' \<noteq> ar_role m \<and> AgentRuntime m' \<in> set (te_members entry)"
    with collectors_okD(2)[OF ok] have "in_turn (ar_collector m') h'"
      by (intro in_turn_emits[OF _ e]) (auto dest: own)
    with a collectors_okD(2)[OF ok] show ?thesis by blast
  qed (use c in simp)
  then show ?thesis using ok by (simp add: collectors_ok_def)
qed

lemma frame_of_not_team: "frame_of c e \<Longrightarrow> \<not> is_team_frame e"
  by (simp add: frame_of_def)

lemma applyEvent_grows: "well_grown h (snd (applyEvent t envelope (c, h)))"
  by (rule growing.applyEvent_keeps) (rule frame_of_not_team)

lemma projectAnnouncement_grows:
  "well_grown h (projectAnnouncement t role envelope h)"
  "emits (\<lambda>_. False) h (projectAnnouncement t role envelope h)"
  by (simp_all add: projectAnnouncement_def Let_def growing.same growing.announcement_step
      emitting.same emitting.announcement_step split: member_event.split log_event.split)

lemma dynamicCollector_role:
  assumes "collectors_ok entry" and "find_runtime (en_role envelope) (te_members entry) = None"
  shows "mc_role (dynamicCollector envelope session (te_dynamic entry)) \<notin> runtime_role ` set (te_members entry)"
  using find_runtime_None[OF assms(2)] collectors_okD(3)[OF assms(1)]
  by (auto simp: dynamicCollector_def new_collector_def split: option.splits dest!: map_of_SomeD)

lemma set_update_snd: "snd ` set (AList.update k v al) \<subseteq> insert v (snd ` set al)"
  by (induction al) auto

lemma dispatch_spec:
  assumes ok: "collectors_ok entry" and d: "dispatch_envelope t envelope entry = (entry1, h')"
  shows "collectors_ok (entry1\<lparr>te_history := h'\<rparr>)" and "well_grown (te_history entry) h'"
    and "te_history entry1 = te_history entry" "te_streams entry1 = te_streams entry"
    "te_watch entry1 = te_watch entry" "te_disposed entry1 = te_disposed entry"
    "te_sessionName entry1 = te_sessionName entry" "te_generation entry1 = te_generation entry"
proof -
  let ?h = "te_history entry"
  have "collectors_ok (entry1\<lparr>te_history := h'\<rparr>) \<and> well_grown ?h h' \<and>
    te_history entry1 = ?h \<and> te_streams entry1 = te_streams entry \<and>
    te_watch entry1 = te_watch entry \<and> te_disposed entry1 = te_disposed entry \<and>
    te_sessionName entry1 = te_sessionName entry \<and> te_generation entry1 = te_generation entry"
  proof (cases "find_runtime (en_role envelope) (te_members entry)")
    case None
    let ?c = "dynamicCollector envelope (te_sessionName entry) (te_dynamic entry)"
    obtain c h1 where a: "applyEvent t envelope (?c, ?h) = (c, h1)" by fastforce
    have role: "mc_role ?c \<notin> runtime_role ` set (te_members entry)"
      by (rule dynamicCollector_role[OF ok None])
    have e: "emits (frame_of ?c) ?h h1" using applyEvent_emits[of ?c ?h t envelope] a by simp
    have "collectors_ok (entry\<lparr>te_history := h1\<rparr>)"
      by (rule collectors_ok_history[OF ok e]) (use role in \<open>force simp: frame_of_def\<close>)
    moreover have "\<forall>c' \<in> snd ` set (AList.update (dynamic_key envelope) c (te_dynamic entry)).
        mc_role c' \<notin> runtime_role ` set (te_members entry)"
    proof
      fix c' assume "c' \<in> snd ` set (AList.update (dynamic_key envelope) c (te_dynamic entry))"
      from subsetD[OF set_update_snd this] have "c' = c \<or> c' \<in> snd ` set (te_dynamic entry)"
        by (simp only: insert_iff)
      then show "mc_role c' \<notin> runtime_role ` set (te_members entry)"
      proof
        assume "c' = c" then show ?thesis using applyEvent_identity(1)[OF a] role by simp
      next
        assume "c' \<in> snd ` set (te_dynamic entry)"
        then obtain k where "(k, c') \<in> set (te_dynamic entry)" by auto
        then show ?thesis by (rule collectors_okD(3)[OF ok])
      qed
    qed
    ultimately have "collectors_ok (entry\<lparr>te_dynamic := AList.update (dynamic_key envelope) c (te_dynamic entry),
        te_history := h1\<rparr>)" by (simp add: collectors_ok_def)
    with applyEvent_grows[of ?h t envelope ?c] a d None show ?thesis by (auto simp: dispatch_envelope_def)
  next
    case (Some r)
    show ?thesis
    proof (cases r)
      case (AgentRuntime m)
      with find_runtime_Some[OF Some] have m: "AgentRuntime m \<in> set (te_members entry)" by simp
      note c = collectors_okD(2)[OF ok m]
      obtain c' h1 where a: "applyEvent t envelope (ar_collector m, ?h) = (c', h1)" by fastforce
      have e: "emits (frame_of (ar_collector m)) ?h h1"
        using applyEvent_emits[of "ar_collector m" ?h t envelope] a by simp
      have "collectors_ok (entry\<lparr>te_members := with_collector (ar_role m) c' (te_members entry), te_history := h1\<rparr>)"
        by (rule collectors_ok_agent[OF ok m _ _ e])
          (use c in_turn_applyEvent[OF _ a] applyEvent_identity(1)[OF a] in \<open>auto simp: frame_of_def\<close>)
      with applyEvent_grows[of ?h t envelope "ar_collector m"] a d Some AgentRuntime show ?thesis
        by (auto simp: dispatch_envelope_def)
    next
      case (AnnounceOnlyRuntime role)
      have "collectors_ok (entry\<lparr>te_history := projectAnnouncement t role envelope ?h\<rparr>)"
        by (rule collectors_ok_history[OF ok projectAnnouncement_grows(2)]) simp
      with projectAnnouncement_grows(1) d Some AnnounceOnlyRuntime show ?thesis
        by (auto simp: dispatch_envelope_def)
    qed
  qed
  then show "collectors_ok (entry1\<lparr>te_history := h'\<rparr>)" and "well_grown ?h h'"
    and "te_history entry1 = te_history entry" "te_streams entry1 = te_streams entry"
    "te_watch entry1 = te_watch entry" "te_disposed entry1 = te_disposed entry"
    "te_sessionName entry1 = te_sessionName entry" "te_generation entry1 = te_generation entry" by auto
qed

section \<open>Operations on an entry\<close>

text \<open>An operation keeps its entry in order and touches no stream but those attached to it.\<close>

definition entry_moves ::
  "'o team_entry \<times> (nat \<Rightarrow> stream_state) \<Rightarrow> 'o team_entry \<times> (nat \<Rightarrow> stream_state) \<Rightarrow> bool" where
  "entry_moves s s' \<longleftrightarrow>
     (case s of (entry, st) \<Rightarrow> case s' of (entry', st') \<Rightarrow>
       entry_ok (entry', st') \<and> set (te_streams entry') \<subseteq> set (te_streams entry) \<and>
       (\<forall>i. i \<notin> set (te_streams entry) \<longrightarrow> st' i = st i) \<and>
       te_generation entry' = te_generation entry \<and> te_sessionName entry' = te_sessionName entry \<and>
       te_disposed entry' = te_disposed entry)"

lemma entry_okD:
  assumes "entry_ok (entry, st)"
  shows "history_ok (te_history entry)" "th_session (te_history entry) = te_sessionName entry"
    "collectors_ok entry" "streams_ok (entry, st)" "watched entry"
  using assms by (simp_all add: entry_ok_def)

text \<open>The entry after an operation on its history, the frames sunk; whether it is watched apart.\<close>

definition entry_core :: "'o team_entry \<times> (nat \<Rightarrow> stream_state) \<Rightarrow> bool" where
  "entry_core s \<longleftrightarrow>
     (case s of (entry, st) \<Rightarrow>
       history_ok (te_history entry) \<and> th_session (te_history entry) = te_sessionName entry \<and>
       collectors_ok entry \<and> streams_ok (entry, st))"

lemma entry_ok_core: "entry_ok (entry, st) \<longleftrightarrow> entry_core (entry, st) \<and> watched entry"
  by (auto simp: entry_ok_def entry_core_def)

lemma core_sinks:
  assumes core: "entry_core (entry, st)" and w: "well_grown (te_history entry) h'"
    and e: "collectors_ok (entry1\<lparr>te_history := h'\<rparr>)"
    and same: "te_history entry1 = te_history entry" "te_streams entry1 = te_streams entry"
      "te_sessionName entry1 = te_sessionName entry"
    and s: "sinks pe h' (entry1, st) = (entry', st')"
  shows "entry_core (entry', st')" "set (te_streams entry') \<subseteq> set (te_streams entry)"
    "\<And>i. i \<notin> set (te_streams entry) \<Longrightarrow> st' i = st i"
    "entry' = entry1\<lparr>te_history := h', te_streams := te_streams entry'\<rparr>"
proof -
  have grown: "history_ok h'" "history_grows (te_history entry) h'"
    using w core by (simp_all add: well_grown_def entry_core_def)
  then obtain new where sunk: "th_sunk h' = th_sunk (te_history entry1) @ new"
    by (auto simp: history_grows_def same prefix_def)
  have "streams_ok (entry1, st)" using core by (simp add: entry_core_def streams_ok_def same)
  note spec = sinks_spec[OF this sunk s]
  show "set (te_streams entry') \<subseteq> set (te_streams entry)" using spec(2) by (simp add: same)
  show "st' i = st i" if "i \<notin> set (te_streams entry)" for i using spec(3) that by (simp add: same)
  show entry': "entry' = entry1\<lparr>te_history := h', te_streams := te_streams entry'\<rparr>" by (rule spec(4))
  have "te_history entry' = h'" "te_sessionName entry' = te_sessionName entry"
    by (subst entry', simp add: same)+
  moreover have "collectors_ok entry'" by (subst entry') (use e in \<open>simp add: collectors_ok_def\<close>)
  moreover have "th_session h' = te_sessionName entry"
    using grown(2) core by (simp add: history_grows_def entry_core_def)
  ultimately show "entry_core (entry', st')" using spec(1) grown(1) by (simp add: entry_core_def)
qed

lemma moves_sinks:
  assumes ok: "entry_ok (entry, st)" and w: "well_grown (te_history entry) h'"
    and e: "collectors_ok (entry1\<lparr>te_history := h'\<rparr>)"
    and same: "te_history entry1 = te_history entry" "te_streams entry1 = te_streams entry"
      "te_watch entry1 = te_watch entry" "te_disposed entry1 = te_disposed entry"
      "te_sessionName entry1 = te_sessionName entry" "te_generation entry1 = te_generation entry"
    and s: "sinks pe h' (entry1, st) = (entry', st')"
  shows "entry_moves (entry, st) (entry', st')"
proof -
  have "entry_core (entry, st)" using ok by (simp add: entry_ok_core)
  note spec = core_sinks[OF this w e same(1,2,5) s]
  have rest: "te_watch entry' = te_watch entry" "te_generation entry' = te_generation entry"
    "te_sessionName entry' = te_sessionName entry" "te_disposed entry' = te_disposed entry"
    by (subst spec(4), simp add: same)+
  moreover have "te_streams entry = [] \<Longrightarrow> te_streams entry' = []" using spec(2) by simp
  ultimately have "watched entry'" using entry_okD(5)[OF ok] by (auto simp: watched_def)
  with spec rest show ?thesis by (simp add: entry_moves_def entry_ok_core)
qed

lemma moves_member_event:
  assumes ok: "entry_ok (entry, st)"
  shows "entry_moves (entry, st) (member_event_in pe t envelope (entry, st))"
proof -
  obtain entry1 h' where d: "dispatch_envelope t envelope entry = (entry1, h')" by fastforce
  obtain entry' st' where s: "sinks pe h' (entry1, st) = (entry', st')" by fastforce
  note spec = dispatch_spec[OF entry_okD(3)[OF ok] d]
  from moves_sinks[OF ok spec(2,1,3-8) s] show ?thesis
    by (simp add: member_event_in_def d s)
qed

lemma fold_close:
  "fold (\<lambda>i. close_stream i (f i)) is st j =
     (if j \<in> set is then (st j)\<lparr>ss_closed := Some (f j)\<rparr> else st j)"
  by (induction "is" arbitrary: st) (auto simp: close_stream_def)

lemma fold_close_const:
  "fold (\<lambda>i. close_stream i c) is st j =
     (if j \<in> set is then (st j)\<lparr>ss_closed := Some c\<rparr> else st j)"
  by (rule fold_close)

text \<open>Changes of the bookkeeping that keep history, members and attached streams.\<close>

lemma entry_ok_upd:
  assumes "entry_ok (entry, st)"
    and "te_history entry' = te_history entry" "te_members entry' = te_members entry"
      "te_dynamic entry' = te_dynamic entry" "te_sessionName entry' = te_sessionName entry"
    and "set (te_streams entry') \<subseteq> set (te_streams entry)" "distinct (te_streams entry')" "watched entry'"
  shows "entry_ok (entry', st)"
proof -
  have "collectors_ok entry' = collectors_ok entry" by (simp add: collectors_ok_def assms(2-4))
  then show ?thesis
    using assms entry_okD[OF assms(1)] by (auto simp: entry_ok_def streams_ok_def)
qed

lemma distinct_streams: "entry_ok (entry, st) \<Longrightarrow> distinct (te_streams entry)"
  by (simp add: entry_ok_def streams_ok_def)

lemma moves_watch:
  assumes ok: "entry_ok (entry, st)"
  shows "entry_moves (entry, st) (watch_fires orch pe (entry, st))"
proof -
  have close: "entry_ok (entry\<lparr>te_watch := False, te_streams := []\<rparr>, st')" for st'
    using entry_ok_upd[OF ok, of "entry\<lparr>te_watch := False, te_streams := []\<rparr>"]
    by (auto simp: watched_def intro: entry_ok_cong)
  have off: "entry_ok (entry\<lparr>te_watch := False\<rparr>, st)" if "te_disposed entry"
    using entry_ok_upd[OF ok, of "entry\<lparr>te_watch := False\<rparr>"] that distinct_streams[OF ok]
    by (simp add: watched_def)
  show ?thesis
    using ok close off
    by (auto simp: watch_fires_def Let_def entry_moves_def failStreams_def endStreams_def fold_close
        fold_close_const split: option.split)
qed

lemma moves_detach:
  assumes ok: "entry_ok (entry, st)"
  shows "entry_moves (entry, st) (detach i entry, st)"
proof -
  have "watched (detach i entry)" using entry_okD(5)[OF ok] by (auto simp: watched_def detach_def)
  then show ?thesis
    using entry_ok_upd[OF ok, of "detach i entry"] distinct_streams[OF ok]
    by (auto simp: entry_moves_def detach_def distinct_removeAll)
qed

lemma moves_evolve:
  assumes ok: "entry_ok (entry, st)"
  shows "entry_moves (entry, st) (entry\<lparr>te_orchestrator := o'\<rparr>, st)"
  using entry_ok_upd[OF ok, of "entry\<lparr>te_orchestrator := o'\<rparr>"] distinct_streams[OF ok] entry_okD(5)[OF ok]
  by (simp add: entry_moves_def watched_def)

lemma entry_step_moves:
  assumes "entry_step orch evolve s s'" and "entry_ok s"
  shows "entry_moves s s'"
  using assms
  by cases (auto intro: moves_member_event moves_watch moves_detach moves_evolve)

section \<open>Accepting a message\<close>

lemma follows_fresh: "own = [] \<or> (\<exists>session n. own = [queued_frame session n]) \<Longrightarrow> follows own sunk"
  unfolding follows_def by (intro exI[of _ own] exI[of _ "length sunk"]) simp

lemma core_attach:
  assumes "entry_core (entry, st)" and "i \<notin> set (te_streams entry)"
    and "ss_closed (st i) = None" "ss_written (st i) = [] \<or> (\<exists>session n. ss_written (st i) = [queued_frame session n])"
  shows "entry_core (attach i entry, st)"
proof -
  have "follows (ss_written (st i)) (th_sunk (te_history entry))"
    by (rule follows_fresh[OF assms(4)])
  then show ?thesis
    using assms by (auto simp: entry_core_def streams_ok_def attach_def collectors_ok_def)
qed

lemma user_collectors:
  assumes "collectors_ok entry"
  shows "collectors_ok (entry\<lparr>te_history := snd (appendUser t now (te_history entry))\<rparr>)"
  by (rule collectors_ok_history[OF assms emitting.user_step[where P = "\<lambda>_. False"]]) simp

lemma accepts_moves:
  assumes ok: "entry_ok (entry, st)" and i: "i \<notin> set (te_streams entry)"
    and st: "ss_closed (st i) = None" "ss_written (st i) = [] \<or> (\<exists>session n. ss_written (st i) = [queued_frame session n])"
    and live: "\<not> te_disposed entry"
    and a: "accepts orch pe now t i (entry, st) = (r, entry', st')"
  shows "entry_ok (entry', st')" "set (te_streams entry') \<subseteq> insert i (set (te_streams entry))"
    "\<And>j. j \<notin> insert i (set (te_streams entry)) \<Longrightarrow> st' j = st j"
    "te_generation entry' = te_generation entry" "te_sessionName entry' = te_sessionName entry"
    "\<not> te_disposed entry'"
    "te_history entry' = snd (appendUser t now (te_history entry))"
proof -
  let ?e1 = "attach i entry" and ?h = "snd (appendUser t now (te_history entry))"
  obtain e2 st2 where s: "sinks pe ?h (?e1, st) = (e2, st2)" by fastforce
  obtain thrown o' where o': "so_submit orch t (te_orchestrator e2) = (thrown, o')" by fastforce
  have core: "entry_core (?e1, st)"
    by (rule core_attach) (use ok i st in \<open>simp_all add: entry_ok_core\<close>)
  have same: "te_history ?e1 = te_history entry" by (simp add: attach_def)
  have coll: "collectors_ok (?e1\<lparr>te_history := ?h\<rparr>)"
    using user_collectors[of ?e1 t now] core by (simp add: entry_core_def same)
  have "well_grown (te_history ?e1) ?h" unfolding same by (rule growing.user_step)
  note spec = core_sinks[OF core this coll refl refl refl s]
  have e2: "te_generation e2 = te_generation entry" "te_sessionName e2 = te_sessionName entry"
    "te_watch e2 = te_watch entry" "\<not> te_disposed e2" "te_history e2 = ?h"
    by (subst spec(4), simp add: attach_def live)+
  have streams: "set (te_streams e2) \<subseteq> insert i (set (te_streams entry))"
    using spec(2) by (auto simp: attach_def split: if_splits)
  have st': "st' = st2" and e': "entry' = (case thrown of
      Some e \<Rightarrow> detach i (e2\<lparr>te_orchestrator := o'\<rparr>) | None \<Rightarrow> watchQuiescence (e2\<lparr>te_orchestrator := o'\<rparr>))"
    using a same s o' by (auto simp: accepts_def Let_def split: option.splits)
  have core': "entry_core (e2\<lparr>te_orchestrator := o', te_watch := w, te_streams := is\<rparr>, st2)"
    if "set is \<subseteq> set (te_streams e2)" "distinct is" for w "is"
    using spec(1) that by (auto simp: entry_core_def streams_ok_def collectors_ok_def)
  have d2: "distinct (te_streams e2)" using spec(1) by (simp add: entry_core_def streams_ok_def)
  show "entry_ok (entry', st')"
  proof (cases thrown)
    case None
    then have "entry' = e2\<lparr>te_orchestrator := o', te_watch := True, te_streams := te_streams e2\<rparr>"
      using e2 by (simp add: e' watchQuiescence_def)
    with core'[OF subset_refl d2] show ?thesis by (simp add: entry_ok_core watched_def st')
  next
    case (Some e)
    have e'': "entry' = e2\<lparr>te_orchestrator := o', te_watch := te_watch e2, te_streams := removeAll i (te_streams e2)\<rparr>"
      using Some by (simp add: e' detach_def)
    have "te_streams entry' = [] \<or> te_streams entry \<noteq> []"
      using streams by (auto simp: e'' removeAll_filter_not_eq filter_empty_conv)
    then have "watched entry'"
      using entry_okD(5)[OF ok] live e2(3,4) by (auto simp: watched_def e'')
    with core'[of "removeAll i (te_streams e2)" "te_watch e2"] d2 show ?thesis
      by (auto simp: entry_ok_core e'' st' distinct_removeAll)
  qed
  show "set (te_streams entry') \<subseteq> insert i (set (te_streams entry))"
    using streams by (auto simp: e' detach_def watchQuiescence_def split: option.splits)
  show "st' j = st j" if "j \<notin> insert i (set (te_streams entry))" for j
    using spec(3)[of j] that by (simp add: st' attach_def)
  show "te_generation entry' = te_generation entry" "te_sessionName entry' = te_sessionName entry"
    "\<not> te_disposed entry'" "te_history entry' = ?h"
    using e2 by (simp_all add: e' detach_def watchQuiescence_def split: option.splits)
qed

section \<open>Cancelling and tearing down\<close>

lemma find_agent_Some:
  "find_agent role ms = Some m \<Longrightarrow> AgentRuntime m \<in> set ms \<and> ar_role m = role"
  by (auto simp: find_agent_def split: option.splits member_runtime.splits dest!: find_runtime_Some)

lemma mark_collectors:
  assumes ok: "collectors_ok entry"
  shows "collectors_ok (mark_in_flight orch status entry)"
proof (cases "agentMemberInFlight orch entry")
  case (Some m)
  then have m: "AgentRuntime m \<in> set (te_members entry)"
    by (auto simp: agentMemberInFlight_def split: option.splits dest: find_agent_Some)
  let ?c = "markOutcome \<lparr>to_status = status, to_error = None\<rparr> (ar_collector m)"
  have c: "mc_role ?c = ar_role m" "in_turn ?c (te_history entry)"
    using collectors_okD(2)[OF ok m] by (auto simp: markOutcome_def in_turn_def)
  have "collectors_ok (entry\<lparr>te_members := with_collector (ar_role m) ?c (te_members entry),
      te_history := te_history entry\<rparr>)"
    by (rule collectors_ok_agent[OF ok m c, of "\<lambda>_. False"]) (simp_all add: emits_same)
  then show ?thesis by (simp add: mark_in_flight_def Some)
qed (use ok in \<open>simp add: mark_in_flight_def\<close>)

lemma mark_same [simp]:
  "te_history (mark_in_flight orch status entry) = te_history entry"
  "te_streams (mark_in_flight orch status entry) = te_streams entry"
  "te_watch (mark_in_flight orch status entry) = te_watch entry"
  "te_disposed (mark_in_flight orch status entry) = te_disposed entry"
  "te_sessionName (mark_in_flight orch status entry) = te_sessionName entry"
  "te_generation (mark_in_flight orch status entry) = te_generation entry"
  by (simp_all add: mark_in_flight_def split: option.split)

lemma entry_ok_marked:
  assumes "entry_ok (entry, st)" and "te_watch entry \<or> te_disposed entry \<longrightarrow> w \<or> d"
  shows "entry_ok ((mark_in_flight orch status entry)\<lparr>te_orchestrator := o', te_watch := w, te_disposed := d\<rparr>, st)"
proof -
  have "collectors_ok ((mark_in_flight orch status entry)\<lparr>te_orchestrator := o', te_watch := w, te_disposed := d\<rparr>)"
    using mark_collectors[OF entry_okD(3)[OF assms(1)], of orch status] by (simp add: collectors_ok_def)
  then show ?thesis
    using assms by (auto simp: entry_ok_def streams_ok_def watched_def)
qed

lemma same_flags:
  "te_watch e = w \<Longrightarrow> te_disposed e = d \<Longrightarrow>
     e\<lparr>te_orchestrator := o', te_watch := w, te_disposed := d\<rparr> = e\<lparr>te_orchestrator := o'\<rparr>"
  by auto

lemma moves_cancel:
  assumes ok: "entry_ok (entry, st)"
  shows "entry_moves (entry, st) (snd (cancel_entry orch entry), st)"
proof -
  let ?m = "mark_in_flight orch CANCELED entry"
  obtain thrown o' where o': "so_cancel orch (te_orchestrator ?m) = (thrown, o')" by fastforce
  have same: "?m\<lparr>te_orchestrator := o'\<rparr> =
      ?m\<lparr>te_orchestrator := o', te_watch := te_watch entry, te_disposed := te_disposed entry\<rparr>" by simp
  have 1: "entry_ok (?m\<lparr>te_orchestrator := o'\<rparr>, st)"
    by (subst same, rule entry_ok_marked[OF ok]) simp
  have armed: "watchQuiescence (?m\<lparr>te_orchestrator := o'\<rparr>) = ?m\<lparr>te_orchestrator := o',
      te_watch := te_watch entry \<or> \<not> te_disposed entry, te_disposed := te_disposed entry\<rparr>"
    by (cases "te_watch entry"; cases "te_disposed entry") (simp_all add: watchQuiescence_def)
  have 2: "entry_ok (watchQuiescence (?m\<lparr>te_orchestrator := o'\<rparr>), st)"
    by (subst armed, rule entry_ok_marked[OF ok]) simp
  show ?thesis
    using 1 2 by (auto simp: cancel_entry_def Let_def o' entry_moves_def watchQuiescence_def
        split: option.split scene_throw.split)
qed

lemma teardown_begin_ok:
  assumes ok: "entry_ok (entry, st)"
  shows "entry_ok (teardown_begin orch entry, st)" "te_disposed (teardown_begin orch entry)"
    "te_streams (teardown_begin orch entry) = te_streams entry"
    "te_generation (teardown_begin orch entry) = te_generation entry"
proof -
  let ?e = "entry\<lparr>te_disposed := True\<rparr>"
  have "entry_ok (?e, st)"
    using ok by (simp add: entry_ok_def streams_ok_def collectors_ok_def watched_def)
  from entry_ok_marked[OF this, where w = "te_watch ?e" and d = True and orch = orch and status = ABORTED
      and o' = "so_dispose orch (te_orchestrator (mark_in_flight orch ABORTED ?e))"]
  show "entry_ok (teardown_begin orch entry, st)"
    by (simp add: teardown_begin_def Let_def same_flags)
  show "te_disposed (teardown_begin orch entry)" "te_streams (teardown_begin orch entry) = te_streams entry"
    "te_generation (teardown_begin orch entry) = te_generation entry"
    by (simp_all add: teardown_begin_def Let_def)
qed

lemma teardown_end_streams:
  "snd (teardown_end (entry, st)) i =
     (if i \<in> set (te_streams entry) then (st i)\<lparr>ss_closed := Some ClosedCleanly\<rparr> else st i)"
  by (simp add: teardown_end_def endStreams_def fold_close_const)

section \<open>A fresh entry\<close>

lemma build_members_roles:
  "build_members orch deps session template config o' projection = Some ms \<Longrightarrow>
     map runtime_role ms = map fst projection"
  by (induction orch deps session template config o' projection arbitrary: ms rule: build_members.induct)
    (auto split: option.splits)

lemma build_members_fresh:
  "build_members orch deps session template config o' projection = Some ms \<Longrightarrow>
     AgentRuntime m \<in> set ms \<Longrightarrow>
     \<exists>agent. ar_collector m = new_collector agent (ar_role m) session True \<and>
       so_member orch o' (ar_role m) = Some agent"
  by (induction orch deps session template config o' projection arbitrary: ms rule: build_members.induct)
    (auto split: option.splits)

lemma new_entry_ok:
  assumes b: "build_members orch deps session template config o' projection = Some ms"
    and d: "distinct (map fst projection)"
  shows "entry_ok (new_entry session template o' ms createTime now gen, st)"
proof -
  have "in_turn (new_collector agent role session True) (new_history session)" for agent role
    by (rule in_turn_new) (simp add: new_history_def)
  then have "in_turn (ar_collector m) (new_history session) \<and> mc_role (ar_collector m) = ar_role m"
    if "AgentRuntime m \<in> set ms" for m
    using build_members_fresh[OF b that] by (auto simp: new_collector_def)
  then show ?thesis
    using history_ok_new d build_members_roles[OF b]
    by (auto simp: entry_ok_def new_entry_def collectors_ok_def streams_ok_def watched_def new_history_def)
qed

end
