(* ===== verification/Scene_Contract.thy ===== *)
theory Scene_Contract
  imports Scene_Seam
begin

declare js_simps(2) [simp del]

text \<open>
  What the host may rely on from an orchestration, as a locale over the seam, and its interpretation on
  the saolei adapter: the team orchestrator keeps its team while it is not disposed, reports only
  agent members as active, and accepts every message.
\<close>

section \<open>The orchestrator keeps its team\<close>

lemma run_pump_keeps: "run_pump env n (s, w) = (s', w') \<Longrightarrow> keeps_team s s'"
proof (induction n arbitrary: s w)
  case 0
  then show ?case by (simp add: keeps_team_def)
next
  case (Suc n)
  show ?case
  proof (cases "orch_pump s = AtHead")
    case True
    obtain s1 w1 where it: "pump_iteration env (s, w) = (s1, w1)" by fastforce
    with True Suc.prems have "run_pump env n (s1, w1) = (s', w')" by simp
    from keeps_team_trans[OF iteration_keeps[OF it] Suc.IH[OF this]] show ?thesis .
  qed (use Suc.prems in \<open>simp add: keeps_team_def\<close>)
qed

lemma requestPump_keeps: "requestPump env (s, w) = (s', w') \<Longrightarrow> keeps_team s s'"
  using run_pump_keeps[of env PUMP_FUEL "s\<lparr>orch_pump := AtHead\<rparr>" w s' w']
  by (auto simp: requestPump_def keeps_team_def split: if_splits)

lemma member_deliver_keeps:
  "member_deliver env x lp (s, w) = (q, s', w') \<Longrightarrow> orch_loop s = Some lp \<Longrightarrow> keeps_team s s'"
  by (auto simp: member_deliver_def Let_def keeps_team_def split: if_splits prod.splits)

lemma orch_decide_keeps:
  "orch_decide env out lp (s, w) = (d, s', w') \<Longrightarrow> orch_loop s = Some lp \<Longrightarrow> keeps_team s s'"
  by (auto simp: orch_decide_def keeps_team_def split: prod.splits)

lemma submit_keeps:
  assumes "submit env t (s, w) = (r, s', w')" and "\<not> disposed s" "orch_loop s = Some lp"
  shows "keeps_team s s'" "\<exists>x. r = Inr x"
proof -
  obtain x w1 where msg: "createUserMessage env t w = (x, w1)" by fastforce
  obtain q s2 w2 where del: "member_deliver env x lp (s, w1) = (q, s2, w2)" by (metis prod.collapse)
  note k2 = member_deliver_keeps[OF del assms(3)]
  have "keeps_team s s' \<and> (\<exists>x. r = Inr x)"
  proof (cases q)
    case (Inl e)
    obtain s3 w3 where rec:
      "recordFailure env None INTERNAL (orchestrationFailure e) Orchestration (s2, w2) = (s3, w3)" by fastforce
    have k3: "keeps_team s s3"
      using keeps_team_trans[OF k2 same_loop_keeps[OF recordFailure_same[OF rec]]] .
    then obtain lp3 where lp3: "orch_loop s3 = Some lp3" using assms(3) by (auto simp: keeps_team_def)
    obtain d s4 w4 where dec: "orch_decide env (Some (Failed INTERNAL (orchestrationFailure e))) lp3 (s3, w3) =
        (d, s4, w4)" by (metis prod.collapse)
    have "s' = s4 \<and> (\<exists>x. r = Inr x)"
      using assms msg del Inl rec lp3 dec by (auto simp: submit_def Let_def)
    with keeps_team_trans[OF k3 orch_decide_keeps[OF dec lp3]] show ?thesis by simp
  next
    case (Inr u)
    obtain s4 w4 where req: "requestPump env (s2\<lparr>externalPending := True\<rparr>, w2) = (s4, w4)" by fastforce
    have "keeps_team s2 s4" using requestPump_keeps[OF req] by (simp add: keeps_team_def)
    moreover have "(s' = s2 \<or> s' = s4) \<and> (\<exists>x. r = Inr x)"
      using assms msg del Inr req by (auto simp: submit_def Let_def split: if_splits)
    ultimately show ?thesis using k2 keeps_team_trans by blast
  qed
  then show "keeps_team s s'" "\<exists>x. r = Inr x" by simp_all
qed

lemma cancel_keeps:
  assumes "cancel env (s, w) = (r, s', w')" and "\<not> disposed s" "orch_loop s = Some lp"
  shows "keeps_team s s'" "\<exists>x. r = Inr x"
  using assms by (auto simp: cancel_def Let_def keeps_team_def split: if_splits)

lemma turn_ends_keeps:
  assumes te: "turn_ends env i (s, w) = (s', w')"
  shows "keeps_team s s'"
proof (cases "orch_loop s")
  case None
  with te show ?thesis by (simp add: turn_ends_def keeps_team_def)
next
  case (Some lp)
  obtain r m where fin: "finish_turn (lp_agents lp i) = (r, m)" by fastforce
  let ?lp = "put_agent i m lp" and ?s = "put_loop (put_agent i m lp) s"
  obtain s1 w1 where ds: "drive_settled env i r (?s, w) = (s1, w1)" by fastforce
  obtain s2 w2 where ts: "turn_settled env i r ?lp (?s, w) = (s2, w2)" by fastforce
  obtain out s3 w3 where res: "drive_result env i r (?s, w) = (out, s3, w3)" by (metis prod.collapse)
  have "keeps_team ?s s1"
    using ds res same_loop_keeps[OF conjunct1[OF drive_result_same[OF res]]]
    by (auto simp: drive_settled_def keeps_team_def split: if_splits)
  moreover have "keeps_team ?s s2" using turn_settled_keeps[OF ts] by simp
  moreover have "s' = ?s \<or> (\<exists>w0. run_pump env PUMP_FUEL (s1, w1) = (s', w0)) \<or>
      (\<exists>w0. run_pump env PUMP_FUEL (s2, w2) = (s', w0))"
    using te Some fin ds ts by (auto simp: turn_ends_def Let_def split: if_splits)
  moreover have "keeps_team s ?s" using Some by (simp add: keeps_team_def)
  ultimately show ?thesis by (meson keeps_team_trans run_pump_keeps)
qed

lemma orch_step_keeps:
  assumes "orch_step env (s, w) (s', w')" and "\<not> disposed s" "\<not> disposed s'" "orch_loop s \<noteq> None"
  shows "orch_loop s' \<noteq> None"
proof -
  obtain lp where lp: "orch_loop s = Some lp" using assms(4) by blast
  from assms(1) show ?thesis
  proof (cases rule: orch_step.cases)
    case (submits t r)
    from submit_keeps(1)[OF this assms(2) lp] lp show ?thesis by (simp add: keeps_team_def)
  next
    case (cancels c)
    from cancel_keeps(1)[OF this assms(2) lp] lp show ?thesis by (simp add: keeps_team_def)
  next
    case (ends i)
    from turn_ends_keeps[OF this] lp show ?thesis by (simp add: keeps_team_def)
  qed (use assms lp in \<open>auto simp: dispose_begin_def announceHookResult_def Let_def
      split: if_splits option.splits prod.splits\<close>)
qed

section \<open>The contract\<close>

text \<open>
  \<open>good\<close> holds of a materialized orchestration that is not disposed, whatever it was asked and
  whatever it did by itself since.
\<close>

locale scene_contract =
  fixes orch :: "'o scene_orchestration" and evolve :: "'o \<Rightarrow> 'o \<Rightarrow> bool" and good :: "'o \<Rightarrow> bool"
  assumes distinct_members: "distinct (map fst (so_members orch x))"
    and active_is_agent: "good x \<Longrightarrow> sn_active (so_snapshot orch x) = Some r \<Longrightarrow>
      (r, AgentKind) \<in> set (so_members orch x)"
    and activation_is_member: "good x \<Longrightarrow> sn_activation (so_snapshot orch x) \<in> fst ` set (so_members orch x)"
    and members_fixed: "good x \<Longrightarrow> good y \<Longrightarrow> so_members orch y = so_members orch x"
    and submit_accepts: "good x \<Longrightarrow> fst (so_submit orch t x) = None"
    and cancel_accepts: "good x \<Longrightarrow> fst (so_cancel orch x) = None"
    and good_submit: "good x \<Longrightarrow> good (snd (so_submit orch t x))"
    and good_cancel: "good x \<Longrightarrow> good (snd (so_cancel orch x))"
    and good_evolve: "good x \<Longrightarrow> evolve x y \<Longrightarrow> good y"

definition saolei_evolve :: "'w orch_env \<Rightarrow> orchestrator \<times> 'w \<Rightarrow> orchestrator \<times> 'w \<Rightarrow> bool" where
  "saolei_evolve env x y \<longleftrightarrow> orch_step env x y \<and> (disposed (fst y) \<longrightarrow> disposed (fst x))"

definition saolei_good :: "'w orch_env \<Rightarrow> orchestrator \<times> 'w \<Rightarrow> bool" where
  "saolei_good env x \<longleftrightarrow> orch_reach env (fst x) (snd x) \<and> orch_loop (fst x) \<noteq> None \<and> \<not> disposed (fst x)"

lemma saolei_good_step:
  assumes "saolei_good env x" and "orch_step env x y" and "\<not> disposed (fst y)"
  shows "saolei_good env y"
proof -
  obtain s w s' w' where xy: "x = (s, w)" "y = (s', w')" by fastforce
  with assms orch_step_keeps[of env s w s' w'] orch_reach.step[of env s w s' w'] show ?thesis
    by (simp add: saolei_good_def)
qed

lemma saolei_submits:
  assumes "saolei_good env x"
  shows "fst (saolei_submit env t x) = None" "saolei_good env (snd (saolei_submit env t x))"
proof -
  obtain s w lp where x: "x = (s, w)" "orch_loop s = Some lp" "\<not> disposed s"
    using assms by (cases x) (auto simp: saolei_good_def)
  obtain r s' w' where sub: "submit env t (s, w) = (r, s', w')" by (metis prod.collapse)
  note k = submit_keeps[OF sub x(3,2)]
  then show "fst (saolei_submit env t x) = None" using sub x(1) by (auto simp: saolei_submit_def)
  have "saolei_good env (s', w')"
    using saolei_good_step[OF assms, of "(s', w')"] orch_step.submits[OF sub] k x by (auto simp: keeps_team_def)
  then show "saolei_good env (snd (saolei_submit env t x))"
    using sub x(1) k(2) by (auto simp: saolei_submit_def)
qed

lemma saolei_cancels:
  assumes "saolei_good env x"
  shows "fst (saolei_cancel env x) = None" "saolei_good env (snd (saolei_cancel env x))"
proof -
  obtain s w lp where x: "x = (s, w)" "orch_loop s = Some lp" "\<not> disposed s"
    using assms by (cases x) (auto simp: saolei_good_def)
  obtain r s' w' where can: "cancel env (s, w) = (r, s', w')" by (metis prod.collapse)
  note k = cancel_keeps[OF can x(3,2)]
  then show "fst (saolei_cancel env x) = None" using can x(1) by (auto simp: saolei_cancel_def)
  have "saolei_good env (s', w')"
    using saolei_good_step[OF assms, of "(s', w')"] orch_step.cancels[OF can] k x by (auto simp: keeps_team_def)
  then show "saolei_good env (snd (saolei_cancel env x))"
    using can x(1) k(2) by (auto simp: saolei_cancel_def)
qed

lemma saolei_members_distinct: "distinct (map fst (saolei_members s))"
  by (simp add: saolei_members_def SAOLEI_MEMBERS_def js_simps)

lemma good_members: "saolei_good env x \<Longrightarrow> saolei_members (fst x) = SAOLEI_MEMBERS"
  by (simp add: saolei_good_def saolei_members_def orch_snapshot_of_def)

lemma member_role_kind: "i \<noteq> Announcer \<Longrightarrow> (member_role i, AgentKind) \<in> set SAOLEI_MEMBERS"
  by (cases i) (simp_all add: SAOLEI_MEMBERS_def)

lemma member_role_member: "member_role i \<in> fst ` set SAOLEI_MEMBERS"
  by (cases i) (simp_all add: SAOLEI_MEMBERS_def)

lemma busyMember_agent: "busyMember s = Some i \<Longrightarrow> i \<noteq> Announcer"
  by (auto simp: busyMember_def find_Some_iff member_busy_def split: option.splits)

interpretation saolei: scene_contract "saolei_orchestration env ids" "saolei_evolve env" "saolei_good env"
  for env ids
proof
  show "distinct (map fst (so_members (saolei_orchestration env ids) x))" for x
    by (simp add: saolei_orchestration_def saolei_members_distinct)
  show "(r, AgentKind) \<in> set (so_members (saolei_orchestration env ids) x)"
    if "saolei_good env x" "sn_active (so_snapshot (saolei_orchestration env ids) x) = Some r" for x r
    using that good_members[OF that(1)] busyMember_agent
    by (auto simp: saolei_orchestration_def saolei_snapshot_def orch_snapshot_of_def Let_def member_role_kind)
  show "sn_activation (so_snapshot (saolei_orchestration env ids) x)
      \<in> fst ` set (so_members (saolei_orchestration env ids) x)" if "saolei_good env x" for x
    using good_members[OF that]
    by (simp add: saolei_orchestration_def saolei_snapshot_def Let_def member_role_member)
  show "so_members (saolei_orchestration env ids) y = so_members (saolei_orchestration env ids) x"
    if "saolei_good env x" "saolei_good env y" for x y
    using that by (simp add: saolei_orchestration_def good_members)
  show "saolei_good env y" if "saolei_good env x" "saolei_evolve env x y" for x y
    by (rule saolei_good_step[OF that(1)]) (use that in \<open>auto simp: saolei_evolve_def saolei_good_def\<close>)
qed (simp_all add: saolei_orchestration_def saolei_submits saolei_cancels)

end
