(* ===== verification/Session_Runs.thy ===== *)
theory Session_Runs
  imports Session_Invariant Scene_Contract
begin

declare js_simps(2) [simp del]

text \<open>
  The invariant of the registry in every reachable state, the contract of an orchestration the host
  relies on with its interpretation on the saolei adapter, and the properties of the host.
\<close>

section \<open>The registry\<close>

definition apart :: "'o team_entry \<Rightarrow> 'o team_entry \<Rightarrow> bool" where
  "apart e f \<longleftrightarrow>
     te_generation e \<noteq> te_generation f \<and> set (te_streams e) \<inter> set (te_streams f) = {}"

definition sessions_ok :: "'o team_sessions \<Rightarrow> bool" where
  "sessions_ok ts \<longleftrightarrow>
     (\<forall>s e. ts_teams ts s = Some e \<longrightarrow> entry_ok (e, ts_streams ts) \<and> te_sessionName e = s \<and>
        \<not> te_disposed e \<and> te_generation e < ts_nextGeneration ts) \<and>
     (\<forall>e \<in> set (ts_closing ts). entry_ok (e, ts_streams ts) \<and> te_disposed e \<and>
        te_generation e < ts_nextGeneration ts) \<and>
     (\<forall>s1 s2 e1 e2. ts_teams ts s1 = Some e1 \<and> ts_teams ts s2 = Some e2 \<and> s1 \<noteq> s2 \<longrightarrow> apart e1 e2) \<and>
     (\<forall>s e. \<forall>f \<in> set (ts_closing ts). ts_teams ts s = Some e \<longrightarrow> apart e f) \<and>
     sorted_wrt apart (ts_closing ts)"

lemma apart_sym: "apart e f \<Longrightarrow> apart f e"
  by (auto simp: apart_def)

lemma sessions_okD:
  assumes "sessions_ok ts"
  shows "ts_teams ts s = Some e \<Longrightarrow> entry_ok (e, ts_streams ts) \<and> te_sessionName e = s \<and>
      \<not> te_disposed e \<and> te_generation e < ts_nextGeneration ts"
    and "e \<in> set (ts_closing ts) \<Longrightarrow> entry_ok (e, ts_streams ts) \<and> te_disposed e \<and>
        te_generation e < ts_nextGeneration ts"
    and "ts_teams ts s1 = Some e1 \<Longrightarrow> ts_teams ts s2 = Some e2 \<Longrightarrow> s1 \<noteq> s2 \<Longrightarrow> apart e1 e2"
    and "ts_teams ts s = Some e \<Longrightarrow> f \<in> set (ts_closing ts) \<Longrightarrow> apart e f"
    and "sorted_wrt apart (ts_closing ts)"
  using assms unfolding sessions_ok_def by blast+

lemma sessions_ok_new: "sessions_ok new_sessions"
  by (simp add: sessions_ok_def new_sessions_def)

text \<open>An entry that takes at most some unused streams stays apart from the others.\<close>

lemma apart_step:
  assumes "apart e f" "te_generation e' = te_generation e"
    and "set (te_streams e') \<subseteq> N \<union> set (te_streams e)" "N \<inter> set (te_streams f) = {}"
  shows "apart e' f"
  using assms by (auto simp: apart_def)

lemma entry_ok_elsewhere:
  assumes ok: "entry_ok (f, st)" and a: "apart e f" "N \<inter> set (te_streams f) = {}"
    and st: "\<And>i. i \<notin> N \<union> set (te_streams e) \<Longrightarrow> st' i = st i"
  shows "entry_ok (f, st')"
  by (rule entry_ok_cong[OF _ ok]) (use a st in \<open>auto simp: apart_def\<close>)

lemma replace_live:
  assumes ok: "sessions_ok ts" and e: "ts_teams ts s = Some e"
    and e': "entry_ok (e', st')" "te_generation e' = te_generation e" "te_sessionName e' = te_sessionName e"
      "\<not> te_disposed e'" "set (te_streams e') \<subseteq> N \<union> set (te_streams e)"
    and N: "\<And>s f. ts_teams ts s = Some f \<Longrightarrow> N \<inter> set (te_streams f) = {}"
      "\<And>f. f \<in> set (ts_closing ts) \<Longrightarrow> N \<inter> set (te_streams f) = {}"
    and st: "\<And>i. i \<notin> N \<union> set (te_streams e) \<Longrightarrow> st' i = ts_streams ts i"
  shows "sessions_ok (ts\<lparr>ts_teams := (ts_teams ts)(s \<mapsto> e'), ts_streams := st'\<rparr>)"
proof -
  note okD = sessions_okD[OF ok]
  have other: "entry_ok (f, st') \<and> apart e' f" if "ts_teams ts q = Some f" "q \<noteq> s" for q f
    using okD(1)[OF that(1)] okD(3)[OF e that(1)] that(2) N(1)[OF that(1)] st e'(2,5)
    by (auto intro: entry_ok_elsewhere apart_step)
  have closed: "entry_ok (f, st') \<and> apart e' f" if "f \<in> set (ts_closing ts)" for f
    using okD(2)[OF that] okD(4)[OF e that] N(2)[OF that] st e'(2,5)
    by (auto intro: entry_ok_elsewhere apart_step)
  show ?thesis
    unfolding sessions_ok_def
  proof (intro conjI allI impI ballI; (elim conjE)?)
    fix q f assume "ts_teams (ts\<lparr>ts_teams := (ts_teams ts)(s \<mapsto> e'), ts_streams := st'\<rparr>) q = Some f"
    then show "entry_ok (f, ts_streams (ts\<lparr>ts_teams := (ts_teams ts)(s \<mapsto> e'), ts_streams := st'\<rparr>))"
      "te_sessionName f = q" "\<not> te_disposed f"
      "te_generation f < ts_nextGeneration (ts\<lparr>ts_teams := (ts_teams ts)(s \<mapsto> e'), ts_streams := st'\<rparr>)"
      using e' okD(1)[OF e] okD(1)[of q f] other[of q f] by (auto split: if_splits)
  next
    fix s1 s2 e1 e2 assume "s1 \<noteq> s2" and
      "ts_teams (ts\<lparr>ts_teams := (ts_teams ts)(s \<mapsto> e'), ts_streams := st'\<rparr>) s1 = Some e1"
      "ts_teams (ts\<lparr>ts_teams := (ts_teams ts)(s \<mapsto> e'), ts_streams := st'\<rparr>) s2 = Some e2"
    then show "apart e1 e2"
      using other[of s1 e1] other[of s2 e2] okD(3)[of s1 e1 s2 e2]
      by (auto split: if_splits intro: apart_sym)
  qed (use closed okD in \<open>auto split: if_splits\<close>)
qed

lemma replace_closing:
  assumes ok: "sessions_ok ts" and e: "ts_closing ts = before @ e # after"
    and e': "entry_moves (e, ts_streams ts) (e', st')"
  shows "sessions_ok (ts\<lparr>ts_closing := before @ e' # after, ts_streams := st'\<rparr>)"
proof -
  note okD = sessions_okD[OF ok]
  have m: "entry_ok (e', st')" "set (te_streams e') \<subseteq> set (te_streams e)"
    "\<And>i. i \<notin> set (te_streams e) \<Longrightarrow> st' i = ts_streams ts i"
    "te_generation e' = te_generation e" "te_disposed e' = te_disposed e"
    using e' by (simp_all add: entry_moves_def)
  have elsewhere: "entry_ok (f, st') \<and> apart e' f" if "entry_ok (f, ts_streams ts)" "apart e f" for f
    using that m by (auto intro: entry_ok_elsewhere[where N = "{}"] apart_step[where N = "{}"])
  have e_in: "e \<in> set (ts_closing ts)" by (simp add: e)
  have live: "entry_ok (f, st') \<and> apart f e'" if "ts_teams ts q = Some f" for q f
    using elsewhere[of f] okD(1)[OF that] okD(4)[OF that e_in] apart_sym by blast
  have sorted: "sorted_wrt apart before" "sorted_wrt apart after"
    "\<forall>f \<in> set before. apart f e \<and> (\<forall>g \<in> set after. apart f g)" "\<forall>g \<in> set after. apart e g"
    using okD(5) by (auto simp: e sorted_wrt_append)
  have rest: "entry_ok (f, st') \<and> apart e' f" if "f \<in> set before \<union> set after" for f
  proof -
    have "apart e f" using sorted(3,4) that by (auto intro: apart_sym)
    then show ?thesis using elsewhere[of f] okD(2)[of f] that by (auto simp: e)
  qed
  show ?thesis
    using okD(2)[OF e_in] okD(1,2,3,4) m(1,4,5) live rest sorted
    unfolding sessions_ok_def by (auto simp: sorted_wrt_append e intro: apart_sym)
qed

section \<open>Steps\<close>

lemma sessions_ok_close:
  assumes ok: "sessions_ok ts" and e: "ts_teams ts s = Some e"
  shows "sessions_ok (ts\<lparr>ts_teams := (ts_teams ts)(s := None),
      ts_closing := teardown_begin orch e # ts_closing ts\<rparr>)"
proof -
  note okD = sessions_okD[OF ok]
  have t: "apart (teardown_begin orch e) f \<longleftrightarrow> apart e f" for f
    by (simp add: apart_def teardown_begin_def Let_def)
  have "apart f (teardown_begin orch e)" if "ts_teams ts q = Some f" "q \<noteq> s" for q f
    using okD(3)[OF e that(1)] that(2) t apart_sym by blast
  then show ?thesis
    using okD teardown_begin_ok[of e "ts_streams ts" orch] okD(1)[OF e] okD(4)[OF e]
    unfolding sessions_ok_def by (auto simp: t)
qed

lemma sessions_ok_finish:
  assumes ok: "sessions_ok ts"
  shows "sessions_ok (finish_teardown gen ts)"
proof (cases "List.find (\<lambda>entry. te_generation entry = gen) (ts_closing ts)")
  case None
  then show ?thesis using ok by (simp add: finish_teardown_def)
next
  case (Some e)
  then have e: "e \<in> set (ts_closing ts)" "te_generation e = gen" by (auto simp: find_Some_iff)
  note okD = sessions_okD[OF ok]
  obtain before after where c: "ts_closing ts = before @ e # after" using split_list[OF e(1)] by blast
  let ?st = "snd (teardown_end (e, ts_streams ts))"
  have elsewhere: "entry_ok (f, ?st)" if "entry_ok (f, ts_streams ts)" "apart e f" for f
    by (rule entry_ok_elsewhere[OF that(1,2), of "{}"]) (simp_all add: teardown_end_streams)
  have live: "entry_ok (f, ?st)" if "ts_teams ts q = Some f" for q f
    using elsewhere okD(1)[OF that] okD(4)[OF that e(1)] apart_sym by blast
  have closed: "entry_ok (f, ?st)" if "f \<in> set (ts_closing ts)" "te_generation f \<noteq> gen" for f
  proof -
    have "f \<noteq> e" using that(2) e(2) by auto
    then have "f \<in> set before \<or> f \<in> set after" using that(1) by (auto simp: c)
    then have "apart e f" using okD(5) by (auto simp: c sorted_wrt_append intro: apart_sym)
    with elsewhere okD(2)[OF that(1)] show ?thesis by blast
  qed
  show ?thesis
    using okD live closed unfolding sessions_ok_def
    by (auto simp: finish_teardown_def Some sorted_wrt_filter)
qed

lemma sessions_ok_send:
  assumes ok: "sessions_ok ts" and i: "unused_stream ts i"
    and send: "send orch pe now session t i ts = (r, ts')"
  shows "sessions_ok ts'"
proof (cases "liveEntry ts session")
  case None
  then show ?thesis using ok send by (simp add: send_def requireEntry_def)
next
  case (Some e)
  then have e: "ts_teams ts session = Some e" "\<not> te_disposed e"
    by (auto simp: liveEntry_def split: option.splits if_splits)
  have fresh: "ts_streams ts i = \<lparr>ss_written = [], ss_closed = None\<rparr>" "i \<notin> set (te_streams e)"
    using i e(1) by (auto simp: unused_stream_def)
  let ?before = "so_snapshot orch (te_orchestrator e)"
  let ?q = "sn_active ?before \<noteq> None"
  let ?st = "if ?q then write_stream i (queued_frame session (sn_queued ?before + 1)) (ts_streams ts) else ts_streams ts"
  show ?thesis
  proof (cases "?q \<and> pe_broken pe i")
    case True
    then show ?thesis using ok send Some by (simp add: send_def requireEntry_def Let_def)
  next
    case False
    obtain r' e' st' where a: "accepts orch pe now t i (e, ?st) = (r', e', st')" by (metis prod.collapse)
    have ts': "ts' = ts\<lparr>ts_teams := (ts_teams ts)(session \<mapsto> e'), ts_streams := st'\<rparr>"
      using send Some False a by (auto simp: send_def requireEntry_def Let_def put_team_entry_def)
    have "entry_ok (e, ?st)"
      by (rule entry_ok_cong[of _ _ "ts_streams ts"])
        (use fresh(2) sessions_okD(1)[OF ok e(1)] in \<open>auto simp: write_stream_def\<close>)
    moreover have "ss_closed (?st i) = None"
      "ss_written (?st i) = [] \<or> (\<exists>session n. ss_written (?st i) = [queued_frame session n])"
      using fresh(1) by (auto simp: write_stream_def)
    ultimately have a': "entry_ok (e, ?st)" "ss_closed (?st i) = None"
      "ss_written (?st i) = [] \<or> (\<exists>session n. ss_written (?st i) = [queued_frame session n])" by blast+
    note m = accepts_moves[OF a'(1) fresh(2) a'(2,3) e(2) a]
    show ?thesis
      unfolding ts'
      by (rule replace_live[OF ok e(1) m(1,4,5,6), of "{i}"])
        (use m(2,3) i in \<open>auto simp: unused_stream_def write_stream_def\<close>)
  qed
qed

lemma sessions_ok_moves:
  assumes ok: "sessions_ok ts" and e: "ts_teams ts s = Some e"
    and m: "entry_moves (e, ts_streams ts) (e', st')"
  shows "sessions_ok (ts\<lparr>ts_teams := (ts_teams ts)(s \<mapsto> e'), ts_streams := st'\<rparr>)"
  by (rule replace_live[OF ok e, of _ _ "{}"])
    (use m sessions_okD(1)[OF ok e] in \<open>auto simp: entry_moves_def\<close>)

lemma sessions_ok_cancel:
  assumes ok: "sessions_ok ts" and c: "session_cancel orch session ts = (r, ts')"
  shows "sessions_ok ts'"
proof (cases "liveEntry ts session")
  case None
  then show ?thesis using ok c by (simp add: session_cancel_def requireEntry_def)
next
  case (Some e)
  then have e: "ts_teams ts session = Some e"
    by (auto simp: liveEntry_def split: option.splits if_splits)
  have "ts' = ts\<lparr>ts_teams := (ts_teams ts)(session \<mapsto> snd (cancel_entry orch e)), ts_streams := ts_streams ts\<rparr>"
    using c Some by (auto simp: session_cancel_def requireEntry_def put_team_entry_def split: prod.splits)
  with sessions_ok_moves[OF ok e moves_cancel] sessions_okD(1)[OF ok e] show ?thesis by simp
qed

lemma sessions_ok_made:
  assumes ok: "sessions_ok ts" and none: "ts_teams ts session = None"
    and f: "materialize_finish orch deps session input made createTime now ts = (r, ts')"
    and d: "\<And>x. distinct (map fst (so_members orch x))"
  shows "sessions_ok ts'"
proof (cases "ts' = ts")
  case False
  with f obtain x ms where made: "made = Inr x"
    and b: "build_members orch deps session (fst input) (snd input) x (so_members orch x) = Some ms"
    by (auto simp: materialize_finish_def split: sum.splits scene_throw.splits option.splits)
  let ?e = "new_entry session (fst input) x ms (or_default createTime now) now (ts_nextGeneration ts)"
  have ts': "ts' = ts\<lparr>ts_teams := (ts_teams ts)(session \<mapsto> ?e), ts_nextGeneration := ts_nextGeneration ts + 1\<rparr>"
    using f made b by (simp add: materialize_finish_def Let_def)
  note okD = sessions_okD[OF ok]
  have e: "entry_ok (?e, ts_streams ts)" by (rule new_entry_ok[OF b d])
  have new: "te_streams ?e = []" "te_generation ?e = ts_nextGeneration ts" "te_sessionName ?e = session"
    "\<not> te_disposed ?e" by (simp_all add: new_entry_def)
  have a: "apart ?e f \<and> apart f ?e" if "te_generation f < ts_nextGeneration ts" for f
    using that by (simp add: apart_def new)
  show ?thesis
    using okD e new a unfolding sessions_ok_def ts' by (auto simp: less_Suc_eq)
qed (use ok in simp)

lemma sessions_step_ok:
  assumes "sessions_step orch evolve built deps ts ts'" and "sessions_ok ts"
    and "\<And>x. distinct (map fst (so_members orch x))"
  shows "sessions_ok ts'"
  using assms(1)
proof cases
  case (sends i pe now session t r)
  then show ?thesis by (rule sessions_ok_send[OF assms(2)])
next
  case (cancels session r)
  then show ?thesis by (rule sessions_ok_cancel[OF assms(2)])
next
  case (live session e e' st')
  then have "entry_moves (e, ts_streams ts) (e', st')"
    using sessions_okD(1)[OF assms(2)] entry_step_moves by blast
  with live show ?thesis using sessions_ok_moves[OF assms(2)] by blast
next
  case (closing before e after e' st')
  then have "e \<in> set (ts_closing ts)" by simp
  then have "entry_moves (e, ts_streams ts) (e', st')"
    using sessions_okD(2)[OF assms(2)] entry_step_moves closing(3) by blast
  with closing show ?thesis using replace_closing[OF assms(2)] by blast
next
  case (begins session members r)
  then show ?thesis
    using assms(2) sessions_ok_close[OF assms(2)]
    by (auto simp: materialize_begin_def split: sum.splits option.splits)
next
  case (made session input outcome createTime now r)
  then show ?thesis using sessions_ok_made[OF assms(2)] assms(3) by blast
next
  case (stops session)
  then show ?thesis
    using assms(2) sessions_ok_close[OF assms(2)] by (auto simp: shutdown_entry_def split: option.splits)
qed (use sessions_ok_finish[OF assms(2)] in simp)

section \<open>The orchestrations behind the entries\<close>

fun role_kind :: "member_runtime \<Rightarrow> jstr \<times> member_kind" where
  "role_kind (AgentRuntime m) = (ar_role m, AgentKind)"
| "role_kind (AnnounceOnlyRuntime role) = (role, AnnounceOnlyKind)"

lemma fst_role_kind [simp]: "fst (role_kind m) = runtime_role m"
  by (cases m) simp_all

abbreviation kinds :: "'o team_entry \<Rightarrow> (jstr \<times> member_kind) list" where
  "kinds e \<equiv> map role_kind (te_members e)"

lemma with_collector_kinds [simp]: "map role_kind (with_collector role c ms) = map role_kind ms"
  by (induction role c ms rule: with_collector.induct) simp_all

lemma mark_kinds [simp]:
  "kinds (mark_in_flight orch status e) = kinds e"
  "te_orchestrator (mark_in_flight orch status e) = te_orchestrator e"
  by (simp_all add: mark_in_flight_def split: option.split)

lemma sinks_face:
  "sinks pe h (e, st) = (e', st') \<Longrightarrow> te_members e' = te_members e \<and> te_orchestrator e' = te_orchestrator e"
  by (auto simp: sinks_def Let_def split: prod.splits)

lemma dispatch_face:
  "dispatch_envelope t envelope e = (e', h) \<Longrightarrow> kinds e' = kinds e \<and> te_orchestrator e' = te_orchestrator e"
  by (auto simp: dispatch_envelope_def split: option.splits member_runtime.splits prod.splits)

lemma member_event_face:
  "member_event_in pe t envelope (e, st) = (e', st') \<Longrightarrow>
     kinds e' = kinds e \<and> te_orchestrator e' = te_orchestrator e"
  by (auto simp: member_event_in_def split: prod.splits dest!: sinks_face dispatch_face)

lemma watch_face:
  "watch_fires orch pe (e, st) = (e', st') \<Longrightarrow> te_members e' = te_members e \<and> te_orchestrator e' = te_orchestrator e"
  by (auto simp: watch_fires_def Let_def failStreams_def endStreams_def split: if_splits option.splits)

lemma accepts_face:
  "accepts orch pe now t i (e, st) = (r, e', st') \<Longrightarrow>
     kinds e' = kinds e \<and> te_orchestrator e' = snd (so_submit orch t (te_orchestrator e)) \<and>
     r = (case fst (so_submit orch t (te_orchestrator e)) of Some x \<Rightarrow> Inl (mapOrchestratorError x) | None \<Rightarrow> Inr ())"
  by (auto simp: accepts_def attach_def detach_def watchQuiescence_def Let_def
      split: prod.splits option.splits dest!: sinks_face)

lemma cancel_face:
  "kinds (snd (cancel_entry orch e)) = kinds e"
  "te_orchestrator (snd (cancel_entry orch e)) = snd (so_cancel orch (te_orchestrator e))"
  by (auto simp: cancel_entry_def watchQuiescence_def Let_def split: prod.splits option.splits scene_throw.splits)

lemma build_members_kinds:
  "build_members orch deps session template config o' projection = Some ms \<Longrightarrow>
     map role_kind ms = projection"
  by (induction orch deps session template config o' projection arbitrary: ms rule: build_members.induct)
    (auto split: option.splits)

context scene_contract
begin

definition backed :: "'o team_entry \<Rightarrow> bool" where
  "backed e \<longleftrightarrow> good (te_orchestrator e) \<and> kinds e = so_members orch (te_orchestrator e)"

definition all_backed :: "'o team_sessions \<Rightarrow> bool" where
  "all_backed ts \<longleftrightarrow> (\<forall>s e. ts_teams ts s = Some e \<longrightarrow> backed e)"

lemma backed_moves:
  assumes "backed e" "kinds e' = kinds e" "good (te_orchestrator e')"
  shows "backed e'"
  using assms members_fixed[of "te_orchestrator e" "te_orchestrator e'"] by (simp add: backed_def)

lemma entry_step_backed:
  assumes "entry_step orch evolve (e, st) (e', st')" and b: "backed e"
  shows "backed e'"
  using assms(1)
proof cases
  case (member pe t envelope)
  with member_event_face[of pe t envelope e st e' st'] b show ?thesis
    by (intro backed_moves[OF b]) (simp_all add: backed_def)
next
  case (watch pe)
  with watch_face[of orch pe e st e' st'] b show ?thesis
    by (intro backed_moves[OF b]) (simp_all add: backed_def)
next
  case (detaches i)
  then show ?thesis using b by (simp add: backed_def detach_def)
next
  case (evolves o')
  have "good o'" by (rule good_evolve[OF _ evolves(3)]) (use b in \<open>simp add: backed_def\<close>)
  with evolves show ?thesis by (intro backed_moves[OF b]) simp_all
qed

lemma send_backed:
  assumes b: "all_backed ts" and send: "send orch pe now session t i ts = (r, ts')"
  shows "all_backed ts'"
    and "liveEntry ts session = Some e \<Longrightarrow> \<not> pe_broken pe i \<Longrightarrow> r = Inr ()"
proof -
  have "all_backed ts' \<and> (liveEntry ts session = Some e \<longrightarrow> \<not> pe_broken pe i \<longrightarrow> r = Inr ())"
  proof (cases "liveEntry ts session")
    case None
    then show ?thesis using b send by (simp add: send_def requireEntry_def)
  next
    case (Some f)
    then have f: "backed f" using b by (auto simp: all_backed_def liveEntry_def split: option.splits if_splits)
    let ?before = "so_snapshot orch (te_orchestrator f)"
    let ?st = "if sn_active ?before \<noteq> None then write_stream i (queued_frame session (sn_queued ?before + 1)) (ts_streams ts)
      else ts_streams ts"
    obtain r' f' st' where a: "accepts orch pe now t i (f, ?st) = (r', f', st')" by (metis prod.collapse)
    note face = accepts_face[OF a]
    have "backed f'"
      by (rule backed_moves[OF f]) (use face f good_submit in \<open>auto simp: backed_def\<close>)
    moreover have "r' = Inr ()" using face f submit_accepts by (simp add: backed_def)
    moreover have "ts' = ts \<and> pe_broken pe i \<or> r = r' \<and> ts' = put_team_entry session (f', st') ts"
      using send Some a by (auto simp: send_def requireEntry_def Let_def split: if_splits)
    ultimately show ?thesis using b by (auto simp: all_backed_def put_team_entry_def split: if_splits)
  qed
  then show "all_backed ts'" "liveEntry ts session = Some e \<Longrightarrow> \<not> pe_broken pe i \<Longrightarrow> r = Inr ()" by simp_all
qed

lemma cancel_backed:
  assumes b: "all_backed ts" and c: "session_cancel orch session ts = (r, ts')"
  shows "all_backed ts'"
proof (cases "liveEntry ts session")
  case None
  then show ?thesis using b c by (simp add: session_cancel_def requireEntry_def)
next
  case (Some f)
  then have f: "backed f" using b by (auto simp: all_backed_def liveEntry_def split: option.splits if_splits)
  have "backed (snd (cancel_entry orch f))"
    by (rule backed_moves[OF f]) (use f good_cancel in \<open>auto simp: cancel_face backed_def\<close>)
  then show ?thesis
    using b c Some by (auto simp: session_cancel_def requireEntry_def all_backed_def put_team_entry_def split: prod.splits if_splits)
qed

lemma made_backed:
  assumes b: "all_backed ts" and built: "\<And>x. made = Inr x \<Longrightarrow> good x"
    and f: "materialize_finish orch deps session input made createTime now ts = (r, ts')"
  shows "all_backed ts'"
proof (cases "ts' = ts")
  case False
  with f obtain x ms where made: "made = Inr x"
    and m: "build_members orch deps session (fst input) (snd input) x (so_members orch x) = Some ms"
    by (auto simp: materialize_finish_def split: sum.splits scene_throw.splits option.splits)
  then have "ts_teams ts' = (ts_teams ts)(session \<mapsto>
      new_entry session (fst input) x ms (or_default createTime now) now (ts_nextGeneration ts))"
    using f by (auto simp: materialize_finish_def Let_def)
  then show ?thesis
    using b built[OF made] build_members_kinds[OF m]
    by (auto simp: all_backed_def backed_def new_entry_def)
qed (use b in simp)

lemma session_step_backed:
  assumes "sessions_step orch evolve good deps ts ts'" and "all_backed ts"
  shows "all_backed ts'"
  using assms(1)
proof cases
  case (sends i pe now session t r)
  then show ?thesis using send_backed(1)[OF assms(2)] by blast
next
  case (cancels session r)
  then show ?thesis using cancel_backed[OF assms(2)] by blast
next
  case (live session e e' st')
  then show ?thesis using assms(2) entry_step_backed by (fastforce simp: all_backed_def)
next
  case (begins session members r)
  then show ?thesis using assms(2)
    by (auto simp: materialize_begin_def all_backed_def split: sum.splits option.splits if_splits)
next
  case (made session input outcome createTime now r)
  then show ?thesis using made_backed[OF assms(2)] by blast
qed (use assms(2) in \<open>auto simp: all_backed_def finish_teardown_def shutdown_entry_def split: option.splits if_splits\<close>)

theorem session_reach_ok:
  assumes "session_reach orch evolve good deps ts"
  shows "sessions_ok ts" "all_backed ts"
proof -
  have "sessions_ok ts \<and> all_backed ts"
    using assms
  proof induction
    case start
    show ?case using sessions_ok_new by (simp add: all_backed_def) (simp add: new_sessions_def)
  next
    case (step ts ts')
    then show ?case using sessions_step_ok[OF step.hyps(2)] distinct_members session_step_backed[OF step.hyps(2)] by blast
  qed
  then show "sessions_ok ts" "all_backed ts" by simp_all
qed

text \<open>The active member a view shows is on its roster.\<close>

lemma active_on_roster:
  assumes "backed e"
  shows "tv_activeMember (toTeamView orch e) \<in> set (map mv_role (tv_members (toTeamView orch e)))"
proof -
  let ?s = "so_snapshot orch (te_orchestrator e)"
  have good: "good (te_orchestrator e)" and k: "so_members orch (te_orchestrator e) = kinds e"
    using assms by (simp_all add: backed_def)
  have roles: "fst ` set (so_members orch (te_orchestrator e)) = runtime_role ` set (te_members e)"
    by (simp add: k image_image fst_role_kind)
  have "tv_activeMember (toTeamView orch e) \<in> fst ` set (so_members orch (te_orchestrator e))"
    using active_is_agent[OF good] activation_is_member[OF good]
    by (force simp: toTeamView_def Let_def split: option.split)
  then show ?thesis unfolding roles by (force simp: toTeamView_def Let_def memberStateView_def)
qed

end

end
