(* ===== verification/Session_Properties.thy ===== *)
theory Session_Properties
  imports Session_Runs
begin

declare js_simps(2) [simp del]

text \<open>
  The properties of the agent host over the saolei orchestration: what the streams of a session show,
  what \<open>Send\<close>, \<open>Cancel\<close>, \<open>UpdateTeam\<close> and \<open>GetTeamMember\<close> guarantee.
\<close>

abbreviation saolei_sessions ::
  "'w orch_env \<Rightarrow> (member_id \<Rightarrow> jstr) \<Rightarrow> materialize_deps \<Rightarrow> (orchestrator \<times> 'w) team_sessions \<Rightarrow> bool" where
  "saolei_sessions env ids \<equiv>
     session_reach (saolei_orchestration env ids) (saolei_evolve env) (saolei_good env)"

section \<open>A concrete registry\<close>

definition sample_deps :: materialize_deps where
  "sample_deps =
     \<lparr>md_scenes = SCENES, md_preset = (\<lambda>p. PresetView (Some p)), md_models = (\<lambda>_. Inr [js ''glm-5.3'']),
      md_glmModel = None\<rparr>"

definition sample_session :: jstr where
  "sample_session = js ''templates/saolei/sessions/s1''"

definition sample_members :: "member_options list" where
  "sample_members =
     [\<lparr>mo_role = js ''planner'', mo_preset = js ''templates/saolei/presets/planner'', mo_model = None\<rparr>,
      \<lparr>mo_role = js ''player'', mo_preset = js ''templates/saolei/presets/player'',
       mo_model = Some (js ''glm-responses/glm-5.3'')\<rparr>]"

definition sample_ids :: "member_id \<Rightarrow> jstr" where
  "sample_ids i = js ''agent-'' @ member_role i"

abbreviation sample_orchestration :: "(orchestrator \<times> unit) scene_orchestration" where
  "sample_orchestration \<equiv> saolei_orchestration sample_env sample_ids"

definition sample_input :: "jstr \<times> scene_member_config list" where
  "sample_input =
     (js ''saolei'',
      [\<lparr>sm_role = js ''player'', sm_preset = js ''player'', sm_provider = Some (js ''glm-responses''),
        sm_model = Some (js ''glm-5.3'')\<rparr>,
       \<lparr>sm_role = js ''planner'', sm_preset = js ''planner'', sm_provider = Some (js ''glm-responses''),
        sm_model = Some (js ''glm-5.3'')\<rparr>])"

lemma sample_input: "materialize_input sample_deps sample_session sample_members = Inr sample_input"
  by code_simp

text \<open>The registry after an orchestration in state \<open>x\<close> has been built for the session.\<close>

definition sample_sessions :: "orchestrator \<times> unit \<Rightarrow> (orchestrator \<times> unit) team_sessions" where
  "sample_sessions x = snd (materialize_finish sample_orchestration sample_deps sample_session sample_input
     (Inr x) None 5 new_sessions)"

lemma sample_reachable:
  assumes "saolei_good sample_env x"
  shows "saolei_sessions sample_env sample_ids sample_deps (sample_sessions x)"
proof (rule session_reach.step[OF session_reach.start])
  obtain r ts where f: "materialize_finish sample_orchestration sample_deps sample_session sample_input
     (Inr x) None 5 new_sessions = (r, ts)" by fastforce
  then have "sample_sessions x = ts" by (simp add: sample_sessions_def)
  with sessions_step.made[OF sample_input _ _ f] assms
  show "sessions_step sample_orchestration (saolei_evolve sample_env) (saolei_good sample_env) sample_deps
      new_sessions (sample_sessions x)"
    by (simp add: new_sessions_def)
qed

lemma good_asked: "saolei_good sample_env (team_asked, ())"
proof -
  have "\<not> disposed team_asked" "orch_loop team_asked \<noteq> None" by code_simp+
  then show ?thesis using sample_reach(1) by (simp add: saolei_good_def)
qed

lemma good_frozen: "saolei_good sample_env (team_frozen, ())"
proof -
  have "\<not> disposed team_frozen" "orch_loop team_frozen \<noteq> None" by code_simp+
  moreover have "orch_reach sample_env team_frozen ()"
    unfolding team_frozen_def by (rule reach_ends[OF sample_reach(3)])
  ultimately show ?thesis by (simp add: saolei_good_def)
qed

lemma good_recovering: "saolei_good sample_env (team_recovering, ())"
proof -
  have "\<not> disposed team_recovering" "orch_loop team_recovering \<noteq> None" by code_simp+
  then show ?thesis using sample_reach(4) by (simp add: saolei_good_def)
qed

definition open_peers :: peers where
  "open_peers = \<lparr>pe_broken = (\<lambda>_. False), pe_can_fail = (\<lambda>_. True)\<rparr>"

text \<open>Two clients send while the planner's turn is in flight, and the planner starts to stream.\<close>

definition sent_to :: "orchestrator \<Rightarrow> (orchestrator \<times> unit) team_sessions" where
  "sent_to s = snd (send sample_orchestration open_peers 10 sample_session (js ''hi'') 7 (sample_sessions (s, ())))"

abbreviation sample_sent :: "(orchestrator \<times> unit) team_sessions" where
  "sample_sent \<equiv> sent_to team_asked"

definition sample_running :: member_envelope where
  "sample_running = \<lparr>en_role = js ''planner'', en_memberId = js ''agent-planner'',
     en_event = LiveChannel (StatusEvent (js ''running''))\<rparr>"

definition sample_entry :: "(orchestrator \<times> unit) team_entry \<times> (nat \<Rightarrow> stream_state)" where
  "sample_entry = member_event_in open_peers \<lparr>tk_now = 11, tk_uuid = js ''turn-1''\<rparr> sample_running
     (the (ts_teams sample_sent sample_session), ts_streams sample_sent)"

definition sample_live :: "(orchestrator \<times> unit) team_sessions" where
  "sample_live = sample_sent\<lparr>ts_teams := (ts_teams sample_sent)(sample_session \<mapsto> fst sample_entry),
     ts_streams := snd sample_entry\<rparr>"

lemma sample_unused: "unused_stream (sample_sessions x) 7"
  by (auto simp: unused_stream_def sample_sessions_def materialize_finish_def new_sessions_def new_entry_def Let_def
      split: option.splits if_splits)

lemma sent_reachable:
  assumes "saolei_good sample_env (s, ())"
  shows "saolei_sessions sample_env sample_ids sample_deps (sent_to s)"
proof (rule session_reach.step[OF sample_reachable[OF assms]])
  obtain r ts where f: "send sample_orchestration open_peers 10 sample_session (js ''hi'') 7
     (sample_sessions (s, ())) = (r, ts)" by fastforce
  from sessions_step.sends[OF sample_unused f] show "sessions_step sample_orchestration (saolei_evolve sample_env)
      (saolei_good sample_env) sample_deps (sample_sessions (s, ())) (sent_to s)"
    using f by (simp add: sent_to_def)
qed

lemmas sample_sent_reachable = sent_reachable[OF good_asked]

lemma sample_sent_entry: "ts_teams sample_sent sample_session \<noteq> None"
  by code_simp

lemma sample_live_reachable: "saolei_sessions sample_env sample_ids sample_deps sample_live"
proof (rule session_reach.step[OF sample_sent_reachable])
  obtain e where e: "ts_teams sample_sent sample_session = Some e" using sample_sent_entry by blast
  have "entry_step sample_orchestration (saolei_evolve sample_env) (e, ts_streams sample_sent) (fst sample_entry, snd sample_entry)"
    by (rule entry_step.member) (simp add: sample_entry_def e)
  from sessions_step.live[OF e this] show "sessions_step sample_orchestration (saolei_evolve sample_env)
      (saolei_good sample_env) sample_deps sample_sent sample_live"
    by (simp add: sample_live_def)
qed

lemma sample_entry_run:
  "(case sample_entry of (entry, streams) \<Rightarrow>
      (7 \<in> set (te_streams entry), te_disposed entry, map ev_payload (th_sunk (te_history entry)),
       th_merge (te_history entry), ss_written (streams 7))) =
   (True, False, [TeamMessage (js ''user'') 1 (js ''1''), TurnStart],
    [\<lparr>me_member = js ''user'', me_message = 1, me_seq = 1\<rparr>],
    [\<lparr>ev_session = sample_session, ev_turnId = Some [], ev_member = None, ev_payload = Queued 1\<rparr>,
     \<lparr>ev_session = sample_session, ev_turnId = None, ev_member = None,
       ev_payload = TeamMessage (js ''user'') 1 (js ''1'')\<rparr>,
     \<lparr>ev_session = sample_session, ev_turnId = Some (js ''turn-1''), ev_member = Some (js ''planner''),
       ev_payload = TurnStart\<rparr>])"
  by code_simp

lemma sample_live_entry:
  "ts_teams sample_live sample_session = Some (fst sample_entry)" "ts_streams sample_live = snd sample_entry"
  "7 \<in> set (te_streams (fst sample_entry))"
  "map ev_payload (th_sunk (te_history (fst sample_entry))) = [TeamMessage (js ''user'') 1 (js ''1''), TurnStart]"
  "map ev_payload (ss_written (snd sample_entry 7)) =
     [Queued 1, TeamMessage (js ''user'') 1 (js ''1''), TurnStart]"
  using sample_entry_run by (simp_all add: sample_live_def split_beta)

section \<open>Properties\<close>

lemma entry_of_reach:
  assumes "saolei_sessions env ids deps ts" and "ts_teams ts session = Some entry"
  shows "entry_ok (entry, ts_streams ts)" "\<not> te_disposed entry" "te_sessionName entry = session"
  using sessions_okD(1)[OF saolei.session_reach_ok(1)[OF assms(1)] assms(2)] by simp_all



text \<open>C24: \<open>ListTeamMessages\<close> and the stream never diverge: the merged sequence of a live team is numbered from
  one without a gap, its messages have pairwise different ids and are all stored, and the \<open>team_message\<close>
  frames of the session are exactly its entries, in order.\<close>

theorem merged_sequence_is_streamed:
  assumes "saolei_sessions env ids deps ts" and "ts_teams ts session = Some entry"
    and "session_listTeamMessages session ts = Inr entries"
  shows "map me_seq entries = [1..<length entries + 1] \<and>
    filter is_team_frame (th_sunk (te_history entry)) = map (team_frame session) entries \<and>
    (\<forall>e \<in> set entries. \<exists>m. th_messages (te_history entry) (me_message e) = Some m \<and>
       hm_messageId m = js ''m'' @ str_of_nat (me_message e)) \<and>
    distinct (map me_message entries)"
proof -
  note ok = entry_of_reach[OF assms(1,2)]
  have entries: "entries = th_merge (te_history entry)"
    using assms(2,3) ok(2) by (simp add: session_listTeamMessages_def requireEntry_def liveEntry_def listTeamMessages_def)
  have h: "history_ok (te_history entry)" "th_session (te_history entry) = session"
    using entry_okD(1,2)[OF ok(1)] ok(3) by simp_all
  have seq: "map me_seq entries = [1..<th_nextSeq (te_history entry)]" using history_okD(1)[OF h(1)] by (simp add: entries)
  then have "length entries = th_nextSeq (te_history entry) - 1" by (metis length_map length_upt)
  moreover have "1 \<le> th_nextSeq (te_history entry)" using h(1) by (simp add: history_ok_def)
  ultimately have "map me_seq entries = [1..<length entries + 1]" using seq by simp
  moreover have "distinct (map me_message entries)"
    using history_okD(2)[OF h(1)] by (auto simp: refs_ok_def entries strict_sorted_iff)
  moreover have "\<exists>m. th_messages (te_history entry) (me_message e) = Some m \<and>
       hm_messageId m = js ''m'' @ str_of_nat (me_message e)" if "e \<in> set entries" for e
    using history_okD(2)[OF h(1)] that history_okD(6)[OF h(1)] by (auto simp: refs_ok_def entries)
  ultimately show ?thesis using history_okD(4)[OF h(1)] h(2) by (simp add: entries)
qed

theorem merged_sequence_is_streamed_witness:
  "\<exists>entries. session_listTeamMessages sample_session sample_live = Inr entries \<and> entries \<noteq> [] \<and>
    filter is_team_frame (th_sunk (te_history (fst sample_entry))) = map (team_frame sample_session) entries"
proof -
  have "\<not> te_disposed (fst sample_entry)" "th_merge (te_history (fst sample_entry)) \<noteq> []" by code_simp+
  then obtain entries where e: "session_listTeamMessages sample_session sample_live = Inr entries" "entries \<noteq> []"
    by (simp add: session_listTeamMessages_def requireEntry_def liveEntry_def listTeamMessages_def sample_live_entry(1))
  from merged_sequence_is_streamed[OF sample_live_reachable sample_live_entry(1) e(1)] e show ?thesis by blast
qed

text \<open>C25: On the wire every agent member of a live team runs one turn after another: each turn opens with a
  \<open>turn_start\<close> and closes with a \<open>turn_end\<close> of the same id, and every block and tool-result frame of the
  member carries the id of its open turn; the turn left open is the one its collector tracks.\<close>

theorem member_turns_are_bracketed:
  assumes "saolei_sessions env ids deps ts" and "ts_teams ts session = Some entry"
    and "AgentRuntime m \<in> set (te_members entry)"
  shows "\<exists>opened. wire (ar_role m) (th_sunk (te_history entry)) = Some opened \<and>
    map_option fst opened = map_option at_turnId (mc_active (ar_collector m))"
proof -
  have "mc_role (ar_collector m) = ar_role m \<and> in_turn (ar_collector m) (te_history entry)"
    using collectors_okD(2)[OF entry_okD(3)[OF entry_of_reach(1)[OF assms(1,2)]] assms(3)] .
  then show ?thesis by (auto simp: in_turn_def turn_shown_def split: option.splits)
qed

theorem member_turns_are_bracketed_witness:
  "\<exists>m opened. AgentRuntime m \<in> set (te_members (fst sample_entry)) \<and> ar_role m = js ''planner'' \<and>
    wire (ar_role m) (th_sunk (te_history (fst sample_entry))) = Some opened \<and> map_option fst opened = Some (js ''turn-1'')"
proof -
  have "map_option (\<lambda>m. (ar_role m, map_option at_turnId (mc_active (ar_collector m))))
      (find_agent (js ''planner'') (te_members (fst sample_entry))) = Some (js ''planner'', Some (js ''turn-1''))"
    by code_simp
  then obtain m where m: "find_agent (js ''planner'') (te_members (fst sample_entry)) = Some m"
    "ar_role m = js ''planner''" "map_option at_turnId (mc_active (ar_collector m)) = Some (js ''turn-1'')" by auto
  from find_agent_Some[OF m(1)] have "AgentRuntime m \<in> set (te_members (fst sample_entry))" by simp
  with member_turns_are_bracketed[OF sample_live_reachable sample_live_entry(1) this] m show ?thesis by auto
qed

text \<open>C31: No client waits for ever: a live team with an attached stream has an armed quiescence watcher, and
  once the orchestration rests or is frozen the watcher, when it resumes, closes every attached stream, with
  an error exactly when the last failure was an orchestration failure and the stream can fail.\<close>

theorem no_stream_left_open:
  assumes "saolei_sessions env ids deps ts" and "ts_teams ts session = Some entry"
    and "te_streams entry \<noteq> []"
    and "static_point (so_snapshot orch (te_orchestrator entry))"
    and "watch_fires orch pe (entry, ts_streams ts) = (entry', st')"
  shows "te_watch entry \<and> te_streams entry' = [] \<and> \<not> te_watch entry' \<and>
    (\<forall>i \<in> set (te_streams entry). ss_closed (st' i) = Some
       (case sn_lastError (so_snapshot orch (te_orchestrator entry)) of
          Some failure \<Rightarrow>
            if sf_origin failure = Orchestration \<and> pe_can_fail pe i
            then ClosedWith (js ''INTERNAL'') (sf_message failure @ [0x20, 0x2014, 0x20] @ loopErrorText (sf_code failure))
            else ClosedCleanly
        | None \<Rightarrow> ClosedCleanly))"
proof -
  note ok = entry_of_reach[OF assms(1,2)]
  have w: "te_watch entry" using entry_okD(5)[OF ok(1)] ok(2) assms(3) by (simp add: watched_def)
  show ?thesis
    using assms(4,5) w ok(2)
    by (auto simp: watch_fires_def Let_def failStreams_def endStreams_def fold_close fold_close_const
        split: option.splits if_splits)
qed

theorem no_stream_left_open_witness:
  "\<exists>entry. ts_teams (sent_to team_frozen) sample_session = Some entry \<and> te_streams entry = [7] \<and> te_watch entry \<and>
    ss_closed (snd (watch_fires sample_orchestration open_peers (entry, ts_streams (sent_to team_frozen))) 7) =
      Some ClosedCleanly"
proof -
  have "map_option (\<lambda>e. (te_streams e, static_point (so_snapshot sample_orchestration (te_orchestrator e)),
      map_option sf_origin (sn_lastError (so_snapshot sample_orchestration (te_orchestrator e)))))
      (ts_teams (sent_to team_frozen) sample_session) = Some ([7], True, Some MemberTurn)"
    by code_simp
  then obtain entry f where e: "ts_teams (sent_to team_frozen) sample_session = Some entry" "te_streams entry = [7]"
    "static_point (so_snapshot sample_orchestration (te_orchestrator entry))"
    "sn_lastError (so_snapshot sample_orchestration (te_orchestrator entry)) = Some f" "sf_origin f = MemberTurn"
    by auto
  then have ne: "te_streams entry \<noteq> []" by simp
  show ?thesis
    using no_stream_left_open[OF sent_reachable[OF good_frozen] e(1) ne e(3)
        prod.collapse[symmetric], of open_peers] e by simp
qed

text \<open>A message sent to a live team is accepted, unless the write of its \<open>queued\<close> frame fails: it is the last
  entry of the merged sequence from the moment of the call, as a user message with that text, and the
  orchestration has been handed it.\<close>

lemma sent_message_is_accepted:
  assumes "saolei_sessions env ids deps ts" and "liveEntry ts session = Some entry"
    and "\<not> pe_broken pe i" "unused_stream ts i"
    and "send (saolei_orchestration env ids) pe now session t i ts = (r, ts')"
  shows "r = Inr () \<and> (\<exists>entry' e m. ts_teams ts' session = Some entry' \<and>
    th_merge (te_history entry') = th_merge (te_history entry) @ [e] \<and> me_member e = js ''user'' \<and>
    th_messages (te_history entry') (me_message e) = Some m \<and> hm_role m = ROLE_USER \<and>
    hm_blocks m = [TextContent t] \<and>
    te_orchestrator entry' = snd (saolei_submit env t (te_orchestrator entry)))"
proof -
  have r: "r = Inr ()"
    using saolei.send_backed(2)[OF saolei.session_reach_ok(2)[OF assms(1)] assms(5,2,3)] .
  have e: "ts_teams ts session = Some entry" using assms(2) by (auto simp: liveEntry_def split: option.splits if_splits)
  let ?before = "so_snapshot (saolei_orchestration env ids) (te_orchestrator entry)"
  let ?st = "if sn_active ?before \<noteq> None then write_stream i (queued_frame session (sn_queued ?before + 1)) (ts_streams ts)
      else ts_streams ts"
  obtain r' e' st' where a: "accepts (saolei_orchestration env ids) pe now t i (entry, ?st) = (r', e', st')"
    by (metis prod.collapse)
  have ts': "ts_teams ts' session = Some e'"
    using assms(2,3,5) a by (auto simp: send_def requireEntry_def Let_def put_team_entry_def split: if_splits)
  have fresh: "ts_streams ts i = \<lparr>ss_written = [], ss_closed = None\<rparr>" "i \<notin> set (te_streams entry)"
    using assms(4) e by (auto simp: unused_stream_def)
  have "entry_ok (entry, ?st)"
    by (rule entry_ok_cong[OF _ entry_of_reach(1)[OF assms(1) e]]) (use fresh(2) in \<open>auto simp: write_stream_def\<close>)
  moreover have "ss_closed (?st i) = None"
    "ss_written (?st i) = [] \<or> (\<exists>session n. ss_written (?st i) = [queued_frame session n])"
    using fresh(1) by (auto simp: write_stream_def)
  ultimately have h: "te_history e' = snd (appendUser t now (te_history entry))"
    using accepts_moves(7)[OF _ fresh(2) _ _ entry_of_reach(2)[OF assms(1) e] a] by blast
  have "te_orchestrator e' = snd (saolei_submit env t (te_orchestrator entry))"
    using accepts_face[OF a] by (simp add: saolei_orchestration_def)
  with r ts' show ?thesis
    by (auto simp: h appendUser_def newMessage_def appendMerge_def sink_def Let_def)
qed

lemma collect_Inr: "collect f xs = Inr ys \<Longrightarrow> list_all2 (\<lambda>x y. f x = Inr y) xs ys"
  by (induction xs arbitrary: ys) (auto split: sum.splits)

lemma map_sum_Inr: "map_sum f g x = Inr y \<longleftrightarrow> (\<exists>z. x = Inr z \<and> y = g z)"
  by (cases x) auto

lemma validateMemberPreset_ok:
  assumes "validateMemberPreset deps name role = None"
  obtains pid where "presetId name = Inr pid" "md_preset deps pid = PresetView (Some role)"
  using assms by (auto simp: validateMemberPreset_def split: sum.splits preset_lookup.splits if_splits)

lemma configure_ok:
  assumes "configure deps (role, request) = Inr c" and "validateMemberPreset deps (mo_preset request) role = None"
  shows "sm_role c = role \<and> md_preset deps (sm_preset c) = PresetView (Some role) \<and>
    (\<exists>provider model catalog. sm_provider c = Some provider \<and> sm_model c = Some model \<and>
       md_models deps provider = Inr catalog \<and> model \<in> set catalog)"
proof -
  obtain pid where p: "presetId (mo_preset request) = Inr pid" "md_preset deps pid = PresetView (Some role)"
    using assms(2) by (rule validateMemberPreset_ok)
  obtain provider model where v: "validateModel deps (effective_model deps request) = Inr (provider, model)"
    and c: "c = \<lparr>sm_role = role, sm_preset = pid, sm_provider = Some provider, sm_model = Some model\<rparr>"
    using assms(1) p(1) by (auto simp: configure_def split: sum.splits)
  from v have "\<exists>catalog. md_models deps provider = Inr catalog \<and> model \<in> set catalog"
    by (auto simp: validateModel_def split: sum.splits prod.splits if_splits)
  with c p(2) show ?thesis by simp
qed

lemma configured_roles:
  assumes "collect (\<lambda>role. map_sum id (Pair role) (memberFor members role template)) roster = Inr configured"
  shows "map fst configured = roster"
proof -
  have "list_all2 (\<lambda>role c. fst c = role) roster configured"
    by (rule list_all2_mono[OF collect_Inr[OF assms]]) (auto split: sum.splits simp: map_sum_def)
  then show ?thesis by (induction rule: list_all2_induct) simp_all
qed

lemma materialize_input_ok:
  assumes "materialize_input deps session members = Inr (template, config)"
  shows "map_option fst (parseSessionResource session) = Some template"
    and "\<exists>scene. wiredScene (md_scenes deps) template = Some scene \<and> map sm_role config = sp_roster scene"
    and "c \<in> set config \<Longrightarrow> md_preset deps (sm_preset c) = PresetView (Some (sm_role c)) \<and>
      (\<exists>provider model catalog. sm_provider c = Some provider \<and> sm_model c = Some model \<and>
         md_models deps provider = Inr catalog \<and> model \<in> set catalog)"
proof -
  obtain rest scene configured us where p: "parseSessionResource session = Some (template, rest)"
    and s: "wiredScene (md_scenes deps) template = Some scene"
    and m: "collect (\<lambda>role. map_sum id (Pair role) (memberFor members role template)) (sp_roster scene) = Inr configured"
    and v: "validate_presets deps configured = Inr us" and c: "collect (configure deps) configured = Inr config"
    using assms by (auto simp: materialize_input_def map_sum_Inr split: option.splits prod.splits sum.splits)
  have "list_all2 (\<lambda>x u. validateMemberPreset deps (mo_preset (snd x)) (fst x) = None) configured us"
    by (rule list_all2_mono[OF collect_Inr[OF v[unfolded validate_presets_def]]])
      (auto split: option.splits prod.splits)
  then have presets: "\<forall>x \<in> set configured. validateMemberPreset deps (mo_preset (snd x)) (fst x) = None"
    by (induction rule: list_all2_induct) simp_all
  have "list_all2 (\<lambda>x c. sm_role c = fst x \<and> md_preset deps (sm_preset c) = PresetView (Some (sm_role c)) \<and>
      (\<exists>provider model catalog. sm_provider c = Some provider \<and> sm_model c = Some model \<and>
         md_models deps provider = Inr catalog \<and> model \<in> set catalog)) configured config"
  proof (rule list.rel_mono_strong[OF collect_Inr[OF c]])
    fix x c assume "x \<in> set configured" "configure deps x = Inr c"
    with presets configure_ok[of deps "fst x" "snd x" c]
    show "sm_role c = fst x \<and> md_preset deps (sm_preset c) = PresetView (Some (sm_role c)) \<and>
      (\<exists>provider model catalog. sm_provider c = Some provider \<and> sm_model c = Some model \<and>
         md_models deps provider = Inr catalog \<and> model \<in> set catalog)" by auto
  qed
  then have "map sm_role config = map fst configured \<and>
      (\<forall>c \<in> set config. md_preset deps (sm_preset c) = PresetView (Some (sm_role c)) \<and>
      (\<exists>provider model catalog. sm_provider c = Some provider \<and> sm_model c = Some model \<and>
         md_models deps provider = Inr catalog \<and> model \<in> set catalog))"
    by (induction rule: list_all2_induct) simp_all
  with p s configured_roles[OF m]
  show "map_option fst (parseSessionResource session) = Some template"
    and "\<exists>scene. wiredScene (md_scenes deps) template = Some scene \<and> map sm_role config = sp_roster scene"
    and "c \<in> set config \<Longrightarrow> md_preset deps (sm_preset c) = PresetView (Some (sm_role c)) \<and>
      (\<exists>provider model catalog. sm_provider c = Some provider \<and> sm_model c = Some model \<and>
         md_models deps provider = Inr catalog \<and> model \<in> set catalog)" by auto
qed

text \<open>C32: \<open>UpdateTeam\<close> validates before it touches anything: a refused request leaves the registry as it was, and
  an accepted one takes the live team out with a configuration of exactly the scene's roster in order, every
  preset of which carries its member's role and every model of which is in its provider's catalog.\<close>

theorem update_validates_before_teardown:
  assumes "materialize_begin orch deps session members ts = (r, ts')"
  shows "case r of
      Inl e \<Rightarrow> ts' = ts
    | Inr (template, config) \<Rightarrow>
        ts_teams ts' session = None \<and> map_option fst (parseSessionResource session) = Some template \<and>
        (\<exists>scene. wiredScene (md_scenes deps) template = Some scene \<and> map sm_role config = sp_roster scene) \<and>
        (\<forall>c \<in> set config. md_preset deps (sm_preset c) = PresetView (Some (sm_role c)) \<and>
           (\<exists>provider model catalog. sm_provider c = Some provider \<and> sm_model c = Some model \<and>
              md_models deps provider = Inr catalog \<and> model \<in> set catalog))"
  using assms materialize_input_ok[of deps session members]
  by (auto simp: materialize_begin_def split: sum.splits option.splits)

theorem update_validates_before_teardown_witness:
  "\<exists>scene. wiredScene (md_scenes sample_deps) (js ''saolei'') = Some scene \<and>
    map sm_role (snd sample_input) = sp_roster scene \<and>
    ts_teams (snd (materialize_begin sample_orchestration sample_deps sample_session sample_members sample_sent))
      sample_session = None"
proof -
  have "materialize_begin sample_orchestration sample_deps sample_session sample_members sample_sent =
      (Inr sample_input, snd (materialize_begin sample_orchestration sample_deps sample_session sample_members sample_sent))"
    by (simp add: materialize_begin_def sample_input)
  from update_validates_before_teardown[OF this] show ?thesis by (auto simp: sample_input_def)
qed

definition superseded :: "jstr \<Rightarrow> 'o read_attempt \<Rightarrow> bool" where
  "superseded session attempt \<longleftrightarrow>
     (\<exists>generation. liveEntry (ra_before attempt) session = Some generation \<and>
        \<not> same_generation (ra_after attempt) session generation)"

definition serves :: "jstr \<Rightarrow> jstr \<Rightarrow> team_member_view \<Rightarrow> 'o read_attempt \<Rightarrow> bool" where
  "serves session member view attempt \<longleftrightarrow>
     (\<exists>generation. liveEntry (ra_before attempt) session = Some generation \<and>
        same_generation (ra_after attempt) session generation \<and>
        ra_prompt attempt = Inr (mv_systemPrompt view) \<and> mv_role view = member)"

lemma read_attempt_None:
  "read_attempt_result orch session member attempt = None \<Longrightarrow> superseded session attempt"
  by (auto simp: read_attempt_result_def superseded_def requireEntry_def split: option.splits sum.splits if_splits)

lemma read_attempt_served:
  "read_attempt_result orch session member attempt = Some (Inr view) \<Longrightarrow> serves session member view attempt"
  by (auto simp: read_attempt_result_def serves_def requireEntry_def memberStateView_def
      split: option.splits sum.splits if_splits dest!: find_agent_Some)

lemma read_loop_served:
  "read_loop orch session member xs = Inr view \<Longrightarrow>
     \<exists>k < length xs. serves session member view (xs ! k) \<and> (\<forall>j < k. superseded session (xs ! j))"
proof (induction xs)
  case (Cons x xs)
  show ?case
  proof (cases "read_attempt_result orch session member x")
    case None
    with Cons obtain k where "k < length xs" "serves session member view (xs ! k)"
      "\<forall>j < k. superseded session (xs ! j)" by auto
    with read_attempt_None[OF None] show ?thesis
      by (intro exI[of _ "Suc k"]) (auto simp: less_Suc_eq_0_disj)
  next
    case (Some r)
    with Cons.prems have "read_attempt_result orch session member x = Some (Inr view)" by simp
    from read_attempt_served[OF this] show ?thesis by (intro exI[of _ 0]) simp
  qed
qed simp


definition sample_attempts :: "nat \<Rightarrow> (orchestrator \<times> unit) read_attempt" where
  "sample_attempts k = \<lparr>ra_before = sample_sent, ra_prompt = Inr (js ''prompt''),
     ra_after = (if k = 0 then new_sessions else sample_sent)\<rparr>"


text \<open>C34: A turn that recovers a frozen team cannot be cancelled: the flow is still frozen while the turn a new
  message opened runs, so the orchestrator takes \<open>Cancel\<close> for an idempotent repetition and leaves the turn
  running, while the host has already marked the turn's outcome as \<open>CANCELED\<close> and reports success.\<close>

theorem recovery_turn_survives_cancel:
  assumes "orch_loop s = Some lp" "\<not> disposed s" "paused (lp_flow lp)" "busyMember s = Some i"
    and "te_orchestrator entry = (s, w)" and "find_agent (member_role i) (te_members entry) = Some m"
    and "cancel_entry (saolei_orchestration env ids) entry = (r, entry')"
  shows "r = Inr () \<and> te_orchestrator entry' = (s, w) \<and>
    te_members entry' = with_collector (member_role i)
      (markOutcome \<lparr>to_status = CANCELED, to_error = None\<rparr> (ar_collector m)) (te_members entry)"
proof -
  have snap: "sn_active (so_snapshot (saolei_orchestration env ids) (te_orchestrator entry)) = Some (member_role i)"
    using assms(4,5) by (simp add: saolei_orchestration_def saolei_snapshot_def orch_snapshot_of_def Let_def)
  have "cancel env (s, w) = (Inr [], s, w)" using assms(1-3) by (simp add: cancel_def)
  then have "so_cancel (saolei_orchestration env ids) (s, w) = (None, s, w)"
    by (simp add: saolei_orchestration_def saolei_cancel_def)
  moreover have "ar_role m = member_role i" using find_agent_Some[OF assms(6)] by simp
  ultimately show ?thesis
    using assms(5-7) snap
    by (auto simp: cancel_entry_def Let_def mark_in_flight_def agentMemberInFlight_def watchQuiescence_def)
qed

theorem recovery_turn_survives_cancel_witness:
  "\<exists>entry entry' m. ts_teams (sample_sessions (team_recovering, ())) sample_session = Some entry \<and>
    saolei_sessions sample_env sample_ids sample_deps (sample_sessions (team_recovering, ())) \<and>
    cancel_entry sample_orchestration entry = (Inr (), entry') \<and> te_orchestrator entry' = (team_recovering, ()) \<and>
    busyMember team_recovering = Some Player \<and> find_agent (js ''player'') (te_members entry) = Some m \<and>
    te_members entry' = with_collector (js ''player'')
      (markOutcome \<lparr>to_status = CANCELED, to_error = None\<rparr> (ar_collector m)) (te_members entry)"
proof -
  have s: "\<not> disposed team_recovering" "map_option (\<lambda>lp. paused (lp_flow lp)) (orch_loop team_recovering) = Some True"
    "busyMember team_recovering = Some Player" by code_simp+
  then obtain lp where lp: "orch_loop team_recovering = Some lp" "paused (lp_flow lp)" by auto
  let ?ts = "sample_sessions (team_recovering, ())"
  have "map_option (\<lambda>e. find_agent (js ''player'') (te_members e) \<noteq> None) (ts_teams ?ts sample_session) = Some True"
    by code_simp
  then obtain entry m where e: "ts_teams ?ts sample_session = Some entry"
    "find_agent (member_role Player) (te_members entry) = Some m" by auto
  have o: "te_orchestrator entry = (team_recovering, ())"
    using e(1) by (auto simp: sample_sessions_def materialize_finish_def new_sessions_def new_entry_def Let_def
        split: option.splits)
  obtain r entry' where c: "cancel_entry sample_orchestration entry = (r, entry')" by fastforce
  note f = recovery_turn_survives_cancel[OF lp(1) s(1) lp(2) s(3) o e(2) c]
  show ?thesis
  proof (intro exI conjI)
    show "ts_teams ?ts sample_session = Some entry" by (rule e(1))
    show "saolei_sessions sample_env sample_ids sample_deps ?ts" by (rule sample_reachable[OF good_recovering])
    show "cancel_entry sample_orchestration entry = (Inr (), entry')" using c f by blast
    show "te_orchestrator entry' = (team_recovering, ())" using f by blast
    show "busyMember team_recovering = Some Player" by (rule s(3))
    show "find_agent (js ''player'') (te_members entry) = Some m" using e(2) by (simp only: member_role.simps)
    show "te_members entry' = with_collector (js ''player'')
      (markOutcome \<lparr>to_status = CANCELED, to_error = None\<rparr> (ar_collector m)) (te_members entry)"
      using conjunct2[OF conjunct2[OF f]] by (simp only: member_role.simps)
  qed
qed

section \<open>Two differences from the documents\<close>

text \<open>The announcement of an announce-only member is said to be the text the team relays of it; a block that
  is no text leaves an empty paragraph in it, which the relay does not have.\<close>

lemma announcement_differs_from_relay:
  "join [10, 10] (map (\<lambda>b. if bv_type b = js ''text'' then or_default (bv_text b) [] else [])
     [grown_view (js ''text'') (js ''a''), grown_view (js ''image'') [], grown_view (js ''text'') (js ''b'')]) =
     js ''a'' @ [10, 10, 10, 10] @ js ''b''"
  "messageBody [TextBlock (js ''a''), OtherBlock (js ''x''), TextBlock (js ''b'')] = js ''a'' @ [10, 10] @ js ''b''"
  by code_simp+

text \<open>A member's own output enters its view, but no \<open>member_view\<close> frame is written for it.\<close>

lemma output_has_no_view_frame:
  assumes "display_blocks content \<noteq> []"
  shows "listMemberMessages role (snd (appendMemberOutput role content i True now h)) \<noteq> listMemberMessages role h"
    and "th_sunk (snd (appendMemberOutput role content i True now h)) =
      th_sunk h @ [team_frame (th_session h) (the (fst (appendMemberOutput role content i True now h)))]"
  using assms
  by (auto simp: appendMemberOutput_def Let_def newMessage_def appendMerge_def pushView_def sink_def
      listMemberMessages_def team_frame_def split: option.splits)

end
