(* ===== verification/Chat_Store.thy ===== *)
theory Chat_Store
  imports JS_Prelude
begin

declare js_simps(2) [simp del]

text \<open>
  The conversation store of the web client
  (\<open>projects/game/web/frontend/src/store/chat.ts\<close>, types of \<open>api/conversation.ts\<close>): the state a
  session view renders, the reducer of stream frames, and the store operations of history backfill
  and of the streams of concurrent sends. A frame carries one arm of the event's oneof, so the
  optional fields of \<open>ChatEvent\<close> are one datatype. Subscriptions and the identity of unchanged
  objects, which only serve rendering, are left out; a role that names a member every object
  inherits is not considered.
\<close>

section \<open>Wire data\<close>

text \<open>A sequence number is an int64, which protojson writes as its decimal text.\<close>

datatype seq_number = SeqNumber int | SeqText jstr

definition decimal_value :: "jstr \<Rightarrow> int" where
  "decimal_value t =
     (let number = (\<lambda>ds. int (digits_value (map (\<lambda>c. unat c - 48) ds)))
      in case t of [] \<Rightarrow> 0 | c # cs \<Rightarrow> if c = 45 then - number cs else number t)"

fun seqOf :: "seq_number option \<Rightarrow> int" where
  "seqOf None = 0"
| "seqOf (Some (SeqNumber n)) = n"
| "seqOf (Some (SeqText t)) = decimal_value t"

definition USER_MEMBER :: jstr where "USER_MEMBER = js ''user''"

definition ROLE_AGENT_NAME :: jstr where "ROLE_AGENT_NAME = js ''ROLE_AGENT''"

record web_tool_call =
  wt_toolId :: jstr
  wt_name :: jstr
  wt_argsJson :: jstr
  wt_status :: jstr
  wt_result :: "jstr option"

record web_block =
  cb_text :: "jstr option"
  cb_think :: "jstr option"
  cb_toolCall :: "web_tool_call option"

record web_message =
  wm_messageId :: "jstr option"
  wm_role :: jstr
  wm_createTime :: "jstr option"
  wm_blocks :: "web_block list"
  wm_interrupted :: bool

datatype web_block_type =
  WEB_TYPE_UNSPECIFIED | WEB_TYPE_TEXT | WEB_TYPE_THINK | WEB_TYPE_TOOL_CALL

datatype web_turn_status =
  TURN_STATUS_UNSPECIFIED | TURN_STATUS_COMPLETED | TURN_STATUS_ERROR | TURN_STATUS_ABORTED
| TURN_STATUS_CANCELED

datatype web_body =
  WebQueued int
| WebTeamMessage "jstr option" web_message seq_number
| WebMemberView "jstr option" "jstr option" web_message  \<comment> \<open>member, sender, message\<close>
| WebTurnStart
| WebBlockStart int web_block_type "jstr option" "jstr option" "int option"  \<comment> \<open>index, type, tool id, name, step\<close>
| WebDelta int jstr "int option"  \<comment> \<open>index, text, step\<close>
| WebBlockEnd int web_block "int option"
| WebToolResult jstr jstr jstr  \<comment> \<open>tool id, status, result\<close>
| WebTurnEnd web_turn_status "jstr option"  \<comment> \<open>status, message of the error\<close>
| WebUnknown

record web_event =
  we_turnId :: "jstr option"
  we_member :: "jstr option"
  we_body :: web_body

section \<open>The state\<close>

datatype block_draft =
  TextDraft int jstr
| ThinkDraft int jstr
| ToolDraft int jstr jstr jstr jstr "jstr option"  \<comment> \<open>index, tool id, name, arguments, status, result\<close>

fun draft_index :: "block_draft \<Rightarrow> int" where
  "draft_index (TextDraft i t) = i"
| "draft_index (ThinkDraft i t) = i"
| "draft_index (ToolDraft i toolId name args status result) = i"

record step_draft =
  sd_step :: int
  sd_blocks :: "block_draft list"
  sd_settled :: bool

record live_turn =
  lt_member :: jstr
  lt_turnId :: jstr
  lt_steps :: "step_draft list"
  lt_fixedSteps :: nat
  lt_owners :: "int \<times> int \<Rightarrow> nat option"

record team_row =
  tr_member :: jstr
  tr_message :: web_message
  tr_seq :: int
  tr_projected :: bool
  tr_open :: bool

record view_row =
  vr_message :: web_message
  vr_sender :: jstr
  vr_projected :: bool
  vr_open :: bool

record queued_msg =
  qm_text :: jstr
  qm_position :: int

record chat_state =
  cs_history :: "team_row list"
  cs_memberHistory :: "jstr \<Rightarrow> view_row list option"
  cs_live :: "live_turn list"
  cs_queue :: "queued_msg list"
  cs_error :: "jstr option"
  cs_canceled :: bool

definition EMPTY_STATE :: chat_state where
  "EMPTY_STATE =
     \<lparr>cs_history = [], cs_memberHistory = Map.empty, cs_live = [], cs_queue = [], cs_error = None,
      cs_canceled = False\<rparr>"

text \<open>\<open>Array.prototype.findIndex\<close>.\<close>

fun find_index :: "('a \<Rightarrow> bool) \<Rightarrow> 'a list \<Rightarrow> nat option" where
  "find_index P [] = None"
| "find_index P (x # xs) = (if P x then Some 0 else map_option Suc (find_index P xs))"

definition drop_index :: "nat \<Rightarrow> 'a list \<Rightarrow> 'a list" where
  "drop_index i xs = take i xs @ drop (Suc i) xs"

abbreviation default_text :: "jstr option \<Rightarrow> jstr" where
  "default_text x \<equiv> (case x of None \<Rightarrow> [] | Some t \<Rightarrow> t)"

section \<open>Drafts\<close>

definition claimBlock :: "(int \<times> int \<Rightarrow> nat option) \<Rightarrow> int \<times> int \<Rightarrow> nat \<Rightarrow> int \<times> int \<Rightarrow> nat option" where
  "claimBlock owners key streamId = (if owners key = None then owners(key \<mapsto> streamId) else owners)"

fun draft_content :: "block_draft \<Rightarrow> web_block" where
  "draft_content (TextDraft i t) = \<lparr>cb_text = Some t, cb_think = None, cb_toolCall = None\<rparr>"
| "draft_content (ThinkDraft i t) = \<lparr>cb_text = None, cb_think = Some t, cb_toolCall = None\<rparr>"
| "draft_content (ToolDraft i toolId name args status result) =
     \<lparr>cb_text = None, cb_think = None, cb_toolCall = Some
        \<lparr>wt_toolId = toolId, wt_name = name, wt_argsJson = args, wt_status = status, wt_result = result\<rparr>\<rparr>"

definition liveBlocksToContentBlocks :: "block_draft list \<Rightarrow> web_block list" where
  "liveBlocksToContentBlocks blocks = map draft_content blocks"

definition blockStartDraft :: "int \<Rightarrow> web_block_type \<Rightarrow> jstr option \<Rightarrow> jstr option \<Rightarrow> block_draft" where
  "blockStartDraft index type toolId name =
     (if type = WEB_TYPE_TOOL_CALL then
        ToolDraft index (default_text toolId) (default_text name) [] (js ''TOOL_STATUS_RUNNING'') None
      else if type = WEB_TYPE_THINK then ThinkDraft index []
      else TextDraft index [])"

definition terminal_text :: "web_block \<Rightarrow> jstr" where
  "terminal_text block =
     (case cb_think block of Some t \<Rightarrow> t | None \<Rightarrow> default_text (cb_text block))"

fun blockEndTerminal :: "web_block \<Rightarrow> block_draft \<Rightarrow> block_draft" where
  "blockEndTerminal block draft =
     (case cb_toolCall block of
        Some c \<Rightarrow> ToolDraft (draft_index draft) (wt_toolId c) (wt_name c) (wt_argsJson c) (wt_status c) (wt_result c)
      | None \<Rightarrow>
          (case draft of
             ToolDraft i toolId name args status result \<Rightarrow> draft
           | ThinkDraft i t \<Rightarrow> ThinkDraft i (terminal_text block)
           | TextDraft i t \<Rightarrow> TextDraft i (terminal_text block)))"

fun settleDraft :: "jstr \<Rightarrow> jstr \<Rightarrow> jstr \<Rightarrow> block_draft \<Rightarrow> block_draft" where
  "settleDraft toolId status result (ToolDraft i tid name args st res) =
     (if tid = toolId \<and> st = js ''TOOL_STATUS_RUNNING'' then ToolDraft i tid name args status (Some result)
      else ToolDraft i tid name args st res)"
| "settleDraft toolId status result draft = draft"

fun append_draft :: "jstr \<Rightarrow> block_draft \<Rightarrow> block_draft" where
  "append_draft t (TextDraft i u) = TextDraft i (u @ t)"
| "append_draft t (ThinkDraft i u) = ThinkDraft i (u @ t)"
| "append_draft t (ToolDraft i toolId name args status result) = ToolDraft i toolId name (args @ t) status result"

definition eventStep :: "int option \<Rightarrow> int" where
  "eventStep step = (case step of None \<Rightarrow> 0 | Some s \<Rightarrow> s)"

definition appendBlockStart :: "step_draft list \<Rightarrow> int \<Rightarrow> block_draft \<Rightarrow> step_draft list" where
  "appendBlockStart steps step draft =
     (case List.find (\<lambda>s. sd_step s = step) steps of
        Some found \<Rightarrow>
          if \<exists>b \<in> set (sd_blocks found). draft_index b = draft_index draft then steps
          else map (\<lambda>s. if sd_step s = step then s\<lparr>sd_blocks := sd_blocks s @ [draft]\<rparr> else s) steps
      | None \<Rightarrow>
          map (\<lambda>s. s\<lparr>sd_settled := True\<rparr>) steps @
            [\<lparr>sd_step = step, sd_blocks = [draft], sd_settled = False\<rparr>])"

definition mapStepBlocks ::
  "step_draft list \<Rightarrow> int \<Rightarrow> (block_draft list \<Rightarrow> block_draft list) \<Rightarrow> step_draft list" where
  "mapStepBlocks steps step f =
     map (\<lambda>s. if sd_step s = step then s\<lparr>sd_blocks := f (sd_blocks s)\<rparr> else s) steps"

section \<open>Settlement of tool calls\<close>

fun running_tool :: "jstr \<Rightarrow> web_block \<Rightarrow> bool" where
  "running_tool toolId b =
     (case cb_toolCall b of
        None \<Rightarrow> False
      | Some c \<Rightarrow> wt_toolId c = toolId \<and> wt_status c = js ''TOOL_STATUS_RUNNING'')"

definition settle_block :: "jstr \<Rightarrow> jstr \<Rightarrow> jstr \<Rightarrow> web_block \<Rightarrow> web_block" where
  "settle_block toolId status result b =
     (if running_tool toolId b then
        b\<lparr>cb_toolCall := map_option (\<lambda>c. c\<lparr>wt_status := status, wt_result := Some result\<rparr>) (cb_toolCall b)\<rparr>
      else b)"

definition settle_message :: "jstr \<Rightarrow> jstr \<Rightarrow> jstr \<Rightarrow> web_message \<Rightarrow> web_message" where
  "settle_message toolId status result m =
     m\<lparr>wm_blocks := map (settle_block toolId status result) (wm_blocks m)\<rparr>"

definition settleHistoryEntry :: "jstr \<Rightarrow> jstr \<Rightarrow> jstr \<Rightarrow> team_row \<Rightarrow> team_row" where
  "settleHistoryEntry toolId status result row =
     (if \<exists>b \<in> set (wm_blocks (tr_message row)). running_tool toolId b
      then row\<lparr>tr_message := settle_message toolId status result (tr_message row)\<rparr> else row)"

definition settle_view_row :: "jstr \<Rightarrow> jstr \<Rightarrow> jstr \<Rightarrow> view_row \<Rightarrow> view_row" where
  "settle_view_row toolId status result row =
     (if \<exists>b \<in> set (wm_blocks (vr_message row)). running_tool toolId b
      then row\<lparr>vr_message := settle_message toolId status result (vr_message row)\<rparr> else row)"

text \<open>The reducer calls it for every member the map has a view of.\<close>

definition settleMemberHistory ::
  "jstr \<Rightarrow> jstr \<Rightarrow> jstr \<Rightarrow> (jstr \<Rightarrow> view_row list option) \<Rightarrow> jstr \<Rightarrow> view_row list option" where
  "settleMemberHistory toolId status result views =
     (\<lambda>member. map_option (map (settle_view_row toolId status result)) (views member))"

definition settle_steps :: "jstr \<Rightarrow> jstr \<Rightarrow> jstr \<Rightarrow> step_draft list \<Rightarrow> step_draft list" where
  "settle_steps toolId status result steps =
     map (\<lambda>s. s\<lparr>sd_blocks := map (settleDraft toolId status result) (sd_blocks s)\<rparr>) steps"

section \<open>Rows\<close>

definition stepsToHistory :: "step_draft list \<Rightarrow> bool \<Rightarrow> web_message list" where
  "stepsToHistory steps interrupted =
     map (\<lambda>(i, s). \<lparr>wm_messageId = None, wm_role = ROLE_AGENT_NAME, wm_createTime = None,
         wm_blocks = liveBlocksToContentBlocks (sd_blocks s),
         wm_interrupted = (interrupted \<and> i = length steps - 1)\<rparr>) (enumerate 0 steps)"

definition insertBySeq :: "team_row list \<Rightarrow> team_row \<Rightarrow> team_row list" where
  "insertBySeq history row =
     (case find_index (\<lambda>e. tr_seq row < tr_seq e) history of
        None \<Rightarrow> history @ [row]
      | Some index \<Rightarrow> take index history @ row # drop index history)"

definition eventMember :: "chat_state \<Rightarrow> web_event \<Rightarrow> jstr option" where
  "eventMember state event =
     (if we_member event \<noteq> None \<and> we_member event \<noteq> Some [] then we_member event
      else case cs_live state of [t] \<Rightarrow> Some (lt_member t) | _ \<Rightarrow> None)"

definition turn_at :: "jstr \<Rightarrow> jstr \<Rightarrow> live_turn \<Rightarrow> bool" where
  "turn_at member turnId t \<longleftrightarrow> lt_member t = member \<and> lt_turnId t = turnId"

definition findLiveTurn :: "chat_state \<Rightarrow> jstr option \<Rightarrow> jstr \<Rightarrow> nat option" where
  "findLiveTurn state member turnId =
     (case member of None \<Rightarrow> None | Some m \<Rightarrow> find_index (turn_at m turnId) (cs_live state))"

definition min_seq :: "team_row list \<Rightarrow> int" where
  "min_seq history = foldl (\<lambda>m e. min m (tr_seq e)) 0 history"

definition projectTail :: "team_row list \<Rightarrow> jstr \<Rightarrow> web_message list \<Rightarrow> team_row list" where
  "projectTail history member messages =
     map (\<lambda>(i, message). \<lparr>tr_member = member, tr_message = message, tr_seq = min_seq history - 1 - int i,
         tr_projected = True, tr_open = False\<rparr>) (enumerate 0 messages)"

definition has_id :: "web_message \<Rightarrow> bool" where
  "has_id message \<longleftrightarrow> wm_messageId message \<noteq> None \<and> wm_messageId message \<noteq> Some []"

definition view_of :: "(jstr \<Rightarrow> view_row list option) \<Rightarrow> jstr \<Rightarrow> view_row list" where
  "view_of views member = (case views member of None \<Rightarrow> [] | Some view \<Rightarrow> view)"

definition view_has :: "web_message \<Rightarrow> view_row list \<Rightarrow> bool" where
  "view_has message view \<longleftrightarrow>
     has_id message \<and> (\<exists>e \<in> set view. wm_messageId (vr_message e) = wm_messageId message)"

definition appendMemberInputView ::
  "(jstr \<Rightarrow> view_row list option) \<Rightarrow> jstr \<Rightarrow> web_message \<Rightarrow> jstr \<Rightarrow> jstr \<Rightarrow> view_row list option" where
  "appendMemberInputView views member message sender =
     (let view = view_of views member in
      if view_has message view then views
      else views(member \<mapsto> view @
        [\<lparr>vr_message = message, vr_sender = sender, vr_projected = False, vr_open = False\<rparr>]))"

definition appendMemberView ::
  "(jstr \<Rightarrow> view_row list option) \<Rightarrow> jstr \<Rightarrow> web_message \<Rightarrow> bool \<Rightarrow> jstr \<Rightarrow> view_row list option" where
  "appendMemberView views member message opened =
     (let view = view_of views member in
      if view_has message view then views
      else
        (let projectedIndex = find_index vr_projected view;
             row = \<lparr>vr_message = message, vr_sender = member, vr_projected = False,
                    vr_open = (opened \<and> projectedIndex = None)\<rparr>
         in views(member \<mapsto>
              (case projectedIndex of Some i \<Rightarrow> view[i := row] | None \<Rightarrow> view @ [row]))))"

definition projectMemberTail ::
  "(jstr \<Rightarrow> view_row list option) \<Rightarrow> jstr \<Rightarrow> web_message list \<Rightarrow> jstr \<Rightarrow> view_row list option" where
  "projectMemberTail views member messages =
     views(member \<mapsto> view_of views member @
       map (\<lambda>message. \<lparr>vr_message = message, vr_sender = member, vr_projected = True, vr_open = False\<rparr>) messages)"

definition clear_row :: "team_row \<Rightarrow> team_row" where "clear_row row = row\<lparr>tr_open := False\<rparr>"

definition clear_view_row :: "view_row \<Rightarrow> view_row" where "clear_view_row row = row\<lparr>vr_open := False\<rparr>"

definition clearMemberOpen :: "chat_state \<Rightarrow> jstr \<Rightarrow> chat_state" where
  "clearMemberOpen state member =
     state\<lparr>cs_history := map (\<lambda>row. if tr_member row = member then clear_row row else row) (cs_history state),
       cs_memberHistory :=
         (case cs_memberHistory state member of
            None \<Rightarrow> cs_memberHistory state
          | Some view \<Rightarrow> (cs_memberHistory state)(member \<mapsto> map clear_view_row view))\<rparr>"

definition clearAllMemberOpen :: "(jstr \<Rightarrow> view_row list option) \<Rightarrow> jstr \<Rightarrow> view_row list option" where
  "clearAllMemberOpen views = (\<lambda>member. map_option (map clear_view_row) (views member))"

definition closeLiveTurn :: "chat_state \<Rightarrow> nat \<Rightarrow> bool \<Rightarrow> chat_state" where
  "closeLiveTurn state index interrupted =
     (if length (cs_live state) \<le> index then state
      else
        (let turn = cs_live state ! index;
             live = drop_index index (cs_live state);
             closed = clearMemberOpen state (lt_member turn);
             pending = drop (lt_fixedSteps turn) (lt_steps turn)
         in if pending = [] then closed\<lparr>cs_live := live\<rparr>
            else
              (let messages = stepsToHistory pending interrupted in
               closed\<lparr>cs_live := live,
                 cs_history := cs_history closed @ projectTail (cs_history closed) (lt_member turn) messages,
                 cs_memberHistory := projectMemberTail (cs_memberHistory closed) (lt_member turn) messages\<rparr>)))"

definition consumeFixedStep :: "live_turn list \<Rightarrow> jstr \<Rightarrow> live_turn list" where
  "consumeFixedStep live member =
     (case find_index (\<lambda>t. lt_member t = member \<and> lt_fixedSteps t < length (lt_steps t)) live of
        None \<Rightarrow> live
      | Some i \<Rightarrow>
          live[i := (live ! i)\<lparr>lt_fixedSteps := min (lt_fixedSteps (live ! i) + 1) (length (lt_steps (live ! i)))\<rparr>])"

definition first_text :: "web_message \<Rightarrow> jstr" where
  "first_text message =
     (case List.find (\<lambda>b. cb_text b \<noteq> None) (wm_blocks message) of
        None \<Rightarrow> [] | Some b \<Rightarrow> default_text (cb_text b))"

definition consumeQueueText :: "queued_msg list \<Rightarrow> web_message \<Rightarrow> queued_msg list" where
  "consumeQueueText queue message =
     (case find_index (\<lambda>q. qm_text q = first_text message) queue of
        None \<Rightarrow> queue | Some i \<Rightarrow> drop_index i queue)"

section \<open>The reducer\<close>

definition real_seq :: "int \<Rightarrow> team_row \<Rightarrow> bool" where
  "real_seq s row \<longleftrightarrow> \<not> tr_projected row \<and> tr_seq row = s"

definition reduce_team_message :: "jstr option \<Rightarrow> web_message \<Rightarrow> seq_number \<Rightarrow> chat_state \<Rightarrow> chat_state" where
  "reduce_team_message frame_member message frame_seq state =
     (let member = default_text frame_member; seq = seqOf (Some frame_seq) in
      if member = [] then state
      else if \<exists>e \<in> set (cs_history state). real_seq seq e then state
      else
        (let opened = (member \<noteq> USER_MEMBER \<and> (\<exists>t \<in> set (cs_live state). lt_member t = member));
             row = \<lparr>tr_member = member, tr_message = message, tr_seq = seq, tr_projected = False, tr_open = False\<rparr>
         in state\<lparr>
              cs_history :=
                (case find_index (\<lambda>e. tr_projected e \<and> tr_member e = member) (cs_history state) of
                   Some i \<Rightarrow> (cs_history state)[i := row]
                 | None \<Rightarrow> insertBySeq (cs_history state) (row\<lparr>tr_open := opened\<rparr>)),
              cs_memberHistory :=
                (if member = USER_MEMBER then cs_memberHistory state
                 else appendMemberView (cs_memberHistory state) member message opened),
              cs_live := consumeFixedStep (cs_live state) member\<rparr>))"

definition reduce_member_view :: "jstr option \<Rightarrow> jstr option \<Rightarrow> web_message \<Rightarrow> chat_state \<Rightarrow> chat_state" where
  "reduce_member_view frame_member sender message state =
     (let member = default_text frame_member in
      if member = [] \<or> member = USER_MEMBER then state
      else
        state\<lparr>
          cs_memberHistory := appendMemberInputView (cs_memberHistory state) member message (default_text sender),
          cs_queue := (if sender = Some (js ''user'') then consumeQueueText (cs_queue state) message
                       else cs_queue state)\<rparr>)"

definition reduce_turn_start :: "web_event \<Rightarrow> chat_state \<Rightarrow> chat_state" where
  "reduce_turn_start event state =
     (case eventMember state event of
        None \<Rightarrow> state
      | Some member \<Rightarrow>
          (let turnId = default_text (we_turnId event) in
           if findLiveTurn state (Some member) turnId \<noteq> None then state
           else
             state\<lparr>cs_live := cs_live state @
                 [\<lparr>lt_member = member, lt_turnId = turnId, lt_steps = [], lt_fixedSteps = 0, lt_owners = Map.empty\<rparr>],
               cs_error := None, cs_canceled := False\<rparr>))"

text \<open>A frame of a live turn changes the turn it finds; a turn that is not live ignores it.\<close>

definition on_live :: "web_event \<Rightarrow> (live_turn \<Rightarrow> live_turn) \<Rightarrow> chat_state \<Rightarrow> chat_state" where
  "on_live event f state =
     (case findLiveTurn state (eventMember state event) (default_text (we_turnId event)) of
        None \<Rightarrow> state
      | Some i \<Rightarrow> state\<lparr>cs_live := (cs_live state)[i := f (cs_live state ! i)]\<rparr>)"

definition turn_block_start ::
  "int \<Rightarrow> web_block_type \<Rightarrow> jstr option \<Rightarrow> jstr option \<Rightarrow> int option \<Rightarrow> nat \<Rightarrow> live_turn \<Rightarrow> live_turn" where
  "turn_block_start index type toolId name frame_step streamId t =
     (let step = eventStep frame_step in
      t\<lparr>lt_steps := appendBlockStart (lt_steps t) step (blockStartDraft index type toolId name),
        lt_owners := claimBlock (lt_owners t) (step, index) streamId\<rparr>)"

definition turn_delta :: "int \<Rightarrow> jstr \<Rightarrow> int option \<Rightarrow> nat \<Rightarrow> live_turn \<Rightarrow> live_turn" where
  "turn_delta index txt frame_step streamId t =
     (let step = eventStep frame_step in
      if lt_owners t (step, index) \<noteq> None \<and> lt_owners t (step, index) \<noteq> Some streamId then t
      else
        t\<lparr>lt_steps := mapStepBlocks (lt_steps t) step
            (map (\<lambda>b. if draft_index b = index then append_draft txt b else b)),
          lt_owners := claimBlock (lt_owners t) (step, index) streamId\<rparr>)"

definition turn_block_end :: "int \<Rightarrow> web_block \<Rightarrow> int option \<Rightarrow> nat \<Rightarrow> live_turn \<Rightarrow> live_turn" where
  "turn_block_end index block frame_step streamId t =
     (let step = eventStep frame_step in
      t\<lparr>lt_steps := mapStepBlocks (lt_steps t) step
          (map (\<lambda>b. if draft_index b = index then blockEndTerminal block b else b)),
        lt_owners := claimBlock (lt_owners t) (step, index) streamId\<rparr>)"

definition reduce_tool_result :: "jstr \<Rightarrow> jstr \<Rightarrow> jstr \<Rightarrow> chat_state \<Rightarrow> chat_state" where
  "reduce_tool_result toolId status result state =
     state\<lparr>
       cs_live := map (\<lambda>t. t\<lparr>lt_steps := settle_steps toolId status result (lt_steps t)\<rparr>) (cs_live state),
       cs_history := map (settleHistoryEntry toolId status result) (cs_history state),
       cs_memberHistory := settleMemberHistory toolId status result (cs_memberHistory state)\<rparr>"

definition TURN_FAILED_TEXT :: jstr where
  "TURN_FAILED_TEXT = [0x5BF9, 0x8BDD, 0x56DE, 0x5408, 0x5931, 0x8D25]"

definition close_found :: "nat option \<Rightarrow> bool \<Rightarrow> chat_state \<Rightarrow> chat_state" where
  "close_found index interrupted state =
     (case index of None \<Rightarrow> state | Some i \<Rightarrow> closeLiveTurn state i interrupted)"

definition reduce_turn_end :: "web_event \<Rightarrow> web_turn_status \<Rightarrow> jstr option \<Rightarrow> chat_state \<Rightarrow> chat_state" where
  "reduce_turn_end event status error state =
     (let index = findLiveTurn state (eventMember state event) (default_text (we_turnId event)) in
      case status of
        TURN_STATUS_COMPLETED \<Rightarrow> close_found index False state
      | TURN_STATUS_ERROR \<Rightarrow>
          (close_found index True state)\<lparr>cs_error :=
             Some (case error of Some e \<Rightarrow> e | None \<Rightarrow> TURN_FAILED_TEXT)\<rparr>
      | TURN_STATUS_CANCELED \<Rightarrow> (close_found index True state)\<lparr>cs_queue := [], cs_canceled := True\<rparr>
      | TURN_STATUS_ABORTED \<Rightarrow> EMPTY_STATE
      | TURN_STATUS_UNSPECIFIED \<Rightarrow> state)"

definition reduceEvent :: "chat_state \<Rightarrow> web_event \<Rightarrow> jstr \<Rightarrow> nat \<Rightarrow> chat_state" where
  "reduceEvent state event queuedText streamId =
     (case we_body event of
        WebQueued pos \<Rightarrow> state\<lparr>cs_queue := cs_queue state @ [\<lparr>qm_text = queuedText, qm_position = pos\<rparr>]\<rparr>
      | WebTeamMessage member message seq \<Rightarrow> reduce_team_message member message seq state
      | WebMemberView member sender message \<Rightarrow> reduce_member_view member sender message state
      | WebTurnStart \<Rightarrow> reduce_turn_start event state
      | WebBlockStart index type toolId name step \<Rightarrow>
          on_live event (turn_block_start index type toolId name step streamId) state
      | WebDelta index txt step \<Rightarrow> on_live event (turn_delta index txt step streamId) state
      | WebBlockEnd index block step \<Rightarrow> on_live event (turn_block_end index block step streamId) state
      | WebToolResult toolId status result \<Rightarrow> reduce_tool_result toolId status result state
      | WebTurnEnd status error \<Rightarrow> reduce_turn_end event status error state
      | WebUnknown \<Rightarrow> state)"

section \<open>The store\<close>

record chat_store =
  st_state :: chat_state
  st_sendTexts :: "jstr list"
  st_nextStreamId :: nat
  st_activeStreamId :: nat

definition new_store :: chat_store where
  "new_store = \<lparr>st_state = EMPTY_STATE, st_sendTexts = [], st_nextStreamId = 0, st_activeStreamId = 0\<rparr>"

definition store_apply :: "web_event \<Rightarrow> jstr \<Rightarrow> nat \<Rightarrow> chat_store \<Rightarrow> chat_store" where
  "store_apply event queuedText streamId s =
     s\<lparr>st_state := reduceEvent (st_state s) event queuedText streamId\<rparr>"

text \<open>A backfilled element: member, message and sequence number.\<close>

definition loaded_rows :: "(jstr option \<times> web_message \<times> seq_number) list \<Rightarrow> team_row list" where
  "loaded_rows messages =
     map (\<lambda>(member, message, seq). \<lparr>tr_member = default_text member, tr_message = message,
         tr_seq = seqOf (Some seq), tr_projected = False, tr_open = False\<rparr>)
       (filter (\<lambda>(member, message, seq). default_text member \<noteq> []) messages)"

definition loadHistory :: "(jstr option \<times> web_message \<times> seq_number) list \<Rightarrow> chat_state \<Rightarrow> chat_state" where
  "loadHistory messages state =
     \<lparr>cs_history = sort_key tr_seq (loaded_rows messages),
      cs_memberHistory = clearAllMemberOpen (cs_memberHistory state),
      cs_live = [], cs_queue = [], cs_error = None, cs_canceled = False\<rparr>"

definition loadMemberHistory :: "jstr \<Rightarrow> (web_message \<times> jstr option) list \<Rightarrow> chat_state \<Rightarrow> chat_state" where
  "loadMemberHistory member messages state =
     (let server = map (\<lambda>(message, sender). \<lparr>vr_message = message, vr_sender = default_text sender,
            vr_projected = False, vr_open = False\<rparr>) messages;
          local_rows = filter (\<lambda>e. \<not> vr_projected e \<and> \<not> view_has (vr_message e) server)
            (view_of (cs_memberHistory state) member)
      in state\<lparr>cs_memberHistory := (cs_memberHistory state)(member \<mapsto> server @ local_rows)\<rparr>)"

definition clearMemberHistory :: "chat_state \<Rightarrow> chat_state" where
  "clearMemberHistory state = state\<lparr>cs_memberHistory := Map.empty\<rparr>"

definition release_owner :: "nat \<Rightarrow> (int \<times> int \<Rightarrow> nat option) \<Rightarrow> int \<times> int \<Rightarrow> nat option" where
  "release_owner streamId owners = (\<lambda>key. if owners key = Some streamId then None else owners key)"

definition releaseStreamOwnership :: "nat \<Rightarrow> chat_state \<Rightarrow> chat_state" where
  "releaseStreamOwnership streamId state =
     state\<lparr>cs_live := map (\<lambda>t. t\<lparr>lt_owners := release_owner streamId (lt_owners t)\<rparr>) (cs_live state)\<rparr>"

definition close_turn :: "bool \<Rightarrow> live_turn \<Rightarrow> chat_state \<Rightarrow> chat_state" where
  "close_turn interrupted turn state =
     close_found (find_index (turn_at (lt_member turn) (lt_turnId turn)) (cs_live state)) interrupted state"

definition closePendingTurns :: "bool \<Rightarrow> chat_state \<Rightarrow> chat_state" where
  "closePendingTurns interrupted state = fold (close_turn interrupted) (cs_live state) state"

text \<open>
  The body of \<open>send\<close> up to its loop, one turn of the loop, and what follows the loop, with the error
  the stream ended with, if any. \<open>consumed\<close> is the local flag of the call.
\<close>

definition send_start :: "jstr \<Rightarrow> chat_store \<Rightarrow> nat \<times> chat_store" where
  "send_start t s =
     (let streamId = st_nextStreamId s + 1 in
      (streamId, s\<lparr>st_nextStreamId := streamId, st_activeStreamId := streamId, st_sendTexts := st_sendTexts s @ [t]\<rparr>))"

definition consumeSendText :: "chat_store \<Rightarrow> jstr \<times> chat_store" where
  "consumeSendText s =
     ((case st_sendTexts s of [] \<Rightarrow> [] | t # ts \<Rightarrow> t), s\<lparr>st_sendTexts := tl (st_sendTexts s)\<rparr>)"

definition send_frame :: "nat \<Rightarrow> web_event \<Rightarrow> bool \<times> chat_store \<Rightarrow> bool \<times> chat_store" where
  "send_frame streamId event c =
     (case c of (consumed, s) \<Rightarrow>
       (case we_body event of
          WebQueued pos \<Rightarrow> (let (queuedText, s') = consumeSendText s in (True, store_apply event queuedText streamId s'))
        | _ \<Rightarrow> (True, store_apply event [] streamId (if consumed then s else snd (consumeSendText s)))))"

definition send_finish :: "nat \<Rightarrow> jstr option \<Rightarrow> bool \<times> chat_store \<Rightarrow> chat_store" where
  "send_finish streamId failure c =
     (case c of (consumed, s) \<Rightarrow>
       (let s1 = (if consumed then s else snd (consumeSendText s)) in
        if st_activeStreamId s1 \<noteq> streamId then s1\<lparr>st_state := releaseStreamOwnership streamId (st_state s1)\<rparr>
        else
          (let closed = closePendingTurns True (st_state s1) in
           s1\<lparr>st_state := (case failure of None \<Rightarrow> closed | Some e \<Rightarrow> closed\<lparr>cs_error := Some e\<rparr>)\<rparr>)))"

text \<open>
  Runs of one store: the calls of \<open>send\<close> that have not returned, each with its flag. A backfill
  response numbers its elements with different sequence numbers, as the server does.
\<close>

inductive store_step ::
  "chat_store \<times> (nat \<times> bool) list \<Rightarrow> chat_store \<times> (nat \<times> bool) list \<Rightarrow> bool" where
  starts: "send_start t s = (i, s') \<Longrightarrow> store_step (s, calls) (s', calls @ [(i, False)])"
| frame: "(i, consumed) \<in> set calls \<Longrightarrow> send_frame i event (consumed, s) = (consumed', s') \<Longrightarrow>
    store_step (s, calls) (s', map (\<lambda>(j, f). if j = i then (j, consumed') else (j, f)) calls)"
| finishes: "(i, consumed) \<in> set calls \<Longrightarrow> send_finish i failure (consumed, s) = s' \<Longrightarrow>
    store_step (s, calls) (s', filter (\<lambda>(j, f). j \<noteq> i) calls)"
| loads: "distinct (map tr_seq (loaded_rows messages)) \<Longrightarrow>
    store_step (s, calls) (s\<lparr>st_state := loadHistory messages (st_state s)\<rparr>, calls)"
| loads_view: "store_step (s, calls) (s\<lparr>st_state := loadMemberHistory member views (st_state s)\<rparr>, calls)"
| clears: "store_step (s, calls) (s\<lparr>st_state := clearMemberHistory (st_state s)\<rparr>, calls)"
| injects: "store_step (s, calls) (store_apply event [] 0 s, calls)"

inductive store_reach :: "chat_store \<times> (nat \<times> bool) list \<Rightarrow> bool" where
  fresh: "store_reach (new_store, [])"
| step: "store_reach c \<Longrightarrow> store_step c c' \<Longrightarrow> store_reach c'"

end
