(* ===== verification/Chat_Store_Runs.thy ===== *)
theory Chat_Store_Runs
  imports Chat_Store
begin

declare js_simps(2) [simp del] blockEndTerminal.simps [simp del]

text \<open>
  The invariant of the web store: live turns are keyed by member and turn id, only their last step is
  still streamed, the merged history is keyed by its sequence numbers, the mark of a running turn is
  only on rows of a member whose turn is live, and every owner of a block is an open stream.
\<close>

section \<open>Positions\<close>

lemma find_index_None: "find_index P xs = None \<longleftrightarrow> (\<forall>x \<in> set xs. \<not> P x)"
  by (induction xs) auto

lemma find_index_Some:
  "find_index P xs = Some i \<longleftrightarrow> i < length xs \<and> P (xs ! i) \<and> (\<forall>j < i. \<not> P (xs ! j))"
proof (induction xs arbitrary: i)
  case (Cons x xs)
  show ?case
    by (cases i) (auto simp: Cons.IH nth_Cons' less_Suc_eq_0_disj)
qed simp

lemma find_index_Some_nth: "find_index P xs = Some i \<Longrightarrow> i < length xs \<and> P (xs ! i)"
  by (simp add: find_index_Some)

lemma set_drop_index: "set (drop_index i xs) \<subseteq> set xs"
  by (auto simp: drop_index_def dest: in_set_takeD in_set_dropD)

lemma distinct_drop_index:
  assumes "distinct xs"
  shows "distinct (drop_index i xs)"
proof -
  have "distinct (take i xs @ drop i xs)" using assms by simp
  then have "set (take i xs) \<inter> set (drop i xs) = {}" "distinct (take i xs)" "distinct (drop (Suc i) xs)"
    using assms by (auto simp: distinct_drop simp del: append_take_drop_id)
  moreover have "set (drop (Suc i) xs) \<subseteq> set (drop i xs)" by (rule set_drop_subset_set_drop) simp
  ultimately show ?thesis by (auto simp: drop_index_def)
qed

lemma map_drop_index: "map f (drop_index i xs) = drop_index i (map f xs)"
  by (simp add: drop_index_def take_map drop_map)

lemma nth_not_in_drop_index:
  assumes "distinct xs" "i < length xs"
  shows "xs ! i \<notin> set (drop_index i xs)"
proof -
  have "distinct (take i xs @ xs ! i # drop (Suc i) xs)" using assms by (simp add: id_take_nth_drop[symmetric])
  then show ?thesis by (simp add: drop_index_def)
qed

lemma set_insertBySeq [simp]: "set (insertBySeq history row) = insert row (set history)"
proof (cases "find_index (\<lambda>e. tr_seq row < tr_seq e) history")
  case (Some i)
  have "set history = set (take i history) \<union> set (drop i history)"
    by (metis append_take_drop_id set_append)
  then show ?thesis using Some by (auto simp: insertBySeq_def)
qed (simp add: insertBySeq_def)

lemma insertBySeq_split:
  "\<exists>a b. history = a @ b \<and> insertBySeq history row = a @ row # b"
proof (cases "find_index (\<lambda>e. tr_seq row < tr_seq e) history")
  case None
  then show ?thesis by (intro exI[of _ history] exI[of _ "[]"]) (simp add: insertBySeq_def)
next
  case (Some i)
  then show ?thesis by (intro exI[of _ "take i history"] exI[of _ "drop i history"]) (simp add: insertBySeq_def)
qed

section \<open>The invariant of the state\<close>

definition turn_key :: "live_turn \<Rightarrow> jstr \<times> jstr" where
  "turn_key t = (lt_member t, lt_turnId t)"

definition steps_ok :: "step_draft list \<Rightarrow> bool" where
  "steps_ok steps \<longleftrightarrow>
     distinct (map sd_step steps) \<and> (\<forall>s \<in> set steps. distinct (map draft_index (sd_blocks s))) \<and>
     (\<forall>i < length steps. sd_settled (steps ! i) \<longleftrightarrow> Suc i < length steps)"

definition turn_ok :: "live_turn \<Rightarrow> bool" where
  "turn_ok t \<longleftrightarrow> lt_fixedSteps t \<le> length (lt_steps t) \<and> steps_ok (lt_steps t)"

definition live_ok :: "live_turn list \<Rightarrow> bool" where
  "live_ok live \<longleftrightarrow> distinct (map turn_key live) \<and> (\<forall>t \<in> set live. turn_ok t)"

definition rows_ok :: "team_row list \<Rightarrow> bool" where
  "rows_ok history \<longleftrightarrow>
     distinct (map tr_seq (filter (\<lambda>r. \<not> tr_projected r) history)) \<and>
     distinct (map tr_seq (filter tr_projected history))"

definition marks_ok :: "chat_state \<Rightarrow> bool" where
  "marks_ok st \<longleftrightarrow>
     (\<forall>r \<in> set (cs_history st). tr_open r \<longrightarrow> \<not> tr_projected r \<and> tr_member r \<in> lt_member ` set (cs_live st)) \<and>
     (\<forall>member view. cs_memberHistory st member = Some view \<longrightarrow>
        (\<forall>r \<in> set view. vr_open r \<longrightarrow> \<not> vr_projected r \<and> member \<in> lt_member ` set (cs_live st)))"

definition state_ok :: "chat_state \<Rightarrow> bool" where
  "state_ok st \<longleftrightarrow> live_ok (cs_live st) \<and> rows_ok (cs_history st) \<and> marks_ok st"

definition owned_by :: "nat set \<Rightarrow> chat_state \<Rightarrow> bool" where
  "owned_by ids st \<longleftrightarrow> (\<forall>t \<in> set (cs_live st). ran (lt_owners t) \<subseteq> insert 0 ids)"

lemma state_okI [intro?]:
  "live_ok (cs_live st) \<Longrightarrow> rows_ok (cs_history st) \<Longrightarrow> marks_ok st \<Longrightarrow> state_ok st"
  by (simp add: state_ok_def)

lemma state_okD:
  "state_ok st \<Longrightarrow> live_ok (cs_live st)" "state_ok st \<Longrightarrow> rows_ok (cs_history st)" "state_ok st \<Longrightarrow> marks_ok st"
  by (simp_all add: state_ok_def)

lemma state_ok_empty [simp]: "state_ok EMPTY_STATE" "owned_by ids EMPTY_STATE"
  by (simp_all add: state_ok_def EMPTY_STATE_def live_ok_def rows_ok_def marks_ok_def owned_by_def)

lemma state_ok_cong:
  "cs_live st' = cs_live st \<Longrightarrow> cs_history st' = cs_history st \<Longrightarrow>
     cs_memberHistory st' = cs_memberHistory st \<Longrightarrow> state_ok st' = state_ok st"
  by (simp add: state_ok_def marks_ok_def)

lemma owned_by_cong: "cs_live st' = cs_live st \<Longrightarrow> owned_by ids st' = owned_by ids st"
  by (simp add: owned_by_def)

text \<open>Marks only depend on the members of the live turns.\<close>

lemma marks_ok_live:
  assumes "marks_ok st" and "lt_member ` set (cs_live st) \<subseteq> lt_member ` set live"
  shows "marks_ok (st\<lparr>cs_live := live\<rparr>)"
  using assms unfolding marks_ok_def by simp blast

lemma live_okD:
  assumes "live_ok live"
  shows "distinct (map turn_key live)" "t \<in> set live \<Longrightarrow> turn_ok t"
  using assms by (simp_all add: live_ok_def)

text \<open>Changing one turn without its key.\<close>

lemma live_ok_update:
  assumes "live_ok live" "i < length live" "turn_key t = turn_key (live ! i)" "turn_ok t"
  shows "live_ok (live[i := t])"
proof -
  have "map turn_key (live[i := t]) = map turn_key live"
    using assms(2,3) by (simp add: map_update list_update_same_conv)
  then show ?thesis using assms by (auto simp: live_ok_def dest: subsetD[OF set_update_subset_insert])
qed

lemma members_update:
  assumes "i < length live" "lt_member t = lt_member (live ! i)"
  shows "lt_member ` set (live[i := t]) = lt_member ` set live"
proof -
  have "map lt_member (live[i := t]) = map lt_member live"
    using assms by (simp add: map_update list_update_same_conv)
  then show ?thesis by (metis set_map)
qed

lemma live_ok_drop: "live_ok live \<Longrightarrow> live_ok (drop_index i live)"
  using set_drop_index[of i live] by (auto simp: live_ok_def map_drop_index distinct_drop_index)

section \<open>Steps\<close>

lemma steps_ok_transfer:
  assumes ok: "steps_ok steps" and keys: "map sd_step steps' = map sd_step steps"
    and flags: "map sd_settled steps' = map sd_settled steps"
    and blocks: "\<And>s. s \<in> set steps' \<Longrightarrow> distinct (map draft_index (sd_blocks s))"
  shows "steps_ok steps'"
proof -
  have len: "length steps' = length steps" using keys by (rule map_eq_imp_length_eq)
  have "sd_settled (steps' ! i) = sd_settled (steps ! i)" if "i < length steps'" for i
    using arg_cong[OF flags, of "\<lambda>xs. xs ! i"] that len by simp
  then show ?thesis using ok blocks unfolding steps_ok_def keys len by simp
qed

lemma mapStepBlocks_ok:
  assumes "steps_ok steps" and "\<And>bs. distinct (map draft_index bs) \<Longrightarrow> distinct (map draft_index (f bs))"
  shows "steps_ok (mapStepBlocks steps step f)"
proof (rule steps_ok_transfer[OF assms(1)])
  show "distinct (map draft_index (sd_blocks s))" if "s \<in> set (mapStepBlocks steps step f)" for s
    using that assms by (auto simp: steps_ok_def mapStepBlocks_def)
qed (simp_all add: mapStepBlocks_def)

lemma length_mapStepBlocks [simp]: "length (mapStepBlocks steps step f) = length steps"
  by (simp add: mapStepBlocks_def)

lemma draft_index_simps [simp]:
  "draft_index (append_draft t b) = draft_index b"
  "draft_index (blockEndTerminal block b) = draft_index b"
  "draft_index (settleDraft toolId status result b) = draft_index b"
  "draft_index (blockStartDraft i type toolId' name) = i"
  by (cases b; simp add: blockStartDraft_def blockEndTerminal.simps split: option.split)+

lemma map_draft_index_if:
  "map draft_index (map (\<lambda>b. if draft_index b = i then append_draft t b else b) bs) = map draft_index bs"
  "map draft_index (map (\<lambda>b. if draft_index b = i then blockEndTerminal block b else b) bs) = map draft_index bs"
  by simp_all

lemma settle_steps_ok:
  assumes "steps_ok steps"
  shows "steps_ok (settle_steps toolId status result steps)"
proof (rule steps_ok_transfer[OF assms])
  show "distinct (map draft_index (sd_blocks s))" if "s \<in> set (settle_steps toolId status result steps)" for s
    using that assms by (auto simp: steps_ok_def settle_steps_def comp_def)
qed (simp_all add: settle_steps_def)

lemma length_settle_steps [simp]: "length (settle_steps toolId status result steps) = length steps"
  by (simp add: settle_steps_def)

lemma appendBlockStart_ok:
  assumes ok: "steps_ok steps"
  shows "steps_ok (appendBlockStart steps step draft)"
    and "length steps \<le> length (appendBlockStart steps step draft)"
proof -
  show "length steps \<le> length (appendBlockStart steps step draft)"
    by (simp add: appendBlockStart_def split: option.split)
  show "steps_ok (appendBlockStart steps step draft)"
  proof (cases "List.find (\<lambda>s. sd_step s = step) steps")
    case None
    then have new: "step \<notin> sd_step ` set steps" by (auto simp: find_None_iff)
    let ?l = "map (\<lambda>s. s\<lparr>sd_settled := True\<rparr>) steps"
    let ?n = "\<lparr>sd_step = step, sd_blocks = [draft], sd_settled = False\<rparr>"
    have "map sd_step (?l @ [?n]) = map sd_step steps @ [step]" by simp
    moreover have "distinct (map sd_step steps @ [step])" using ok new by (simp add: steps_ok_def)
    ultimately have "distinct (map sd_step (?l @ [?n]))" by (simp only:)
    moreover have "\<forall>s \<in> set (?l @ [?n]). distinct (map draft_index (sd_blocks s))"
      using ok by (auto simp: steps_ok_def)
    moreover have "\<forall>i < length (?l @ [?n]). sd_settled ((?l @ [?n]) ! i) \<longleftrightarrow> Suc i < length (?l @ [?n])"
      by (auto simp: nth_append)
    ultimately have "steps_ok (?l @ [?n])" unfolding steps_ok_def by blast
    then show ?thesis using None by (simp add: appendBlockStart_def)
  next
    case (Some found)
    then have f: "found \<in> set steps" "sd_step found = step" by (auto simp: find_Some_iff)
    show ?thesis
    proof (cases "\<exists>b \<in> set (sd_blocks found). draft_index b = draft_index draft")
      case True
      with Some ok show ?thesis by (simp add: appendBlockStart_def)
    next
      case False
      let ?f = "\<lambda>s. if sd_step s = step then s\<lparr>sd_blocks := sd_blocks s @ [draft]\<rparr> else s"
      have "distinct (map draft_index (sd_blocks s))" if "s \<in> set (map ?f steps)" for s
      proof -
        from that have "s \<in> ?f ` set steps" by simp
        then obtain s0 where s0: "s0 \<in> set steps" "s = ?f s0" by (rule imageE)
        have own: "distinct (map draft_index (sd_blocks s0))" using ok s0(1) by (simp add: steps_ok_def)
        show ?thesis
        proof (cases "sd_step s0 = step")
          case True
          have "inj_on sd_step (set steps)" using ok by (simp add: steps_ok_def distinct_map)
          then have "s0 = found" using s0(1) f True by (auto dest: inj_onD)
          with own False True s0(2) show ?thesis by auto
        next
          case False
          with own s0(2) show ?thesis by simp
        qed
      qed
      then have "steps_ok (map ?f steps)" by (intro steps_ok_transfer[OF ok]) simp_all
      with Some False show ?thesis by (simp add: appendBlockStart_def)
    qed
  qed
qed

section \<open>Rows\<close>

lemma rows_ok_remove: "rows_ok (a @ p # b) \<Longrightarrow> rows_ok (a @ b)"
  by (cases "tr_projected p") (auto simp: rows_ok_def)

lemma rows_ok_add:
  assumes "rows_ok (a @ b)" "\<not> tr_projected row" "\<forall>e \<in> set (a @ b). \<not> real_seq (tr_seq row) e"
  shows "rows_ok (a @ row # b)"
  using assms by (auto simp: rows_ok_def real_seq_def)

lemma rows_ok_insert:
  assumes "rows_ok history" "\<not> tr_projected row" "\<forall>e \<in> set history. \<not> real_seq (tr_seq row) e"
  shows "rows_ok (insertBySeq history row)"
  using insertBySeq_split[of history row] assms by (elim exE conjE) (simp add: rows_ok_add)

lemma rows_ok_replace:
  assumes "rows_ok history" "i < length history" "\<not> tr_projected row"
    and "\<forall>e \<in> set history. \<not> real_seq (tr_seq row) e"
  shows "rows_ok (history[i := row])"
proof -
  have h: "history = take i history @ history ! i # drop (Suc i) history" by (rule id_take_nth_drop[OF assms(2)])
  have "rows_ok (take i history @ drop (Suc i) history)" using assms(1) by (subst (asm) h) (rule rows_ok_remove)
  moreover have "\<forall>e \<in> set (take i history @ drop (Suc i) history). \<not> real_seq (tr_seq row) e"
    using assms(4) by (auto dest: in_set_takeD in_set_dropD)
  ultimately have "rows_ok (take i history @ row # drop (Suc i) history)" using assms(3) by (intro rows_ok_add)
  then show ?thesis by (simp add: upd_conv_take_nth_drop[OF assms(2)])
qed

lemma rows_ok_cong:
  "map (\<lambda>r. (tr_seq r, tr_projected r)) h' = map (\<lambda>r. (tr_seq r, tr_projected r)) h \<Longrightarrow> rows_ok h' = rows_ok h"
proof -
  assume eq: "map (\<lambda>r. (tr_seq r, tr_projected r)) h' = map (\<lambda>r. (tr_seq r, tr_projected r)) h"
  have "map tr_seq (filter (\<lambda>r. P (tr_projected r)) h) =
      map fst (filter (P \<circ> snd) (map (\<lambda>r. (tr_seq r, tr_projected r)) h))" for P h
    by (induction h) auto
  note seqs = this[of "\<lambda>x. x"] this[of Not]
  show ?thesis unfolding rows_ok_def seqs eq ..
qed

lemma foldl_min: "foldl (\<lambda>m e. min m (tr_seq e)) a h \<le> a \<and> (\<forall>e \<in> set h. foldl (\<lambda>m e. min m (tr_seq e)) a h \<le> tr_seq e)"
proof (induction h arbitrary: a)
  case (Cons e h)
  from Cons.IH[of "min a (tr_seq e)"] show ?case by auto
qed simp

lemma min_seq_le: "e \<in> set history \<Longrightarrow> min_seq history \<le> tr_seq e" "min_seq history \<le> 0"
  using foldl_min by (auto simp: min_seq_def)

lemma projectTail_facts:
  "r \<in> set (projectTail history member messages) \<Longrightarrow>
     tr_projected r \<and> \<not> tr_open r \<and> tr_member r = member \<and> tr_seq r < min_seq history"
  "distinct (map tr_seq (projectTail history member messages))"
proof -
  show "r \<in> set (projectTail history member messages) \<Longrightarrow>
     tr_projected r \<and> \<not> tr_open r \<and> tr_member r = member \<and> tr_seq r < min_seq history"
    by (auto simp: projectTail_def)
  have "map tr_seq (projectTail history member messages) = map (\<lambda>i. min_seq history - 1 - int i) [0..<length messages]"
    by (rule nth_equalityI) (simp_all add: projectTail_def nth_enumerate_eq)
  moreover have "distinct (map (\<lambda>i. min_seq history - 1 - int i) [0..<length messages])"
    unfolding distinct_map by (intro conjI distinct_upt inj_onI) simp
  ultimately show "distinct (map tr_seq (projectTail history member messages))" by (simp only:)
qed

lemma rows_ok_project:
  assumes "rows_ok history"
  shows "rows_ok (history @ projectTail history member messages)"
proof -
  let ?tail = "projectTail history member messages"
  have "filter (\<lambda>r. \<not> tr_projected r) ?tail = []" "filter tr_projected ?tail = ?tail"
    using projectTail_facts(1) by (auto simp: filter_empty_conv filter_id_conv)
  moreover have "tr_seq ` set (filter tr_projected history) \<inter> tr_seq ` set ?tail = {}"
    using projectTail_facts(1) min_seq_le(1) by fastforce
  ultimately show ?thesis using assms projectTail_facts(2) by (simp add: rows_ok_def)
qed

section \<open>Frames keep the invariant\<close>

lemma eventMember_live: "cs_live st' = cs_live st \<Longrightarrow> eventMember st' e = eventMember st e"
  by (simp add: eventMember_def)

lemma findLiveTurn_Some:
  "findLiveTurn st member turnId = Some i \<Longrightarrow>
     i < length (cs_live st) \<and> (\<exists>m. member = Some m \<and> turn_key (cs_live st ! i) = (m, turnId))"
  by (auto simp: findLiveTurn_def turn_at_def turn_key_def dest!: find_index_Some_nth split: option.splits)

lemma findLiveTurn_None:
  "findLiveTurn st (Some m) turnId = None \<longleftrightarrow> (m, turnId) \<notin> turn_key ` set (cs_live st)"
  by (auto simp: findLiveTurn_def find_index_None turn_at_def turn_key_def)

lemma on_live_ok:
  assumes ok: "state_ok st" and f: "\<And>t. turn_ok t \<Longrightarrow> turn_ok (f t)" "\<And>t. turn_key (f t) = turn_key t"
  shows "state_ok (on_live event f st)"
proof (cases "findLiveTurn st (eventMember st event) (default_text (we_turnId event))")
  case None
  then show ?thesis using ok by (simp add: on_live_def)
next
  case (Some i)
  then have i: "i < length (cs_live st)" by (simp add: findLiveTurn_Some)
  have live: "live_ok ((cs_live st)[i := f (cs_live st ! i)])"
    using live_ok_update[OF state_okD(1)[OF ok] i f(2)] f(1) live_okD(2)[OF state_okD(1)[OF ok]] i by simp
  have "lt_member (f (cs_live st ! i)) = lt_member (cs_live st ! i)"
    using f(2)[of "cs_live st ! i"] by (simp add: turn_key_def)
  from members_update[OF i this] have "marks_ok (st\<lparr>cs_live := (cs_live st)[i := f (cs_live st ! i)]\<rparr>)"
    by (intro marks_ok_live state_okD(3)[OF ok]) simp
  with live state_okD(2)[OF ok] show ?thesis by (simp add: on_live_def Some state_ok_def)
qed

lemma on_live_owned:
  assumes "owned_by ids st" and "\<And>t. ran (lt_owners (f t)) \<subseteq> ran (lt_owners t) \<union> insert 0 ids"
  shows "owned_by ids (on_live event f st)"
proof (cases "findLiveTurn st (eventMember st event) (default_text (we_turnId event))")
  case None
  then show ?thesis using assms(1) by (simp add: on_live_def)
next
  case (Some i)
  then have "cs_live st ! i \<in> set (cs_live st)" by (simp add: findLiveTurn_Some)
  then have "ran (lt_owners (f (cs_live st ! i))) \<subseteq> insert 0 ids"
    using assms(2)[of "cs_live st ! i"] assms(1) by (auto simp: owned_by_def)
  then show ?thesis
    using assms(1) by (auto simp: on_live_def Some owned_by_def dest!: subsetD[OF set_update_subset_insert])
qed

lemma ran_claimBlock: "ran (claimBlock owners key streamId) \<subseteq> insert streamId (ran owners)"
  by (auto simp: claimBlock_def ran_def split: if_splits)

lemma turn_frames_ok:
  "turn_ok t \<Longrightarrow> turn_ok (turn_block_start index type toolId name step streamId t)"
  "turn_ok t \<Longrightarrow> turn_ok (turn_delta index txt step streamId t)"
  "turn_ok t \<Longrightarrow> turn_ok (turn_block_end index block step streamId t)"
  by (auto simp: turn_ok_def turn_block_start_def turn_delta_def turn_block_end_def Let_def map_draft_index_if
      intro!: appendBlockStart_ok(1) mapStepBlocks_ok intro: order_trans[OF _ appendBlockStart_ok(2)]
      simp del: map_map)

lemma turn_frames_key [simp]:
  "turn_key (turn_block_start index type toolId name step streamId t) = turn_key t"
  "turn_key (turn_delta index txt step streamId t) = turn_key t"
  "turn_key (turn_block_end index block step streamId t) = turn_key t"
  by (simp_all add: turn_key_def turn_block_start_def turn_delta_def turn_block_end_def Let_def)

lemma turn_frames_owned:
  "ran (lt_owners (turn_block_start index type toolId name step streamId t)) \<subseteq> insert streamId (ran (lt_owners t))"
  "ran (lt_owners (turn_delta index txt step streamId t)) \<subseteq> insert streamId (ran (lt_owners t))"
  "ran (lt_owners (turn_block_end index block step streamId t)) \<subseteq> insert streamId (ran (lt_owners t))"
  using ran_claimBlock by (auto simp: turn_block_start_def turn_delta_def turn_block_end_def Let_def)

lemma reduce_tool_result_ok:
  assumes ok: "state_ok st"
  shows "state_ok (reduce_tool_result toolId status result st)"
proof
  let ?st = "reduce_tool_result toolId status result st"
  have keys: "map turn_key (cs_live ?st) = map turn_key (cs_live st)"
    by (simp add: reduce_tool_result_def turn_key_def)
  show "live_ok (cs_live ?st)"
    using state_okD(1)[OF ok] unfolding live_ok_def keys
    by (auto simp: reduce_tool_result_def turn_ok_def settle_steps_ok)
  have same: "(\<lambda>r. (tr_seq r, tr_projected r)) \<circ> settleHistoryEntry toolId status result = (\<lambda>r. (tr_seq r, tr_projected r))"
    by (simp add: fun_eq_iff settleHistoryEntry_def)
  show "rows_ok (cs_history ?st)"
    using state_okD(2)[OF ok] by (subst rows_ok_cong[of _ "cs_history st"]) (simp_all add: reduce_tool_result_def same)
  have members: "lt_member ` set (cs_live ?st) = lt_member ` set (cs_live st)"
    by (simp add: reduce_tool_result_def image_image)
  have "tr_open (settleHistoryEntry toolId status result r) = tr_open r"
    "tr_projected (settleHistoryEntry toolId status result r) = tr_projected r"
    "tr_member (settleHistoryEntry toolId status result r) = tr_member r"
    "vr_open (settle_view_row toolId status result v) = vr_open v"
    "vr_projected (settle_view_row toolId status result v) = vr_projected v" for r v
    by (simp_all add: settleHistoryEntry_def settle_view_row_def)
  then show "marks_ok ?st"
    using state_okD(3)[OF ok] unfolding marks_ok_def members
    by (auto simp: reduce_tool_result_def settleMemberHistory_def)
qed

lemma reduce_tool_result_owned:
  "owned_by ids st \<Longrightarrow> owned_by ids (reduce_tool_result toolId status result st)"
  by (auto simp: owned_by_def reduce_tool_result_def)

lemma members_drop:
  "i < length live \<Longrightarrow> lt_member ` set live - {lt_member (live ! i)} \<subseteq> lt_member ` set (drop_index i live)"
proof -
  assume i: "i < length live"
  have "set live = set (take i live @ live ! i # drop (Suc i) live)" using id_take_nth_drop[OF i] by simp
  then show ?thesis by (auto simp: drop_index_def)
qed

lemma clearMemberOpen_facts:
  "cs_live (clearMemberOpen st m) = cs_live st"
  "rows_ok (cs_history (clearMemberOpen st m)) = rows_ok (cs_history st)"
  "r \<in> set (cs_history (clearMemberOpen st m)) \<Longrightarrow> tr_open r \<Longrightarrow> r \<in> set (cs_history st) \<and> tr_member r \<noteq> m"
  "cs_memberHistory (clearMemberOpen st m) k = Some view \<Longrightarrow> v \<in> set view \<Longrightarrow> vr_open v \<Longrightarrow>
     (\<exists>view'. cs_memberHistory st k = Some view' \<and> v \<in> set view') \<and> k \<noteq> m"
proof -
  have "map (\<lambda>r. (tr_seq r, tr_projected r)) (cs_history (clearMemberOpen st m)) =
      map (\<lambda>r. (tr_seq r, tr_projected r)) (cs_history st)"
    by (simp add: clearMemberOpen_def clear_row_def)
  then show "rows_ok (cs_history (clearMemberOpen st m)) = rows_ok (cs_history st)" by (rule rows_ok_cong)
  show "cs_live (clearMemberOpen st m) = cs_live st" by (simp add: clearMemberOpen_def)
  show "r \<in> set (cs_history (clearMemberOpen st m)) \<Longrightarrow> tr_open r \<Longrightarrow> r \<in> set (cs_history st) \<and> tr_member r \<noteq> m"
    by (auto simp: clearMemberOpen_def clear_row_def split: if_splits)
  show "cs_memberHistory (clearMemberOpen st m) k = Some view \<Longrightarrow> v \<in> set view \<Longrightarrow> vr_open v \<Longrightarrow>
     (\<exists>view'. cs_memberHistory st k = Some view' \<and> v \<in> set view') \<and> k \<noteq> m"
    by (auto simp: clearMemberOpen_def clear_view_row_def split: if_splits option.splits)
qed

lemma projected_view:
  assumes "projectMemberTail views m messages k = Some view" "v \<in> set view" "vr_open v"
  shows "\<exists>view'. views k = Some view' \<and> v \<in> set view'"
  using assms by (auto simp: projectMemberTail_def view_of_def split: if_splits option.splits)

text \<open>Marks after a close: they were there before, on rows of another member.\<close>

lemma marks_ok_closed:
  assumes ok: "marks_ok st" and i: "i < length (cs_live st)"
    and live: "cs_live st' = drop_index i (cs_live st)"
    and rows: "\<And>r. r \<in> set (cs_history st') \<Longrightarrow> tr_open r \<Longrightarrow>
        r \<in> set (cs_history st) \<and> tr_member r \<noteq> lt_member (cs_live st ! i)"
    and views: "\<And>k view v. cs_memberHistory st' k = Some view \<Longrightarrow> v \<in> set view \<Longrightarrow> vr_open v \<Longrightarrow>
        (\<exists>view'. cs_memberHistory st k = Some view' \<and> v \<in> set view') \<and> k \<noteq> lt_member (cs_live st ! i)"
  shows "marks_ok st'"
  unfolding marks_ok_def live
proof (intro conjI ballI allI impI)
  fix r assume r: "r \<in> set (cs_history st')" "tr_open r"
  with rows ok show "\<not> tr_projected r" "tr_member r \<in> lt_member ` set (drop_index i (cs_live st))"
    using members_drop[OF i] by (auto simp: marks_ok_def)
next
  fix k view v assume v: "cs_memberHistory st' k = Some view" "v \<in> set view" "vr_open v"
  from views[OF this] obtain view' where "cs_memberHistory st k = Some view'" "v \<in> set view'"
    "k \<noteq> lt_member (cs_live st ! i)" by blast
  with v(3) ok show "\<not> vr_projected v" "k \<in> lt_member ` set (drop_index i (cs_live st))"
    using members_drop[OF i] by (auto simp: marks_ok_def)
qed

lemma closeLiveTurn_ok:
  assumes ok: "state_ok st"
  shows "state_ok (closeLiveTurn st i interrupted)"
proof (cases "i < length (cs_live st)")
  case False
  then show ?thesis using ok by (simp add: closeLiveTurn_def)
next
  case True
  let ?st = "closeLiveTurn st i interrupted" and ?m = "lt_member (cs_live st ! i)"
  note clear = clearMemberOpen_facts[where st = st and m = "?m"]
  have live: "cs_live ?st = drop_index i (cs_live st)" using True by (simp add: closeLiveTurn_def Let_def)
  have "rows_ok (cs_history ?st)"
    using True clear(2) state_okD(2)[OF ok] by (simp add: closeLiveTurn_def Let_def rows_ok_project)
  moreover have "live_ok (cs_live ?st)" unfolding live by (rule live_ok_drop[OF state_okD(1)[OF ok]])
  moreover have "marks_ok ?st"
  proof (rule marks_ok_closed[OF state_okD(3)[OF ok] True live])
    show "r \<in> set (cs_history st) \<and> tr_member r \<noteq> ?m" if "r \<in> set (cs_history ?st)" "tr_open r" for r
      using that True clear(3) projectTail_facts(1) by (auto simp: closeLiveTurn_def Let_def split: if_splits)
    show "(\<exists>view'. cs_memberHistory st k = Some view' \<and> v \<in> set view') \<and> k \<noteq> ?m"
      if "cs_memberHistory ?st k = Some view" "v \<in> set view" "vr_open v" for k view v
      using that True clear(4) by (auto simp: closeLiveTurn_def Let_def split: if_splits dest!: projected_view)
  qed
  ultimately show ?thesis by (simp add: state_ok_def)
qed

lemma closeLiveTurn_live: "set (cs_live (closeLiveTurn st i interrupted)) \<subseteq> set (cs_live st)"
  using set_drop_index[of i "cs_live st"] by (auto simp: closeLiveTurn_def Let_def clearMemberOpen_facts(1))

lemma close_found_ok: "state_ok st \<Longrightarrow> state_ok (close_found index interrupted st)"
  by (simp add: close_found_def closeLiveTurn_ok split: option.split)

lemma close_found_live: "set (cs_live (close_found index interrupted st)) \<subseteq> set (cs_live st)"
  using closeLiveTurn_live by (simp add: close_found_def split: option.split)

lemma owned_by_fewer: "owned_by ids st \<Longrightarrow> set (cs_live st') \<subseteq> set (cs_live st) \<Longrightarrow> owned_by ids st'"
  by (auto simp: owned_by_def)

lemma consumeFixedStep_cases:
  obtains "consumeFixedStep live member = live"
  | i where "i < length live" "lt_fixedSteps (live ! i) < length (lt_steps (live ! i))"
      "consumeFixedStep live member = live[i := (live ! i)\<lparr>lt_fixedSteps := Suc (lt_fixedSteps (live ! i))\<rparr>]"
  by (cases "find_index (\<lambda>t. lt_member t = member \<and> lt_fixedSteps t < length (lt_steps t)) live")
    (auto simp: consumeFixedStep_def min_def dest!: find_index_Some_nth)

lemma consumeFixedStep_ok:
  assumes "live_ok live"
  shows "live_ok (consumeFixedStep live member)"
    and "lt_member ` set (consumeFixedStep live member) = lt_member ` set live"
    and "ran ` lt_owners ` set (consumeFixedStep live member) \<subseteq> ran ` lt_owners ` set live"
proof -
  have "live_ok (consumeFixedStep live member) \<and>
      lt_member ` set (consumeFixedStep live member) = lt_member ` set live \<and>
      ran ` lt_owners ` set (consumeFixedStep live member) \<subseteq> ran ` lt_owners ` set live"
  proof (rule consumeFixedStep_cases[of live member])
    fix i assume i: "i < length live" "lt_fixedSteps (live ! i) < length (lt_steps (live ! i))"
      and c: "consumeFixedStep live member = live[i := (live ! i)\<lparr>lt_fixedSteps := Suc (lt_fixedSteps (live ! i))\<rparr>]"
    let ?t = "(live ! i)\<lparr>lt_fixedSteps := Suc (lt_fixedSteps (live ! i))\<rparr>"
    have "turn_ok ?t" using live_okD(2)[OF assms, of "live ! i"] i by (simp add: turn_ok_def)
    moreover have "turn_key ?t = turn_key (live ! i)" by (simp add: turn_key_def)
    ultimately have "live_ok (live[i := ?t])" using live_ok_update[OF assms i(1)] by blast
    moreover have "lt_member ` set (live[i := ?t]) = lt_member ` set live" by (rule members_update[OF i(1)]) simp
    moreover have "ran ` lt_owners ` set (live[i := ?t]) \<subseteq> ran ` lt_owners ` set live"
      using i(1) by (auto dest!: subsetD[OF set_update_subset_insert])
    ultimately show ?thesis unfolding c by blast
  qed (use assms in simp)
  then show "live_ok (consumeFixedStep live member)"
    "lt_member ` set (consumeFixedStep live member) = lt_member ` set live"
    "ran ` lt_owners ` set (consumeFixedStep live member) \<subseteq> ran ` lt_owners ` set live" by blast+
qed

lemma appendMemberView_rows:
  assumes "appendMemberView views member message opened k = Some view" "v \<in> set view" "vr_open v"
  shows "(\<exists>view'. views k = Some view' \<and> v \<in> set view') \<or> (k = member \<and> opened \<and> \<not> vr_projected v)"
  using assms
  by (auto simp: appendMemberView_def Let_def view_of_def split: if_splits option.splits
      dest!: subsetD[OF set_update_subset_insert])

lemma reduce_team_message_ok:
  assumes ok: "state_ok st"
  shows "state_ok (reduce_team_message frame_member message frame_seq st)" (is "state_ok ?st")
proof (cases "default_text frame_member = [] \<or> (\<exists>e \<in> set (cs_history st). real_seq (seqOf (Some frame_seq)) e)")
  case True
  then show ?thesis using ok by (auto simp: reduce_team_message_def Let_def)
next
  case False
  let ?m = "default_text frame_member"
  let ?row = "\<lparr>tr_member = ?m, tr_message = message, tr_seq = seqOf (Some frame_seq), tr_projected = False, tr_open = False\<rparr>"
  define opened where "opened = (?m \<noteq> USER_MEMBER \<and> (\<exists>t \<in> set (cs_live st). lt_member t = ?m))"
  have o: "opened \<Longrightarrow> ?m \<in> lt_member ` set (cs_live st)" unfolding opened_def by (metis image_eqI)
  note c = consumeFixedStep_ok[OF state_okD(1)[OF ok], of ?m]
  have st: "cs_live ?st = consumeFixedStep (cs_live st) ?m"
    "cs_history ?st = (case find_index (\<lambda>e. tr_projected e \<and> tr_member e = ?m) (cs_history st) of
       Some i \<Rightarrow> (cs_history st)[i := ?row] | None \<Rightarrow> insertBySeq (cs_history st) (?row\<lparr>tr_open := opened\<rparr>))"
    "cs_memberHistory ?st = (if ?m = USER_MEMBER then cs_memberHistory st
       else appendMemberView (cs_memberHistory st) ?m message opened)"
    using False unfolding opened_def by (simp_all add: reduce_team_message_def Let_def)
  have fresh: "\<forall>e \<in> set (cs_history st). \<not> real_seq (tr_seq ?row) e" using False by simp
  have "rows_ok (cs_history ?st)"
    unfolding st(2) using state_okD(2)[OF ok] fresh
    by (auto split: option.split dest!: find_index_Some_nth intro!: rows_ok_replace rows_ok_insert)
  moreover have "marks_ok ?st"
    unfolding marks_ok_def st(1) c(2)
  proof (intro conjI ballI allI impI)
    fix r assume r: "r \<in> set (cs_history ?st)" "tr_open r"
    then have "r \<in> set (cs_history st) \<or> r = ?row\<lparr>tr_open := opened\<rparr>"
      unfolding st(2) by (auto split: option.splits dest!: subsetD[OF set_update_subset_insert])
    with r(2) state_okD(3)[OF ok] show "\<not> tr_projected r" "tr_member r \<in> lt_member ` set (cs_live st)"
      using o by (auto simp: marks_ok_def)
  next
    fix k view v assume v: "cs_memberHistory ?st k = Some view" "v \<in> set view" "vr_open v"
    then have "(\<exists>view'. cs_memberHistory st k = Some view' \<and> v \<in> set view') \<or> (k = ?m \<and> opened \<and> \<not> vr_projected v)"
      unfolding st(3) by (auto split: if_splits dest: appendMemberView_rows)
    with v(3) state_okD(3)[OF ok] show "\<not> vr_projected v" "k \<in> lt_member ` set (cs_live st)"
      using o by (auto simp: marks_ok_def)
  qed
  ultimately show ?thesis using c(1) by (simp add: state_ok_def st(1))
qed

lemma reduce_team_message_owned:
  assumes ok: "state_ok st" and o: "owned_by ids st"
  shows "owned_by ids (reduce_team_message frame_member message frame_seq st)"
proof -
  have "owned_by ids (st\<lparr>cs_live := consumeFixedStep (cs_live st) m\<rparr>)" for m
    using o consumeFixedStep_ok(3)[OF state_okD(1)[OF ok], of m] unfolding owned_by_def by fastforce
  then show ?thesis using o by (simp add: reduce_team_message_def Let_def owned_by_def)
qed

lemma reduce_member_view_ok:
  assumes ok: "state_ok st"
  shows "state_ok (reduce_member_view frame_member sender message st)"
proof -
  have "\<exists>view'. views k = Some view' \<and> v \<in> set view'"
    if "appendMemberInputView views m message sender' k = Some view" "v \<in> set view" "vr_open v" for views m sender' k view v
    using that by (auto simp: appendMemberInputView_def Let_def view_of_def split: if_splits option.splits)
  then show ?thesis
    using ok unfolding state_ok_def marks_ok_def reduce_member_view_def Let_def by simp blast
qed

lemma reduce_turn_start_ok:
  assumes ok: "state_ok st"
  shows "state_ok (reduce_turn_start event st)"
proof (cases "eventMember st event")
  case None
  then show ?thesis using ok by (simp add: reduce_turn_start_def)
next
  case (Some m)
  let ?t = "\<lparr>lt_member = m, lt_turnId = default_text (we_turnId event), lt_steps = [], lt_fixedSteps = 0, lt_owners = Map.empty\<rparr>"
  have "marks_ok (st\<lparr>cs_live := cs_live st @ [?t]\<rparr>)" by (rule marks_ok_live[OF state_okD(3)[OF ok]]) auto
  moreover have "turn_ok ?t" by (simp add: turn_ok_def steps_ok_def)
  then have "live_ok (cs_live st @ [?t])"
    if "findLiveTurn st (Some m) (default_text (we_turnId event)) = None"
    using that state_okD(1)[OF ok] by (auto simp: live_ok_def findLiveTurn_None turn_key_def)
  ultimately show ?thesis
    using Some ok by (auto simp: reduce_turn_start_def Let_def state_ok_def marks_ok_def)
qed

lemma reduce_turn_start_owned: "owned_by ids st \<Longrightarrow> owned_by ids (reduce_turn_start event st)"
  by (auto simp: reduce_turn_start_def Let_def owned_by_def split: option.splits)

lemma reduce_turn_end_ok:
  assumes "state_ok st"
  shows "state_ok (reduce_turn_end event status error st)"
proof -
  have "state_ok (close_found index interrupted st)" for index interrupted by (rule close_found_ok[OF assms])
  then show ?thesis
    using assms by (auto simp: reduce_turn_end_def Let_def state_ok_def marks_ok_def
        EMPTY_STATE_def live_ok_def rows_ok_def split: web_turn_status.split)
qed

lemma reduce_turn_end_live: "set (cs_live (reduce_turn_end event status error st)) \<subseteq> set (cs_live st)"
  using close_found_live by (auto simp: reduce_turn_end_def Let_def EMPTY_STATE_def split: web_turn_status.splits)

theorem reduceEvent_ok: "state_ok st \<Longrightarrow> state_ok (reduceEvent st event queuedText streamId)"
  by (cases "we_body event")
    (simp_all add: reduceEvent_def reduce_team_message_ok reduce_member_view_ok reduce_turn_start_ok on_live_ok
      turn_frames_ok reduce_tool_result_ok reduce_turn_end_ok, simp add: state_ok_def marks_ok_def)

theorem reduceEvent_owned:
  assumes "state_ok st" "owned_by ids st" "streamId \<in> insert 0 ids"
  shows "owned_by ids (reduceEvent st event queuedText streamId)"
proof -
  have s: "insert streamId (ran owners) \<subseteq> ran owners \<union> insert 0 ids" for owners :: "int \<times> int \<Rightarrow> nat option"
    using assms(3) by blast
  show ?thesis
  proof (cases "we_body event")
    case (WebTurnEnd status error)
    then show ?thesis using owned_by_fewer[OF assms(2) reduce_turn_end_live] by (simp add: reduceEvent_def)
  next
    case (WebMemberView m sender message)
    then show ?thesis using assms(2) by (simp add: reduceEvent_def reduce_member_view_def Let_def owned_by_def)
  next
    case (WebQueued pos)
    then show ?thesis using assms(2) by (simp add: reduceEvent_def owned_by_def)
  qed (use assms(1,2) in \<open>simp_all add: reduceEvent_def reduce_team_message_owned reduce_turn_start_owned
        reduce_tool_result_owned on_live_owned[OF _ order_trans[OF turn_frames_owned(1) s]]
        on_live_owned[OF _ order_trans[OF turn_frames_owned(2) s]] on_live_owned[OF _ order_trans[OF turn_frames_owned(3) s]]\<close>)
qed

end
