(* ===== verification/Chat_Store_Properties.thy ===== *)
theory Chat_Store_Properties
  imports Chat_Store_Runs
begin

declare js_simps(2) [simp del] blockEndTerminal.simps [simp del]

text \<open>
  What the web store guarantees: the invariant of every run, what the end of a stream leaves, the
  frames several streams repeat, and the texts the drafts accumulate; and three places where the
  guarantees its comments state fail.
\<close>

section \<open>The end of a stream\<close>

lemma messages_clear [simp]: "map tr_message (cs_history (clearMemberOpen st m)) = map tr_message (cs_history st)"
  by (simp add: clearMemberOpen_def clear_row_def)

lemma messages_projectTail [simp]: "map tr_message (projectTail history member messages) = messages"
  by (rule nth_equalityI) (simp_all add: projectTail_def nth_enumerate_eq)

lemma closeLiveTurn_messages:
  assumes "i < length (cs_live st)"
  shows "map tr_message (cs_history (closeLiveTurn st i interrupted)) = map tr_message (cs_history st) @
      stepsToHistory (drop (lt_fixedSteps (cs_live st ! i)) (lt_steps (cs_live st ! i))) interrupted"
    and "cs_live (closeLiveTurn st i interrupted) = drop_index i (cs_live st)"
  using assms by (simp_all add: closeLiveTurn_def Let_def clearMemberOpen_facts(1) stepsToHistory_def)

definition unfixed :: "live_turn \<Rightarrow> step_draft list" where
  "unfixed t = drop (lt_fixedSteps t) (lt_steps t)"

lemma fold_close_turn:
  assumes "cs_live st = live"
  shows "cs_live (fold (close_turn interrupted) live st) = []"
    and "map tr_message (cs_history (fold (close_turn interrupted) live st)) = map tr_message (cs_history st) @
      concat (map (\<lambda>t. stepsToHistory (unfixed t) interrupted) live)"
    and "state_ok st \<Longrightarrow> state_ok (fold (close_turn interrupted) live st)"
proof -
  have "cs_live (fold (close_turn interrupted) live st) = [] \<and>
      map tr_message (cs_history (fold (close_turn interrupted) live st)) = map tr_message (cs_history st) @
        concat (map (\<lambda>t. stepsToHistory (unfixed t) interrupted) live) \<and>
      (state_ok st \<longrightarrow> state_ok (fold (close_turn interrupted) live st))"
    using assms
  proof (induction live arbitrary: st)
    case (Cons t live)
    then have "close_turn interrupted t st = closeLiveTurn st 0 interrupted"
      by (simp add: close_turn_def close_found_def turn_at_def)
    moreover have "cs_live (closeLiveTurn st 0 interrupted) = live"
      "map tr_message (cs_history (closeLiveTurn st 0 interrupted)) =
        map tr_message (cs_history st) @ stepsToHistory (unfixed t) interrupted"
      using closeLiveTurn_messages[of 0 st interrupted] Cons.prems by (simp_all add: drop_index_def unfixed_def)
    ultimately show ?case using Cons.IH[of "closeLiveTurn st 0 interrupted"] closeLiveTurn_ok by simp
  qed simp
  then show "cs_live (fold (close_turn interrupted) live st) = []"
    and "map tr_message (cs_history (fold (close_turn interrupted) live st)) = map tr_message (cs_history st) @
      concat (map (\<lambda>t. stepsToHistory (unfixed t) interrupted) live)"
    and "state_ok st \<Longrightarrow> state_ok (fold (close_turn interrupted) live st)" by blast+
qed

section \<open>The invariant of a run\<close>

definition unconsumed :: "(nat \<times> bool) list \<Rightarrow> nat" where
  "unconsumed calls = length (filter (\<lambda>(i, consumed). \<not> consumed) calls)"

definition store_ok :: "chat_store \<times> (nat \<times> bool) list \<Rightarrow> bool" where
  "store_ok c \<longleftrightarrow>
     (case c of (s, calls) \<Rightarrow>
       state_ok (st_state s) \<and> owned_by (fst ` set calls) (st_state s) \<and>
       distinct (map fst calls) \<and> (\<forall>i \<in> fst ` set calls. 0 < i \<and> i \<le> st_nextStreamId s) \<and>
       st_activeStreamId s = st_nextStreamId s \<and> length (st_sendTexts s) \<le> unconsumed calls)"

lemma store_okD:
  assumes "store_ok (s, calls)"
  shows "state_ok (st_state s)" "owned_by (fst ` set calls) (st_state s)" "distinct (map fst calls)"
    "i \<in> fst ` set calls \<Longrightarrow> 0 < i \<and> i \<le> st_nextStreamId s"
    "st_activeStreamId s = st_nextStreamId s" "length (st_sendTexts s) \<le> unconsumed calls"
  using assms by (auto simp: store_ok_def)

lemma unconsumed_simps [simp]:
  "unconsumed [] = 0" "unconsumed (calls @ calls') = unconsumed calls + unconsumed calls'"
  "unconsumed ((i, f) # calls) = (if f then 0 else 1) + unconsumed calls"
  by (simp_all add: unconsumed_def)

text \<open>One call among the open ones.\<close>

lemma split_call:
  assumes "distinct (map fst calls)" "(i, consumed) \<in> set calls"
  obtains a b where "calls = a @ (i, consumed) # b" "i \<notin> fst ` set a" "i \<notin> fst ` set b"
proof -
  obtain a b where c: "calls = a @ (i, consumed) # b" using assms(2) by (auto simp: in_set_conv_decomp)
  then show thesis using assms(1) that[of a b] by auto
qed

lemma map_other: "i \<notin> fst ` set a \<Longrightarrow> map (\<lambda>(j, f). if j = i then (j, x) else (j, f)) a = a"
  by (induction a) auto

lemma filter_other: "i \<notin> fst ` set a \<Longrightarrow> filter (\<lambda>(j, f). j \<noteq> i) a = a"
  by (induction a) auto

lemma send_frame_cases:
  assumes "send_frame i event (consumed, s) = (consumed', s')"
  shows "consumed'" "\<exists>t. st_state s' = reduceEvent (st_state s) event t i"
    "st_nextStreamId s' = st_nextStreamId s" "st_activeStreamId s' = st_activeStreamId s"
    "length (st_sendTexts s') \<le> length (st_sendTexts s)"
    "\<not> consumed \<Longrightarrow> length (st_sendTexts s') \<le> length (st_sendTexts s) - 1"
  using assms
  by (auto simp: send_frame_def consumeSendText_def store_apply_def Let_def split: web_body.splits if_splits)

lemma owned_by_mono: "owned_by ids st \<Longrightarrow> ids \<subseteq> ids' \<Longrightarrow> owned_by ids' st"
  unfolding owned_by_def by blast

lemma release_ok: "state_ok st \<Longrightarrow> state_ok (releaseStreamOwnership i st)"
proof -
  assume ok: "state_ok st"
  have keys: "map turn_key (cs_live (releaseStreamOwnership i st)) = map turn_key (cs_live st)"
    by (simp add: releaseStreamOwnership_def turn_key_def)
  have members: "lt_member ` set (cs_live (releaseStreamOwnership i st)) = lt_member ` set (cs_live st)"
    by (simp add: releaseStreamOwnership_def image_image)
  show ?thesis
    using ok unfolding state_ok_def live_ok_def marks_ok_def keys members
    by (auto simp: releaseStreamOwnership_def turn_ok_def)
qed

lemma release_owned: "owned_by ids st \<Longrightarrow> owned_by (ids - {i}) (releaseStreamOwnership i st)"
proof -
  have "ran (release_owner i owners) \<subseteq> ran owners - {i}" for owners
    by (auto simp: release_owner_def ran_def split: if_splits)
  then show "owned_by ids st \<Longrightarrow> ?thesis" unfolding owned_by_def releaseStreamOwnership_def by fastforce
qed

lemma loadHistory_ok:
  "distinct (map tr_seq (loaded_rows messages)) \<Longrightarrow> state_ok (loadHistory messages st)"
proof -
  assume d: "distinct (map tr_seq (loaded_rows messages))"
  have real: "\<not> tr_projected r \<and> \<not> tr_open r" if "r \<in> set (loaded_rows messages)" for r
    using that by (auto simp: loaded_rows_def)
  then have "filter (\<lambda>r. \<not> tr_projected r) (sort_key tr_seq (loaded_rows messages)) = sort_key tr_seq (loaded_rows messages)"
    "filter tr_projected (sort_key tr_seq (loaded_rows messages)) = []"
    by (simp_all add: filter_id_conv filter_empty_conv)
  moreover have "distinct (map tr_seq (sort_key tr_seq (loaded_rows messages)))"
    using d by (simp add: distinct_map)
  ultimately show ?thesis
    using real by (auto simp: loadHistory_def state_ok_def live_ok_def rows_ok_def marks_ok_def
        clearAllMemberOpen_def clear_view_row_def)
qed

lemma view_of_in: "r \<in> set (view_of views member) \<longleftrightarrow> (\<exists>view. views member = Some view \<and> r \<in> set view)"
  by (cases "views member") (simp_all add: view_of_def)

lemma loadMemberHistory_ok: "state_ok st \<Longrightarrow> state_ok (loadMemberHistory member messages st)"
  unfolding state_ok_def marks_ok_def
  by (auto simp: loadMemberHistory_def Let_def view_of_in split: if_splits)

lemma send_finish_cases:
  assumes "send_finish i failure (consumed, s) = s'"
  shows "st_activeStreamId s \<noteq> i \<Longrightarrow> st_state s' = releaseStreamOwnership i (st_state s)"
    "st_activeStreamId s = i \<Longrightarrow> \<exists>e. st_state s' = (closePendingTurns True (st_state s))\<lparr>cs_error := e\<rparr>"
    "st_nextStreamId s' = st_nextStreamId s" "st_activeStreamId s' = st_activeStreamId s"
    "length (st_sendTexts s') \<le> length (st_sendTexts s) - (if consumed then 0 else 1)"
proof -
  let ?s1 = "if consumed then s else snd (consumeSendText s)"
  have s1: "st_state ?s1 = st_state s" "st_nextStreamId ?s1 = st_nextStreamId s"
    "st_activeStreamId ?s1 = st_activeStreamId s"
    "length (st_sendTexts ?s1) = length (st_sendTexts s) - (if consumed then 0 else 1)"
    by (simp_all add: consumeSendText_def)
  show "st_activeStreamId s \<noteq> i \<Longrightarrow> st_state s' = releaseStreamOwnership i (st_state s)"
    using assms s1 by (auto simp: send_finish_def Let_def)
  show "st_activeStreamId s = i \<Longrightarrow> \<exists>e. st_state s' = (closePendingTurns True (st_state s))\<lparr>cs_error := e\<rparr>"
  proof -
    assume "st_activeStreamId s = i"
    then have "st_state s' = (case failure of None \<Rightarrow> closePendingTurns True (st_state s)
        | Some e \<Rightarrow> (closePendingTurns True (st_state s))\<lparr>cs_error := Some e\<rparr>)"
      using assms s1 by (auto simp: send_finish_def Let_def)
    then show ?thesis
      by (cases failure) (auto intro: exI[of _ "cs_error (closePendingTurns True (st_state s))"])
  qed
  show "st_nextStreamId s' = st_nextStreamId s" "st_activeStreamId s' = st_activeStreamId s"
    "length (st_sendTexts s') \<le> length (st_sendTexts s) - (if consumed then 0 else 1)"
    using assms s1 by (auto simp: send_finish_def Let_def)
qed

lemma send_finish_ok:
  assumes ok: "store_ok (s, calls)" and i: "(i, consumed) \<in> set calls" and f: "send_finish i failure (consumed, s) = s'"
  shows "store_ok (s', filter (\<lambda>(j, f). j \<noteq> i) calls)"
proof -
  note k = store_okD[OF ok]
  obtain a b where c: "calls = a @ (i, consumed) # b" "i \<notin> fst ` set a" "i \<notin> fst ` set b"
    by (rule split_call[OF k(3) i])
  have rest: "filter (\<lambda>(j, f). j \<noteq> i) calls = a @ b" by (simp add: c filter_other)
  have ids: "fst ` set calls - {i} = fst ` set (a @ b)" using c by auto
  have "state_ok (st_state s') \<and> owned_by (fst ` set (a @ b)) (st_state s')"
  proof (cases "st_activeStreamId s = i")
    case False
    then have "st_state s' = releaseStreamOwnership i (st_state s)" by (rule send_finish_cases(1)[OF f])
    then show ?thesis using release_ok[OF k(1)] release_owned[OF k(2), of i] by (simp only: ids)
  next
    case True
    note closed = fold_close_turn[of "st_state s" "cs_live (st_state s)" True, OF refl]
    from send_finish_cases(2)[OF f True]
    show ?thesis
      using closed(1) closed(3)[OF k(1)] by (auto simp: closePendingTurns_def owned_by_def state_ok_def marks_ok_def)
  qed
  moreover have "st_nextStreamId s' = st_nextStreamId s" "st_activeStreamId s' = st_activeStreamId s"
    "length (st_sendTexts s') \<le> unconsumed (a @ b)"
    using send_finish_cases(3-5)[OF f] k(6) c(1) by (auto split: if_splits)
  ultimately show ?thesis unfolding rest using k(3-5) c by (auto simp: store_ok_def)
qed

lemma store_step_ok:
  assumes "store_step c c'" "store_ok c"
  shows "store_ok c'"
  using assms
proof (induction rule: store_step.induct)
  case (starts t s i s' calls)
  note k = store_okD[OF starts(2)]
  have "owned_by (insert (Suc (st_nextStreamId s)) (fst ` set calls)) (st_state s)"
    by (rule owned_by_mono[OF k(2)]) blast
  with k starts(1) show ?case
    by (fastforce simp: send_start_def Let_def store_ok_def)
next
  case (frame i consumed calls event s consumed' s')
  note k = store_okD[OF frame(3)] and f = send_frame_cases[OF frame(2)]
  obtain a b where c: "calls = a @ (i, consumed) # b" "i \<notin> fst ` set a" "i \<notin> fst ` set b"
    by (rule split_call[OF k(3) frame(1)])
  let ?calls = "map (\<lambda>(j, f). if j = i then (j, consumed') else (j, f)) calls"
  have calls: "?calls = a @ (i, True) # b" using c f(1) by (simp add: map_other)
  then have ids: "map fst ?calls = map fst calls" using c(1) by simp
  then have sets: "fst ` set ?calls = fst ` set calls" by (metis set_map)
  obtain t where st: "st_state s' = reduceEvent (st_state s) event t i" using f(2) by blast
  have "i \<in> insert 0 (fst ` set calls)" using frame(1) by force
  then have "state_ok (st_state s') \<and> owned_by (fst ` set calls) (st_state s')"
    unfolding st using reduceEvent_ok[OF k(1)] reduceEvent_owned[OF k(1,2)] by blast
  moreover have "length (st_sendTexts s') \<le> unconsumed ?calls"
    unfolding calls using k(6) c(1) f(5,6) by (cases consumed) auto
  ultimately show ?case unfolding store_ok_def prod.case sets ids using k(3-5) f(3,4) by simp
next
  case (finishes i consumed calls failure s s')
  then show ?case using send_finish_ok by blast
next
  case (loads messages s calls)
  note k = store_okD[OF loads(2)]
  show ?case using loadHistory_ok[OF loads(1)] k(3-6) by (simp add: store_ok_def owned_by_def loadHistory_def)
next
  case (loads_view s calls member views)
  note k = store_okD[OF loads_view]
  show ?case using loadMemberHistory_ok[OF k(1)] k(2-6)
    by (simp add: store_ok_def owned_by_def loadMemberHistory_def Let_def)
next
  case (clears s calls)
  note k = store_okD[OF clears]
  show ?case using k
    by (simp add: store_ok_def owned_by_def clearMemberHistory_def state_ok_def marks_ok_def)
next
  case (injects s calls event)
  note k = store_okD[OF injects]
  show ?case using reduceEvent_ok[OF k(1)] reduceEvent_owned[OF k(1,2)] k(3-6)
    by (simp add: store_ok_def store_apply_def)
qed

lemma store_reach_ok: "store_reach c \<Longrightarrow> store_ok c"
proof (induction rule: store_reach.induct)
  case fresh
  show ?case by (simp add: store_ok_def new_store_def)
next
  case (step c c')
  then show ?case using store_step_ok by blast
qed

end
