(* ===== verification/Chat_Store_Repeats.thy ===== *)
theory Chat_Store_Repeats
  imports Chat_Store_Properties
begin

declare js_simps(2) [simp del] blockEndTerminal.simps [simp del]

text \<open>
  Concurrent team streams carry the same frames. A frame that two streams deliver one after the other
  changes the state once, whichever of them owns the block it belongs to.
\<close>

section \<open>Repeating a change of one turn\<close>

lemma find_index_map: "find_index P (map f xs) = find_index (P \<circ> f) xs"
  by (induction xs) auto

lemma turn_at_key: "turn_at m turnId = (\<lambda>k. k = (m, turnId)) \<circ> turn_key"
  by (auto simp: fun_eq_iff turn_at_def turn_key_def)

lemma findLiveTurn_keys:
  "map turn_key (cs_live st') = map turn_key (cs_live st) \<Longrightarrow> findLiveTurn st' member turnId = findLiveTurn st member turnId"
  by (simp add: findLiveTurn_def turn_at_key find_index_map[symmetric] split: option.split)

lemma eventMember_keys:
  assumes "map turn_key (cs_live st') = map turn_key (cs_live st)"
  shows "eventMember st' event = eventMember st event"
proof -
  have "length (cs_live st') = length (cs_live st)" by (rule map_eq_imp_length_eq[OF assms])
  then show ?thesis
    using assms by (auto simp: eventMember_def turn_key_def split: list.splits)
qed

lemma on_live_twice:
  assumes "\<And>t. turn_key (f t) = turn_key t" "\<And>t. turn_key (g t) = turn_key t"
    and "\<And>t. g (f t) = f t \<or> f t = t"
  shows "on_live event g (on_live event f st) = on_live event f st \<or>
    on_live event g (on_live event f st) = on_live event g st"
proof (cases "findLiveTurn st (eventMember st event) (default_text (we_turnId event))")
  case None
  then show ?thesis by (simp add: on_live_def)
next
  case (Some i)
  then have i: "i < length (cs_live st)" by (simp add: findLiveTurn_Some)
  let ?t = "cs_live st ! i" and ?st = "on_live event f st"
  have st: "?st = st\<lparr>cs_live := (cs_live st)[i := f ?t]\<rparr>" by (simp add: on_live_def Some)
  have keys: "map turn_key (cs_live ?st) = map turn_key (cs_live st)"
    using i assms(1) by (simp add: st map_update list_update_same_conv)
  have "findLiveTurn ?st (eventMember ?st event) (default_text (we_turnId event)) = Some i"
    unfolding eventMember_keys[OF keys] findLiveTurn_keys[OF keys] by (rule Some)
  then have g: "on_live event g ?st = st\<lparr>cs_live := (cs_live st)[i := g (f ?t)]\<rparr>"
    unfolding on_live_def[of event g] using i by (simp add: st)
  have g': "on_live event g st = st\<lparr>cs_live := (cs_live st)[i := g ?t]\<rparr>" by (simp add: on_live_def Some)
  from assms(3)[of ?t] show ?thesis
  proof
    assume "g (f ?t) = f ?t"
    then have "on_live event g ?st = ?st" unfolding g unfolding st by simp
    then show ?thesis ..
  next
    assume "f ?t = ?t"
    then show ?thesis unfolding g g' by simp
  qed
qed

lemma claim_twice [simp]: "claimBlock (claimBlock owners key a) key b = claimBlock owners key a"
  by (simp add: claimBlock_def)

lemma find_map_found: "List.find P (map f xs) = map_option f (List.find (P \<circ> f) xs)"
  by (induction xs) auto

lemma find_append: "List.find P (xs @ ys) = (case List.find P xs of None \<Rightarrow> List.find P ys | Some x \<Rightarrow> Some x)"
  by (induction xs) auto

lemma appendBlockStart_present:
  "List.find (\<lambda>s. sd_step s = step) steps = Some found \<Longrightarrow> \<exists>b \<in> set (sd_blocks found). draft_index b = draft_index draft \<Longrightarrow>
     appendBlockStart steps step draft = steps"
  by (simp add: appendBlockStart_def)

lemma appendBlockStart_twice [simp]:
  "appendBlockStart (appendBlockStart steps step draft) step draft = appendBlockStart steps step draft"
proof (cases "List.find (\<lambda>s. sd_step s = step) steps")
  case None
  then have none: "List.find ((\<lambda>s. sd_step s = step) \<circ> (\<lambda>s. s\<lparr>sd_settled := True\<rparr>)) steps = None"
    by (simp add: find_None_iff)
  have "List.find (\<lambda>s. sd_step s = step) (appendBlockStart steps step draft) =
      Some \<lparr>sd_step = step, sd_blocks = [draft], sd_settled = False\<rparr>"
    by (simp add: appendBlockStart_def None find_append find_map_found none)
  then show ?thesis by (subst appendBlockStart_def) simp
next
  case (Some found)
  show ?thesis
  proof (cases "\<exists>b \<in> set (sd_blocks found). draft_index b = draft_index draft")
    case True
    with Some show ?thesis by (simp add: appendBlockStart_def)
  next
    case False
    let ?f = "\<lambda>s. if sd_step s = step then s\<lparr>sd_blocks := sd_blocks s @ [draft]\<rparr> else s"
    have "List.find ((\<lambda>s. sd_step s = step) \<circ> ?f) steps = List.find (\<lambda>s. sd_step s = step) steps"
      by (rule arg_cong[where f = "\<lambda>P. List.find P steps"]) (simp add: fun_eq_iff)
    moreover have "sd_step found = step" using Some by (auto simp: find_Some_iff)
    ultimately have "List.find (\<lambda>s. sd_step s = step) (map ?f steps) = Some (found\<lparr>sd_blocks := sd_blocks found @ [draft]\<rparr>)"
      unfolding find_map_found by (simp only: Some option.map simp_thms if_True)
    then have "appendBlockStart (map ?f steps) step draft = map ?f steps" by (rule appendBlockStart_present) simp
    moreover have "appendBlockStart steps step draft = map ?f steps" using Some False by (simp add: appendBlockStart_def)
    ultimately show ?thesis by (simp only:)
  qed
qed

lemma blockEndTerminal_twice [simp]: "blockEndTerminal block (blockEndTerminal block draft) = blockEndTerminal block draft"
  by (cases draft) (simp_all add: blockEndTerminal.simps split: option.split)

lemma mapStepBlocks_twice:
  "(\<And>bs. g (f bs) = f bs) \<Longrightarrow> mapStepBlocks (mapStepBlocks steps step f) step g = mapStepBlocks steps step f"
  by (simp add: mapStepBlocks_def)

lemma turn_frames_twice:
  "turn_block_start index type toolId name step b (turn_block_start index type toolId name step a t) =
     turn_block_start index type toolId name step a t"
  "turn_block_end index block step b (turn_block_end index block step a t) = turn_block_end index block step a t"
  "a \<noteq> b \<Longrightarrow> turn_delta index txt step b (turn_delta index txt step a t) = turn_delta index txt step a t \<or>
     turn_delta index txt step a t = t"
  by (simp_all add: turn_block_start_def turn_block_end_def turn_delta_def Let_def mapStepBlocks_twice)
    (auto simp: claimBlock_def)

section \<open>Repeating a frame of the session\<close>

lemma settle_block_twice [simp]: "settle_block toolId status result (settle_block toolId status result b) = settle_block toolId status result b"
  by (auto simp: settle_block_def split: option.splits)

lemma settle_message_none:
  "\<forall>b \<in> set (wm_blocks m). \<not> running_tool toolId b \<Longrightarrow> settle_message toolId status result m = m"
  by (simp add: settle_message_def settle_block_def map_idI cong: map_cong)

lemma settleHistoryEntry_eq:
  "settleHistoryEntry toolId status result row = row\<lparr>tr_message := settle_message toolId status result (tr_message row)\<rparr>"
  by (auto simp: settleHistoryEntry_def settle_message_none)

lemma settle_view_row_eq:
  "settle_view_row toolId status result row = row\<lparr>vr_message := settle_message toolId status result (vr_message row)\<rparr>"
  by (auto simp: settle_view_row_def settle_message_none)

lemma settle_message_twice [simp]:
  "settle_message toolId status result (settle_message toolId status result m) = settle_message toolId status result m"
  by (simp add: settle_message_def)

lemma settleDraft_twice [simp]: "settleDraft toolId status result (settleDraft toolId status result d) = settleDraft toolId status result d"
  by (cases d) auto

lemma tool_result_twice:
  "reduce_tool_result toolId status result (reduce_tool_result toolId status result st) = reduce_tool_result toolId status result st"
proof -
  have "settleHistoryEntry toolId status result \<circ> settleHistoryEntry toolId status result = settleHistoryEntry toolId status result"
    "settle_view_row toolId status result \<circ> settle_view_row toolId status result = settle_view_row toolId status result"
    "settleDraft toolId status result \<circ> settleDraft toolId status result = settleDraft toolId status result"
    by (simp_all add: fun_eq_iff settleHistoryEntry_eq settle_view_row_eq)
  then show ?thesis
    by (simp add: reduce_tool_result_def settle_steps_def settleMemberHistory_def option.map_comp fun_eq_iff comp_def)
qed

lemma team_message_twice:
  "reduce_team_message m message seq (reduce_team_message m message seq st) = reduce_team_message m message seq st"
proof (cases "default_text m = [] \<or> (\<exists>e \<in> set (cs_history st). real_seq (seqOf (Some seq)) e)")
  case True
  then show ?thesis by (auto simp: reduce_team_message_def Let_def)
next
  case False
  have "\<exists>e \<in> set (cs_history (reduce_team_message m message seq st)). real_seq (seqOf (Some seq)) e"
    using False by (auto simp: reduce_team_message_def Let_def real_seq_def split: option.splits
        dest!: find_index_Some_nth intro!: bexI[OF _ set_update_memI])
  then show ?thesis by (subst reduce_team_message_def) (simp add: Let_def)
qed

lemma member_view_twice:
  assumes "has_id message"
    and "sender = Some (js ''user'') \<Longrightarrow> \<forall>q \<in> set (consumeQueueText (cs_queue st) message). qm_text q \<noteq> first_text message"
  shows "reduce_member_view m sender message (reduce_member_view m sender message st) = reduce_member_view m sender message st"
proof -
  have "consumeQueueText queue message = queue" if "\<forall>q \<in> set queue. qm_text q \<noteq> first_text message" for queue
    using that by (simp add: consumeQueueText_def find_index_None[THEN iffD2])
  moreover have "appendMemberInputView (appendMemberInputView views k message s) k message s = appendMemberInputView views k message s"
    for views k s
    using assms(1) by (auto simp: appendMemberInputView_def Let_def view_has_def view_of_def split: option.splits)
  ultimately show ?thesis using assms(2) by (auto simp: reduce_member_view_def Let_def)
qed

lemma turn_start_twice: "reduce_turn_start event (reduce_turn_start event st) = reduce_turn_start event st"
proof (cases "eventMember st event")
  case None
  then show ?thesis by (simp add: reduce_turn_start_def)
next
  case (Some m)
  show ?thesis
  proof (cases "findLiveTurn st (Some m) (default_text (we_turnId event))")
    case None
    let ?st = "reduce_turn_start event st"
    have live: "cs_live ?st = cs_live st @ [\<lparr>lt_member = m, lt_turnId = default_text (we_turnId event), lt_steps = [],
        lt_fixedSteps = 0, lt_owners = Map.empty\<rparr>]" using Some None by (simp add: reduce_turn_start_def Let_def)
    have "eventMember ?st event = None \<or> eventMember ?st event = Some m"
      using Some unfolding eventMember_def live by (auto split: list.splits if_splits)
    moreover have "findLiveTurn ?st (Some m) (default_text (we_turnId event)) \<noteq> None"
      unfolding findLiveTurn_None live by (simp add: turn_key_def)
    ultimately show ?thesis by (subst reduce_turn_start_def) (auto simp: Let_def)
  qed (use Some in \<open>simp add: reduce_turn_start_def Let_def\<close>)
qed

lemma closed_not_found:
  assumes "live_ok (cs_live st)" "eventMember st event = Some m"
    and "findLiveTurn st (Some m) turnId = Some i" and "cs_live st' = drop_index i (cs_live st)"
  shows "findLiveTurn st' (eventMember st' event) turnId = None"
proof -
  have i: "i < length (cs_live st)" "turn_key (cs_live st ! i) = (m, turnId)" using findLiveTurn_Some[OF assms(3)] by auto
  have "turn_key (cs_live st ! i) \<notin> set (map turn_key (drop_index i (cs_live st)))"
    using nth_not_in_drop_index[of "map turn_key (cs_live st)" i] live_okD(1)[OF assms(1)] i(1)
    by (simp add: map_drop_index)
  then have "findLiveTurn st' (Some m) turnId = None" unfolding findLiveTurn_None assms(4) i(2) by simp
  moreover have "eventMember st' event = Some m \<or> eventMember st' event = None"
    using assms(2) i(1) unfolding eventMember_def assms(4)
    by (auto simp: drop_index_def split: list.splits if_splits)
  ultimately show ?thesis by (auto simp: findLiveTurn_def)
qed

lemma turn_end_twice:
  assumes ok: "live_ok (cs_live st)"
  shows "reduce_turn_end event status error (reduce_turn_end event status error st) = reduce_turn_end event status error st"
proof -
  let ?turnId = "default_text (we_turnId event)"
  let ?index = "\<lambda>st. findLiveTurn st (eventMember st event) ?turnId"
  have closed: "?index (close_found (?index st) interrupted st) = None" for interrupted
  proof (cases "?index st")
    case None
    then show ?thesis by (simp add: close_found_def)
  next
    case (Some i)
    obtain m where m: "eventMember st event = Some m" using Some by (auto simp: findLiveTurn_def split: option.splits)
    from Some have "i < length (cs_live st)" by (simp add: findLiveTurn_Some)
    then have "cs_live (closeLiveTurn st i interrupted) = drop_index i (cs_live st)" by (rule closeLiveTurn_messages(2))
    then show ?thesis using closed_not_found[OF ok m] Some m by (simp add: close_found_def)
  qed
  have same: "?index st1 = ?index st2" if "cs_live st1 = cs_live st2" for st1 st2
    unfolding findLiveTurn_def eventMember_def that ..
  have "?index ((close_found (?index st) True st)\<lparr>cs_error := e\<rparr>) = None"
    "?index ((close_found (?index st) True st)\<lparr>cs_queue := q, cs_canceled := c\<rparr>) = None" for e q c
    by (subst same[of _ "close_found (?index st) True st"], simp, rule closed)+
  then show ?thesis
    using closed[of False] by (cases status) (simp_all add: reduce_turn_end_def Let_def close_found_def[of None])
qed

section \<open>Properties\<close>

text \<open>
  What a repetition needs: a \<open>queued\<close> frame belongs to one stream only, and a consumed input must
  carry an id and leave no second chip of the same text.
\<close>

definition repeatable :: "chat_state \<Rightarrow> web_event \<Rightarrow> bool" where
  "repeatable st event \<longleftrightarrow>
     (case we_body event of
        WebQueued pos \<Rightarrow> False
      | WebMemberView member sender message \<Rightarrow>
          has_id message \<and> (sender = Some (js ''user'') \<longrightarrow>
            (\<forall>q \<in> set (consumeQueueText (cs_queue st) message). qm_text q \<noteq> first_text message))
      | _ \<Rightarrow> True)"


text \<open>A sample run: two streams of one session, the older of which has opened a turn of the player.\<close>

definition player_frame :: "jstr \<Rightarrow> web_body \<Rightarrow> web_event" where
  "player_frame turnId body = \<lparr>we_turnId = Some turnId, we_member = Some (js ''player''), we_body = body\<rparr>"

definition sample_start :: web_body where "sample_start = WebBlockStart 0 WEB_TYPE_TEXT None None (Some 1)"

definition sample_calls :: "(nat \<times> bool) list" where "sample_calls = [(1, True), (2, True)]"

definition sample_store :: chat_store where
  "sample_store =
     snd (send_frame 2 (player_frame (js ''t1'') (WebDelta 0 (js ''hi'') (Some 1)))
       (False, snd (send_start (js ''b'')
         (snd (send_frame 1 (player_frame (js ''t1'') sample_start)
           (True, snd (send_frame 1 (player_frame (js ''t1'') WebTurnStart)
             (False, snd (send_start (js ''a'') new_store)))))))))"

lemma send_starts:
  "store_reach (s, calls) \<Longrightarrow> st_nextStreamId s = n \<Longrightarrow> store_reach (snd (send_start t s), calls @ [(n + 1, False)])"
  by (rule store_reach.step, assumption, rule store_step.starts) (simp add: send_start_def Let_def)

lemma send_frames:
  assumes "store_reach (s, calls)" "(i, consumed) \<in> set calls"
    and "calls' = map (\<lambda>(j, f). if j = i then (j, True) else (j, f)) calls"
  shows "store_reach (snd (send_frame i event (consumed, s)), calls')"
proof (rule store_reach.step[OF assms(1)])
  obtain c s' where f: "send_frame i event (consumed, s) = (c, s')" by fastforce
  have c: "c = True" using send_frame_cases(1)[OF f] by simp
  show "store_step (s, calls) (snd (send_frame i event (consumed, s)), calls')"
    unfolding f snd_conv assms(3) by (rule store_step.frame[OF assms(2) f[unfolded c]])
qed

lemma sample_store_reachable: "store_reach (sample_store, sample_calls)"
proof -
  have 1: "store_reach (snd (send_start (js ''a'') new_store), [(1, False)])"
    using send_starts[OF store_reach.fresh, of 0] by (simp add: new_store_def)
  let ?s1 = "snd (send_start (js ''a'') new_store)"
  let ?s2 = "snd (send_frame 1 (player_frame (js ''t1'') WebTurnStart) (False, ?s1))"
  have 2: "store_reach (?s2, [(1, True)])" by (rule send_frames[OF 1]) simp_all
  let ?s3 = "snd (send_frame 1 (player_frame (js ''t1'') sample_start) (True, ?s2))"
  have 3: "store_reach (?s3, [(1, True)])" by (rule send_frames[OF 2]) simp_all
  have "st_nextStreamId ?s3 = 1" by code_simp
  from send_starts[OF 3 this, of "js ''b''"] have 4: "store_reach (snd (send_start (js ''b'') ?s3), [(1, True), (2, False)])"
    by (simp add: eval_nat_numeral)
  show ?thesis unfolding sample_store_def sample_calls_def by (rule send_frames[OF 4]) simp_all
qed


text \<open>C28: In every run of the store, whatever streams, frames and backfills arrive: live turns have pairwise
  different keys; in each of them exactly the last step is still streamed and no more steps are fixed than
  there are; the real rows of the merged history have pairwise different sequence numbers, and so have the
  placeholders; a row marked as running belongs to a member with a live turn; every owner of a block is a
  stream still open; and no more texts wait for a stream than streams wait for their first frame.\<close>

theorem store_runs_ok:
  assumes "store_reach (s, calls)"
  shows "distinct (map turn_key (cs_live (st_state s))) \<and>
    (\<forall>t \<in> set (cs_live (st_state s)). lt_fixedSteps t \<le> length (lt_steps t) \<and>
       ran (lt_owners t) \<subseteq> insert 0 (fst ` set calls) \<and>
       map sd_settled (lt_steps t) = replicate (length (lt_steps t) - 1) True @ (if lt_steps t = [] then [] else [False])) \<and>
    rows_ok (cs_history (st_state s)) \<and> marks_ok (st_state s) \<and>
    length (st_sendTexts s) \<le> unconsumed calls"
proof -
  have ok: "store_ok (s, calls)" by (rule store_reach_ok[OF assms])
  note live = live_okD[OF state_okD(1)[OF store_okD(1)[OF ok]]]
  have "map sd_settled steps = replicate (length steps - 1) True @ (if steps = [] then [] else [False])"
    if "steps_ok steps" for steps
  proof (rule nth_equalityI)
    show "map sd_settled steps ! i = (replicate (length steps - 1) True @ (if steps = [] then [] else [False])) ! i"
      if "i < length (map sd_settled steps)" for i
      using that \<open>steps_ok steps\<close> by (cases "Suc i < length steps") (auto simp: steps_ok_def nth_append)
  qed (cases steps; simp)
  then have "map sd_settled (lt_steps t) = replicate (length (lt_steps t) - 1) True @ (if lt_steps t = [] then [] else [False])"
    if "t \<in> set (cs_live (st_state s))" for t
    using live(2)[OF that] by (simp add: turn_ok_def)
  then show ?thesis
    using live store_okD[OF ok] by (auto simp: state_ok_def owned_by_def turn_ok_def)
qed

theorem store_runs_ok_witness:
  "length (cs_live (st_state sample_store)) = 1 \<and>
   (\<exists>t. cs_live (st_state sample_store) = [t] \<and> lt_owners t (1, 0) = Some 1 \<and>
     ran (lt_owners t) \<subseteq> insert 0 (fst ` set sample_calls))"
proof -
  have "map (\<lambda>t. lt_owners t (1, 0)) (cs_live (st_state sample_store)) = [Some 1]" by code_simp
  then obtain t where t: "cs_live (st_state sample_store) = [t]" "lt_owners t (1, 0) = Some 1" by auto
  with store_runs_ok[OF sample_store_reachable] show ?thesis by simp
qed

text \<open>C29: When the newest stream of a session ends, with or without an error, nothing that was streamed is lost and
  nothing is left rendering as running: no turn stays live, and the merged history goes on with one row for
  every step of a live turn that no \<open>team_message\<close> frame has fixed, with the blocks streamed so far.\<close>

theorem stream_end_keeps_content:
  assumes "store_reach (s, calls)" and "(st_activeStreamId s, consumed) \<in> set calls"
    and "send_finish (st_activeStreamId s) failure (consumed, s) = s'"
  shows "cs_live (st_state s') = [] \<and>
    map (\<lambda>r. wm_blocks (tr_message r)) (cs_history (st_state s')) =
      map (\<lambda>r. wm_blocks (tr_message r)) (cs_history (st_state s)) @
      concat (map (\<lambda>t. map (\<lambda>step. map draft_content (sd_blocks step)) (unfixed t)) (cs_live (st_state s)))"
proof -
  obtain e where e: "st_state s' = (closePendingTurns True (st_state s))\<lparr>cs_error := e\<rparr>"
    using send_finish_cases(2)[OF assms(3)] by blast
  have blocks: "map wm_blocks (stepsToHistory steps True) = map (\<lambda>step. map draft_content (sd_blocks step)) steps" for steps
    by (rule nth_equalityI) (simp_all add: stepsToHistory_def liveBlocksToContentBlocks_def nth_enumerate_eq)
  note closed = fold_close_turn[of "st_state s" "cs_live (st_state s)" True, OF refl]
  from arg_cong[OF closed(2), of "map wm_blocks"] closed(1) show ?thesis
    by (simp add: e closePendingTurns_def map_concat comp_def blocks)
qed

theorem stream_end_keeps_content_witness:
  "\<exists>s'. send_finish 2 None (True, sample_store) = s' \<and> cs_live (st_state s') = [] \<and>
    map (\<lambda>r. wm_blocks (tr_message r)) (cs_history (st_state s')) = [[\<lparr>cb_text = Some [], cb_think = None, cb_toolCall = None\<rparr>]]"
proof -
  have a: "st_activeStreamId sample_store = 2" by code_simp
  then have "(st_activeStreamId sample_store, True) \<in> set sample_calls" by (simp add: sample_calls_def)
  note f = stream_end_keeps_content[OF sample_store_reachable this refl, of None]
  have "map (\<lambda>r. wm_blocks (tr_message r)) (cs_history (st_state sample_store)) = []"
    "concat (map (\<lambda>t. map (\<lambda>step. map draft_content (sd_blocks step)) (unfixed t)) (cs_live (st_state sample_store))) =
      [[\<lparr>cb_text = Some [], cb_think = None, cb_toolCall = None\<rparr>]]" by code_simp+
  with f show ?thesis by (simp add: a)
qed

end
