(* ===== verification/Chat_Sync.thy ===== *)
theory Chat_Sync
  imports Chat_Store_Repeats Session_Properties
begin

declare js_simps(2) [simp del] blockEndTerminal.simps [simp del]

text \<open>
  The web store against the agent host: the frames of a live team, as protojson writes them, and
  \<open>ListTeamMessages\<close> backfills bring the merged sequence of the server to the client.
\<close>

section \<open>Frames on the wire\<close>

text \<open>
  The JSON of an event, field by field. The JSON of a message is taken when its frame is written, so
  it is an argument, by message number.
\<close>

fun tool_status_name :: "tool_status \<Rightarrow> jstr" where
  "tool_status_name TOOL_STATUS_RUNNING = js ''TOOL_STATUS_RUNNING''"
| "tool_status_name TOOL_STATUS_SUCCEEDED = js ''TOOL_STATUS_SUCCEEDED''"
| "tool_status_name TOOL_STATUS_FAILED = js ''TOOL_STATUS_FAILED''"

fun web_block_of :: "chat_block \<Rightarrow> web_block" where
  "web_block_of (TextContent t) = \<lparr>cb_text = Some t, cb_think = None, cb_toolCall = None\<rparr>"
| "web_block_of (ThinkContent t) = \<lparr>cb_text = None, cb_think = Some t, cb_toolCall = None\<rparr>"
| "web_block_of (ToolCallContent c) =
     \<lparr>cb_text = None, cb_think = None, cb_toolCall = Some
        \<lparr>wt_toolId = tc_toolId c, wt_name = tc_name c, wt_argsJson = tc_argsJson c,
         wt_status = tool_status_name (tc_status c), wt_result = tc_result c\<rparr>\<rparr>"

fun web_type_of :: "block_type \<Rightarrow> web_block_type" where
  "web_type_of BLOCK_TYPE_TEXT = WEB_TYPE_TEXT"
| "web_type_of BLOCK_TYPE_THINK = WEB_TYPE_THINK"
| "web_type_of BLOCK_TYPE_TOOL_CALL = WEB_TYPE_TOOL_CALL"
| "web_type_of (Inherited t) = WEB_TYPE_UNSPECIFIED"

fun web_status_of :: "turn_status \<Rightarrow> web_turn_status" where
  "web_status_of COMPLETED = TURN_STATUS_COMPLETED"
| "web_status_of ERROR = TURN_STATUS_ERROR"
| "web_status_of ABORTED = TURN_STATUS_ABORTED"
| "web_status_of CANCELED = TURN_STATUS_CANCELED"

fun web_body_of :: "(nat \<Rightarrow> web_message) \<Rightarrow> payload \<Rightarrow> web_body" where
  "web_body_of json TurnStart = WebTurnStart"
| "web_body_of json (BlockStart i type step toolId name) = WebBlockStart i (web_type_of type) toolId name (Some step)"
| "web_body_of json (BlockDelta i t step) = WebDelta i t (Some step)"
| "web_body_of json (BlockEnd i b step) = WebBlockEnd i (web_block_of b) (Some step)"
| "web_body_of json (ToolResultFrame toolId status result) = WebToolResult toolId (tool_status_name status) result"
| "web_body_of json (TurnEnd status error usage) = WebTurnEnd (web_status_of status) (map_option ce_message error)"
| "web_body_of json (TeamMessage member n seq) = WebTeamMessage (Some member) (json n) (SeqText seq)"
| "web_body_of json (MemberView member sender n) = WebMemberView (Some member) (Some sender) (json n)"
| "web_body_of json (Queued pos) = WebQueued (int pos)"

definition web_event_of :: "(nat \<Rightarrow> web_message) \<Rightarrow> chat_event \<Rightarrow> web_event" where
  "web_event_of json e =
     \<lparr>we_turnId = ev_turnId e, we_member = ev_member e, we_body = web_body_of json (ev_payload e)\<rparr>"

definition message_id :: "nat \<Rightarrow> jstr" where "message_id n = js ''m'' @ str_of_nat n"

definition json_ok :: "(nat \<Rightarrow> web_message) \<Rightarrow> bool" where
  "json_ok json \<longleftrightarrow> (\<forall>n. wm_messageId (json n) = Some (message_id n))"

lemma unit_digit: "d < 10 \<Longrightarrow> unat (word_of_nat (48 + d) :: 16 word) = 48 + d"
  by (rule unat_unit) simp

lemma decimal_value_str [simp]: "decimal_value (str_of_nat n) = int n"
proof -
  have "unat (word_of_nat (48 + d) :: 16 word) - 48 = d" if "d \<in> set (digits n)" for d
    using digits_less[OF that] by (subst unit_digit) simp_all
  then have d: "map (\<lambda>c :: 16 word. unat c - 48) (str_of_nat n) = digits n"
    unfolding str_of_nat_def map_map by (intro map_idI) (simp only: comp_def)
  obtain c cs where s: "str_of_nat n = c # cs" using digits_ne[of n] by (cases "str_of_nat n") (auto simp: str_of_nat_def)
  have "unat c \<noteq> 45"
  proof -
    have "c \<in> set (str_of_nat n)" by (simp add: s)
    then obtain k where k: "k \<in> set (digits n)" "c = word_of_nat (48 + k)"
      unfolding str_of_nat_def set_map by (rule imageE)
    show ?thesis unfolding k(2) by (subst unit_digit[OF digits_less[OF k(1)]]) simp
  qed
  then have "c \<noteq> 45" by auto
  then show ?thesis using d by (simp add: decimal_value_def s Let_def)
qed

section \<open>The rows that stand for entries\<close>

definition row_key :: "team_row \<Rightarrow> int \<times> jstr \<times> jstr option" where
  "row_key r = (tr_seq r, tr_member r, wm_messageId (tr_message r))"

definition shown_rows :: "chat_state \<Rightarrow> (int \<times> jstr \<times> jstr option) set" where
  "shown_rows st = row_key ` {r \<in> set (cs_history st). \<not> tr_projected r}"

definition entry_key :: "merge_entry \<Rightarrow> int \<times> jstr \<times> jstr option" where
  "entry_key e = (int (me_seq e), me_member e, Some (message_id (me_message e)))"

lemma shown_rows_cong: "cs_history st' = cs_history st \<Longrightarrow> shown_rows st' = shown_rows st"
  by (simp add: shown_rows_def)

lemma shown_rows_map:
  assumes "cs_history st' = map f (cs_history st)"
    and "\<And>r. row_key (f r) = row_key r \<and> tr_projected (f r) = tr_projected r"
  shows "shown_rows st' = shown_rows st"
proof -
  have "{r \<in> f ` set (cs_history st). \<not> tr_projected r} = f ` {r \<in> set (cs_history st). \<not> tr_projected r}"
    using assms(2) by auto
  then show ?thesis using assms by (simp add: shown_rows_def image_image)
qed

lemma shown_rows_on_live [simp]: "shown_rows (on_live event f st) = shown_rows st"
  by (rule shown_rows_cong) (simp add: on_live_def split: option.split)

lemma shown_rows_close: "shown_rows (closeLiveTurn st i interrupted) = shown_rows st"
proof (cases "i < length (cs_live st)")
  case True
  have "shown_rows (clearMemberOpen st m) = shown_rows st" for m
    by (rule shown_rows_map[where f = "\<lambda>r. if tr_member r = m then clear_row r else r"])
      (simp_all add: clearMemberOpen_def clear_row_def row_key_def)
  moreover have "shown_rows (st'\<lparr>cs_live := live, cs_history := cs_history st' @ projectTail h m ms, cs_memberHistory := v\<rparr>) = shown_rows st'"
    for st' live h m ms v using projectTail_facts(1)[of _ h m ms] by (auto simp: shown_rows_def)
  moreover have "shown_rows (st'\<lparr>cs_live := live\<rparr>) = shown_rows st'" for st' live by (simp add: shown_rows_def)
  ultimately show ?thesis using True by (simp add: closeLiveTurn_def Let_def)
qed (simp add: closeLiveTurn_def)

lemma shown_rows_turn_end:
  "status \<noteq> TURN_STATUS_ABORTED \<Longrightarrow> shown_rows (reduce_turn_end event status error st) = shown_rows st"
proof -
  have c: "shown_rows (close_found i interrupted st) = shown_rows st" for i interrupted
    by (simp add: close_found_def shown_rows_close split: option.split)
  have "shown_rows (st'\<lparr>cs_error := e\<rparr>) = shown_rows st'" "shown_rows (st'\<lparr>cs_queue := q, cs_canceled := b\<rparr>) = shown_rows st'"
    for st' e q b by (simp_all add: shown_rows_def)
  then show "status \<noteq> TURN_STATUS_ABORTED \<Longrightarrow> ?thesis"
    by (cases status) (simp_all add: reduce_turn_end_def Let_def c)
qed

lemma shown_rows_tool_result: "shown_rows (reduce_tool_result toolId status result st) = shown_rows st"
  by (rule shown_rows_map[where f = "settleHistoryEntry toolId status result"])
    (simp_all add: reduce_tool_result_def settleHistoryEntry_eq row_key_def settle_message_def)

lemma shown_rows_team_message:
  assumes "m \<noteq> []"
  shows "shown_rows (reduce_team_message (Some m) message seq st) =
    (if seqOf (Some seq) \<in> fst ` shown_rows st then shown_rows st
     else insert (seqOf (Some seq), m, wm_messageId message) (shown_rows st))"
proof -
  let ?seq = "seqOf (Some seq)"
  have present: "(\<exists>e \<in> set (cs_history st). real_seq ?seq e) \<longleftrightarrow> ?seq \<in> fst ` shown_rows st"
    by (force simp: shown_rows_def real_seq_def row_key_def)
  let ?row = "\<lparr>tr_member = m, tr_message = message, tr_seq = ?seq, tr_projected = False, tr_open = False\<rparr>"
  have replace: "{r \<in> set (h[i := ?row]). \<not> tr_projected r} = insert ?row {r \<in> set h. \<not> tr_projected r}"
    if "i < length h" "tr_projected (h ! i)" for h i
  proof -
    have "set h = set (take i h @ h ! i # drop (Suc i) h)" using id_take_nth_drop[OF that(1)] by simp
    then show ?thesis using that by (auto simp: upd_conv_take_nth_drop)
  qed
  have "shown_rows (reduce_team_message (Some m) message seq st) = insert (row_key ?row) (shown_rows st)"
    if "\<not> (\<exists>e \<in> set (cs_history st). real_seq ?seq e)"
  proof (cases "find_index (\<lambda>e. tr_projected e \<and> tr_member e = m) (cs_history st)")
    case (Some i)
    from find_index_Some_nth[OF this] replace[of i "cs_history st"] Some that assms show ?thesis
      by (simp add: reduce_team_message_def Let_def shown_rows_def)
  next
    case None
    let ?row' = "?row\<lparr>tr_open := (m \<noteq> USER_MEMBER \<and> (\<exists>t \<in> set (cs_live st). lt_member t = m))\<rparr>"
    have "{r \<in> set (insertBySeq (cs_history st) ?row'). \<not> tr_projected r} =
        insert ?row' {r \<in> set (cs_history st). \<not> tr_projected r}" by auto
    moreover have "cs_history (reduce_team_message (Some m) message seq st) = insertBySeq (cs_history st) ?row'"
      using None that assms by (simp add: reduce_team_message_def Let_def)
    ultimately have "shown_rows (reduce_team_message (Some m) message seq st) = row_key ` insert ?row' {r \<in> set (cs_history st). \<not> tr_projected r}"
      unfolding shown_rows_def by (simp only:)
    then show ?thesis by (simp add: shown_rows_def row_key_def)
  qed
  then show ?thesis using assms present by (auto simp: row_key_def reduce_team_message_def Let_def)
qed

text \<open>What a frame can add.\<close>

definition team_keys :: "web_event \<Rightarrow> (int \<times> jstr \<times> jstr option) set" where
  "team_keys event =
     (case we_body event of
        WebTeamMessage member message seq \<Rightarrow>
          if default_text member = [] then {} else {(seqOf (Some seq), default_text member, wm_messageId message)}
      | _ \<Rightarrow> {})"

definition aborts :: "web_event \<Rightarrow> bool" where
  "aborts event \<longleftrightarrow> (\<exists>error. we_body event = WebTurnEnd TURN_STATUS_ABORTED error)"

lemma shown_rows_reduce:
  assumes "\<not> aborts event"
  shows "shown_rows (reduceEvent st event t i) =
    shown_rows st \<union> {k \<in> team_keys event. fst k \<notin> fst ` shown_rows st}"
proof (cases "we_body event")
  case (WebTeamMessage member message seq)
  show ?thesis
  proof (cases "default_text member = []")
    case True
    then show ?thesis using WebTeamMessage by (simp add: reduceEvent_def team_keys_def reduce_team_message_def)
  next
    case False
    then obtain m where "member = Some m" "m \<noteq> []" by (cases member) auto
    moreover have "{k. k = x \<and> fst k \<notin> S} = (if fst x \<in> S then {} else {x})" for x :: "int \<times> jstr \<times> jstr option" and S
      by auto
    ultimately show ?thesis using WebTeamMessage by (simp add: reduceEvent_def team_keys_def shown_rows_team_message)
  qed
next
  case (WebTurnEnd status error)
  then show ?thesis using assms by (auto simp: reduceEvent_def team_keys_def aborts_def shown_rows_turn_end)
next
  case (WebQueued pos)
  then show ?thesis by (simp add: reduceEvent_def team_keys_def shown_rows_def)
next
  case (WebMemberView m sender message)
  then show ?thesis by (simp add: reduceEvent_def team_keys_def reduce_member_view_def Let_def shown_rows_def)
next
  case WebTurnStart
  then show ?thesis
    by (simp add: reduceEvent_def team_keys_def reduce_turn_start_def Let_def shown_rows_def split: option.split)
qed (simp_all add: reduceEvent_def team_keys_def shown_rows_tool_result)

definition reduce_all :: "(web_event \<times> jstr \<times> nat) list \<Rightarrow> chat_state \<Rightarrow> chat_state" where
  "reduce_all xs st = fold (\<lambda>(event, t, i) st. reduceEvent st event t i) xs st"

lemma shown_rows_all:
  assumes "\<forall>x \<in> set xs. \<not> aborts (fst x)"
    and "inj_on fst (shown_rows st \<union> (\<Union>x \<in> set xs. team_keys (fst x)))"
  shows "shown_rows (reduce_all xs st) = shown_rows st \<union> (\<Union>x \<in> set xs. team_keys (fst x))"
  using assms
proof (induction xs arbitrary: st)
  case Nil
  then show ?case by (simp add: reduce_all_def)
next
  case (Cons x xs)
  obtain event t i where x: "x = (event, t, i)" by (cases x)
  let ?st = "reduceEvent st event t i"
  have "\<not> aborts event" using Cons.prems(1) x by simp
  note step = shown_rows_reduce[OF this, of st t i]
  have "k \<in> shown_rows st" if k: "k \<in> team_keys event" "fst k \<in> fst ` shown_rows st" for k
  proof -
    obtain k' where k': "k' \<in> shown_rows st" "fst k = fst k'" using k(2) by auto
    have "k = k'" by (rule inj_onD[OF Cons.prems(2) k'(2)]) (use k(1) k'(1) x in auto)
    with k'(1) show ?thesis by simp
  qed
  then have s: "shown_rows ?st = shown_rows st \<union> team_keys event" unfolding step by blast
  have u: "shown_rows ?st \<union> (\<Union>x \<in> set xs. team_keys (fst x)) = shown_rows st \<union> (\<Union>y \<in> set (x # xs). team_keys (fst y))"
    unfolding s by (simp add: x Un_assoc)
  have "shown_rows (reduce_all xs ?st) = shown_rows ?st \<union> (\<Union>x \<in> set xs. team_keys (fst x))"
    using Cons.prems by (intro Cons.IH) (simp, simp only: u)
  moreover have "reduce_all (x # xs) st = reduce_all xs ?st" by (simp add: reduce_all_def x)
  ultimately show ?case by (simp only: u)
qed

section \<open>The order of the rows\<close>

definition no_placeholder :: "chat_state \<Rightarrow> bool" where
  "no_placeholder st \<longleftrightarrow> (\<forall>r \<in> set (cs_history st). \<not> tr_projected r)"

definition in_order :: "team_row list \<Rightarrow> bool" where
  "in_order history \<longleftrightarrow> sorted_wrt (<) (map tr_seq history)"

lemma in_order_insert:
  assumes "in_order history" "tr_seq row \<notin> tr_seq ` set history"
  shows "in_order (insertBySeq history row)"
proof (cases "find_index (\<lambda>e. tr_seq row < tr_seq e) history")
  case None
  then have "\<forall>e \<in> set history. tr_seq e < tr_seq row" using assms(2) by (force simp: find_index_None)
  then show ?thesis using assms(1) None by (simp add: in_order_def insertBySeq_def sorted_wrt_append)
next
  case (Some i)
  then have i: "i < length history" "tr_seq row < tr_seq (history ! i)" "\<forall>j < i. \<not> tr_seq row < tr_seq (history ! j)"
    by (simp_all add: find_index_Some)
  have h: "history = take i history @ drop i history" by simp
  have sorted: "sorted_wrt (<) (map tr_seq (take i history) @ map tr_seq (drop i history))"
    using assms(1) by (simp add: in_order_def flip: map_append)
  have "tr_seq e < tr_seq row" if "e \<in> set (take i history)" for e
  proof -
    from that obtain j where "j < length (take i history)" "take i history ! j = e" by (auto simp: in_set_conv_nth)
    then have j: "j < i" "e = history ! j" using i(1) by simp_all
    then have "e \<in> set history" using i(1) by simp
    with assms(2) j i(3) show ?thesis by (metis image_eqI linorder_neqE)
  qed
  moreover have "tr_seq row < tr_seq e" if "e \<in> set (drop i history)" for e
  proof -
    have "drop i history = history ! i # drop (Suc i) history" using i(1) by (simp add: Cons_nth_drop_Suc)
    with that sorted i(2) show ?thesis by (auto simp: sorted_wrt_append)
  qed
  ultimately show ?thesis using sorted Some by (auto simp: in_order_def insertBySeq_def sorted_wrt_append)
qed

lemma close_in_order:
  assumes "in_order (cs_history st)" "no_placeholder (close_found i interrupted st)"
  shows "in_order (cs_history (close_found i interrupted st))"
proof (cases "i = None \<or> length (cs_live st) \<le> the i")
  case True
  then show ?thesis using assms(1) by (auto simp: close_found_def closeLiveTurn_def split: option.split)
next
  case False
  then obtain k where k: "i = Some k" "k < length (cs_live st)" by auto
  have keep: "map tr_seq (cs_history (clearMemberOpen st m)) = map tr_seq (cs_history st)" for m
    by (simp add: clearMemberOpen_def clear_row_def)
  let ?st = "close_found i interrupted st"
  let ?pending = "drop (lt_fixedSteps (cs_live st ! k)) (lt_steps (cs_live st ! k))"
  have "?pending = []"
  proof (rule ccontr)
    assume ne: "?pending \<noteq> []"
    define tail where "tail = projectTail (cs_history (clearMemberOpen st (lt_member (cs_live st ! k)))) (lt_member (cs_live st ! k))
      (stepsToHistory ?pending interrupted)"
    have "set tail \<subseteq> set (cs_history ?st)"
      using k ne by (auto simp: close_found_def closeLiveTurn_def Let_def tail_def)
    moreover have "length tail = length ?pending" by (simp add: tail_def projectTail_def stepsToHistory_def)
    then have "tail \<noteq> []" using ne by force
    then have "hd tail \<in> set tail" by simp
    moreover have "tr_projected r" if "r \<in> set tail" for r using projectTail_facts(1) that unfolding tail_def by blast
    ultimately show False using assms(2) unfolding no_placeholder_def by blast
  qed
  then have "map tr_seq (cs_history ?st) = map tr_seq (cs_history st)"
    using k by (simp add: close_found_def closeLiveTurn_def Let_def keep del: drop_eq_Nil)
  then show ?thesis using assms(1) unfolding in_order_def by (simp only:)
qed

lemma reduce_in_order:
  assumes ok: "in_order (cs_history st)" "no_placeholder st" "no_placeholder (reduceEvent st event t i)"
  shows "in_order (cs_history (reduceEvent st event t i))"
proof (cases "we_body event")
  case (WebTeamMessage member message seq)
  have none: "find_index (\<lambda>e. tr_projected e \<and> tr_member e = m) (cs_history st) = None" for m
    using ok(2) by (simp add: no_placeholder_def find_index_None)
  have "(\<exists>e \<in> set (cs_history st). real_seq q e) \<longleftrightarrow> q \<in> tr_seq ` set (cs_history st)" for q
    using ok(2) by (auto simp: no_placeholder_def real_seq_def)
  then show ?thesis
    using ok(1) WebTeamMessage by (simp add: reduceEvent_def reduce_team_message_def Let_def none in_order_insert)
next
  case (WebToolResult toolId status result)
  then have "map tr_seq (cs_history (reduceEvent st event t i)) = map tr_seq (cs_history st)"
    by (simp add: reduceEvent_def reduce_tool_result_def settleHistoryEntry_eq)
  then show ?thesis using ok(1) unfolding in_order_def by (simp only:)
next
  case (WebTurnEnd status error)
  let ?i = "findLiveTurn st (eventMember st event) (default_text (we_turnId event))"
  have "cs_history (reduceEvent st event t i) \<in> {cs_history (close_found ?i False st), cs_history (close_found ?i True st), [], cs_history st}
      \<and> (status = TURN_STATUS_COMPLETED \<longrightarrow> cs_history (reduceEvent st event t i) = cs_history (close_found ?i False st))
      \<and> (status \<in> {TURN_STATUS_ERROR, TURN_STATUS_CANCELED} \<longrightarrow> cs_history (reduceEvent st event t i) = cs_history (close_found ?i True st))
      \<and> (status = TURN_STATUS_ABORTED \<longrightarrow> cs_history (reduceEvent st event t i) = [])
      \<and> (status = TURN_STATUS_UNSPECIFIED \<longrightarrow> cs_history (reduceEvent st event t i) = cs_history st)"
    using WebTurnEnd by (cases status) (simp_all add: reduceEvent_def reduce_turn_end_def Let_def EMPTY_STATE_def)
  moreover have "in_order []" by (simp add: in_order_def)
  ultimately show ?thesis
    using close_in_order[OF ok(1), of ?i] ok by (cases status) (auto simp: no_placeholder_def)
next
  case (WebBlockStart a b c d e)
  then show ?thesis using ok(1) by (simp add: reduceEvent_def on_live_def split: option.split)
next
  case (WebDelta a b c)
  then show ?thesis using ok(1) by (simp add: reduceEvent_def on_live_def split: option.split)
next
  case (WebBlockEnd a b c)
  then show ?thesis using ok(1) by (simp add: reduceEvent_def on_live_def split: option.split)
qed (use ok(1) in \<open>simp_all add: reduceEvent_def reduce_member_view_def reduce_turn_start_def Let_def split: option.split\<close>)

lemma reduce_all_in_order:
  assumes "in_order (cs_history st)" "\<forall>k \<le> length xs. no_placeholder (reduce_all (take k xs) st)"
  shows "in_order (cs_history (reduce_all xs st))"
  using assms
proof (induction xs arbitrary: st)
  case (Cons x xs)
  obtain event t i where x: "x = (event, t, i)" by (cases x)
  have step: "reduce_all (x # ys) st = reduce_all ys (reduceEvent st event t i)" for ys by (simp add: reduce_all_def x)
  have "no_placeholder (reduce_all (take k xs) (reduceEvent st event t i))" if "k \<le> length xs" for k
    using Cons.prems(2)[rule_format, of "Suc k"] that by (simp add: step)
  moreover have "no_placeholder st" "no_placeholder (reduceEvent st event t i)"
    using Cons.prems(2)[rule_format, of 0] Cons.prems(2)[rule_format, of 1] step[of "[]"] by (simp_all add: reduce_all_def)
  then have "in_order (cs_history (reduceEvent st event t i))" by (rule reduce_in_order[OF Cons.prems(1)])
  ultimately show ?case unfolding step by (intro Cons.IH) blast+
qed (simp add: reduce_all_def)

lemma same_keys_same_list:
  assumes "sorted_wrt (<) (map fst xs)" "sorted_wrt (<) (map fst ys)" "set xs = set ys"
  shows "xs = (ys :: (int \<times> 'a) list)"
proof -
  have "map fst xs = map fst ys"
    using assms by (intro strict_sorted_equal) (simp_all add: strict_sorted_iff)
  have "inj_on fst (set ys)" using assms(2) by (simp add: strict_sorted_iff distinct_map)
  then have "inj_on fst (set xs \<union> set ys)" by (simp add: assms(3))
  with \<open>map fst xs = map fst ys\<close> show ?thesis by (rule map_inj_on)
qed

section \<open>The client shows the merged sequence\<close>

text \<open>A delivery is a frame, the JSON of the messages when it was written, and the text and the stream of the reducer.\<close>

type_synonym delivery = "chat_event \<times> (nat \<Rightarrow> web_message) \<times> jstr \<times> nat"

definition delivered :: "delivery list \<Rightarrow> (web_event \<times> jstr \<times> nat) list" where
  "delivered ds = map (\<lambda>(e, json, t, i). (web_event_of json e, t, i)) ds"

definition backfill :: "(nat \<Rightarrow> web_message) \<Rightarrow> merge_entry list \<Rightarrow> (jstr option \<times> web_message \<times> seq_number) list" where
  "backfill json entries = map (\<lambda>e. (Some (me_member e), json (me_message e), SeqText (str_of_nat (me_seq e)))) entries"

definition labelled :: "merge_entry \<Rightarrow> bool" where
  "labelled e \<longleftrightarrow> me_member e \<noteq> []"

lemma shown_backfill:
  assumes "json_ok json"
  shows "shown_rows (loadHistory (backfill json entries) st) = entry_key ` set (filter labelled entries)"
    and "row_key ` set (loaded_rows (backfill json entries)) = entry_key ` set (filter labelled entries)"
    and "map tr_seq (loaded_rows (backfill json entries)) = map (int \<circ> me_seq) (filter labelled entries)"
    and "\<forall>r \<in> set (loaded_rows (backfill json entries)). \<not> tr_projected r"
proof -
  let ?f = "\<lambda>e. \<lparr>tr_member = me_member e, tr_message = json (me_message e), tr_seq = int (me_seq e),
      tr_projected = False, tr_open = False\<rparr>"
  have rows: "loaded_rows (backfill json entries) = map ?f (filter labelled entries)"
    by (induction entries) (auto simp: loaded_rows_def backfill_def labelled_def)
  have key: "row_key (?f e) = entry_key e" for e
    using assms by (simp add: row_key_def entry_key_def json_ok_def)
  show keys: "row_key ` set (loaded_rows (backfill json entries)) = entry_key ` set (filter labelled entries)"
    unfolding rows set_map image_image key ..
  show "map tr_seq (loaded_rows (backfill json entries)) = map (int \<circ> me_seq) (filter labelled entries)"
    by (simp add: rows)
  show real: "\<forall>r \<in> set (loaded_rows (backfill json entries)). \<not> tr_projected r" by (simp add: rows)
  have "{r \<in> set (loaded_rows (backfill json entries)). \<not> tr_projected r} = set (loaded_rows (backfill json entries))"
    using real by blast
  then show "shown_rows (loadHistory (backfill json entries) st) = entry_key ` set (filter labelled entries)"
    unfolding shown_rows_def loadHistory_def by (simp add: keys)
qed

lemma team_keys_frame:
  assumes "json_ok json"
  shows "team_keys (web_event_of json (team_frame session e)) = (if labelled e then {entry_key e} else {})"
  using assms by (simp add: team_keys_def web_event_of_def team_frame_def session_frame_def labelled_def entry_key_def json_ok_def)

lemma team_keys_other: "\<not> is_team_frame e \<Longrightarrow> team_keys (web_event_of json e) = {}"
  by (cases "ev_payload e") (simp_all add: team_keys_def web_event_of_def is_team_frame_def)

lemma aborts_frame: "aborts (web_event_of json e) \<longleftrightarrow> (\<exists>error usage. ev_payload e = TurnEnd ABORTED error usage)"
proof (cases "ev_payload e")
  case (TurnEnd status error usage)
  then show ?thesis by (cases status) (auto simp: aborts_def web_event_of_def)
qed (simp_all add: aborts_def web_event_of_def)

text \<open>The team frames of the streams of a live team are its entries.\<close>

lemma stream_team_frames:
  assumes "saolei_sessions env ids deps ts" and "ts_teams ts session = Some entry"
    and "session_listTeamMessages session ts = Inr entries" and "j \<in> set (te_streams entry)"
    and "f \<in> set (ss_written (ts_streams ts j))" "is_team_frame f"
  shows "\<exists>e \<in> set entries. f = team_frame session e"
proof -
  note ok = entry_of_reach[OF assms(1,2)]
  have entries: "entries = th_merge (te_history entry)"
    using assms(2,3) ok(2) by (simp add: session_listTeamMessages_def requireEntry_def liveEntry_def listTeamMessages_def)
  have "follows (ss_written (ts_streams ts j)) (th_sunk (te_history entry))"
    using ok(1) assms(4) by (simp add: entry_ok_def streams_ok_def)
  then obtain own k where w: "ss_written (ts_streams ts j) = own @ drop k (th_sunk (te_history entry))"
    and own: "own = [] \<or> (\<exists>session n. own = [queued_frame session n])" by (auto simp: follows_def)
  have "f \<notin> set own" using own assms(6) by (auto simp: queued_frame_def is_team_frame_def)
  then have "f \<in> set (filter is_team_frame (th_sunk (te_history entry)))"
    using assms(5,6) w by (auto dest: in_set_dropD)
  also have "filter is_team_frame (th_sunk (te_history entry)) = map (team_frame session) entries"
    using history_okD(4)[OF entry_okD(1)[OF ok(1)]] entry_okD(2)[OF ok(1)] ok(3) by (simp add: entries)
  finally show ?thesis by auto
qed

lemma inj_team_frame: "distinct (map me_seq entries) \<Longrightarrow> inj_on (team_frame session) (set entries)"
  by (auto simp: inj_on_def distinct_map team_frame_def session_frame_def)

lemma delivered_keys:
  assumes "\<forall>(f, json, t, i) \<in> set ds. json_ok json \<and> (is_team_frame f \<longrightarrow> (\<exists>e \<in> set entries. f = team_frame session e))"
  shows "(\<Union>x \<in> set (delivered ds). team_keys (fst x)) =
    entry_key ` {e \<in> set entries. labelled e \<and> team_frame session e \<in> fst ` set ds}"
proof -
  have keys: "team_keys (web_event_of json f) = entry_key ` {e \<in> set entries. labelled e \<and> team_frame session e = f}"
    if "(f, json, t, i) \<in> set ds" for f json t i
  proof (cases "is_team_frame f")
    case True
    with assms that obtain e where e: "e \<in> set entries" "f = team_frame session e" "json_ok json" by blast
    let ?S = "{x \<in> set entries. labelled x \<and> team_frame session x = team_frame session e}"
    have same: "entry_key x = entry_key e \<and> labelled e" if "x \<in> ?S" for x
      using that by (auto simp: team_frame_def session_frame_def entry_key_def labelled_def)
    have "entry_key ` ?S = (if labelled e then {entry_key e} else {})"
    proof (cases "labelled e")
      case True
      then have "e \<in> ?S" using e(1) by simp
      moreover have "entry_key ` ?S \<subseteq> {entry_key e}" using same by blast
      ultimately show ?thesis using True by (simp only: if_True) blast
    next
      case False
      then have "?S = {}" using same by blast
      then show ?thesis using False by (simp only: image_empty if_False)
    qed
    then show ?thesis unfolding e(2) by (simp only: team_keys_frame[OF e(3)])
  next
    case False
    have "is_team_frame (team_frame session e)" for e by (simp add: is_team_frame_def team_frame_def session_frame_def)
    with False show ?thesis by (auto simp: team_keys_other)
  qed
  have "(\<Union>x \<in> set (delivered ds). team_keys (fst x)) = (\<Union>(f, json, t, i) \<in> set ds. team_keys (web_event_of json f))"
    by (auto simp: delivered_def)
  also have "\<dots> = (\<Union>(f, json, t, i) \<in> set ds. entry_key ` {e \<in> set entries. labelled e \<and> team_frame session e = f})"
    by (intro SUP_cong refl) (auto simp: keys)
  also have "\<dots> = entry_key ` (\<Union>x \<in> set ds. {e \<in> set entries. labelled e \<and> team_frame session e = fst x})"
    by (simp add: case_prod_unfold image_UN)
  also have "(\<Union>x \<in> set ds. {e \<in> set entries. labelled e \<and> team_frame session e = fst x}) =
      {e \<in> set entries. labelled e \<and> team_frame session e \<in> fst ` set ds}" by auto
  finally show ?thesis .
qed

lemma entries_sorted:
  assumes "saolei_sessions env ids deps ts" and "ts_teams ts session = Some entry"
    and "session_listTeamMessages session ts = Inr entries"
  shows "sorted_wrt (<) (map me_seq entries)"
proof -
  note ok = entry_of_reach[OF assms(1,2)]
  have "entries = th_merge (te_history entry)"
    using assms(2,3) ok(2) by (simp add: session_listTeamMessages_def requireEntry_def liveEntry_def listTeamMessages_def)
  then show ?thesis using history_okD(1)[OF entry_okD(1)[OF ok(1)]] by simp
qed

lemma sorted_filter_map: "sorted_wrt (<) (map f xs) \<Longrightarrow> sorted_wrt (<) (map f (filter P xs))" for f :: "'a \<Rightarrow> 'b::order"
  unfolding sorted_wrt_map by (rule sorted_wrt_filter)

lemma backfill_in_order:
  assumes "json_ok json" "sorted_wrt (<) (map me_seq entries)"
  shows "in_order (cs_history (loadHistory (backfill json entries) st))"
proof -
  have "sorted_wrt (<) (map (int \<circ> me_seq) (filter labelled entries))"
    using sorted_filter_map[OF assms(2), of labelled] by (simp add: sorted_wrt_map)
  then have "distinct (map tr_seq (loaded_rows (backfill json entries)))"
    unfolding shown_backfill(3)[OF assms(1)] by (simp add: strict_sorted_iff)
  then have "distinct (map tr_seq (sort_key tr_seq (loaded_rows (backfill json entries))))" by (simp add: distinct_map)
  then show ?thesis by (simp add: in_order_def loadHistory_def strict_sorted_iff)
qed

definition arrived :: "jstr \<Rightarrow> nat \<Rightarrow> delivery list \<Rightarrow> merge_entry list \<Rightarrow> merge_entry list" where
  "arrived session n ds entries =
     filter (\<lambda>e. labelled e \<and> (e \<in> set (take n entries) \<or> team_frame session e \<in> fst ` set ds)) entries"

lemma arrived_keys:
  "entry_key ` set (arrived session n ds entries) = entry_key ` set (filter labelled (take n entries)) \<union>
     entry_key ` {e \<in> set entries. labelled e \<and> team_frame session e \<in> fst ` set ds}"
  unfolding arrived_def image_Un[symmetric] by (rule arg_cong[where f = "image entry_key"]) (auto dest: in_set_takeD)

text \<open>C26: The web client shows the merged sequence of the server: after a backfill with the first entries of a live
  team and any interleaving of frames of its streams (but the one that says the session was deleted), the rows of the merged history that are no placeholders
  are exactly the entries that have arrived, by backfill or by a frame of any stream, each with its sequence
  number, member and message; and unless a turn was closed before its message arrived, they stand in the
  order of \<open>ListTeamMessages\<close>.\<close>

theorem web_history_matches_server:
  assumes "saolei_sessions env ids deps ts" and "ts_teams ts session = Some entry"
    and "session_listTeamMessages session ts = Inr entries"
    and "\<forall>(f, json, t, i) \<in> set ds. json_ok json \<and>
      (\<exists>j \<in> set (te_streams entry). f \<in> set (ss_written (ts_streams ts j))) \<and>
      (\<forall>error usage. ev_payload f \<noteq> TurnEnd ABORTED error usage)"
    and "json_ok json" and "st = loadHistory (backfill json (take n entries)) st0"
  shows "shown_rows (reduce_all (delivered ds) st) = entry_key ` set (arrived session n ds entries) \<and>
    ((\<forall>k \<le> length ds. no_placeholder (reduce_all (delivered (take k ds)) st)) \<longrightarrow>
       map row_key (cs_history (reduce_all (delivered ds) st)) = map entry_key (arrived session n ds entries))"
proof -
  let ?a = "arrived session n ds entries"
  have sorted: "sorted_wrt (<) (map me_seq entries)" by (rule entries_sorted[OF assms(1-3)])
  have keys: "(\<Union>x \<in> set (delivered ds). team_keys (fst x)) =
      entry_key ` {e \<in> set entries. labelled e \<and> team_frame session e \<in> fst ` set ds}"
    by (rule delivered_keys) (use assms(4) stream_team_frames[OF assms(1-3)] in blast)
  have loaded: "shown_rows st = entry_key ` set (filter labelled (take n entries))"
    unfolding assms(6) by (rule shown_backfill(1)[OF assms(5)])
  have all: "shown_rows st \<union> (\<Union>x \<in> set (delivered ds). team_keys (fst x)) = entry_key ` set ?a"
    unfolding arrived_keys loaded keys ..
  have asorted: "sorted_wrt (<) (map fst (map entry_key ?a))"
    using sorted_filter_map[OF sorted] by (simp add: arrived_def sorted_wrt_map entry_key_def)
  then have "distinct (map fst (map entry_key ?a))" by (simp only: strict_sorted_iff)
  then have inj: "inj_on fst (entry_key ` set ?a)" by (simp only: distinct_map set_map)
  have quiet: "\<forall>x \<in> set (delivered ds). \<not> aborts (fst x)"
    using assms(4) by (auto simp: delivered_def aborts_frame)
  have shown: "shown_rows (reduce_all (delivered ds) st) = entry_key ` set ?a"
    using shown_rows_all[OF quiet, of st] inj by (simp only: all)
  have "map row_key (cs_history (reduce_all (delivered ds) st)) = map entry_key ?a"
    if none: "\<forall>k \<le> length ds. no_placeholder (reduce_all (delivered (take k ds)) st)"
  proof (rule same_keys_same_list)
    have "in_order (cs_history st)"
      unfolding assms(6) using sorted by (intro backfill_in_order[OF assms(5)]) (simp add: sorted_wrt_take flip: take_map)
    then have "in_order (cs_history (reduce_all (delivered ds) st))"
      using none by (intro reduce_all_in_order) (simp_all add: delivered_def take_map)
    then show "sorted_wrt (<) (map fst (map row_key (cs_history (reduce_all (delivered ds) st))))"
      by (simp add: in_order_def row_key_def comp_def)
    have "\<forall>r \<in> set (cs_history (reduce_all (delivered ds) st)). \<not> tr_projected r"
      using none[rule_format, of "length ds"] by (simp add: no_placeholder_def)
    then have "{r \<in> set (cs_history (reduce_all (delivered ds) st)). \<not> tr_projected r} = set (cs_history (reduce_all (delivered ds) st))"
      by blast
    with shown show "set (map row_key (cs_history (reduce_all (delivered ds) st))) = set (map entry_key ?a)"
      by (simp add: shown_rows_def)
  qed (rule asorted)
  with shown show ?thesis by blast
qed

definition sample_json :: "nat \<Rightarrow> web_message" where
  "sample_json n = \<lparr>wm_messageId = Some (message_id n), wm_role = js ''user'', wm_createTime = None, wm_blocks = [],
     wm_interrupted = False\<rparr>"

definition sample_frames :: "delivery list" where
  "sample_frames = map (\<lambda>f. (f, sample_json, [], 7)) (ss_written (snd sample_entry 7))"

lemma sample_parts:
  "\<not> te_disposed (fst sample_entry)"
  "th_merge (te_history (fst sample_entry)) = [\<lparr>me_member = js ''user'', me_message = 1, me_seq = 1\<rparr>]"
  "sample_frames = map (\<lambda>f. (f, sample_json, [], 7))
     [\<lparr>ev_session = sample_session, ev_turnId = Some [], ev_member = None, ev_payload = Queued 1\<rparr>,
      \<lparr>ev_session = sample_session, ev_turnId = None, ev_member = None,
        ev_payload = TeamMessage (js ''user'') 1 (js ''1'')\<rparr>,
      \<lparr>ev_session = sample_session, ev_turnId = Some (js ''turn-1''), ev_member = Some (js ''planner''),
        ev_payload = TurnStart\<rparr>]"
  using sample_entry_run by (simp_all add: sample_frames_def split_beta)

lemma sample_delivery:
  "(map entry_key (arrived sample_session 0 sample_frames (th_merge (te_history (fst sample_entry)))),
    length sample_frames,
    map (\<lambda>k. map tr_projected (cs_history (reduce_all (delivered (take k sample_frames)) EMPTY_STATE))) [0, 1, 2, 3]) =
   ([(1, js ''user'', Some (js ''m1''))], 3, [[], [], [False], [False]])"
  unfolding sample_parts(2,3) by code_simp

theorem web_history_matches_server_witness:
  "map row_key (cs_history (reduce_all (delivered sample_frames) EMPTY_STATE)) =
     [(1, js ''user'', Some (js ''m1''))]"
proof -
  let ?entries = "th_merge (te_history (fst sample_entry))"
  have entries: "session_listTeamMessages sample_session sample_live = Inr ?entries"
    using sample_parts(1)
    by (simp add: session_listTeamMessages_def requireEntry_def liveEntry_def listTeamMessages_def sample_live_entry(1))
  have json: "json_ok sample_json" by (simp add: json_ok_def sample_json_def)
  have quiet: "ev_payload f \<noteq> TurnEnd ABORTED error usage" if "f \<in> set (ss_written (snd sample_entry 7))" for f error usage
  proof -
    from that have "ev_payload f \<in> set (map ev_payload (ss_written (snd sample_entry 7)))" by simp
    then show ?thesis unfolding sample_live_entry(5) by auto
  qed
  have frames: "\<forall>(f, json, t, i) \<in> set sample_frames. json_ok json \<and>
      (\<exists>j \<in> set (te_streams (fst sample_entry)). f \<in> set (ss_written (ts_streams sample_live j))) \<and>
      (\<forall>error usage. ev_payload f \<noteq> TurnEnd ABORTED error usage)"
    using json quiet sample_live_entry(3) by (auto simp: sample_frames_def sample_live_entry(2))
  have start: "EMPTY_STATE = loadHistory (backfill sample_json (take 0 ?entries)) EMPTY_STATE"
    by (simp add: loadHistory_def backfill_def loaded_rows_def EMPTY_STATE_def clearAllMemberOpen_def fun_eq_iff)
  have none: "\<forall>k \<le> length sample_frames. no_placeholder (reduce_all (delivered (take k sample_frames)) EMPTY_STATE)"
  proof (intro allI impI)
    fix k assume "k \<le> length sample_frames"
    then have "k \<in> set [0, 1, 2, 3]" using sample_delivery by auto
    moreover have "(\<forall>r \<in> set rows. \<not> tr_projected r) \<longleftrightarrow> True \<notin> set (map tr_projected rows)" for rows by force
    ultimately show "no_placeholder (reduce_all (delivered (take k sample_frames)) EMPTY_STATE)"
      using sample_delivery unfolding no_placeholder_def by auto
  qed
  from web_history_matches_server[OF sample_live_reachable sample_live_entry(1) entries frames json start] none sample_delivery
  show ?thesis by simp
qed

end
