(* ===== verification/Chat_Store_Limits.thy ===== *)
theory Chat_Store_Limits
  imports Chat_Sync
begin

declare js_simps(2) [simp del] blockEndTerminal.simps [simp del]

text \<open>
  Where the web store does not keep its promises: runs on which streams of one session lag behind each
  other, a turn fails before its message, or the newest stream ends first.
\<close>

section \<open>Frames of one short turn\<close>

definition said :: "jstr \<Rightarrow> jstr \<Rightarrow> web_message" where
  "said messageId t = \<lparr>wm_messageId = Some messageId, wm_role = ROLE_AGENT_NAME, wm_createTime = None,
     wm_blocks = [\<lparr>cb_text = Some t, cb_think = None, cb_toolCall = None\<rparr>], wm_interrupted = False\<rparr>"

definition team_said :: "jstr \<Rightarrow> jstr \<Rightarrow> jstr \<Rightarrow> jstr \<Rightarrow> web_event" where
  "team_said member messageId t seq =
     \<lparr>we_turnId = None, we_member = None, we_body = WebTeamMessage (Some member) (said messageId t) (SeqText seq)\<rparr>"

definition text_end :: "jstr \<Rightarrow> web_body" where
  "text_end t = WebBlockEnd 0 \<lparr>cb_text = Some t, cb_think = None, cb_toolCall = None\<rparr> (Some 1)"

text \<open>One step of the player that says \<open>ok\<close>, without its \<open>team_message\<close>.\<close>

definition step_frames :: "jstr \<Rightarrow> web_event list" where
  "step_frames turnId =
     [player_frame turnId WebTurnStart, player_frame turnId sample_start,
      player_frame turnId (WebDelta 0 (js ''ok'') (Some 1)), player_frame turnId (text_end (js ''ok''))]"

definition turn_ended :: "jstr \<Rightarrow> web_turn_status \<Rightarrow> web_event" where
  "turn_ended turnId status = player_frame turnId (WebTurnEnd status None)"

definition whole_turn :: "web_event list" where
  "whole_turn = step_frames (js ''t1'') @
     [team_said (js ''player'') (js ''m1'') (js ''ok'') (js ''1''), turn_ended (js ''t1'') TURN_STATUS_COMPLETED]"

definition on_stream :: "nat \<Rightarrow> web_event list \<Rightarrow> (web_event \<times> jstr \<times> nat) list" where
  "on_stream i events = map (\<lambda>e. (e, [], i)) events"

text \<open>What the user reads: who said it and the text of every block.\<close>

definition shown_text :: "chat_state \<Rightarrow> (jstr \<times> jstr option list) list" where
  "shown_text st = map (\<lambda>r. (tr_member r, map cb_text (wm_blocks (tr_message r)))) (cs_history st)"

definition live_text :: "chat_state \<Rightarrow> block_draft list list list" where
  "live_text st = map (\<lambda>t. map sd_blocks (lt_steps t)) (cs_live st)"

section \<open>Streams that lag\<close>


text \<open>
  A delta of the owner that comes after the terminal content of another stream is appended to it: until
  the owner's own \<open>block_end\<close>, the text is shown twice.
\<close>

lemma late_delta_repeats_text:
  "live_text (reduce_all
     (on_stream 1 (take 2 (step_frames (js ''t1''))) @
      on_stream 2 (drop 2 (step_frames (js ''t1''))) @
      on_stream 1 [step_frames (js ''t1'') ! 2]) EMPTY_STATE) = [[[TextDraft 0 (js ''okok'')]]] \<and>
   live_text (reduce_all
     (on_stream 1 (take 2 (step_frames (js ''t1''))) @
      on_stream 2 (drop 2 (step_frames (js ''t1''))) @
      on_stream 1 (drop 2 (step_frames (js ''t1'')))) EMPTY_STATE) = [[[TextDraft 0 (js ''ok'')]]]"
  by code_simp

text \<open>
  Two queued texts that are equal and one \<open>member_view\<close> frame of the user, brought by two streams:
  the second one takes the other text off the queue.
\<close>

lemma repeated_view_drops_queued:
  "map qm_position (cs_queue (reduce_all
     [(player_frame [] (WebQueued 1), js ''go'', 1), (player_frame [] (WebQueued 2), js ''go'', 2),
      (player_frame [] (WebMemberView (Some (js ''player'')) (Some (js ''user'')) (said (js ''m1'') (js ''go''))), [], 1)]
     EMPTY_STATE)) = [2] \<and>
   cs_queue (reduce_all
     [(player_frame [] (WebQueued 1), js ''go'', 1), (player_frame [] (WebQueued 2), js ''go'', 2),
      (player_frame [] (WebMemberView (Some (js ''player'')) (Some (js ''user'')) (said (js ''m1'') (js ''go''))), [], 1),
      (player_frame [] (WebMemberView (Some (js ''player'')) (Some (js ''user'')) (said (js ''m1'') (js ''go''))), [], 2)]
     EMPTY_STATE) = []"
  by code_simp

section \<open>Placeholders\<close>

text \<open>
  A turn that fails in a step without a message leaves a placeholder; the next message of the member takes
  its place, before what was said in between.
\<close>

lemma placeholder_reorders_history:
  "map (\<lambda>r. (tr_seq r, tr_member r)) (cs_history (reduce_all (on_stream 1
     (step_frames (js ''t1'') @ [turn_ended (js ''t1'') TURN_STATUS_ERROR,
       team_said (js ''user'') (js ''m1'') (js ''again'') (js ''1''),
       team_said (js ''player'') (js ''m2'') (js ''sure'') (js ''2'')])) EMPTY_STATE)) =
   [(2, js ''player''), (1, js ''user'')]"
  by code_simp

section \<open>The newest stream ends first\<close>

text \<open>A turn that another stream of the session keeps alive is left as it is when that stream breaks.\<close>

definition first_sent :: "nat \<Rightarrow> web_event list \<Rightarrow> chat_store \<Rightarrow> bool \<times> chat_store" where
  "first_sent i events s = fold (send_frame i) events (False, s)"

lemma older_stream_leaves_turn_open:
  "(let s1 = snd (send_start (js ''a'') new_store);
        s2 = snd (send_start (js ''b'') s1);
        s3 = send_finish 2 None (first_sent 2 [player_frame [] (WebQueued 2)] s2);
        s4 = send_finish 1 (Some (js ''broken'')) (first_sent 1 (step_frames (js ''t1'')) s3)
    in (live_text (st_state s4), cs_error (st_state s4))) = ([[[TextDraft 0 (js ''ok'')]]], None)"
  by code_simp

end
