(* ===== verification/Sts2_Driver.thy ===== *)
theory Sts2_Driver
  imports Loop_Members "HOL-Library.Multiset"
begin

declare js_simps(2) [simp del]

text \<open>
  The drive primitives of the sts2 scene, \<open>common/js/dsh-plugins/sts2/loop/src/drive.ts\<close>: one main agent,
  one turn at a time, input held across a freeze. The agent is a record of functions over a world;
  a call that can throw returns the message. The code between two awaits is not interrupted, so a
  turn is two operations: its start, and what follows the agent's idle state.
\<close>

section \<open>Failure codes\<close>

definition main_TRANSIENT_ENGINE_CODES :: "jstr list" where
  "main_TRANSIENT_ENGINE_CODES =
     [js ''RATE_LIMIT'', js ''SERVER'', js ''TIMEOUT'', js ''TRANSPORT'', js ''EMPTY_RESPONSE'']"

definition main_QUOTA_ENGINE_CODES :: "jstr list" where
  "main_QUOTA_ENGINE_CODES = [js ''QUOTA'', js ''ACCOUNT_QUOTA'']"

definition main_CREDENTIAL_ENGINE_CODES :: "jstr list" where
  "main_CREDENTIAL_ENGINE_CODES = [js ''INVALID_CREDENTIAL'', js ''MISSING_CREDENTIAL'', js ''AUTH'']"

definition main_CONFIG_ENGINE_CODES :: "jstr list" where
  "main_CONFIG_ENGINE_CODES =
     [js ''NO_ADAPTER'', js ''INVALID_REQUEST'', js ''UNSUPPORTED_CONTENT'', js ''UNSUPPORTED'']"

definition main_INPUT_TOO_LARGE_ENGINE_CODES :: "jstr list" where
  "main_INPUT_TOO_LARGE_ENGINE_CODES = [js ''CONTEXT_WINDOW_EXCEEDED'', js ''IMAGE_OFFLOAD_REQUIRED'']"

definition main_mapEngineCode :: "jstr option \<Rightarrow> loop_error_code" where
  "main_mapEngineCode code =
     (case code of
        None \<Rightarrow> INTERNAL
      | Some c \<Rightarrow>
          if c \<in> set main_TRANSIENT_ENGINE_CODES then TRANSIENT
          else if c \<in> set main_QUOTA_ENGINE_CODES then QUOTA
          else if c \<in> set main_CREDENTIAL_ENGINE_CODES then CREDENTIAL
          else if c \<in> set main_CONFIG_ENGINE_CODES \<or> starts_with c (js ''HTTP_'') then CONFIG
          else if c \<in> set main_INPUT_TOO_LARGE_ENGINE_CODES then INPUT_TOO_LARGE
          else INTERNAL)"

text \<open>
  A thrown value: the value of its \<open>code\<close> property when it is an object that has one, which may be no
  string, and its message, or its text when it is no error.
\<close>

datatype code_property = NoCode | CodeString jstr | CodeOther

record main_thrown =
  tv_code :: code_property
  tv_message :: jstr

definition engineCodeOf :: "main_thrown \<Rightarrow> jstr option" where
  "engineCodeOf e = (case tv_code e of CodeString c \<Rightarrow> if c \<noteq> [] then Some c else None | _ \<Rightarrow> None)"

definition main_turnFailureOf :: "main_thrown \<Rightarrow> turn_failure" where
  "main_turnFailureOf e = \<lparr>tf_code = engineCodeOf e, tf_message = tv_message e\<rparr>"

section \<open>The driver\<close>

datatype cancel_cause = CancelUser | CancelDisposed

record 'w main_agent =
  ma_inject :: "agent_message \<Rightarrow> 'w \<Rightarrow> (jstr + unit) \<times> 'w"
  ma_followup :: "agent_message \<Rightarrow> 'w \<Rightarrow> (jstr + unit) \<times> 'w"
  ma_steer :: "agent_message \<Rightarrow> 'w \<Rightarrow> (jstr + unit) \<times> 'w"
  ma_cancel :: "cancel_cause \<Rightarrow> 'w \<Rightarrow> 'w"
  ma_nextStep :: "'w \<Rightarrow> agent_message list"
  ma_nextTurn :: "'w \<Rightarrow> agent_message list"
  ma_remove :: "jstr \<Rightarrow> 'w \<Rightarrow> 'w"

record main_failure =
  mf_message :: jstr
  mf_code :: loop_error_code
  mf_detail :: failure_detail

text \<open>An active turn awaits the idle state of the agent, or its start has thrown.\<close>

datatype main_turn = MainInFlight | MainRejected jstr

record main_driver =
  md_activeTurn :: "main_turn option"
  md_steered :: "agent_message list"
  md_held :: "agent_message list"
  md_abortHeld :: "agent_message list option"
  md_lastTurnFailure :: "turn_failure option"
  md_abortRequested :: bool
  md_frozen :: bool
  md_lastTurnError :: "main_failure option"

definition new_main_driver :: main_driver where
  "new_main_driver =
     \<lparr>md_activeTurn = None, md_steered = [], md_held = [], md_abortHeld = None, md_lastTurnFailure = None,
      md_abortRequested = False, md_frozen = False, md_lastTurnError = None\<rparr>"

definition main_on_error :: "main_thrown \<Rightarrow> main_driver \<Rightarrow> main_driver" where
  "main_on_error e d = d\<lparr>md_lastTurnFailure := Some (main_turnFailureOf e)\<rparr>"

definition main_busy :: "main_driver \<Rightarrow> bool" where
  "main_busy d \<longleftrightarrow> md_activeTurn d \<noteq> None"

definition main_pendingInput :: "main_driver \<Rightarrow> nat" where
  "main_pendingInput d = length (md_steered d)"

definition main_failed :: "main_driver \<Rightarrow> bool" where
  "main_failed d \<longleftrightarrow> md_lastTurnError d \<noteq> None"

fun main_inject_all :: "'w main_agent \<Rightarrow> agent_message list \<Rightarrow> 'w \<Rightarrow> (jstr + unit) \<times> 'w" where
  "main_inject_all a [] w = (Inr (), w)"
| "main_inject_all a (x # xs) w =
     (case ma_inject a x w of
        (Inl e, w1) \<Rightarrow> (Inl e, w1)
      | (Inr _, w1) \<Rightarrow> main_inject_all a xs w1)"

text \<open>\<open>runTurn\<close> of a nonempty batch up to its await; a throw rejects the turn's promise.\<close>

definition main_beginTurn :: "'w main_agent \<Rightarrow> agent_message list \<Rightarrow> main_driver \<times> 'w \<Rightarrow> main_driver \<times> 'w" where
  "main_beginTurn a messages = (\<lambda>(d, w).
     (let d1 = d\<lparr>md_abortRequested := False, md_abortHeld := None, md_lastTurnFailure := None\<rparr>
      in case main_inject_all a (butlast messages) w of
           (Inl e, w1) \<Rightarrow> (d1\<lparr>md_activeTurn := Some (MainRejected e)\<rparr>, w1)
         | (Inr _, w1) \<Rightarrow>
             (case ma_followup a (last messages) w1 of
                (Inl e, w2) \<Rightarrow> (d1\<lparr>md_activeTurn := Some (MainRejected e)\<rparr>, w2)
              | (Inr _, w2) \<Rightarrow> (d1\<lparr>md_activeTurn := Some MainInFlight\<rparr>, w2))))"

definition main_submit ::
  "'w main_agent \<Rightarrow> agent_message \<Rightarrow> main_driver \<times> 'w \<Rightarrow> (jstr + unit) \<times> main_driver \<times> 'w" where
  "main_submit a message = (\<lambda>(d, w).
     (if md_activeTurn d \<noteq> None then
        (case ma_steer a message w of
           (Inl e, w1) \<Rightarrow> (Inl e, d, w1)
         | (Inr _, w1) \<Rightarrow> (Inr (), d\<lparr>md_steered := md_steered d @ [message]\<rparr>, w1))
      else
        (Inr (), main_beginTurn a (md_held d @ [message]) (d\<lparr>md_held := [], md_frozen := False\<rparr>, w))))"

definition main_cancel :: "'w main_agent \<Rightarrow> cancel_cause \<Rightarrow> main_driver \<times> 'w \<Rightarrow> main_driver \<times> 'w" where
  "main_cancel a cause = (\<lambda>(d, w).
     (let d1 = d\<lparr>md_frozen := True\<rparr> in
      if md_activeTurn d = None \<or> md_abortRequested d then (d1, w)
      else (d1\<lparr>md_abortRequested := True, md_abortHeld := Some (md_steered d), md_steered := []\<rparr>,
            ma_cancel a cause w)))"

definition main_inbox :: "'w main_agent \<Rightarrow> 'w \<Rightarrow> agent_message list" where
  "main_inbox a w = ma_nextStep a w @ ma_nextTurn a w"

definition takeUnclaimed :: "'w main_agent \<Rightarrow> agent_message list \<Rightarrow> 'w \<Rightarrow> agent_message list \<times> 'w" where
  "takeUnclaimed a messages w =
     (let pending = msg_id ` set (main_inbox a w);
          unclaimed = filter (\<lambda>m. msg_id m \<in> pending) messages
      in (unclaimed, foldl (\<lambda>v m. ma_remove a (msg_id m) v) w unclaimed))"

text \<open>The rest of \<open>runTurn\<close> and \<open>clearActive\<close>; \<open>resting\<close> when no turn is active.\<close>

definition main_finishTurn :: "'w main_agent \<Rightarrow> main_driver \<times> 'w \<Rightarrow> (jstr + outcome) \<times> main_driver \<times> 'w" where
  "main_finishTurn a = (\<lambda>(d, w).
     (case md_activeTurn d of
        None \<Rightarrow> (Inr Resting, d, w)
      | Some (MainRejected e) \<Rightarrow> (Inl e, d\<lparr>md_activeTurn := None\<rparr>, w)
      | Some MainInFlight \<Rightarrow>
          (let d1 = d\<lparr>md_activeTurn := None, md_lastTurnFailure := None, md_abortRequested := False,
                      md_steered := []\<rparr>
           in if md_abortRequested d then
                (case takeUnclaimed a (md_steered d) w of
                   (unclaimed, w1) \<Rightarrow>
                     (Inr Aborted,
                      d1\<lparr>md_held := unclaimed @ (case md_abortHeld d of None \<Rightarrow> [] | Some xs \<Rightarrow> xs) @ md_held d,
                         md_abortHeld := None, md_lastTurnError := None\<rparr>, w1))
              else case md_lastTurnFailure d of
                Some failure \<Rightarrow>
                  (case takeUnclaimed a (md_steered d) w of
                     (unclaimed, w1) \<Rightarrow>
                       (let code = main_mapEngineCode (tf_code failure);
                            detail = \<lparr>engineCode = tf_code failure, fail_message = tf_message failure\<rparr>
                        in (Inr (Failed code detail),
                            d1\<lparr>md_held := unclaimed @ md_held d,
                               md_lastTurnError := Some \<lparr>mf_message = tf_message failure, mf_code = code,
                                 mf_detail = detail\<rparr>,
                               md_frozen := True\<rparr>, w1)))
              | None \<Rightarrow> (Inr Settled, d1\<lparr>md_lastTurnError := None\<rparr>, w))))"

end
