(* ===== verification/Sts2_Runs.thy ===== *)
theory Sts2_Runs
  imports Sts2_Driver
begin

declare js_simps(2) [simp del]

text \<open>
  The sts2 driver in motion: what becomes of every message it accepts, while the agent claims messages
  of its inbox whenever it likes, and where cancelling breaks the accounts.
\<close>

section \<open>The agent\<close>

text \<open>
  What the driver relies on of the agent runtime: a delivered message is in the inbox until the agent
  claims it, \<open>cancel\<close> discards the inbox, \<open>remove\<close> takes one id out of it, and deliveries do not throw.
\<close>

definition agent_contract :: "'w main_agent \<Rightarrow> ('w \<Rightarrow> 'w \<Rightarrow> bool) \<Rightarrow> bool" where
  "agent_contract a moves \<longleftrightarrow>
     (\<forall>deliver \<in> {ma_inject a, ma_followup a, ma_steer a}. \<forall>m w.
        fst (deliver m w) = Inr () \<and> mset (main_inbox a (snd (deliver m w))) = add_mset m (mset (main_inbox a w))) \<and>
     (\<forall>cause w. main_inbox a (ma_cancel a cause w) = []) \<and>
     (\<forall>i w. mset (main_inbox a (ma_remove a i w)) = mset (filter (\<lambda>m. msg_id m \<noteq> i) (main_inbox a w))) \<and>
     (\<forall>w w'. moves w w' \<longrightarrow> mset (main_inbox a w') \<subseteq># mset (main_inbox a w))"

lemma agent_contractD:
  assumes "agent_contract a moves"
  shows "ma_inject a m w = (r, w') \<Longrightarrow> r = Inr () \<and> mset (main_inbox a w') = add_mset m (mset (main_inbox a w))"
    and "ma_followup a m w = (r, w') \<Longrightarrow> r = Inr () \<and> mset (main_inbox a w') = add_mset m (mset (main_inbox a w))"
    and "ma_steer a m w = (r, w') \<Longrightarrow> r = Inr () \<and> mset (main_inbox a w') = add_mset m (mset (main_inbox a w))"
    and "main_inbox a (ma_cancel a cause w) = []"
    and "mset (main_inbox a (ma_remove a i w)) = mset (filter (\<lambda>m. msg_id m \<noteq> i) (main_inbox a w))"
    and "moves w w' \<Longrightarrow> mset (main_inbox a w') \<subseteq># mset (main_inbox a w)"
proof -
  have "fst (f m w) = Inr () \<and> mset (main_inbox a (snd (f m w))) = add_mset m (mset (main_inbox a w))"
    if "f \<in> {ma_inject a, ma_followup a, ma_steer a}" for f
    using assms that unfolding agent_contract_def by blast
  from this[of "ma_inject a"] this[of "ma_followup a"] this[of "ma_steer a"]
  show "ma_inject a m w = (r, w') \<Longrightarrow> r = Inr () \<and> mset (main_inbox a w') = add_mset m (mset (main_inbox a w))"
    "ma_followup a m w = (r, w') \<Longrightarrow> r = Inr () \<and> mset (main_inbox a w') = add_mset m (mset (main_inbox a w))"
    "ma_steer a m w = (r, w') \<Longrightarrow> r = Inr () \<and> mset (main_inbox a w') = add_mset m (mset (main_inbox a w))"
    by simp_all
qed (use assms in \<open>simp_all add: agent_contract_def\<close>)

lemma inject_all_inbox:
  assumes "agent_contract a moves"
  shows "\<exists>w'. main_inject_all a xs w = (Inr (), w') \<and> mset (main_inbox a w') = mset xs + mset (main_inbox a w)"
proof (induction xs arbitrary: w)
  case (Cons x xs)
  obtain r w1 where i: "ma_inject a x w = (r, w1)" by fastforce
  from agent_contractD(1)[OF assms i] Cons.IH[of w1] show ?case by (auto simp: i)
qed simp

lemma begin_turn_inbox:
  assumes "agent_contract a moves" and "xs \<noteq> []"
  shows "\<exists>w'. main_beginTurn a xs (d, w) =
      (d\<lparr>md_abortRequested := False, md_abortHeld := None, md_lastTurnFailure := None, md_activeTurn := Some MainInFlight\<rparr>, w') \<and>
    mset (main_inbox a w') = mset xs + mset (main_inbox a w)"
proof -
  obtain w1 where 1: "main_inject_all a (butlast xs) w = (Inr (), w1)"
    "mset (main_inbox a w1) = mset (butlast xs) + mset (main_inbox a w)"
    using inject_all_inbox[OF assms(1)] by blast
  obtain r w2 where 2: "ma_followup a (last xs) w1 = (r, w2)" by fastforce
  have "mset xs = add_mset (last xs) (mset (butlast xs))"
    using append_butlast_last_id[OF assms(2)] by (metis mset.simps(2) mset_append union_commute add_mset_add_single mset_single_iff_right)
  with agent_contractD(2)[OF assms(1) 2] 1 show ?thesis by (simp add: main_beginTurn_def Let_def 2)
qed

lemma remove_all_inbox:
  assumes "agent_contract a moves"
  shows "mset (main_inbox a (foldl (\<lambda>v m. ma_remove a (msg_id m) v) w xs)) =
    mset (filter (\<lambda>m. msg_id m \<notin> msg_id ` set xs) (main_inbox a w))"
proof (induction xs arbitrary: w)
  case (Cons x xs)
  have "mset (main_inbox a (foldl (\<lambda>v m. ma_remove a (msg_id m) v) w (x # xs))) =
      filter_mset (\<lambda>m. msg_id m \<notin> msg_id ` set xs) (mset (main_inbox a (ma_remove a (msg_id x) w)))"
    using Cons.IH by simp
  also have "\<dots> = mset (filter (\<lambda>m. msg_id m \<notin> msg_id ` set (x # xs)) (main_inbox a w))"
    unfolding agent_contractD(5)[OF assms] by (simp add: filter_filter_mset conj_commute)
  finally show ?case .
qed simp

section \<open>Runs\<close>

text \<open>
  A run with the messages accepted so far, in order, those the agent has claimed, and the number of
  cancels. Message ids are fresh. A cancel comes when the batch that opened the turn has been claimed,
  so that the inbox holds steered messages only.
\<close>

inductive main_run ::
  "'w main_agent \<Rightarrow> ('w \<Rightarrow> 'w \<Rightarrow> bool) \<Rightarrow> main_driver \<times> 'w \<Rightarrow> agent_message list \<Rightarrow> agent_message multiset \<Rightarrow>
   nat \<Rightarrow> bool" for a moves where
  starts: "main_inbox a w = [] \<Longrightarrow> main_run a moves (new_main_driver, w) [] {#} 0"
| submits: "main_run a moves s acc cl n \<Longrightarrow> msg_id m \<notin> msg_id ` set acc \<Longrightarrow> main_submit a m s = (Inr (), s') \<Longrightarrow>
    main_run a moves s' (acc @ [m]) cl n"
| claims: "main_run a moves (d, w) acc cl n \<Longrightarrow> moves w w' \<Longrightarrow>
    main_run a moves (d, w') acc (cl + (mset (main_inbox a w) - mset (main_inbox a w'))) n"
| errors: "main_run a moves (d, w) acc cl n \<Longrightarrow> main_run a moves (main_on_error e d, w) acc cl n"
| ends: "main_run a moves s acc cl n \<Longrightarrow> main_finishTurn a s = (r, s') \<Longrightarrow> main_run a moves s' acc cl n"
| cancels: "main_run a moves (d, w) acc cl n \<Longrightarrow>
    md_activeTurn d = None \<or> md_abortRequested d \<or> set (main_inbox a w) \<subseteq> set (md_steered d) \<Longrightarrow>
    main_run a moves (main_cancel a cause (d, w)) acc cl (Suc n)"

definition abort_held :: "main_driver \<Rightarrow> agent_message list" where
  "abort_held d = (case md_abortHeld d of None \<Rightarrow> [] | Some xs \<Rightarrow> xs)"

definition driver_ok :: "main_driver \<Rightarrow> bool" where
  "driver_ok d \<longleftrightarrow>
     md_activeTurn d \<in> {None, Some MainInFlight} \<and>
     (md_activeTurn d = None \<longrightarrow> md_steered d = [] \<and> \<not> md_abortRequested d) \<and>
     (md_activeTurn d \<noteq> None \<longrightarrow> md_held d = []) \<and>
     (md_abortHeld d \<noteq> None \<longleftrightarrow> md_abortRequested d) \<and>
     (md_held d \<noteq> [] \<or> md_abortRequested d \<longrightarrow> md_frozen d) \<and>
     (md_lastTurnError d \<noteq> None \<longrightarrow> md_frozen d \<or> main_busy d)"

definition accounts_ok ::
  "'w main_agent \<Rightarrow> main_driver \<Rightarrow> 'w \<Rightarrow> agent_message list \<Rightarrow> agent_message multiset \<Rightarrow> nat \<Rightarrow> bool" where
  "accounts_ok a d w acc cl n \<longleftrightarrow>
     distinct (map msg_id acc) \<and> subseq (md_steered d) acc \<and>
     set (main_inbox a w) \<union> set (md_held d) \<union> set (abort_held d) \<subseteq> set acc \<and>
     set acc \<subseteq> set_mset cl \<union> set (main_inbox a w) \<union> set (md_held d) \<union> set (abort_held d) \<and>
     (n = 0 \<longrightarrow> \<not> md_abortRequested d \<and> mset acc = cl + mset (main_inbox a w) + mset (md_held d) \<and>
        subseq (md_held d) acc)"

lemma subseq_set: "subseq xs ys \<Longrightarrow> set xs \<subseteq> set ys"
  by (auto elim: list_emb_set)

lemma sub_distinct: "subseq xs ys \<Longrightarrow> distinct ys \<Longrightarrow> distinct xs"
proof (induction rule: list_emb.induct)
  case (list_emb_Cons2 x y xs ys)
  then show ?case using subseq_set[of xs ys] by auto
qed simp_all

lemma sub_mset_distinct:
  assumes "mset xs = M + mset ys" "distinct xs"
  shows "distinct ys"
proof -
  obtain zs where "mset zs = M" using ex_mset by blast
  then have "mset xs = mset (zs @ ys)" using assms(1) by simp
  then have "distinct (zs @ ys)" using assms(2) mset_eq_imp_distinct_iff by blast
  then show ?thesis by simp
qed

lemma same_id:
  "distinct (map msg_id acc) \<Longrightarrow> x \<in> set acc \<Longrightarrow> y \<in> set acc \<Longrightarrow> msg_id x = msg_id y \<Longrightarrow> x = y"
  by (auto simp: distinct_map inj_on_def)

lemma takeUnclaimed_facts:
  assumes "agent_contract a moves" and t: "takeUnclaimed a xs w = (un, w')"
    and acc: "distinct (map msg_id acc)" "set (main_inbox a w) \<subseteq> set acc" "set xs \<subseteq> set acc"
  shows "un = filter (\<lambda>m. m \<in> set (main_inbox a w)) xs"
    and "mset (main_inbox a w') = mset (filter (\<lambda>m. m \<notin> set un) (main_inbox a w))"
proof -
  have un: "un = filter (\<lambda>m. msg_id m \<in> msg_id ` set (main_inbox a w)) xs"
    and w': "w' = foldl (\<lambda>v m. ma_remove a (msg_id m) v) w un"
    using t by (auto simp: takeUnclaimed_def Let_def)
  show u: "un = filter (\<lambda>m. m \<in> set (main_inbox a w)) xs"
    unfolding un by (rule filter_cong[OF refl]) (use acc same_id in \<open>blast intro: same_id[OF acc(1)]\<close>)
  have "filter (\<lambda>m. msg_id m \<notin> msg_id ` set un) (main_inbox a w) = filter (\<lambda>m. m \<notin> set un) (main_inbox a w)"
  proof (rule filter_cong[OF refl])
    fix m assume "m \<in> set (main_inbox a w)"
    moreover have "set un \<subseteq> set acc" using acc(3) by (auto simp: u)
    ultimately show "(msg_id m \<notin> msg_id ` set un) = (m \<notin> set un)"
      using acc(2) same_id[OF acc(1)] by blast
  qed
  then show "mset (main_inbox a w') = mset (filter (\<lambda>m. m \<notin> set un) (main_inbox a w))"
    unfolding w' remove_all_inbox[OF assms(1)] by simp
qed

lemmas run_facts = driver_ok_def accounts_ok_def abort_held_def main_busy_def

lemma set_inbox: "mset (main_inbox a w) = M \<Longrightarrow> set (main_inbox a w) = set_mset M"
  by auto

lemma submit_ok:
  assumes a: "agent_contract a moves" and ok: "driver_ok d" "accounts_ok a d w acc cl n"
    and m: "msg_id m \<notin> msg_id ` set acc" and sub: "main_submit a m (d, w) = (r, d', w')"
  shows "driver_ok d' \<and> accounts_ok a d' w' (acc @ [m]) cl n"
proof (cases "md_activeTurn d")
  case None
  from begin_turn_inbox[OF a, of "md_held d @ [m]" "d\<lparr>md_held := [], md_frozen := False\<rparr>" w] obtain w1 where
    b: "main_beginTurn a (md_held d @ [m]) (d\<lparr>md_held := [], md_frozen := False\<rparr>, w) =
      (d\<lparr>md_held := [], md_frozen := False, md_abortRequested := False, md_abortHeld := None, md_lastTurnFailure := None,
         md_activeTurn := Some MainInFlight\<rparr>, w1)"
    "mset (main_inbox a w1) = add_mset m (mset (md_held d) + mset (main_inbox a w))" by auto
  have "d' = d\<lparr>md_held := [], md_frozen := False, md_abortRequested := False, md_abortHeld := None,
      md_lastTurnFailure := None, md_activeTurn := Some MainInFlight\<rparr>" "w' = w1"
    using sub None b(1) by (simp_all add: main_submit_def)
  then show ?thesis
    using ok m None b(2) set_inbox[OF b(2)] by (auto simp: run_facts)
next
  case (Some t)
  obtain r1 w1 where st: "ma_steer a m w = (r1, w1)" by fastforce
  note f = agent_contractD(3)[OF a st]
  from sub f have "d' = d\<lparr>md_steered := md_steered d @ [m]\<rparr>" "w' = w1"
    by (auto simp: main_submit_def Some st)
  then show ?thesis
    using ok m Some f set_inbox[OF conjunct2[OF f]] by (auto simp: run_facts)
qed

lemma error_ok: "driver_ok d \<Longrightarrow> accounts_ok a d w acc cl n \<Longrightarrow>
    driver_ok (main_on_error e d) \<and> accounts_ok a (main_on_error e d) w acc cl n"
  by (simp add: run_facts main_on_error_def)

lemma claim_ok:
  assumes a: "agent_contract a moves" and ok: "accounts_ok a d w acc cl n" and m: "moves w w'"
  shows "accounts_ok a d w' acc (cl + (mset (main_inbox a w) - mset (main_inbox a w'))) n"
proof -
  let ?gone = "mset (main_inbox a w) - mset (main_inbox a w')"
  have sub: "mset (main_inbox a w') \<subseteq># mset (main_inbox a w)" by (rule agent_contractD(6)[OF a m])
  then have "mset (main_inbox a w) = ?gone + mset (main_inbox a w')" by simp
  moreover from this have "set (main_inbox a w) = set_mset ?gone \<union> set (main_inbox a w')"
    by (metis set_mset_mset set_mset_union)
  ultimately show ?thesis using ok by (auto simp: run_facts)
qed

lemma cancel_ok:
  assumes a: "agent_contract a moves" and ok: "driver_ok d" "accounts_ok a d w acc cl n"
    and inbox: "md_activeTurn d = None \<or> md_abortRequested d \<or> set (main_inbox a w) \<subseteq> set (md_steered d)"
    and c: "main_cancel a cause (d, w) = (d', w')"
  shows "driver_ok d' \<and> accounts_ok a d' w' acc cl (Suc n)"
proof (cases "md_activeTurn d = None \<or> md_abortRequested d")
  case True
  then have "d' = d\<lparr>md_frozen := True\<rparr>" "w' = w" using c by (simp_all add: main_cancel_def Let_def)
  then show ?thesis using ok by (auto simp: run_facts)
next
  case False
  then have "d' = d\<lparr>md_frozen := True, md_abortRequested := True, md_abortHeld := Some (md_steered d), md_steered := []\<rparr>"
    "w' = ma_cancel a cause w" using c by (auto simp: main_cancel_def Let_def)
  moreover have "set (md_steered d) \<subseteq> set acc" using ok(2) by (simp_all add: accounts_ok_def subseq_set)
  ultimately show ?thesis
    using ok False inbox agent_contractD(4)[OF a] by (auto simp: run_facts)
qed

lemma finish_ok:
  assumes a: "agent_contract a moves" and ok: "driver_ok d" "accounts_ok a d w acc cl n"
    and f: "main_finishTurn a (d, w) = (r, d', w')"
  shows "driver_ok d' \<and> accounts_ok a d' w' acc cl n"
proof (cases "md_activeTurn d")
  case None
  then show ?thesis using ok f by (simp add: main_finishTurn_def)
next
  case (Some t)
  then have t: "md_activeTurn d = Some MainInFlight" "md_held d = []" using ok(1) by (auto simp: driver_ok_def)
  have acc: "distinct (map msg_id acc)" "set (main_inbox a w) \<subseteq> set acc" "set (md_steered d) \<subseteq> set acc"
    using ok(2) by (simp_all add: accounts_ok_def subseq_set)
  obtain un w1 where u: "takeUnclaimed a (md_steered d) w = (un, w1)" by fastforce
  note un = takeUnclaimed_facts[OF a u acc]
  have sets: "set (main_inbox a w1) = set (main_inbox a w) - set un" "set un \<subseteq> set (main_inbox a w)"
    using set_inbox[OF un(2)] by (auto simp: un(1))
  have parts: "mset un + mset (main_inbox a w1) = mset (main_inbox a w)" if "n = 0"
  proof -
    have sum: "mset acc = (cl + mset (md_held d)) + mset (main_inbox a w)" using ok(2) that by (simp add: accounts_ok_def)
    have acc': "distinct acc" "subseq (md_steered d) acc"
      using ok(2) acc(1) by (simp_all add: accounts_ok_def distinct_map)
    have d: "distinct (main_inbox a w)" by (rule sub_mset_distinct[OF sum acc'(1)])
    have "distinct (md_steered d)" by (rule sub_distinct[OF acc'(2,1)])
    then have "distinct un" by (simp add: un(1))
    moreover have "set un = set (filter (\<lambda>m. m \<in> set un) (main_inbox a w))" using sets(2) by auto
    ultimately have "mset un = mset (filter (\<lambda>m. m \<in> set un) (main_inbox a w))"
      using d set_eq_iff_mset_eq_distinct by (metis distinct_filter)
    then show ?thesis unfolding un(2) by (simp add: multiset_partition[symmetric])
  qed
  have "subseq un (md_steered d)" by (simp add: un(1))
  then have order: "subseq un acc" using ok(2) by (auto simp: accounts_ok_def intro: subseq_order.order_trans)
  consider "md_abortRequested d" | failure where "\<not> md_abortRequested d" "md_lastTurnFailure d = Some failure"
    | "\<not> md_abortRequested d" "md_lastTurnFailure d = None" by blast
  then show ?thesis
  proof cases
    case 1
    then show ?thesis
      using ok f sets t by (clarsimp simp: main_finishTurn_def Let_def u run_facts) blast
  next
    case 2
    then show ?thesis
      using ok f sets t parts order by (clarsimp simp: main_finishTurn_def Let_def u run_facts ac_simps) blast
  next
    case 3
    then show ?thesis using ok f t by (auto simp: main_finishTurn_def Let_def run_facts)
  qed
qed

lemma main_run_ok:
  assumes "agent_contract a moves" and "main_run a moves s acc cl n"
  shows "driver_ok (fst s) \<and> accounts_ok a (fst s) (snd s) acc cl n"
  using assms(2)
proof (induction rule: main_run.induct)
  case (starts w)
  then show ?case by (simp add: run_facts new_main_driver_def)
next
  case (submits s acc cl n m s')
  then show ?case using submit_ok[OF assms(1), of "fst s" "snd s" acc cl n m "Inr ()" "fst s'" "snd s'"] by simp
next
  case (claims d w acc cl n w')
  then show ?case using claim_ok[OF assms(1)] by simp
next
  case (errors d w acc cl n e)
  then show ?case using error_ok[of d a w acc cl n e] by simp
next
  case (ends s acc cl n r s')
  then show ?case using finish_ok[OF assms(1), of "fst s" "snd s" acc cl n r "fst s'" "snd s'"] by simp
next
  case (cancels d w acc cl n cause)
  then show ?case using cancel_ok[OF assms(1), of d w acc cl n cause] by (metis fst_conv prod.collapse snd_conv)
qed

section \<open>A sample agent\<close>

text \<open>An agent that claims any part of its inbox at any time.\<close>

definition list_agent :: "(agent_message list \<times> agent_message list) main_agent" where
  "list_agent =
     \<lparr>ma_inject = (\<lambda>m (s, t). (Inr (), s, t @ [m])), ma_followup = (\<lambda>m (s, t). (Inr (), s, t @ [m])),
      ma_steer = (\<lambda>m (s, t). (Inr (), s @ [m], t)), ma_cancel = (\<lambda>cause w. ([], [])), ma_nextStep = fst,
      ma_nextTurn = snd,
      ma_remove = (\<lambda>i (s, t). (filter (\<lambda>m. msg_id m \<noteq> i) s, filter (\<lambda>m. msg_id m \<noteq> i) t))\<rparr>"

definition list_moves :: "agent_message list \<times> agent_message list \<Rightarrow> agent_message list \<times> agent_message list \<Rightarrow> bool" where
  "list_moves w w' \<longleftrightarrow> mset (fst w' @ snd w') \<subseteq># mset (fst w @ snd w)"

lemma list_agent_contract: "agent_contract list_agent list_moves"
  by (auto simp: agent_contract_def list_agent_def main_inbox_def list_moves_def)

definition numbered :: "nat \<Rightarrow> agent_message" where
  "numbered n = \<lparr>um_text = js ''go'', um_source = UserSource, msg_id = str_of_nat n\<rparr>"

lemma list_claims:
  assumes "main_run list_agent list_moves (d, w) acc cl n" and "list_moves w w'"
    and "mset (fst w @ snd w) - mset (fst w' @ snd w') = gone"
  shows "main_run list_agent list_moves (d, w') acc (cl + gone) n"
  using main_run.claims[OF assms(1,2)] assms(3) by (simp add: main_inbox_def list_agent_def)

text \<open>The states of a sample run: one message opens a turn and is claimed, a second one steers into it.\<close>

definition sample_opened :: "main_driver \<times> agent_message list \<times> agent_message list" where
  "sample_opened = snd (main_submit list_agent (numbered 1) (new_main_driver, [], []))"

definition sample_steered :: "main_driver \<times> agent_message list \<times> agent_message list" where
  "sample_steered = snd (main_submit list_agent (numbered 2) (fst sample_opened, [], []))"

lemma numbered_ids [simp]: "msg_id (numbered n) = str_of_nat n"
  by (simp add: numbered_def)

lemma main_sample_states:
  "snd sample_opened = ([], [numbered 1])" "snd sample_steered = ([numbered 2], [])"
  "main_submit list_agent (numbered 1) (new_main_driver, [], []) = (Inr (), sample_opened)"
  "main_submit list_agent (numbered 2) (fst sample_opened, [], []) = (Inr (), sample_steered)"
  by (simp_all add: sample_opened_def sample_steered_def main_submit_def main_beginTurn_def new_main_driver_def
      list_agent_def Let_def)

lemma sample_steered_run:
  "main_run list_agent list_moves sample_steered [numbered 1, numbered 2] {#numbered 1#} 0"
proof -
  have "main_run list_agent list_moves (new_main_driver, [], []) [] {#} 0"
    by (rule main_run.starts) (simp add: main_inbox_def list_agent_def)
  from main_run.submits[OF this _ main_sample_states(3)] have "main_run list_agent list_moves sample_opened [numbered 1] {#} 0" by simp
  then have "main_run list_agent list_moves (fst sample_opened, [], [numbered 1]) [numbered 1] {#} 0"
    using main_sample_states(1) by (metis prod.collapse)
  then have "main_run list_agent list_moves (fst sample_opened, [], []) [numbered 1] ({#} + {#numbered 1#}) 0"
    by (rule list_claims) (simp_all add: list_moves_def)
  from main_run.submits[OF this _ main_sample_states(4)] show ?thesis by simp
qed

text \<open>The steered message is claimed, and then the user cancels; or it is not, and the turn fails.\<close>

definition sample_cancelled :: "main_driver \<times> agent_message list \<times> agent_message list" where
  "sample_cancelled = main_cancel list_agent CancelUser (fst sample_steered, [], [])"

definition sample_failed :: "main_driver \<times> agent_message list \<times> agent_message list" where
  "sample_failed = snd (main_finishTurn list_agent
     (main_on_error \<lparr>tv_code = CodeString (js ''SERVER''), tv_message = js ''boom''\<rparr> (fst sample_steered), [numbered 2], []))"

lemmas sample_defs = sample_cancelled_def sample_failed_def sample_opened_def sample_steered_def main_submit_def
  main_beginTurn_def new_main_driver_def list_agent_def main_cancel_def main_finishTurn_def main_on_error_def
  takeUnclaimed_def main_inbox_def Let_def

lemma sample_failed_state: "md_held (fst sample_failed) = [numbered 2]" "snd sample_failed = ([], [])"
  by (simp_all add: sample_defs)

lemma sample_failed_run: "main_run list_agent list_moves sample_failed [numbered 1, numbered 2] {#numbered 1#} 0"
proof -
  let ?e = "\<lparr>tv_code = CodeString (js ''SERVER''), tv_message = js ''boom''\<rparr>"
  have "main_run list_agent list_moves (fst sample_steered, [numbered 2], []) [numbered 1, numbered 2] {#numbered 1#} 0"
    using sample_steered_run main_sample_states(2) by (metis prod.collapse)
  from main_run.ends[OF main_run.errors[OF this, of ?e] surjective_pairing] show ?thesis by (simp add: sample_failed_def)
qed

section \<open>Properties\<close>




text \<open>
  A message that comes while a cancelled turn is winding down is replayed before those steered earlier, and
  the batch that opened a turn is gone when the cancel comes before the agent claims it.
\<close>

lemma cancel_reorders_input:
  "md_held (fst (snd (main_finishTurn list_agent (snd (main_submit list_agent (numbered 3)
     (main_cancel list_agent CancelUser sample_steered)))))) = [numbered 3, numbered 2]"
  by (simp add: sample_defs)

lemma cancel_drops_opening:
  "(case snd (main_finishTurn list_agent (main_cancel list_agent CancelUser sample_opened)) of
      (d, w) \<Rightarrow> (md_held d, main_inbox list_agent w)) = ([], [])"
  by (simp add: sample_defs)

text \<open>The failure codes are those of the saolei members.\<close>

lemma same_engine_codes: "main_mapEngineCode = mapEngineCode"
proof -
  have "main_TRANSIENT_ENGINE_CODES = TRANSIENT_ENGINE_CODES" "main_QUOTA_ENGINE_CODES = QUOTA_ENGINE_CODES"
    "main_CREDENTIAL_ENGINE_CODES = CREDENTIAL_ENGINE_CODES" "main_CONFIG_ENGINE_CODES = CONFIG_ENGINE_CODES"
    "main_INPUT_TOO_LARGE_ENGINE_CODES = INPUT_TOO_LARGE_ENGINE_CODES"
    unfolding main_TRANSIENT_ENGINE_CODES_def TRANSIENT_ENGINE_CODES_def main_QUOTA_ENGINE_CODES_def
      QUOTA_ENGINE_CODES_def main_CREDENTIAL_ENGINE_CODES_def CREDENTIAL_ENGINE_CODES_def main_CONFIG_ENGINE_CODES_def
      CONFIG_ENGINE_CODES_def main_INPUT_TOO_LARGE_ENGINE_CODES_def INPUT_TOO_LARGE_ENGINE_CODES_def by (rule refl)+
  then show ?thesis by (intro ext) (simp only: main_mapEngineCode_def mapEngineCode_def)
qed

end
