(* ===== verification/Agent_Creation.thy ===== *)
theory Agent_Creation
  imports JS_Prelude
begin

text \<open>
  The agent registry of the harness and the preset composition, as the two team orchestrators consume
  them when they materialize a team: \<open>AgentCreationSeam\<close>, \<open>ComposePreset\<close> and the options of \<open>create\<close> in
  \<open>common/js/dsh-plugins/saolei/loop/src/orchestrator.ts\<close> and \<open>sts2/loop/src/orchestrator.ts\<close>. Both are
  functions over a world; a rejected promise is the message of its error. A scope is the context of
  one agent under construction, a handle is the id of a live agent.
\<close>

record create_options =
  co_sessionId :: jstr
  co_cwd :: jstr
  co_agentPreset :: jstr
  co_provider :: jstr
  co_model :: "jstr option"

record 'w composed =
  cp_agentPreset :: jstr
  cp_setup :: "nat \<Rightarrow> 'w \<Rightarrow> (jstr + unit) \<times> 'w"

record 'w agent_registry =
  reg_compose :: "jstr \<Rightarrow> 'w \<Rightarrow> (jstr + 'w composed) \<times> 'w"
  reg_create :: "create_options \<Rightarrow> (nat \<Rightarrow> 'w \<Rightarrow> (jstr + unit) \<times> 'w) \<Rightarrow> 'w \<Rightarrow> (jstr + jstr) \<times> 'w"
  reg_subscribe :: "jstr \<Rightarrow> 'w \<Rightarrow> (jstr + unit) \<times> 'w"
  reg_dispose :: "jstr \<Rightarrow> 'w \<Rightarrow> (jstr + unit) \<times> 'w"

text \<open>The model route of a member: its own provider, then the host's, then the default; a model unless it is empty.\<close>

definition member_route :: "jstr option \<Rightarrow> jstr option \<Rightarrow> jstr \<Rightarrow> jstr" where
  "member_route own host shipped = (case own of Some p \<Rightarrow> p | None \<Rightarrow> (case host of Some p \<Rightarrow> p | None \<Rightarrow> shipped))"

definition bare_model :: "jstr option \<Rightarrow> jstr option" where
  "bare_model m = (case m of None \<Rightarrow> None | Some t \<Rightarrow> if t = [] then None else Some t)"

text \<open>
  What the registry promises of its live agents: \<open>create\<close> adds the agent it returns, which was not live,
  after running the setup once, and nothing when it rejects; \<open>dispose\<close> removes the agent, whether or
  not it rejects; nothing else changes which agents are live.
\<close>

definition registry_contract :: "'w agent_registry \<Rightarrow> ('w \<Rightarrow> jstr set) \<Rightarrow> bool" where
  "registry_contract reg live \<longleftrightarrow>
     (\<forall>opts setup w. (\<forall>scope v. live (snd (setup scope v)) = live v) \<longrightarrow>
        (case reg_create reg opts setup w of
           (Inl e, w') \<Rightarrow> live w' = live w
         | (Inr agent, w') \<Rightarrow> agent \<notin> live w \<and> live w' = insert agent (live w))) \<and>
     (\<forall>agent w. live (snd (reg_dispose reg agent w)) = live w - {agent}) \<and>
     (\<forall>agent w. live (snd (reg_subscribe reg agent w)) = live w) \<and>
     (\<forall>preset w. live (snd (reg_compose reg preset w)) = live w \<and>
        (case fst (reg_compose reg preset w) of
           Inl e \<Rightarrow> True
         | Inr c \<Rightarrow> \<forall>scope v. live (snd (cp_setup c scope v)) = live v))"

lemma registry_contractD:
  assumes "registry_contract reg live"
  shows "reg_create reg opts setup w = (Inl e, w') \<Longrightarrow> \<forall>scope v. live (snd (setup scope v)) = live v \<Longrightarrow> live w' = live w"
    and "reg_create reg opts setup w = (Inr agent, w') \<Longrightarrow> \<forall>scope v. live (snd (setup scope v)) = live v \<Longrightarrow>
      agent \<notin> live w \<and> live w' = insert agent (live w)"
    and "reg_dispose reg agent w = (r, w') \<Longrightarrow> live w' = live w - {agent}"
    and "reg_subscribe reg agent w = (s, w') \<Longrightarrow> live w' = live w"
    and "reg_compose reg preset w = (Inl e, w') \<Longrightarrow> live w' = live w"
    and "reg_compose reg preset w = (Inr c, w') \<Longrightarrow> live w' = live w \<and> (\<forall>scope v. live (snd (cp_setup c scope v)) = live v)"
proof -
  have create: "case reg_create reg opts setup w of (Inl e, w') \<Rightarrow> live w' = live w
      | (Inr agent, w') \<Rightarrow> agent \<notin> live w \<and> live w' = insert agent (live w)"
    if "\<forall>scope v. live (snd (setup scope v)) = live v"
    by (rule assms[unfolded registry_contract_def, THEN conjunct1, THEN spec, THEN spec, THEN spec, THEN mp, OF that])
  note rest = assms[unfolded registry_contract_def, THEN conjunct2]
  note dispose = rest[THEN conjunct1, THEN spec, THEN spec, of agent w]
  note subscribe = rest[THEN conjunct2, THEN conjunct1, THEN spec, THEN spec, of agent w]
  note compose = rest[THEN conjunct2, THEN conjunct2, THEN spec, THEN spec, of preset w]
  show "live w' = live w" if "reg_create reg opts setup w = (Inl e, w')" "\<forall>scope v. live (snd (setup scope v)) = live v"
    using create[OF that(2)] unfolding that(1) prod.case sum.case .
  show "agent \<notin> live w \<and> live w' = insert agent (live w)"
    if "reg_create reg opts setup w = (Inr agent, w')" "\<forall>scope v. live (snd (setup scope v)) = live v"
    using create[OF that(2)] unfolding that(1) prod.case sum.case .
  show "reg_dispose reg agent w = (r, w') \<Longrightarrow> live w' = live w - {agent}" using dispose by (simp only: snd_conv)
  show "reg_subscribe reg agent w = (s, w') \<Longrightarrow> live w' = live w" using subscribe by (simp only: snd_conv)
  show "reg_compose reg preset w = (Inl e, w') \<Longrightarrow> live w' = live w" using compose by (simp only: snd_conv)
  show "reg_compose reg preset w = (Inr c, w') \<Longrightarrow> live w' = live w \<and> (\<forall>scope v. live (snd (cp_setup c scope v)) = live v)"
    using compose by (simp only: snd_conv fst_conv sum.case) simp
qed

end
