(* ===== verification/Sts2_Scene.thy ===== *)
theory Sts2_Scene
  imports Sts2_Runs Agent_Creation Session_Runs
begin

declare js_simps(2) [simp del]

text \<open>
  The sts2 scene behind the host's seam: the event stream of the main agent (\<open>events.ts\<close>) and the
  single-member orchestration (\<open>orchestrator.ts\<close>) of \<open>common/js/dsh-plugins/sts2/loop/src\<close>, and what the
  host then promises of its sessions.
\<close>

section \<open>The event stream\<close>

definition MAIN_MEMBER_ROLE :: jstr where "MAIN_MEMBER_ROLE = js ''main''"

text \<open>Consumers are a set in insertion order; an event of the harness names the agent it belongs to.\<close>

record main_stream =
  ms_memberId :: jstr
  ms_consumers :: "nat list"
  ms_disposed :: bool

datatype harness_event =
  SessionEvent jstr log_event
| AssistantStreamEvent jstr "stream_frame option"
| AgentStatusEvent jstr jstr
| AgentErrorEvent jstr thrown_value

definition new_main_stream :: "jstr \<Rightarrow> main_stream" where
  "new_main_stream agent = \<lparr>ms_memberId = agent, ms_consumers = [], ms_disposed = False\<rparr>"

definition stream_subscribe :: "nat \<Rightarrow> main_stream \<Rightarrow> main_stream" where
  "stream_subscribe k s =
     (if ms_disposed s \<or> k \<in> set (ms_consumers s) then s else s\<lparr>ms_consumers := ms_consumers s @ [k]\<rparr>)"

definition stream_detach :: "nat \<Rightarrow> main_stream \<Rightarrow> main_stream" where
  "stream_detach k s = s\<lparr>ms_consumers := filter (\<lambda>j. j \<noteq> k) (ms_consumers s)\<rparr>"

definition stream_dispose :: "main_stream \<Rightarrow> main_stream" where
  "stream_dispose s = (if ms_disposed s then s else s\<lparr>ms_disposed := True, ms_consumers := []\<rparr>)"

definition main_envelope :: "main_stream \<Rightarrow> member_event \<Rightarrow> member_envelope" where
  "main_envelope s event = \<lparr>en_role = MAIN_MEMBER_ROLE, en_memberId = ms_memberId s, en_event = event\<rparr>"

fun envelope_event :: "jstr \<Rightarrow> harness_event \<Rightarrow> member_event option" where
  "envelope_event agent (SessionEvent i event) = (if i = agent then Some (LogChannel event) else None)"
| "envelope_event agent (AssistantStreamEvent i frame) =
     (if i = agent then Some (LiveChannel (AssistantStream frame)) else None)"
| "envelope_event agent (AgentStatusEvent i status) = (if i = agent then Some (LiveChannel (StatusEvent status)) else None)"
| "envelope_event agent (AgentErrorEvent i error) = (if i = agent then Some (LiveChannel (ErrorEvent error)) else None)"

text \<open>Who gets what: a disposed stream has dropped its subscriptions.\<close>

definition stream_notify :: "harness_event \<Rightarrow> main_stream \<Rightarrow> (nat \<times> member_envelope) list" where
  "stream_notify event s =
     (if ms_disposed s then []
      else case envelope_event (ms_memberId s) event of
        None \<Rightarrow> []
      | Some e \<Rightarrow> map (\<lambda>k. (k, main_envelope s e)) (ms_consumers s))"

section \<open>The orchestrator\<close>

record sts2_failure_context =
  xc_session :: jstr
  xc_member :: "jstr option"
  xc_code :: loop_error_code
  xc_error :: jstr

record 'w sts2_env =
  x_registry :: "'w agent_registry"
  x_agent :: "'w main_agent"
  x_createUserMessage :: "jstr \<Rightarrow> 'w \<Rightarrow> agent_message \<times> 'w"
  x_log :: "sts2_failure_context \<Rightarrow> 'w \<Rightarrow> 'w"
  x_cwd :: jstr
  x_provider :: "jstr option"

text \<open>What exists exactly while the session is materialized; the session is kept for the turn observers.\<close>

record sts2_main =
  xm_handle :: jstr
  xm_driver :: main_driver
  xm_stream :: main_stream
  xm_session :: jstr

text \<open>\<open>so2_releasing\<close> is what a running \<open>dispose\<close> still has to release.\<close>

record sts2_orchestrator =
  so2_main :: "sts2_main option"
  so2_disposed :: bool
  so2_releasing :: "sts2_main option"

definition new_sts2 :: sts2_orchestrator where
  "new_sts2 = \<lparr>so2_main = None, so2_disposed = False, so2_releasing = None\<rparr>"

definition mainMember :: "scene_member_config list \<Rightarrow> jstr + scene_member_config" where
  "mainMember members =
     (case members of
        [m] \<Rightarrow>
          if sm_role m \<noteq> MAIN_MEMBER_ROLE then
            Inl (js ''sts2-loop materialization requires the '' @ [34] @ MAIN_MEMBER_ROLE @ [34] @
                 js '' member; got '' @ [34] @ sm_role m @ [34])
          else if sm_preset m = [] then
            Inl (js ''sts2-loop materialization requires a preset id for the '' @ [34] @ MAIN_MEMBER_ROLE @ [34] @
                 js '' member'')
          else Inr m
      | _ \<Rightarrow> Inl (js ''sts2-loop materialization requires exactly one member; got '' @ str_of_nat (length members)))"

definition DEFAULT_PROVIDER :: jstr where "DEFAULT_PROVIDER = js ''glm-responses''"

definition sts2_options :: "'w sts2_env \<Rightarrow> jstr \<Rightarrow> scene_member_config \<Rightarrow> jstr \<Rightarrow> create_options" where
  "sts2_options env session m preset =
     \<lparr>co_sessionId = session @ [47] @ MAIN_MEMBER_ROLE, co_cwd = x_cwd env, co_agentPreset = preset,
      co_provider = member_route (sm_provider m) (x_provider env) DEFAULT_PROVIDER, co_model = bare_model (sm_model m)\<rparr>"

text \<open>
  The transaction of \<open>materialize\<close>: compose, create, subscribe the stream and the driver. A failure
  releases the created agent, whatever its disposal says, and is logged.
\<close>

definition sts2_create :: "'w sts2_env \<Rightarrow> jstr \<Rightarrow> scene_member_config \<Rightarrow> 'w \<Rightarrow> (jstr + jstr) \<times> 'w" where
  "sts2_create env session m w =
     (let reg = x_registry env;
          failed = (\<lambda>e w'. (Inl e, x_log env
            \<lparr>xc_session = session, xc_member = Some MAIN_MEMBER_ROLE, xc_code = INTERNAL, xc_error = e\<rparr> w'))
      in case reg_compose reg (sm_preset m) w of
           (Inl e, w1) \<Rightarrow> failed e w1
         | (Inr composed, w1) \<Rightarrow>
             (case reg_create reg (sts2_options env session m (cp_agentPreset composed)) (cp_setup composed) w1 of
                (Inl e, w2) \<Rightarrow> failed e w2
              | (Inr agent, w2) \<Rightarrow>
                  (case reg_subscribe reg agent w2 of
                     (Inl e, w3) \<Rightarrow> failed e (snd (reg_dispose reg agent w3))
                   | (Inr _, w3) \<Rightarrow>
                       (case reg_subscribe reg agent w3 of
                          (Inl e, w4) \<Rightarrow> failed e (snd (reg_dispose reg agent w4))
                        | (Inr _, w4) \<Rightarrow> (Inr agent, w4)))))"

definition sts2_guard :: "sts2_orchestrator \<Rightarrow> scene_throw option" where
  "sts2_guard s =
     (if so2_disposed s then Some (StateThrown DISPOSED (js ''orchestrator is disposed''))
      else if so2_main s \<noteq> None then
        Some (StateThrown ALREADY_MATERIALIZED (js ''the main agent is already materialized''))
      else None)"

definition sts2_commit :: "jstr \<Rightarrow> jstr \<Rightarrow> sts2_orchestrator \<Rightarrow> sts2_orchestrator" where
  "sts2_commit session agent s =
     s\<lparr>so2_main := Some \<lparr>xm_handle = agent, xm_driver = new_main_driver, xm_stream = new_main_stream agent,
         xm_session = session\<rparr>\<rparr>"

text \<open>Materialization without another call of the orchestrator between its awaits.\<close>

definition sts2_materialize ::
  "'w sts2_env \<Rightarrow> jstr \<Rightarrow> scene_member_config list \<Rightarrow> sts2_orchestrator \<times> 'w \<Rightarrow>
   scene_throw option \<times> sts2_orchestrator \<times> 'w" where
  "sts2_materialize env session members = (\<lambda>(s, w).
     (case sts2_guard s of
        Some t \<Rightarrow> (Some t, s, w)
      | None \<Rightarrow>
          (case mainMember members of
             Inl e \<Rightarrow> (Some (PlainThrown e), s, w)
           | Inr m \<Rightarrow>
               (case sts2_create env session m w of
                  (Inl e, w1) \<Rightarrow> (Some (PlainThrown e), s, w1)
                | (Inr agent, w1) \<Rightarrow> (None, sts2_commit session agent s, w1)))))"

definition sts2_members :: "sts2_orchestrator \<Rightarrow> (jstr \<times> member_kind) list" where
  "sts2_members s = (case so2_main s of None \<Rightarrow> [] | Some m \<Rightarrow> [(MAIN_MEMBER_ROLE, AgentKind)])"

definition sts2_member :: "sts2_orchestrator \<Rightarrow> jstr \<Rightarrow> jstr option" where
  "sts2_member s role = (if role = MAIN_MEMBER_ROLE then map_option xm_handle (so2_main s) else None)"

definition sts2_teamEvents :: "sts2_orchestrator \<Rightarrow> scene_throw + main_stream" where
  "sts2_teamEvents s =
     (if so2_disposed s then Inl (StateThrown DISPOSED (js ''orchestrator is disposed''))
      else case so2_main s of
        None \<Rightarrow> Inl (StateThrown UNMATERIALIZED (js ''the main agent is not materialized''))
      | Some m \<Rightarrow> Inr (xm_stream m))"

definition failureOf :: "main_failure option \<Rightarrow> scene_failure option" where
  "failureOf failure = map_option (\<lambda>f.
     \<lparr>sf_message = mf_message f, sf_member = Some MAIN_MEMBER_ROLE, sf_code = mf_code f, sf_origin = MemberTurn,
      sf_detail = mf_detail f\<rparr>) failure"

definition sts2_snapshot :: "sts2_orchestrator \<Rightarrow> scene_snapshot" where
  "sts2_snapshot s =
     (case so2_main s of
        None \<Rightarrow>
          \<lparr>sn_materialized = False, sn_active = None, sn_activation = MAIN_MEMBER_ROLE, sn_paused = False,
           sn_queued = 0, sn_failed = False, sn_lastError = None\<rparr>
      | Some m \<Rightarrow>
          (let d = xm_driver m in
           \<lparr>sn_materialized = True, sn_active = (if main_busy d then Some MAIN_MEMBER_ROLE else None),
            sn_activation = MAIN_MEMBER_ROLE, sn_paused = md_frozen d, sn_queued = main_pendingInput d,
            sn_failed = main_failed d, sn_lastError = failureOf (md_lastTurnError d)\<rparr>))"

definition put_driver :: "sts2_main \<Rightarrow> main_driver \<Rightarrow> sts2_orchestrator \<Rightarrow> sts2_orchestrator" where
  "put_driver m d s = s\<lparr>so2_main := Some (m\<lparr>xm_driver := d\<rparr>)\<rparr>"

definition sts2_submit ::
  "'w sts2_env \<Rightarrow> jstr \<Rightarrow> sts2_orchestrator \<times> 'w \<Rightarrow> scene_throw option \<times> sts2_orchestrator \<times> 'w" where
  "sts2_submit env t = (\<lambda>(s, w).
     (if so2_disposed s then (Some (StateThrown DISPOSED (js ''orchestrator is disposed'')), s, w)
      else case so2_main s of
        None \<Rightarrow>
          (Some (StateThrown UNMATERIALIZED (js ''the main agent is not materialized; materialize before sending'')), s, w)
      | Some m \<Rightarrow>
          (case x_createUserMessage env t w of
             (message, w1) \<Rightarrow>
               (case main_submit (x_agent env) message (xm_driver m, w1) of
                  (Inl e, d, w2) \<Rightarrow> (Some (PlainThrown e), put_driver m d s, w2)
                | (Inr _, d, w2) \<Rightarrow> (None, put_driver m d s, w2)))))"

definition sts2_cancel ::
  "'w sts2_env \<Rightarrow> sts2_orchestrator \<times> 'w \<Rightarrow> scene_throw option \<times> sts2_orchestrator \<times> 'w" where
  "sts2_cancel env = (\<lambda>(s, w).
     (if so2_disposed s then (None, s, w)
      else case so2_main s of
        None \<Rightarrow>
          (Some (StateThrown UNMATERIALIZED (js ''the main agent is not materialized; there is nothing to cancel'')), s, w)
      | Some m \<Rightarrow>
          (case main_cancel (x_agent env) CancelUser (xm_driver m, w) of (d, w1) \<Rightarrow> (None, put_driver m d s, w1))))"

text \<open>\<open>dispose\<close> up to the end of the turn in flight, and the release that follows.\<close>

definition sts2_dispose :: "'w sts2_env \<Rightarrow> sts2_orchestrator \<times> 'w \<Rightarrow> sts2_orchestrator \<times> 'w" where
  "sts2_dispose env = (\<lambda>(s, w).
     (if so2_disposed s then (s, w)
      else
        (let s1 = s\<lparr>so2_disposed := True, so2_main := None, so2_releasing := so2_main s\<rparr> in
         case so2_main s of
           None \<Rightarrow> (s1, w)
         | Some m \<Rightarrow>
             if main_busy (xm_driver m) then
               (case main_cancel (x_agent env) CancelDisposed (xm_driver m, w) of
                  (d, w1) \<Rightarrow> (s1\<lparr>so2_releasing := Some (m\<lparr>xm_driver := d\<rparr>)\<rparr>, w1))
             else (s1, w))))"

definition sts2_release :: "'w sts2_env \<Rightarrow> sts2_orchestrator \<times> 'w \<Rightarrow> (jstr + unit) \<times> sts2_orchestrator \<times> 'w" where
  "sts2_release env = (\<lambda>(s, w).
     (case so2_releasing s of
        None \<Rightarrow> (Inr (), s, w)
      | Some m \<Rightarrow>
          if main_busy (xm_driver m) then (Inr (), s, w)
          else (case reg_dispose (x_registry env) (xm_handle m) w of (r, w1) \<Rightarrow> (r, s\<lparr>so2_releasing := None\<rparr>, w1))))"

text \<open>The agent becomes idle: the turn settles, and its observer logs a failure.\<close>

definition sts2_observe :: "'w sts2_env \<Rightarrow> jstr \<Rightarrow> jstr + outcome \<Rightarrow> 'w \<Rightarrow> 'w" where
  "sts2_observe env session r w =
     (let log = (\<lambda>code e. x_log env
        \<lparr>xc_session = session, xc_member = Some MAIN_MEMBER_ROLE, xc_code = code, xc_error = e\<rparr> w)
      in case r of
           Inl e \<Rightarrow> log INTERNAL e
         | Inr (Failed code detail) \<Rightarrow> log code (fail_message detail)
         | Inr _ \<Rightarrow> w)"

definition sts2_settle :: "'w sts2_env \<Rightarrow> sts2_main \<times> 'w \<Rightarrow> sts2_main \<times> 'w" where
  "sts2_settle env = (\<lambda>(m, w).
     (if main_busy (xm_driver m) then
        (case main_finishTurn (x_agent env) (xm_driver m, w) of
           (r, d, w1) \<Rightarrow> (m\<lparr>xm_driver := d\<rparr>, sts2_observe env (xm_session m) r w1))
      else (m, w)))"

text \<open>What happens to the driver of a live session, or to the one a \<open>dispose\<close> waits for.\<close>

definition on_main :: "(sts2_main \<times> 'w \<Rightarrow> sts2_main \<times> 'w) \<Rightarrow> sts2_orchestrator \<times> 'w \<Rightarrow> sts2_orchestrator \<times> 'w" where
  "on_main f = (\<lambda>(s, w).
     (case so2_main s of
        None \<Rightarrow> (s, w)
      | Some m \<Rightarrow> (case f (m, w) of (m', w') \<Rightarrow> (s\<lparr>so2_main := Some m'\<rparr>, w'))))"

definition on_releasing :: "(sts2_main \<times> 'w \<Rightarrow> sts2_main \<times> 'w) \<Rightarrow> sts2_orchestrator \<times> 'w \<Rightarrow> sts2_orchestrator \<times> 'w" where
  "on_releasing f = (\<lambda>(s, w).
     (case so2_releasing s of
        None \<Rightarrow> (s, w)
      | Some m \<Rightarrow> (case f (m, w) of (m', w') \<Rightarrow> (s\<lparr>so2_releasing := Some m'\<rparr>, w'))))"

definition agent_error_in :: "main_thrown \<Rightarrow> sts2_main \<times> 'w \<Rightarrow> sts2_main \<times> 'w" where
  "agent_error_in e = (\<lambda>(m, w). (m\<lparr>xm_driver := main_on_error e (xm_driver m)\<rparr>, w))"

definition attach_in :: "nat \<Rightarrow> sts2_main \<times> 'w \<Rightarrow> sts2_main \<times> 'w" where
  "attach_in k = (\<lambda>(m, w). (m\<lparr>xm_stream := stream_subscribe k (xm_stream m)\<rparr>, w))"

definition sts2_orchestration :: "'w sts2_env \<Rightarrow> (sts2_orchestrator \<times> 'w) scene_orchestration" where
  "sts2_orchestration env =
     \<lparr>so_members = sts2_members \<circ> fst, so_member = sts2_member \<circ> fst, so_snapshot = sts2_snapshot \<circ> fst,
      so_submit = sts2_submit env, so_cancel = sts2_cancel env, so_dispose = sts2_dispose env\<rparr>"

end
