(* ===== verification/Sts2_Sessions.thy ===== *)
theory Sts2_Sessions
  imports Sts2_Scene Session_Properties
begin

declare js_simps(2) [simp del]

text \<open>
  The sts2 orchestration in motion: its interpretation of the host's contract, materialization as a
  transaction on the live agents, and what the host promises of its sessions.
\<close>

section \<open>Steps\<close>

inductive sts2_step :: "'w sts2_env \<Rightarrow> sts2_orchestrator \<times> 'w \<Rightarrow> sts2_orchestrator \<times> 'w \<Rightarrow> bool" for env where
  submits: "sts2_submit env t x = (r, y) \<Longrightarrow> sts2_step env x y"
| cancels: "sts2_cancel env x = (r, y) \<Longrightarrow> sts2_step env x y"
| disposes: "sts2_step env x (sts2_dispose env x)"
| releases: "sts2_release env x = (r, y) \<Longrightarrow> sts2_step env x y"
| materializes: "sts2_materialize env session members x = (r, y) \<Longrightarrow> sts2_step env x y"
| ends: "sts2_step env x (on_main (sts2_settle env) x)"
| drained: "sts2_step env x (on_releasing (sts2_settle env) x)"
| errors: "sts2_step env x (on_main (agent_error_in e) x)"
| late_error: "sts2_step env x (on_releasing (agent_error_in e) x)"
| attaches: "sts2_step env x (on_main (attach_in k) x)"
| agent: "sts2_step env (s, w) (s, w')"

definition steer_total :: "'w main_agent \<Rightarrow> bool" where
  "steer_total a \<longleftrightarrow> (\<forall>m w. fst (ma_steer a m w) = Inr ())"

definition sts2_good :: "'w sts2_env \<Rightarrow> sts2_orchestrator \<times> 'w \<Rightarrow> bool" where
  "sts2_good env x \<longleftrightarrow> steer_total (x_agent env) \<and> so2_main (fst x) \<noteq> None \<and> \<not> so2_disposed (fst x)"

definition sts2_evolve :: "'w sts2_env \<Rightarrow> sts2_orchestrator \<times> 'w \<Rightarrow> sts2_orchestrator \<times> 'w \<Rightarrow> bool" where
  "sts2_evolve env x y \<longleftrightarrow> sts2_step env x y \<and> (so2_disposed (fst y) \<longrightarrow> so2_disposed (fst x))"

lemma sts2_submits:
  assumes "sts2_good env x"
  shows "fst (sts2_submit env t x) = None" "sts2_good env (snd (sts2_submit env t x))"
proof -
  obtain s w m where x: "x = (s, w)" "so2_main s = Some m" "\<not> so2_disposed s" "steer_total (x_agent env)"
    using assms by (cases x) (auto simp: sts2_good_def)
  obtain message w1 where c: "x_createUserMessage env t w = (message, w1)" by fastforce
  have "fst (main_submit (x_agent env) message (xm_driver m, w1)) = Inr ()"
  proof (cases "md_activeTurn (xm_driver m)")
    case (Some t)
    obtain r w2 where st: "ma_steer (x_agent env) message w1 = (r, w2)" by fastforce
    with x(4) have "r = Inr ()" by (metis fst_conv steer_total_def)
    with Some st show ?thesis by (simp add: main_submit_def)
  qed (simp add: main_submit_def)
  then obtain d w2 where d: "main_submit (x_agent env) message (xm_driver m, w1) = (Inr (), d, w2)"
    by (metis prod.collapse)
  show "fst (sts2_submit env t x) = None" "sts2_good env (snd (sts2_submit env t x))"
    using x c d by (simp_all add: sts2_submit_def sts2_good_def put_driver_def)
qed

lemma sts2_cancels:
  assumes "sts2_good env x"
  shows "fst (sts2_cancel env x) = None" "sts2_good env (snd (sts2_cancel env x))"
  using assms by (auto simp: sts2_cancel_def sts2_good_def put_driver_def split: prod.splits option.splits)

lemma on_main_good: "sts2_good env x \<Longrightarrow> sts2_good env (on_main f x)"
  by (auto simp: on_main_def sts2_good_def split: prod.splits option.splits)

lemma on_releasing_good: "sts2_good env x \<Longrightarrow> sts2_good env (on_releasing f x)"
  by (auto simp: on_releasing_def sts2_good_def split: prod.splits option.splits)

lemma sts2_good_step:
  assumes "sts2_good env x" "sts2_step env x y" "\<not> so2_disposed (fst y)"
  shows "sts2_good env y"
  using assms(2)
proof cases
  case (submits t r)
  then show ?thesis using sts2_submits(2)[OF assms(1), of t] by simp
next
  case (cancels r)
  then show ?thesis using sts2_cancels(2)[OF assms(1)] by simp
next
  case disposes
  then show ?thesis using assms by (auto simp: sts2_dispose_def sts2_good_def Let_def split: prod.splits option.splits if_splits)
next
  case (releases r)
  then show ?thesis using assms(1) by (auto simp: sts2_release_def sts2_good_def split: prod.splits option.splits if_splits)
next
  case (materializes session members r)
  then show ?thesis using assms(1) by (auto simp: sts2_materialize_def sts2_guard_def sts2_good_def split: prod.splits)
next
  case agent
  then show ?thesis using assms(1) by (simp add: sts2_good_def)
qed (simp_all add: on_main_good[OF assms(1)] on_releasing_good[OF assms(1)])

interpretation sts2: scene_contract "sts2_orchestration env" "sts2_evolve env" "sts2_good env" for env
proof
  show "distinct (map fst (so_members (sts2_orchestration env) x))" for x
    by (simp add: sts2_orchestration_def sts2_members_def split: option.split)
  show "(r, AgentKind) \<in> set (so_members (sts2_orchestration env) x)"
    if "sts2_good env x" "sn_active (so_snapshot (sts2_orchestration env) x) = Some r" for x r
    using that by (auto simp: sts2_orchestration_def sts2_snapshot_def sts2_members_def sts2_good_def Let_def
        split: option.splits if_splits)
  show "sn_activation (so_snapshot (sts2_orchestration env) x) \<in> fst ` set (so_members (sts2_orchestration env) x)"
    if "sts2_good env x" for x
    using that by (auto simp: sts2_orchestration_def sts2_snapshot_def sts2_members_def sts2_good_def Let_def
        split: option.splits)
  show "so_members (sts2_orchestration env) y = so_members (sts2_orchestration env) x"
    if "sts2_good env x" "sts2_good env y" for x y
    using that by (auto simp: sts2_orchestration_def sts2_members_def sts2_good_def split: option.split)
  show "sts2_good env y" if "sts2_good env x" "sts2_evolve env x y" for x y
    by (rule sts2_good_step[OF that(1)]) (use that in \<open>auto simp: sts2_evolve_def sts2_good_def\<close>)
qed (simp_all add: sts2_orchestration_def sts2_submits sts2_cancels)

section \<open>Materialization\<close>

lemma sts2_create_live:
  assumes "registry_contract (x_registry env) live" and "\<forall>c w. live (x_log env c w) = live w"
    and "sts2_create env session m w = (r, w')"
  shows "case r of Inl e \<Rightarrow> live w' = live w | Inr agent \<Rightarrow> agent \<notin> live w \<and> live w' = insert agent (live w)"
proof -
  let ?reg = "x_registry env"
  note D = registry_contractD[OF assms(1)] and log = assms(2)[rule_format]
  obtain c w1 where 1: "reg_compose ?reg (sm_preset m) w = (c, w1)" by fastforce
  show ?thesis
  proof (cases c)
    case (Inl e)
    then show ?thesis using assms(3) D(5)[of "sm_preset m" w e w1] 1 log by (auto simp: sts2_create_def Let_def)
  next
    case (Inr composed)
    note c = D(6)[OF 1[unfolded Inr]]
    let ?opts = "sts2_options env session m (cp_agentPreset composed)"
    obtain a w2 where 2: "reg_create ?reg ?opts (cp_setup composed) w1 = (a, w2)" by fastforce
    show ?thesis
    proof (cases a)
      case (Inl e)
      note n = D(1)[OF 2[unfolded Inl] conjunct2[OF c]]
      then show ?thesis using assms(3) 1 2 \<open>c = Inr composed\<close> Inl c log by (auto simp: sts2_create_def Let_def)
    next
      case (Inr agent)
      note made = D(2)[OF 2[unfolded Inr] conjunct2[OF c]]
      obtain r3 w3 where 3: "reg_subscribe ?reg agent w2 = (r3, w3)" by fastforce
      obtain r4 w4 where 4: "reg_subscribe ?reg agent w3 = (r4, w4)" by fastforce
      note s = D(4)[OF 3] D(4)[OF 4]
      have d: "live (snd (reg_dispose ?reg agent v)) = live v - {agent}" for v
        using D(3)[OF surjective_pairing] .
      show ?thesis
        using assms(3) 1 2 3 4 \<open>c = Inr composed\<close> Inr c made s d log
        by (cases r3; cases r4) (auto simp: sts2_create_def Let_def)
    qed
  qed
qed

text \<open>A sample registry, whose world is the list of its live agents; it lets one agent subscribe at a time.\<close>

definition sample_registry :: "jstr list agent_registry" where
  "sample_registry =
     \<lparr>reg_compose = (\<lambda>p w. (Inr \<lparr>cp_agentPreset = p, cp_setup = (\<lambda>scope v. (Inr (), v))\<rparr>, w)),
      reg_create = (\<lambda>opts setup w.
        if co_sessionId opts \<in> set w then (Inl (js ''taken''), w)
        else case setup 0 w of
          (Inl e, w1) \<Rightarrow> (Inl e, w1) | (Inr _, w1) \<Rightarrow> (Inr (co_sessionId opts), co_sessionId opts # w1)),
      reg_subscribe = (\<lambda>agent w. if 1 < length w then (Inl (js ''full''), w) else (Inr (), w)),
      reg_dispose = (\<lambda>agent w. (Inr (), filter (\<lambda>a. a \<noteq> agent) w))\<rparr>"

lemma sample_registry_contract: "registry_contract sample_registry set"
proof -
  have "case reg_create sample_registry opts f w of (Inl e, w') \<Rightarrow> set w' = set w
      | (Inr agent, w') \<Rightarrow> agent \<notin> set w \<and> set w' = insert agent (set w)"
    if "\<forall>scope v. set (snd (f scope v)) = set v" for opts f and w :: "jstr list"
  proof -
    obtain r v where f: "f 0 w = (r, v)" by fastforce
    from that[rule_format, of 0 w] have "set v = set w" by (simp add: f)
    then show ?thesis by (cases r) (simp_all add: sample_registry_def f)
  qed
  then show ?thesis unfolding registry_contract_def by (simp add: sample_registry_def set_diff_eq)
qed

definition sample_sts2 :: "jstr list sts2_env" where
  "sample_sts2 =
     \<lparr>x_registry = sample_registry,
      x_agent = \<lparr>ma_inject = (\<lambda>m w. (Inr (), w)), ma_followup = (\<lambda>m w. (Inr (), w)), ma_steer = (\<lambda>m w. (Inr (), w)),
        ma_cancel = (\<lambda>c w. w), ma_nextStep = (\<lambda>w. []), ma_nextTurn = (\<lambda>w. []), ma_remove = (\<lambda>i w. w)\<rparr>,
      x_createUserMessage = (\<lambda>t w. (\<lparr>um_text = t, um_source = UserSource, msg_id = js ''u1''\<rparr>, w)),
      x_log = (\<lambda>c w. w), x_cwd = js ''/'', x_provider = None\<rparr>"

definition sample_main :: "scene_member_config list" where
  "sample_main = [\<lparr>sm_role = js ''main'', sm_preset = js ''main'', sm_provider = Some (js ''glm-responses''),
     sm_model = Some (js ''glm-5.3'')\<rparr>]"

text \<open>C39: Materializing a sts2 session is a transaction: a refusal or a failure anywhere in it leaves the orchestrator
  as it was and no agent alive that was not alive before, so that it can be retried; success leaves exactly
  one new live agent, the session's only member, at rest. A disposed or materialized orchestrator refuses
  without touching anything.\<close>

theorem sts2_materialize_is_atomic:
  assumes "registry_contract (x_registry env) live" and "\<forall>c w. live (x_log env c w) = live w"
    and "sts2_materialize env session members (s, w) = (r, s', w')"
  shows "(case r of
      Some e \<Rightarrow> s' = s \<and> live w' = live w
    | None \<Rightarrow> \<exists>agent. agent \<notin> live w \<and> live w' = insert agent (live w) \<and>
        sts2_members s' = [(js ''main'', AgentKind)] \<and> sts2_member s' (js ''main'') = Some agent \<and>
        sn_active (sts2_snapshot s') = None \<and> \<not> sn_paused (sts2_snapshot s') \<and> \<not> sn_failed (sts2_snapshot s')) \<and>
    (so2_disposed s \<or> so2_main s \<noteq> None \<longrightarrow> w' = w \<and> r \<noteq> None)"
proof (cases "sts2_guard s")
  case (Some t)
  then have "r = Some t \<and> s' = s \<and> w' = w" using assms(3) by (simp add: sts2_materialize_def)
  then show ?thesis by simp
next
  case None
  then have s: "\<not> so2_disposed s" "so2_main s = None" by (auto simp: sts2_guard_def split: if_splits)
  show ?thesis
  proof (cases "mainMember members")
    case (Inl e)
    then show ?thesis using assms(3) None s by (auto simp: sts2_materialize_def)
  next
    case (Inr m)
    obtain c w1 where c: "sts2_create env session m w = (c, w1)" by fastforce
    from sts2_create_live[OF assms(1,2) c] assms(3) None Inr c s show ?thesis
      by (cases c) (auto simp: sts2_materialize_def sts2_commit_def sts2_members_def sts2_member_def sts2_snapshot_def
          MAIN_MEMBER_ROLE_def new_main_driver_def main_busy_def main_failed_def Let_def)
  qed
qed

theorem sts2_materialize_is_atomic_witness:
  "(\<exists>s'. sts2_materialize sample_sts2 (js ''s1'') sample_main (new_sts2, []) = (None, s', [js ''s1/main'']) \<and>
      sts2_member s' (js ''main'') = Some (js ''s1/main'')) \<and>
   (\<exists>w'. sts2_materialize sample_sts2 (js ''s1'') sample_main (new_sts2, [js ''s0/main'']) =
      (Some (PlainThrown (js ''full'')), new_sts2, w') \<and> set w' = {js ''s0/main''})"
proof -
  let ?ok = "sts2_materialize sample_sts2 (js ''s1'') sample_main (new_sts2, [])"
  let ?bad = "sts2_materialize sample_sts2 (js ''s1'') sample_main (new_sts2, [js ''s0/main''])"
  have run: "(fst ?ok, snd (snd ?ok), fst ?bad) = (None, [js ''s1/main''], Some (PlainThrown (js ''full'')))" by code_simp
  have log: "\<forall>c w. set (x_log sample_sts2 c w) = set w" by (simp add: sample_sts2_def)
  have reg: "registry_contract (x_registry sample_sts2) set" by (simp add: sample_sts2_def sample_registry_contract)
  obtain r1 s1 w1 where o1: "?ok = (r1, s1, w1)" by (rule prod_cases3)
  obtain r2 s2 w2 where o2: "?bad = (r2, s2, w2)" by (rule prod_cases3)
  have ok: "?ok = (None, s1, [js ''s1/main''])" and bad: "?bad = (Some (PlainThrown (js ''full'')), s2, w2)"
    using run unfolding o1 o2 by simp_all
  from sts2_materialize_is_atomic[OF reg log ok] obtain agent where "sts2_member s1 (js ''main'') = Some agent"
    "{js ''s1/main''} = {agent}" by auto
  moreover from sts2_materialize_is_atomic[OF reg log bad] have "s2 = new_sts2" "set w2 = {js ''s0/main''}" by simp_all
  ultimately show ?thesis using ok bad by auto
qed

text \<open>
  Disposal in the middle of a materialization is not noticed: the materialization commits on the disposed
  orchestrator, and no later \<open>dispose\<close> releases its agent.
\<close>

lemma dispose_during_materialize_leaks:
  "(let s = sts2_commit session agent (fst (sts2_dispose env (new_sts2, w))) in
     (so2_disposed s, sts2_member s (js ''main''), fst (sts2_dispose env (s, w)) = s)) = (True, Some agent, True)"
  by (simp add: sts2_dispose_def sts2_commit_def sts2_member_def new_sts2_def MAIN_MEMBER_ROLE_def Let_def)

text \<open>An empty provider is taken as it is, where the member options say that it means the default route.\<close>

lemma empty_provider_is_kept: "member_route (Some []) host shipped = []"
  by (simp add: member_route_def)

section \<open>Release\<close>

lemma finish_not_busy: "main_finishTurn a (d, w) = (r, d', w') \<Longrightarrow> \<not> main_busy d'"
  by (auto simp: main_finishTurn_def main_busy_def Let_def split: option.splits main_turn.splits if_splits prod.splits)

text \<open>Disposing a live sts2 session releases its agent: once the turn in flight, if there is one, has ended, the
  agent is not alive, nothing is left to release, and every request is refused or ignored from the dispose
  on; a second dispose does nothing.\<close>

lemma sts2_dispose_releases:
  assumes "registry_contract (x_registry env) live" and "so2_main s = Some m" "\<not> so2_disposed s"
    and "sts2_dispose env (s, w) = (s1, w1)" and "on_releasing (sts2_settle env) (s1, w1) = (s2, w2)"
    and "sts2_release env (s2, w2) = (r, s3, w3)"
  shows "xm_handle m \<notin> live w3 \<and> so2_main s3 = None \<and> so2_releasing s3 = None \<and>
    fst (sts2_submit env t (s1, w1)) = Some (StateThrown DISPOSED (js ''orchestrator is disposed'')) \<and>
    sts2_cancel env (s1, w1) = (None, s1, w1) \<and> sts2_dispose env (s1, w1) = (s1, w1) \<and> sts2_members s1 = []"
proof -
  obtain c v where c: "main_cancel (x_agent env) CancelDisposed (xm_driver m, w) = (c, v)" by fastforce
  let ?m = "if main_busy (xm_driver m) then m\<lparr>xm_driver := c\<rparr> else m"
  have "s1 = s\<lparr>so2_disposed := True, so2_main := None, so2_releasing := Some ?m\<rparr>"
    using assms(4) by (simp add: sts2_dispose_def assms(2,3) c Let_def split: if_splits)
  moreover have "\<exists>d. ?m = m\<lparr>xm_driver := d\<rparr>" by (cases "main_busy (xm_driver m)") (auto intro: exI[of _ "xm_driver m"])
  ultimately have s1: "so2_main s1 = None" "so2_disposed s1" and "\<exists>d. so2_releasing s1 = Some (m\<lparr>xm_driver := d\<rparr>)" by auto
  then obtain d where d: "so2_releasing s1 = Some (m\<lparr>xm_driver := d\<rparr>)" by blast
  obtain r' d' w' where f: "main_finishTurn (x_agent env) (d, w1) = (r', d', w')" by (metis prod.collapse)
  have s2: "\<exists>d2. so2_releasing s2 = Some (m\<lparr>xm_driver := d2\<rparr>) \<and> \<not> main_busy d2 \<and> so2_main s2 = None"
    using assms(5) s1 d f finish_not_busy[OF f]
    by (cases "main_busy d") (auto simp: on_releasing_def sts2_settle_def)
  then obtain w4 where "reg_dispose (x_registry env) (xm_handle m) w2 = (r, w3)" "so2_main s3 = None" "so2_releasing s3 = None"
    using assms(6) by (auto simp: sts2_release_def split: prod.splits)
  then show ?thesis
    using registry_contractD(3)[OF assms(1)] s1
    by (auto simp: sts2_submit_def sts2_cancel_def sts2_dispose_def sts2_members_def)
qed

definition sample_made :: sts2_orchestrator where
  "sample_made = sts2_commit (js ''s1'') (js ''s1/main'') new_sts2"

section \<open>The sessions of the host\<close>

abbreviation sts2_sessions ::
  "'w sts2_env \<Rightarrow> materialize_deps \<Rightarrow> (sts2_orchestrator \<times> 'w) team_sessions \<Rightarrow> bool" where
  "sts2_sessions env \<equiv> session_reach (sts2_orchestration env) (sts2_evolve env) (sts2_good env)"


abbreviation sample_scene :: "(sts2_orchestrator \<times> jstr list) scene_orchestration" where
  "sample_scene \<equiv> sts2_orchestration sample_sts2"

definition sts2_sample_session :: jstr where "sts2_sample_session = js ''templates/sts2/sessions/s1''"

definition sample_registered :: "(sts2_orchestrator \<times> jstr list) team_sessions" where
  "sample_registered = snd (materialize_finish sample_scene sample_deps sts2_sample_session (js ''sts2'', sample_main)
     (Inr (sample_made, [js ''s1/main''])) None 5 new_sessions)"

definition sample_served :: "(sts2_orchestrator \<times> jstr list) team_sessions" where
  "sample_served = snd (send sample_scene open_peers 10 sts2_sample_session (js ''hi'') 7 sample_registered)"

lemma sample_served_reachable: "sts2_sessions sample_sts2 sample_deps sample_served"
proof -
  have good: "sts2_good sample_sts2 (sample_made, [js ''s1/main''])"
    by (simp add: sts2_good_def steer_total_def sample_sts2_def sample_made_def sts2_commit_def new_sts2_def)
  have input: "materialize_input sample_deps sts2_sample_session
      [\<lparr>mo_role = js ''main'', mo_preset = js ''templates/sts2/presets/main'', mo_model = Some (js ''glm-responses/glm-5.3'')\<rparr>] =
      Inr (js ''sts2'', sample_main)" by code_simp
  obtain r ts where f: "materialize_finish sample_scene sample_deps sts2_sample_session (js ''sts2'', sample_main)
      (Inr (sample_made, [js ''s1/main''])) None 5 new_sessions = (r, ts)" by fastforce
  have "sts2_sessions sample_sts2 sample_deps ts"
    by (rule session_reach.step[OF session_reach.start sessions_step.made[OF input _ _ f]])
      (use good in \<open>simp_all add: new_sessions_def\<close>)
  moreover have "sample_registered = ts" by (simp add: sample_registered_def f)
  ultimately have reach: "sts2_sessions sample_sts2 sample_deps sample_registered" by simp
  have unused: "unused_stream sample_registered 7"
    by (auto simp: unused_stream_def sample_registered_def materialize_finish_def new_sessions_def new_entry_def Let_def
        split: option.splits if_splits)
  obtain r' ts' where s: "send sample_scene open_peers 10 sts2_sample_session (js ''hi'') 7 sample_registered = (r', ts')"
    by fastforce
  from session_reach.step[OF reach sessions_step.sends[OF unused s]] show ?thesis by (simp add: sample_served_def s)
qed


end
