(* ===== verification/Team_Assembly.thy ===== *)
theory Team_Assembly
  imports Agent_Creation Session_Runs
begin

declare js_simps(2) [simp del]

text \<open>
  The materialization of a saolei team: \<open>materialize\<close>, \<open>createMember\<close> with its setups, and \<open>rollback\<close> of
  \<open>common/js/dsh-plugins/saolei/loop/src/orchestrator.ts\<close>, and the adapter's \<open>materialize\<close> in
  \<open>projects/game/agent_v2/src/scene-saolei.ts\<close>. The capabilities of the composition are functions over a
  world; the game slot of the orchestrator, which a setup fills, is a part of that world.
\<close>

section \<open>Capabilities\<close>

record tools_unit =
  tu_tools :: "jstr list"
  tu_sections :: "jstr list"

record planner_memory_scope =
  ms_template :: jstr
  ms_preset :: jstr

record 'w memory_unit =
  mu_faces :: "jstr list"
  mu_tools :: "jstr list"
  mu_sections :: "jstr list"
  mu_ready :: "'w \<Rightarrow> (jstr + unit) \<times> 'w"

datatype registration = ToolRegistered jstr | SectionRegistered jstr | FaceProvided jstr

record registered_member =
  rm_role :: jstr
  rm_summary :: jstr
  rm_source :: jstr  \<comment> \<open>the id of the member source\<close>

record team_registration =
  tr_goal :: jstr
  tr_context :: "jstr option"
  tr_members :: "registered_member list"

text \<open>A composition; \<open>as_register\<close> registers into the scope of an agent under construction.\<close>

record 'w assembly_env =
  as_registry :: "'w agent_registry"
  as_gameSection :: "jstr option"
  as_createGameRuntime :: "jstr \<Rightarrow> bool \<Rightarrow> 'w \<Rightarrow> nat \<times> 'w"
  as_setGame :: "nat option \<Rightarrow> 'w \<Rightarrow> 'w"
  as_bridge :: bool
  as_saoleiTools :: "tools_unit option"
  as_buildHooks :: "('w \<Rightarrow> (jstr + tools_unit) \<times> 'w) option"
  as_memoryMount :: "(planner_memory_scope \<Rightarrow> 'w \<Rightarrow> (jstr + 'w memory_unit) \<times> 'w) option"
  as_register :: "nat \<Rightarrow> registration \<Rightarrow> 'w \<Rightarrow> (jstr + unit) \<times> 'w"
  as_registerTeam :: "team_registration \<Rightarrow> 'w \<Rightarrow> (jstr + nat) \<times> 'w"
  as_disposeTeam :: "nat \<Rightarrow> 'w \<Rightarrow> 'w"
  as_cwd :: jstr
  as_provider :: "jstr option"

record team_member_options =
  to_preset :: jstr
  to_provider :: "jstr option"
  to_model :: "jstr option"

record team_options =
  op_session :: jstr
  op_memoryScope :: planner_memory_scope
  op_goal :: jstr
  op_context :: "jstr option"
  op_player :: team_member_options
  op_planner :: team_member_options
  op_playerSessionId :: "jstr option"
  op_plannerSessionId :: "jstr option"
  op_playerSummary :: "jstr option"
  op_plannerSummary :: "jstr option"

definition TEAM_PROVIDER :: jstr where "TEAM_PROVIDER = js ''glm-responses''"

fun DEFAULT_MEMBER_SUMMARIES :: "member_id \<Rightarrow> jstr" where
  "DEFAULT_MEMBER_SUMMARIES Player =
     [0x6267, 0x884C, 0x626B, 0x96F7, 0x64CD, 0x4F5C, 0xFF0C, 0x72EC, 0x5360, 0x684C, 0x9762, 0x63A7, 0x5236]"
| "DEFAULT_MEMBER_SUMMARIES Planner =
     [0x590D, 0x76D8, 0x5BF9, 0x5C40, 0x4E0E, 0x5236, 0x5B9A, 0x7B56, 0x7565, 0xFF0C, 0x4E0D, 0x64CD, 0x4F5C]"
| "DEFAULT_MEMBER_SUMMARIES Announcer = ANNOUNCER_MEMBER_SUMMARY"

section \<open>Setups\<close>

text \<open>Asynchronous steps that may reject, one after the other.\<close>

definition and_then :: "('w \<Rightarrow> (jstr + 'a) \<times> 'w) \<Rightarrow> ('a \<Rightarrow> 'w \<Rightarrow> (jstr + 'b) \<times> 'w) \<Rightarrow> 'w \<Rightarrow> (jstr + 'b) \<times> 'w" where
  "and_then f g w = (case f w of (Inl e, w1) \<Rightarrow> (Inl e, w1) | (Inr x, w1) \<Rightarrow> g x w1)"

fun register_all :: "'w assembly_env \<Rightarrow> nat \<Rightarrow> registration list \<Rightarrow> 'w \<Rightarrow> (jstr + unit) \<times> 'w" where
  "register_all env scope [] w = (Inr (), w)"
| "register_all env scope (r # rs) w = and_then (as_register env scope r) (\<lambda>_. register_all env scope rs) w"

definition unit_registrations :: "tools_unit \<Rightarrow> registration list" where
  "unit_registrations u = map ToolRegistered (tu_tools u) @ map SectionRegistered (tu_sections u)"

definition registerSaoleiTools :: "'w assembly_env \<Rightarrow> nat \<Rightarrow> 'w \<Rightarrow> (jstr + unit) \<times> 'w" where
  "registerSaoleiTools env scope w =
     (case as_saoleiTools env of
        None \<Rightarrow>
          (Inl (js ''saolei-loop orchestrator: the '' @ [34] @ js ''saoleiTools'' @ [34] @
             js '' capability is not mounted; the saolei-loop row's config.plugins must list the saolei unit provider''), w)
      | Some u \<Rightarrow> register_all env scope (unit_registrations u) w)"

definition registerHooksUnit :: "'w assembly_env \<Rightarrow> tools_unit option \<Rightarrow> nat \<Rightarrow> 'w \<Rightarrow> (jstr + unit) \<times> 'w" where
  "registerHooksUnit env hooks scope =
     register_all env scope (case hooks of None \<Rightarrow> [] | Some u \<Rightarrow> unit_registrations u)"

definition registerMemory :: "'w assembly_env \<Rightarrow> planner_memory_scope \<Rightarrow> nat \<Rightarrow> 'w \<Rightarrow> (jstr + unit) \<times> 'w" where
  "registerMemory env scope_key scope w =
     (case as_memoryMount env of
        None \<Rightarrow>
          (Inl (js ''saolei-loop orchestrator: the '' @ [34] @ js ''memoryMount'' @ [34] @
             js '' capability is not mounted; the saolei-loop row's config.plugins must list the memory provider''), w)
      | Some build \<Rightarrow>
          and_then (build scope_key)
            (\<lambda>u. and_then
               (register_all env scope (map FaceProvided (mu_faces u) @ map ToolRegistered (mu_tools u) @
                  map SectionRegistered (mu_sections u)))
               (\<lambda>_. mu_ready u)) w)"

definition player_setup ::
  "'w assembly_env \<Rightarrow> jstr \<Rightarrow> jstr \<Rightarrow> tools_unit option \<Rightarrow> 'w composed \<Rightarrow> nat \<Rightarrow> 'w \<Rightarrow> (jstr + unit) \<times> 'w" where
  "player_setup env session gameSection hooks composed scope =
     and_then (cp_setup composed scope) (\<lambda>_.
     and_then (registerSaoleiTools env scope) (\<lambda>_.
     and_then (as_register env scope (SectionRegistered gameSection)) (\<lambda>_ w.
       if \<not> as_bridge env then
         (Inl (js ''saolei-loop orchestrator: player game runtime needs the desktop-bridge service''), w)
       else
         (case as_createGameRuntime env session (hooks \<noteq> None) w of
            (game, w1) \<Rightarrow> as_register env scope (FaceProvided (js ''saoleiGame'')) (as_setGame env (Some game) w1)))))"

definition planner_setup ::
  "'w assembly_env \<Rightarrow> planner_memory_scope \<Rightarrow> jstr \<Rightarrow> tools_unit option \<Rightarrow> 'w composed \<Rightarrow> nat \<Rightarrow> 'w \<Rightarrow> (jstr + unit) \<times> 'w" where
  "planner_setup env scope_key gameSection hooks composed scope =
     and_then (cp_setup composed scope) (\<lambda>_.
     and_then (as_register env scope (SectionRegistered gameSection)) (\<lambda>_.
     and_then (registerHooksUnit env hooks scope) (\<lambda>_. registerMemory env scope_key scope)))"

section \<open>Members\<close>

definition saoleiFoundation :: "'w assembly_env \<Rightarrow> 'w \<Rightarrow> (jstr + jstr) \<times> 'w" where
  "saoleiFoundation env w =
     (case as_gameSection env of
        Some section_text \<Rightarrow> (Inr section_text, w)
      | None \<Rightarrow>
          (Inl (js ''saolei-loop orchestrator: the '' @ [34] @ js ''saolei'' @ [34] @
             js '' game foundation is not composed; the top-level saolei row must provide it''), w))"

definition member_create_options ::
  "'w assembly_env \<Rightarrow> team_member_options \<Rightarrow> jstr \<Rightarrow> jstr \<Rightarrow> create_options" where
  "member_create_options env m sessionId preset =
     \<lparr>co_sessionId = sessionId, co_cwd = as_cwd env, co_agentPreset = preset,
      co_provider = member_route (to_provider m) (as_provider env) TEAM_PROVIDER, co_model = bare_model (to_model m)\<rparr>"

text \<open>\<open>createMember\<close>: the handle of the member, whose source and adapter have subscribed to the agent.\<close>

definition createTeamMember ::
  "'w assembly_env \<Rightarrow> member_id \<Rightarrow> team_member_options \<Rightarrow> team_options \<Rightarrow> tools_unit option \<Rightarrow> jstr \<Rightarrow>
   'w \<Rightarrow> (jstr + jstr) \<times> 'w" where
  "createTeamMember env role m options hooks sessionId =
     and_then (reg_compose (as_registry env) (to_preset m)) (\<lambda>composed.
     and_then (saoleiFoundation env) (\<lambda>gameSection.
     and_then (reg_create (as_registry env) (member_create_options env m sessionId (cp_agentPreset composed))
         (if role = Player then player_setup env (op_session options) gameSection hooks composed
          else planner_setup env (op_memoryScope options) gameSection hooks composed)) (\<lambda>agent.
     and_then (reg_subscribe (as_registry env) agent) (\<lambda>_ w. (Inr agent, w)))))"

definition registration_of :: "team_options \<Rightarrow> jstr \<Rightarrow> jstr \<Rightarrow> team_registration" where
  "registration_of options player planner =
     \<lparr>tr_goal = op_goal options, tr_context = op_context options, tr_members =
        [\<lparr>rm_role = js ''player'',
          rm_summary = (case op_playerSummary options of Some t \<Rightarrow> t | None \<Rightarrow> DEFAULT_MEMBER_SUMMARIES Player),
          rm_source = player\<rparr>,
         \<lparr>rm_role = js ''planner'',
          rm_summary = (case op_plannerSummary options of Some t \<Rightarrow> t | None \<Rightarrow> DEFAULT_MEMBER_SUMMARIES Planner),
          rm_source = planner\<rparr>,
         \<lparr>rm_role = ANNOUNCER_MEMBER_ROLE, rm_summary = DEFAULT_MEMBER_SUMMARIES Announcer,
          rm_source = op_session options @ js ''/announcer''\<rparr>]\<rparr>"

section \<open>The transaction\<close>

text \<open>What the orchestrator keeps beside its loop while it is materialized.\<close>

record team_assembly =
  ta_orch :: orchestrator
  ta_handles :: "(jstr \<times> jstr) option"  \<comment> \<open>player and planner\<close>
  ta_registration :: "nat option"
  ta_hooks :: "tools_unit option"

definition new_assembly :: team_assembly where
  "new_assembly = \<lparr>ta_orch = new_orchestrator, ta_handles = None, ta_registration = None, ta_hooks = None\<rparr>"

definition build_hooks :: "'w assembly_env \<Rightarrow> 'w \<Rightarrow> (jstr + tools_unit option) \<times> 'w" where
  "build_hooks env w =
     (case as_buildHooks env of
        None \<Rightarrow> (Inr None, w)
      | Some build \<Rightarrow> and_then build (\<lambda>u v. (Inr (Some u), v)) w)"

definition rollback :: "'w assembly_env \<Rightarrow> jstr list \<Rightarrow> 'w \<Rightarrow> 'w" where
  "rollback env created w = foldl (\<lambda>v agent. snd (reg_dispose (as_registry env) agent v)) w (rev created)"

text \<open>The \<open>try\<close> block: what it built, or its error with the members it had created.\<close>

definition assemble ::
  "'w assembly_env \<Rightarrow> team_options \<Rightarrow> 'w \<Rightarrow>
   ((jstr \<times> jstr list) + (jstr \<times> jstr) \<times> nat \<times> tools_unit option) \<times> 'w" where
  "assemble env options w =
     (case build_hooks env w of
        (Inl e, w1) \<Rightarrow> (Inl (e, []), w1)
      | (Inr hooks, w1) \<Rightarrow>
          (case createTeamMember env Player (op_player options) options hooks
               (case op_playerSessionId options of Some i \<Rightarrow> i | None \<Rightarrow> op_session options @ js ''/player'') w1 of
             (Inl e, w2) \<Rightarrow> (Inl (e, []), w2)
           | (Inr player, w2) \<Rightarrow>
               (case createTeamMember env Planner (op_planner options) options hooks
                    (case op_plannerSessionId options of Some i \<Rightarrow> i | None \<Rightarrow> op_session options @ js ''/planner'') w2 of
                  (Inl e, w3) \<Rightarrow> (Inl (e, [player]), w3)
                | (Inr planner, w3) \<Rightarrow>
                    (case as_registerTeam env (registration_of options player planner) w3 of
                       (Inl e, w4) \<Rightarrow> (Inl (e, [player, planner]), w4)
                     | (Inr reg, w4) \<Rightarrow> (Inr ((player, planner), reg, hooks), w4)))))"

definition team_guard :: "orchestrator \<Rightarrow> scene_throw option" where
  "team_guard s =
     (if disposed s then Some (StateThrown DISPOSED (js ''orchestrator is disposed''))
      else if orch_loop s \<noteq> None then Some (StateThrown ALREADY_MATERIALIZED (js ''team is already materialized''))
      else None)"

text \<open>\<open>materialize\<close> without another call of the orchestrator between its awaits.\<close>

definition team_materialize ::
  "'w assembly_env \<Rightarrow> team_options \<Rightarrow> team_assembly \<times> 'w \<Rightarrow> scene_throw option \<times> team_assembly \<times> 'w" where
  "team_materialize env options = (\<lambda>(s, w).
     (case team_guard (ta_orch s) of
        Some t \<Rightarrow> (Some t, s, w)
      | None \<Rightarrow>
          (case assemble env options w of
             (Inl (e, created), w1) \<Rightarrow>
               (Some (PlainThrown e),
                s\<lparr>ta_orch := (ta_orch s)\<lparr>orch_loop := None\<rparr>, ta_handles := None, ta_registration := None, ta_hooks := None\<rparr>,
                rollback env created (
                  (case ta_registration s of None \<Rightarrow> (\<lambda>v. v) | Some reg \<Rightarrow> as_disposeTeam env reg) (as_setGame env None w1)))
           | (Inr (handles, reg, hooks), w1) \<Rightarrow>
               (None,
                \<lparr>ta_orch = (ta_orch s)
                   \<lparr>orch_loop := Some \<lparr>lp_flow = createSaoleiFlow, lp_agents = new_agent_member, lp_announcer = new_announcer\<rparr>,
                    orch_session := Some (op_session options), landed := [], lastError := None\<rparr>,
                 ta_handles = Some handles, ta_registration = Some reg, ta_hooks = hooks\<rparr>, w1))))"

text \<open>The end of \<open>dispose\<close>: every member is released, and the first rejection is thrown.\<close>

definition release_handles :: "'w assembly_env \<Rightarrow> jstr list \<Rightarrow> 'w \<Rightarrow> jstr option \<times> 'w" where
  "release_handles env agents w =
     foldl (\<lambda>(failure, v) agent.
       (case reg_dispose (as_registry env) agent v of
          (Inl e, v') \<Rightarrow> (if failure = None then Some e else failure, v') | (Inr _, v') \<Rightarrow> (failure, v'))) (None, w) agents"

definition team_release :: "'w assembly_env \<Rightarrow> team_assembly \<times> 'w \<Rightarrow> jstr option \<times> team_assembly \<times> 'w" where
  "team_release env = (\<lambda>(s, w).
     (let w1 = (case ta_registration s of None \<Rightarrow> w | Some reg \<Rightarrow> as_disposeTeam env reg w);
          agents = (case ta_handles s of None \<Rightarrow> [] | Some (player, planner) \<Rightarrow> [player, planner])
      in case release_handles env agents (as_setGame env None w1) of
           (failure, w2) \<Rightarrow>
             (failure, \<lparr>ta_orch = dispose_end (ta_orch s), ta_handles = None, ta_registration = None, ta_hooks = None\<rparr>, w2)))"

section \<open>The scene adapter\<close>

definition memberConfig :: "scene_member_config list \<Rightarrow> jstr \<Rightarrow> jstr + scene_member_config" where
  "memberConfig members role =
     (case List.find (\<lambda>m. sm_role m = role) members of
        Some m \<Rightarrow> Inr m
      | None \<Rightarrow> Inl (js ''saolei orchestration requires the '' @ [34] @ role @ [34] @ js '' member configuration''))"

definition memberOptions :: "scene_member_config \<Rightarrow> team_member_options" where
  "memberOptions m = \<lparr>to_preset = sm_preset m, to_provider = sm_provider m, to_model = sm_model m\<rparr>"

definition scene_materialize ::
  "'w assembly_env \<Rightarrow> scene_spec \<Rightarrow> jstr \<Rightarrow> jstr \<Rightarrow> scene_member_config list \<Rightarrow> team_assembly \<times> 'w \<Rightarrow>
   scene_throw option \<times> team_assembly \<times> 'w" where
  "scene_materialize env spec session template members = (\<lambda>(s, w).
     (case memberConfig members (js ''player'') of
        Inl e \<Rightarrow> (Some (PlainThrown e), s, w)
      | Inr player \<Rightarrow>
          (case memberConfig members (js ''planner'') of
             Inl e \<Rightarrow> (Some (PlainThrown e), s, w)
           | Inr planner \<Rightarrow>
               (case team_materialize env
                    \<lparr>op_session = session,
                     op_memoryScope = \<lparr>ms_template = template, ms_preset = sm_preset planner\<rparr>,
                     op_goal = sp_teamGoal spec, op_context = None, op_player = memberOptions player,
                     op_planner = memberOptions planner, op_playerSessionId = None, op_plannerSessionId = None,
                     op_playerSummary = None, op_plannerSummary = None\<rparr> (s, w) of
                  (Some t, s1, w1) \<Rightarrow> (Some t, s1, w1)
                | (None, s1, w1) \<Rightarrow>
                    if orch_loop (ta_orch s1) = None then
                      (case team_release env (s1\<lparr>ta_orch := (ta_orch s1)\<lparr>disposed := True\<rparr>\<rparr>, w1) of
                         (failure, s2, w2) \<Rightarrow>
                           (Some (PlainThrown (js ''team materialization invariant violated: the announcer member is missing'')),
                            s2, w2))
                    else (None, s1, w1)))))"

section \<open>The transaction is atomic\<close>

definition keeps :: "('w \<Rightarrow> jstr set) \<Rightarrow> ('w \<Rightarrow> 'a \<times> 'w) \<Rightarrow> bool" where
  "keeps live f \<longleftrightarrow> (\<forall>w. live (snd (f w)) = live w)"

text \<open>Nothing but the registry of the agents changes which agents are live.\<close>

definition capabilities_keep :: "'w assembly_env \<Rightarrow> ('w \<Rightarrow> jstr set) \<Rightarrow> bool" where
  "capabilities_keep env live \<longleftrightarrow>
     (\<forall>i h. keeps live (as_createGameRuntime env i h)) \<and> (\<forall>g w. live (as_setGame env g w) = live w) \<and>
     (\<forall>build. as_buildHooks env = Some build \<longrightarrow> keeps live build) \<and>
     (\<forall>build k. as_memoryMount env = Some build \<longrightarrow>
        keeps live (build k) \<and> (\<forall>w u w'. build k w = (Inr u, w') \<longrightarrow> keeps live (mu_ready u))) \<and>
     (\<forall>scope r. keeps live (as_register env scope r)) \<and>
     (\<forall>r. keeps live (as_registerTeam env r)) \<and> (\<forall>r w. live (as_disposeTeam env r w) = live w)"

lemma capabilities_keepD:
  assumes "capabilities_keep env live"
  shows "keeps live (as_createGameRuntime env i h)" "live (as_setGame env g w) = live w"
    "as_buildHooks env = Some build \<Longrightarrow> keeps live build"
    "as_memoryMount env = Some mount \<Longrightarrow> keeps live (mount k)"
    "as_memoryMount env = Some mount \<Longrightarrow> mount k w = (Inr u, w') \<Longrightarrow> keeps live (mu_ready u)"
    "keeps live (as_register env scope r)" "keeps live (as_registerTeam env t)" "live (as_disposeTeam env n w) = live w"
  using assms unfolding capabilities_keep_def by blast+

lemma keepsD: "keeps live f \<Longrightarrow> f w = (r, w') \<Longrightarrow> live w' = live w"
  unfolding keeps_def by (metis snd_conv)

lemma and_then_keeps:
  assumes "keeps live f" and "\<And>x w w'. f w = (Inr x, w') \<Longrightarrow> keeps live (g x)"
  shows "keeps live (and_then f g)"
  unfolding keeps_def
proof
  fix w
  obtain r w1 where f: "f w = (r, w1)" by fastforce
  show "live (snd (and_then f g w)) = live w"
  proof (cases r)
    case (Inr x)
    obtain r' w2 where g: "g x w1 = (r', w2)" by fastforce
    have "live w2 = live w1" by (rule keepsD[OF assms(2)[OF f[unfolded Inr]] g])
    with keepsD[OF assms(1) f] show ?thesis by (simp add: and_then_def f Inr g)
  qed (simp add: and_then_def f keepsD[OF assms(1) f])
qed

lemma register_all_keeps: "capabilities_keep env live \<Longrightarrow> keeps live (register_all env scope rs)"
proof (induction rs)
  case (Cons r rs)
  have "register_all env scope (r # rs) = and_then (as_register env scope r) (\<lambda>_. register_all env scope rs)"
    by (simp add: fun_eq_iff)
  then show ?case using Cons capabilities_keepD(6)[OF Cons.prems] by (simp add: and_then_keeps del: register_all.simps)
qed (simp add: keeps_def)

lemma setups_keep:
  assumes k: "capabilities_keep env live" and c: "\<And>scope. keeps live (cp_setup composed scope)"
  shows "keeps live (player_setup env session gameSection hooks composed scope)"
    and "keeps live (planner_setup env key gameSection hooks composed scope)"
proof -
  note D = capabilities_keepD[OF k] and R = register_all_keeps[OF k]
  have tools: "keeps live (registerSaoleiTools env scope)"
    using R unfolding keeps_def by (simp add: registerSaoleiTools_def split: option.split)
  have face: "keeps live (\<lambda>w. if \<not> as_bridge env then
         (Inl (js ''saolei-loop orchestrator: player game runtime needs the desktop-bridge service''), w)
       else
         (case as_createGameRuntime env session (hooks \<noteq> None) w of
            (game, w1) \<Rightarrow> as_register env scope (FaceProvided (js ''saoleiGame'')) (as_setGame env (Some game) w1)))"
    using D(1,2,6) unfolding keeps_def by (simp add: split_beta)
  show "keeps live (player_setup env session gameSection hooks composed scope)"
    unfolding player_setup_def by (intro and_then_keeps c tools D(6) face)
  have memory: "keeps live (registerMemory env key scope)"
  proof (cases "as_memoryMount env")
    case (Some mount)
    have "registerMemory env key scope = and_then (mount key) (\<lambda>u. and_then
        (register_all env scope (map FaceProvided (mu_faces u) @ map ToolRegistered (mu_tools u) @
           map SectionRegistered (mu_sections u))) (\<lambda>_. mu_ready u))"
      by (simp add: fun_eq_iff registerMemory_def Some)
    then show ?thesis using D(4,5)[OF Some] R by (simp add: and_then_keeps)
  qed (simp add: keeps_def registerMemory_def)
  have hooks: "keeps live (registerHooksUnit env hooks scope)" by (simp add: registerHooksUnit_def R)
  show "keeps live (planner_setup env key gameSection hooks composed scope)"
    unfolding planner_setup_def by (intro and_then_keeps c D(6) hooks memory)
qed

lemma createTeamMember_live:
  assumes reg: "registry_contract (as_registry env) live" and k: "capabilities_keep env live"
    and sub: "\<forall>agent w. fst (reg_subscribe (as_registry env) agent w) = Inr ()"
    and c: "createTeamMember env role m options hooks sessionId w = (r, w')"
  shows "case r of Inl e \<Rightarrow> live w' = live w | Inr agent \<Rightarrow> agent \<notin> live w \<and> live w' = insert agent (live w)"
proof -
  note D = registry_contractD[OF reg]
  obtain p w1 where 1: "reg_compose (as_registry env) (to_preset m) w = (p, w1)" by fastforce
  show ?thesis
  proof (cases p)
    case (Inl e)
    then show ?thesis using c D(5)[of "to_preset m" w e w1] 1 by (auto simp: createTeamMember_def and_then_def)
  next
    case (Inr composed)
    note p = D(6)[OF 1[unfolded Inr]]
    then have composed: "keeps live (cp_setup composed scope)" for scope by (simp add: keeps_def)
    show ?thesis
    proof (cases "as_gameSection env")
      case None
      then show ?thesis using c 1 Inr p by (auto simp: createTeamMember_def and_then_def saoleiFoundation_def)
    next
      case (Some sec)
      let ?opts = "member_create_options env m sessionId (cp_agentPreset composed)"
      let ?mount = "if role = Player then player_setup env (op_session options) sec hooks composed
          else planner_setup env (op_memoryScope options) sec hooks composed"
      have s: "\<forall>scope v. live (snd (?mount scope v)) = live v"
        using setups_keep[OF k composed] by (simp add: keeps_def)
      obtain a w2 where 2: "reg_create (as_registry env) ?opts ?mount w1 = (a, w2)" by fastforce
      obtain u w3 where 3: "reg_subscribe (as_registry env) (case a of Inr agent \<Rightarrow> agent | Inl e \<Rightarrow> []) w2 = (u, w3)" by fastforce
      have u: "u = Inr ()" using sub 3 by (metis fst_conv)
      show ?thesis
        using c 1 2 3 u D(1)[of ?opts ?mount w1 _ w2] D(2)[of ?opts ?mount w1 _ w2] D(4)[OF 3] s p Inr Some
        by (cases a) (auto simp: createTeamMember_def and_then_def saoleiFoundation_def)
    qed
  qed
qed

lemma rollback_live:
  assumes "registry_contract (as_registry env) live"
  shows "live (rollback env created w) = live w - set created"
proof -
  have "live (foldl (\<lambda>v agent. snd (reg_dispose (as_registry env) agent v)) w xs) = live w - set xs" for xs
  proof (induction xs arbitrary: w)
    case (Cons x xs)
    then show ?case using registry_contractD(3)[OF assms surjective_pairing, of x w] by auto
  qed simp
  then show ?thesis by (simp add: rollback_def)
qed

lemma assemble_live:
  assumes reg: "registry_contract (as_registry env) live" and k: "capabilities_keep env live"
    and sub: "\<forall>agent w. fst (reg_subscribe (as_registry env) agent w) = Inr ()"
    and a: "assemble env options w = (r, w')"
  shows "case r of
      Inl (e, created) \<Rightarrow> live w' = set created \<union> live w \<and> set created \<inter> live w = {}
    | Inr ((p, q), t, hooks) \<Rightarrow> p \<noteq> q \<and> {p, q} \<inter> live w = {} \<and> live w' = {p, q} \<union> live w"
proof -
  note C = createTeamMember_live[OF reg k sub]
  have hooks: "keeps live (build_hooks env)"
  proof (cases "as_buildHooks env")
    case (Some build)
    have eq: "build_hooks env = and_then build (\<lambda>u v. (Inr (Some u), v))" by (simp add: fun_eq_iff build_hooks_def Some)
    show ?thesis unfolding eq by (rule and_then_keeps[OF capabilities_keepD(3)[OF k Some]]) (simp add: keeps_def)
  qed (simp add: keeps_def build_hooks_def)
  obtain b w1 where 1: "build_hooks env w = (b, w1)" by fastforce
  note l1 = keepsD[OF hooks 1]
  show ?thesis
  proof (cases b)
    case (Inl e)
    then show ?thesis using a 1 l1 by (auto simp: assemble_def)
  next
    case (Inr h)
    let ?i = "case op_playerSessionId options of Some i \<Rightarrow> i | None \<Rightarrow> op_session options @ js ''/player''"
    let ?j = "case op_plannerSessionId options of Some i \<Rightarrow> i | None \<Rightarrow> op_session options @ js ''/planner''"
    obtain p w2 where 2: "createTeamMember env Player (op_player options) options h ?i w1 = (p, w2)" by fastforce
    obtain q w3 where 3: "createTeamMember env Planner (op_planner options) options h ?j w2 = (q, w3)" by fastforce
    show ?thesis
    proof (cases p)
      case (Inl e)
      then show ?thesis using a 1 2 l1 Inr C[OF 2] by (auto simp: assemble_def)
    next
      case p: (Inr player)
      show ?thesis
      proof (cases q)
        case (Inl e)
        then show ?thesis using a 1 2 3 l1 Inr p C[OF 2] C[OF 3] by (auto simp: assemble_def)
      next
        case q: (Inr planner)
        obtain t w4 where 4: "as_registerTeam env (registration_of options player planner) w3 = (t, w4)" by fastforce
        from keepsD[OF capabilities_keepD(7)[OF k] 4] show ?thesis
          using a 1 2 3 4 l1 Inr p q C[OF 2] C[OF 3] by (cases t) (auto simp: assemble_def)
      qed
    qed
  qed
qed


text \<open>
  A sample composition over the list of the live agents; the memory prefetch rejects while two agents are
  alive beside the planner under construction.
\<close>

definition crew_registry :: "jstr list agent_registry" where
  "crew_registry =
     \<lparr>reg_compose = (\<lambda>p w. (Inr \<lparr>cp_agentPreset = p, cp_setup = (\<lambda>scope v. (Inr (), v))\<rparr>, w)),
      reg_create = (\<lambda>opts f w.
        if co_sessionId opts \<in> set w then (Inl (js ''taken''), w)
        else case f 0 w of
          (Inl e, w1) \<Rightarrow> (Inl e, w1) | (Inr _, w1) \<Rightarrow> (Inr (co_sessionId opts), co_sessionId opts # w1)),
      reg_subscribe = (\<lambda>agent w. (Inr (), w)),
      reg_dispose = (\<lambda>agent w. (Inr (), filter (\<lambda>a. a \<noteq> agent) w))\<rparr>"

definition crew_env :: "jstr list assembly_env" where
  "crew_env =
     \<lparr>as_registry = crew_registry, as_gameSection = Some (js ''rules''), as_createGameRuntime = (\<lambda>i h w. (0, w)),
      as_setGame = (\<lambda>g w. w), as_bridge = True, as_saoleiTools = Some \<lparr>tu_tools = [js ''operate''], tu_sections = []\<rparr>,
      as_buildHooks = None,
      as_memoryMount = Some (\<lambda>k w. (Inr \<lparr>mu_faces = [js ''memory''], mu_tools = [], mu_sections = [],
        mu_ready = (\<lambda>v. if 1 < length v then (Inl (js ''offline''), v) else (Inr (), v))\<rparr>, w)),
      as_register = (\<lambda>scope r w. (Inr (), w)), as_registerTeam = (\<lambda>t w. (Inr 0, w)), as_disposeTeam = (\<lambda>n w. w),
      as_cwd = js ''/'', as_provider = None\<rparr>"

definition crew_options :: team_options where
  "crew_options =
     \<lparr>op_session = js ''s1'', op_memoryScope = \<lparr>ms_template = js ''saolei'', ms_preset = js ''planner''\<rparr>,
      op_goal = js ''win'', op_context = None,
      op_player = \<lparr>to_preset = js ''player'', to_provider = None, to_model = None\<rparr>,
      op_planner = \<lparr>to_preset = js ''planner'', to_provider = None, to_model = None\<rparr>,
      op_playerSessionId = None, op_plannerSessionId = None, op_playerSummary = None, op_plannerSummary = None\<rparr>"

lemma crew_contract: "registry_contract crew_registry set"
proof -
  have "case reg_create crew_registry opts f w of (Inl e, w') \<Rightarrow> set w' = set w
      | (Inr agent, w') \<Rightarrow> agent \<notin> set w \<and> set w' = insert agent (set w)"
    if "\<forall>scope v. set (snd (f scope v)) = set v" for opts f and w :: "jstr list"
  proof -
    obtain r v where f: "f 0 w = (r, v)" by fastforce
    from that[rule_format, of 0 w] have "set v = set w" by (simp add: f)
    then show ?thesis by (cases r) (simp_all add: crew_registry_def f)
  qed
  then show ?thesis unfolding registry_contract_def by (simp add: crew_registry_def set_diff_eq)
qed


text \<open>
  Rollback releases the members that \<open>createMember\<close> returned: an agent whose subscription throws after its
  creation is not among them and stays alive.
\<close>

lemma failed_subscription_leaks:
  "(case team_materialize (crew_env\<lparr>as_registry := crew_registry\<lparr>reg_subscribe := \<lambda>agent w. (Inl (js ''full''), w)\<rparr>\<rparr>)
      crew_options (new_assembly, []) of (r, s, w) \<Rightarrow> (r, orch_loop (ta_orch s) = None, w)) =
   (Some (PlainThrown (js ''full'')), True, [js ''s1/player''])"
  by code_simp

text \<open>
  A \<open>dispose\<close> that lands between two awaits finds no members and sets its flag only; the team is then
  committed on a disposed orchestrator, which no later \<open>dispose\<close> releases.
\<close>

lemma dispose_during_team_materialize:
  "(case team_materialize crew_env crew_options (new_assembly, []) of (r, s, w) \<Rightarrow>
      let s' = s\<lparr>ta_orch := (ta_orch s)\<lparr>disposed := True\<rparr>\<rparr> in
        (r, orch_loop (ta_orch s') = None, fst (dispose_begin env (ta_orch s', v)) = ta_orch s')) = (None, False, True)"
proof -
  have "(case team_materialize crew_env crew_options (new_assembly, []) of (r, s, w) \<Rightarrow> (r, orch_loop (ta_orch s) = None)) =
      (None, False)" by code_simp
  then show ?thesis by (auto simp: dispose_begin_def Let_def split: prod.splits)
qed

end
