(* ===== verification/Spec2Isabelle.thy ===== *)
theory Spec2Isabelle
  imports Board_Recognize Memory_Face Team_Delivery Hooks Orchestrator_Flow Session_Properties Chat_Store_Limits
    Sts2_Sessions Team_Assembly
begin

text \<open>
  A game agent platform in TypeScript: a team of agents plays minesweeper (saolei) on a remote desktop,
  a host turns what the team does into streams and histories, and a web client shows them.

  \<^bold>\<open>Parts and how they interact.\<close> The game runtime receives batches of moves from the player's tool call,
  checks each one against the rules on the last recognized board, dispatches it to the desktop, recognizes
  the next screenshot and keeps the game's log and statistics. When a call leaves a game in progress, the
  hooks of the planner see the new board and may announce texts. The team loop is told that a game ended:
  its flow layer decides which member acts next (the player plays, the planner reviews, the team rests),
  and its pump drives members one at a time; members learn what the others produced through the group
  chat, and what earlier games taught through the memory and wiki library. The host subscribes to the
  loop, projects its events into a merged history, per-member views and frames on every attached stream,
  and answers Send, Cancel, UpdateTeam, GetTeamMember and the two listings. The web store folds frames and
  backfills into what a user reads.

  \<^bold>\<open>Theories and sources.\<close> All paths are under src/.
  \<^item> \<open>JS_Prelude\<close>: strings as 16-bit code units, the methods of strings and arrays the sources call, and
    the lemmas all components share.
  \<^item> \<open>Saolei_Board\<close>, \<open>Board_Pixels\<close>, \<open>Board_Classify\<close>, \<open>Board_Counter\<close>, \<open>Board_Recognize\<close>:
    projects/game/pkg/saolei-board/src/core, from the decoded pixels (\<open>extractCellRegion\<close>, \<open>classifyCell\<close>,
    \<open>decodeMineCounter\<close>) to \<open>recognizeBoard\<close>, the same-game check and the class \<open>SaoleiBoard\<close>, whose fields
    are the record \<open>saolei_board\<close>. A pixel read outside the buffer is \<open>None\<close>.
  \<^item> \<open>Game_Rules\<close>, \<open>Game_Text\<close>, \<open>Game_Runtime\<close>: common/js/dsh-plugins/saolei/game/src/game (board.ts,
    text.ts, geometry.ts, runtime.ts). The private state of the runtime is a record, \<open>operate\<close> is the whole
    tool call, the desktop and the recognition are functions over a world.
  \<^item> \<open>Memory_Store\<close>, \<open>Memory_Ops\<close>, \<open>Wiki_Ops\<close>, \<open>Wiki_Service\<close>, \<open>Memory_Face\<close>: common/js/memory/src. The
    remote services are parameters with their contracts as the locales \<open>memory_service\<close> and
    \<open>wiki_service\<close>, interpreted on the paging clients over a reference service.
  \<^item> \<open>Team_Broadcast\<close>, \<open>Team\<close>, \<open>Team_Delivery\<close>: common/js/dsh-plugins/team/src; units, registration,
    relays and drains over the session logs of the members.
  \<^item> \<open>Hooks\<close>: common/js/dsh-plugins/saolei/hooks/src; caps, sandbox, registry, tool and handler. Parsing
    and running a script are parameters.
  \<^item> \<open>Flow\<close>, \<open>Loop_Members\<close>, \<open>Orchestrator\<close>, \<open>Orchestrator_Runs\<close>, \<open>Orchestrator_Flow\<close>:
    common/js/dsh-plugins/saolei/loop/src. \<open>flow_state\<close>, \<open>agent\<close> and \<open>orchestrator\<close> are the fields of the classes;
    a pump iteration is one function, and \<open>orch_step\<close> lists what the host, an agent or the game may do.
  \<^item> \<open>Agent_Creation\<close>, \<open>Team_Assembly\<close>: the materialization of a team in the loop's orchestrator.ts
    (\<open>materialize\<close>, \<open>createMember\<close>, \<open>rollback\<close>, the end of \<open>dispose\<close>) and in the host's scene-saolei.ts. The
    agent registry and the capabilities of the composition are functions over a world.
  \<^item> \<open>Sts2_Driver\<close>, \<open>Sts2_Runs\<close>, \<open>Sts2_Scene\<close>, \<open>Sts2_Sessions\<close>: common/js/dsh-plugins/sts2/loop/src. A second scene
    with one agent: \<open>main_driver\<close> is the class \<open>MainAgentDriver\<close> of drive.ts, a turn is its start and what follows
    the agent's idle state; \<open>main_stream\<close> is events.ts and \<open>sts2_orchestrator\<close> orchestrator.ts, whose fields
    \<open>handle\<close>, \<open>driver\<close>, \<open>events\<close> and \<open>session\<close> are set together and so are one optional record.
  \<^item> \<open>Chat_History\<close>, \<open>Member_Collector\<close>, \<open>Collector_Turns\<close>: projects/game/agent_v2/src/history.ts; the
    locale \<open>history_client\<close> states what every operation on a history keeps.
  \<^item> \<open>Scene_Seam\<close>, \<open>Scene_Contract\<close>: orchestration.ts, scenes.ts and scene-saolei.ts of the host; the locale
    \<open>scene_contract\<close> is what the host relies on, interpreted on the saolei adapter and, in
    \<open>Sts2_Sessions\<close>, on the sts2 orchestrator.
  \<^item> \<open>Team_Session\<close>, \<open>Team_Materialize\<close>, \<open>Session_Invariant\<close>, \<open>Session_Runs\<close>, \<open>Session_Properties\<close>:
    session.ts of the host; \<open>sessions_step\<close> is one request, one event of a member or one timer.
  \<^item> \<open>Chat_Store\<close>, \<open>Chat_Store_Runs\<close>, \<open>Chat_Store_Properties\<close>, \<open>Chat_Store_Repeats\<close>, \<open>Chat_Sync\<close>,
    \<open>Chat_Store_Limits\<close>: projects/game/web/frontend/src/store/chat.ts with the wire types of
    api/conversation.ts. Each branch of \<open>reduceEvent\<close> is a definition; \<open>store_step\<close> is one call of the store
    or one frame of one stream. \<open>Chat_Sync\<close> joins it to the host.

  \<^bold>\<open>What the lemmas show.\<close> Of the board: recognition is total and a decoder inverse, and an accepted
  screenshot is a legal successor. Of the runtime: no illegal move leaves it, revealed cells never change,
  the books balance. Of the library: batches are all or nothing before the first write, wiki writes are
  upserts, tools always answer. Of the chat: every production reaches every other member exactly once. Of
  the hooks: bounded registries, registration order. Of the loop: the flow of every reachable team is a run
  of the flow layer, at most one member is driven, failures freeze and recover, the pump never spins, and a
  materialization leaves a whole team or nothing. Of the sts2 scene: without a cancel every accepted
  message is claimed exactly once or kept in order, with cancels nothing is lost whose opening batch had
  been claimed, and the host's promises hold of it as of saolei. Of the host: every stream shows exactly what happened since it was attached, the merged sequence and its
  frames never diverge, members take bracketed turns, no stream stays open on a resting team. Of the web
  store: repeated frames are absorbed, content is never lost at the end of a stream, and what is shown is
  the server's sequence; \<open>Chat_Store_Limits\<close> gives the runs on which it is not.

  \<^bold>\<open>Bounds and fuel.\<close> \<open>PUMP_FUEL\<close> is 4 iterations per operation: \<open>pump_never_spins\<close> proves that the pump
  awaits or returns within them from any state. \<open>GetTeamMember\<close> reads at most three times, as the source
  does. The loops over pages of a service end because the page token is the offset. The caps of the hooks
  (eight hooks, 4000 characters of output and the like) are the constants of limits.ts. Code units are
  16-bit words, so that the filters of the sources apply to every possible string; sequence numbers and
  counters are natural numbers or integers, as the sources never reach 2 to the power of 53.

  \<^bold>\<open>Not modelled.\<close> The runtime of the agents and its models, gRPC, HTTP, MongoDB, Redis, logging and
  tracing: the sources only call them, or they are adapters without logic of their own. The wire server of
  the host (server.ts) maps protobuf messages to the calls modelled here. React components of the web
  client render the state of the store. The promise chain that serializes materializations of one session
  is a pair of steps of the registry instead, and real time is an argument of the operations. The Go
  services, the deployment tools and the experiments are other programs.
\<close>

end
